(* ===== verification/Prelude.thy ===== *)
theory Prelude
  imports Main "HOL-Library.List_Lexorder"
begin

text \<open>
  Shared vocabulary of the development.

  A TypeScript string is a sequence of UTF-16 code units, and is modelled as one: \<open>jstr\<close> is a list
  of naturals, each meant to be below \<open>65536\<close> (\<open>units_ok\<close>, assumed only where it matters).
  \<open>js ''abc''\<close> is the literal \<open>'abc'\<close>. The order \<open><\<close> on \<open>jstr\<close> is the library's lexicographic order
  on lists, which is ECMAScript's order of strings by code unit.

  A thrown error is the left side of a sum, an optional member (\<open>undefined\<close>) is an option.
\<close>

section \<open>Strings as UTF-16 code units\<close>

type_synonym jstr = "nat list"

definition js :: "string \<Rightarrow> jstr" where
  "js s = map of_char s"

definition units_ok :: "jstr \<Rightarrow> bool" where
  "units_ok s \<longleftrightarrow> (\<forall>u \<in> set s. u < 65536)"

named_theorems js_eval \<open>evaluation of string literals\<close>

lemma js_inject [simp, js_eval]: "js a = js b \<longleftrightarrow> a = b"
  by (simp add: js_def inj_map_eq_map [OF inj_of_char])

lemma js_Nil [simp, js_eval]: "js [] = []"
  by (simp add: js_def)

lemma js_Cons [js_eval]: "js (c # s) = of_char c # js s"
  by (simp add: js_def)

lemma js_eq_Nil [simp]: "js s = [] \<longleftrightarrow> s = []" "[] = js s \<longleftrightarrow> s = []"
  by (simp_all add: js_def)

lemma length_js [simp]: "length (js s) = length s"
  by (simp add: js_def)

lemma units_ok_Nil [simp]: "units_ok []"
  by (simp add: units_ok_def)

lemma units_ok_Cons [simp]: "units_ok (u # s) \<longleftrightarrow> u < 65536 \<and> units_ok s"
  by (simp add: units_ok_def)

lemma units_ok_append [simp]: "units_ok (s @ t) \<longleftrightarrow> units_ok s \<and> units_ok t"
  by (auto simp: units_ok_def)

lemma of_char_lt_256: "(of_char c :: nat) < 256"
  by (cases c) (simp add: of_char_def horner_sum_simps of_bool_def)

lemma units_ok_js [simp]: "units_ok (js s)"
  by (auto simp: units_ok_def js_def intro: order_less_trans [OF of_char_lt_256])

section \<open>Results\<close>

text \<open>A function of the source that may throw returns \<open>'e + 'a\<close>: the error, or the value.\<close>

definition result_bind :: "'e + 'a \<Rightarrow> ('a \<Rightarrow> 'e + 'b) \<Rightarrow> 'e + 'b" where
  "result_bind r f = (case r of Inl e \<Rightarrow> Inl e | Inr a \<Rightarrow> f a)"

lemma result_bind_simps [simp]:
  "result_bind (Inl e) f = Inl e"
  "result_bind (Inr a) f = f a"
  by (simp_all add: result_bind_def)

lemma result_bind_eq_Inr:
  "result_bind r f = Inr b \<longleftrightarrow> (\<exists>a. r = Inr a \<and> f a = Inr b)"
  by (cases r) simp_all

section \<open>Lists\<close>

fun join :: "jstr \<Rightarrow> jstr list \<Rightarrow> jstr" where
  "join sep [] = []"
| "join sep [x] = x"
| "join sep (x # y # ys) = x @ sep @ join sep (y # ys)"

text \<open>\<open>String.prototype.split\<close> at one code unit.\<close>

fun splitOn :: "nat \<Rightarrow> jstr \<Rightarrow> jstr list" where
  "splitOn sep [] = [[]]"
| "splitOn sep (c # s) =
     (if c = sep then [] # splitOn sep s
      else (case splitOn sep s of [] \<Rightarrow> [[c]] | part # parts \<Rightarrow> (c # part) # parts))"

lemma splitOn_not_Nil [simp]: "splitOn sep s \<noteq> []"
  by (induction s) (auto split: list.splits)

lemma splitOn_clean: "sep \<notin> set s \<Longrightarrow> splitOn sep s = [s]"
  by (induction s) auto

lemma splitOn_append:
  "sep \<notin> set s \<Longrightarrow> splitOn sep (s @ sep # t) = s # splitOn sep t"
  by (induction s) auto

lemma splitOn_join: "join [sep] (splitOn sep s) = s"
proof (induction s)
  case (Cons c s)
  obtain part parts where "splitOn sep s = part # parts"
    by (cases "splitOn sep s") simp_all
  with Cons show ?case
    by (cases parts) auto
qed simp

lemma splitOn_parts: "part \<in> set (splitOn sep s) \<Longrightarrow> sep \<notin> set part"
proof (induction s arbitrary: part)
  case (Cons c s)
  obtain p ps where "splitOn sep s = p # ps"
    by (cases "splitOn sep s") simp_all
  with Cons show ?case
    by (auto split: if_splits)
qed simp

lemma list_all_filter: "list_all P xs \<Longrightarrow> list_all P (filter Q xs)"
  by (auto simp: list_all_iff)

section \<open>Bits of naturals\<close>

unbundle bit_operations_syntax

lemma and_low_bits: "(x :: nat) AND (2 ^ n - 1) = x mod 2 ^ n"
  by (metis mask_eq_exp_minus_1 take_bit_eq_mask take_bit_eq_mod)

lemma or_disjoint:
  assumes "b < 2 ^ n"
  shows "(a * 2 ^ n :: nat) OR b = a * 2 ^ n + b"
proof -
  have "push_bit n a AND b = 0"
  proof (rule bit_eqI)
    fix k
    have "take_bit n b = b"
      using assms by (simp add: take_bit_nat_eq_self)
    then have "bit b k \<Longrightarrow> k < n"
      by (metis bit_take_bit_iff)
    then show "bit (push_bit n a AND b) k = bit (0 :: nat) k"
      by (auto simp: bit_simps)
  qed
  then show ?thesis
    using disjunctive_add_eq_or [of "push_bit n a" b] by (simp add: push_bit_eq_mult)
qed

end
