(* ===== verification/Runtime.thy ===== *)
theory Runtime
  imports Prelude
begin

text \<open>
  What the approval code uses of the ECMAScript and Node runtime.

  \<open>runtime\<close> holds the parts that are tables or algorithms of the platform and not of the program:
  SHA-256 in lowercase hexadecimal (\<open>node:crypto\<close>), the Unicode case mappings of
  \<open>toUpperCase\<close> and \<open>toLowerCase\<close>, the Unicode property \<open>Extended_Pictographic\<close>, and \<open>Date.parse\<close> of
  text that is not what \<open>toISOString\<close> writes. They are arguments of the definitions that use them. The rest, white space and \<open>trim\<close> among it, is defined.

  An instant is a whole number of milliseconds, as \<open>Date.getTime()\<close> gives. A stored timestamp is a
  string: \<open>Iso t\<close> is the one \<open>toISOString\<close> writes for \<open>t\<close>, \<open>NotIso\<close> any other.
\<close>

record runtime =
  rtSha :: "jstr \<Rightarrow> jstr"
  rtUpper :: "jstr \<Rightarrow> jstr"
  rtLower :: "jstr \<Rightarrow> jstr"
  rtPictographic :: "nat \<Rightarrow> bool"
  rtDateParse :: "jstr \<Rightarrow> int option"

datatype stamp = Iso int | NotIso jstr

text \<open>ECMAScript white space and line terminators: what \<open>trim\<close> removes and \<open>\s\<close> matches.\<close>

definition isSpace :: "nat \<Rightarrow> bool" where
  "isSpace u \<longleftrightarrow> u \<in> {9, 10, 11, 12, 13, 32, 160, 5760, 8232, 8233, 8239, 8287, 12288, 65279}
     \<or> (8192 \<le> u \<and> u \<le> 8202)"

definition trimEnd :: "jstr \<Rightarrow> jstr" where
  "trimEnd s = rev (dropWhile isSpace (rev s))"

definition trim :: "jstr \<Rightarrow> jstr" where
  "trim s = trimEnd (dropWhile isSpace s)"

text \<open>\<open>/^[0-9a-f]{64}$/\<close>.\<close>

definition isHexDigit :: "nat \<Rightarrow> bool" where
  "isHexDigit c \<longleftrightarrow> (48 \<le> c \<and> c \<le> 57) \<or> (97 \<le> c \<and> c \<le> 102)"

definition hex64 :: "jstr \<Rightarrow> bool" where
  "hex64 s \<longleftrightarrow> length s = 64 \<and> list_all isHexDigit s"

text \<open>The documented output of SHA-256 in hexadecimal: the one thing the theorems assume of \<open>rtSha\<close>.\<close>

definition sha_hex :: "runtime \<Rightarrow> bool" where
  "sha_hex rt \<longleftrightarrow> (\<forall>x. hex64 (rtSha rt x))"

text \<open>A runtime to evaluate with: a digest that is a checksum of the text, written in 64 digits.\<close>

fun digits64 :: "nat \<Rightarrow> nat \<Rightarrow> jstr" where
  "digits64 0 n = []"
| "digits64 (Suc k) n = (48 + n mod 10) # digits64 k (n div 10)"

definition checksum :: "jstr \<Rightarrow> nat" where
  "checksum s = foldl (\<lambda>a u. (31 * a + u) mod 4294967291) 7 s"

definition asciiUpper :: "nat \<Rightarrow> nat" where
  "asciiUpper u = (if 97 \<le> u \<and> u \<le> 122 then u - 32 else u)"

definition asciiLower :: "nat \<Rightarrow> nat" where
  "asciiLower u = (if 65 \<le> u \<and> u \<le> 90 then u + 32 else u)"

definition sampleRuntime :: runtime where
  "sampleRuntime =
     \<lparr>rtSha = (\<lambda>s. digits64 64 (checksum s)), rtUpper = map asciiUpper,
      rtLower = map asciiLower, rtPictographic = (\<lambda>u. 128512 \<le> u),
      rtDateParse = (\<lambda>_. None)\<rparr>"

lemma digits64_hex: "length (digits64 k n) = k \<and> list_all isHexDigit (digits64 k n)"
proof (induction k arbitrary: n)
  case (Suc k)
  have "n mod 10 < 10" by simp
  with Suc show ?case by (auto simp: isHexDigit_def)
qed simp

lemma sha_hex_sample [simp]: "sha_hex sampleRuntime"
  by (simp add: sha_hex_def sampleRuntime_def hex64_def digits64_hex)

lemma sha_hexD [intro]: "sha_hex rt \<Longrightarrow> hex64 (rtSha rt x)"
  by (simp add: sha_hex_def)

lemma hd_digits64: "0 < k \<Longrightarrow> hd (digits64 k n) = 48 + n mod 10"
  by (cases k) simp_all

lemma digits64_neq: "m mod 10 \<noteq> n mod 10 \<Longrightarrow> digits64 64 m \<noteq> digits64 64 n"
  using hd_digits64 [of 64 m] hd_digits64 [of 64 n] by auto

lemma trimEnd_Cons: "\<not> isSpace u \<Longrightarrow> \<exists>t. trimEnd (u # s) = u # t"
  by (auto simp: trimEnd_def dropWhile_append3)

lemma trimEnd_idem [simp]: "trimEnd (trimEnd s) = trimEnd s"
  by (simp add: trimEnd_def)

lemma trim_Nil [simp]: "trim [] = []"
  by (simp add: trim_def trimEnd_def)

lemma trim_idem [simp]: "trim (trim s) = trim s"
proof (cases "dropWhile isSpace s")
  case Nil
  have "trim s = []" unfolding trim_def Nil by (simp add: trimEnd_def)
  then show ?thesis by simp
next
  case (Cons u t)
  then have "\<not> isSpace u" by (metis hd_dropWhile list.distinct(1) list.sel(1))
  then obtain r where r: "trimEnd (u # t) = u # r" using trimEnd_Cons by blast
  then have "trim s = u # r" by (simp add: trim_def Cons)
  with r \<open>\<not> isSpace u\<close> show ?thesis
    by (simp add: trim_def) (metis trimEnd_idem)
qed

end
