(* ===== verification/Json.thy ===== *)
theory Json
  imports Prelude
begin

text \<open>
  JSON values and canonical JSON: \<open>canonicalJson\<close> of \<open>packages/core/src/digest.ts\<close>, which is
  byte for byte the one of \<open>packages/events/src/json.ts\<close>.

  A JSON value is a tree; an object is its list of own members in enumeration order, a member whose
  value is \<open>undefined\<close> being \<open>None\<close>. The numbers these functions are given are whole numbers
  (versions, counts, milliseconds), and are \<open>int\<close>. \<open>JSON.stringify\<close> of a string is modelled in
  full, escapes and unpaired surrogates included.

  The main result is that canonical JSON is faithful: two values have the same text exactly when
  they are the same up to the order of object members and members that are \<open>undefined\<close>.
\<close>

datatype json =
    JNull
  | JBool bool
  | JNum int
  | JStr jstr
  | JArr "json list"
  | JObj "(jstr \<times> json option) list"

text \<open>Integers a number holds exactly: \<open>Number.MAX_SAFE_INTEGER\<close> and \<open>Number.isSafeInteger\<close>.\<close>

definition MAX_SAFE_INTEGER :: int where "MAX_SAFE_INTEGER = 9007199254740991"

definition isSafeInteger :: "int \<Rightarrow> bool" where
  "isSafeInteger n \<longleftrightarrow> - MAX_SAFE_INTEGER \<le> n \<and> n \<le> MAX_SAFE_INTEGER"

section \<open>Strings and numbers as text\<close>

definition hexDigit :: "nat \<Rightarrow> nat" where
  "hexDigit d = (if d < 10 then 48 + d else 87 + d)"

text \<open>\<open>\uXXXX\<close>: four lowercase hexadecimal digits.\<close>

definition unicodeEscape :: "nat \<Rightarrow> jstr" where
  "unicodeEscape u =
     [92, 117, hexDigit (u div 4096 mod 16), hexDigit (u div 256 mod 16),
      hexDigit (u div 16 mod 16), hexDigit (u mod 16)]"

definition isHigh :: "nat \<Rightarrow> bool" where
  "isHigh u \<longleftrightarrow> 55296 \<le> u \<and> u \<le> 56319"

definition isLow :: "nat \<Rightarrow> bool" where
  "isLow u \<longleftrightarrow> 56320 \<le> u \<and> u \<le> 57343"

text \<open>One code unit that is not half of a pair.\<close>

definition quoteUnit :: "nat \<Rightarrow> jstr" where
  "quoteUnit u =
     (if u = 34 then [92, 34]
      else if u = 92 then [92, 92]
      else if u = 8 then [92, 98]
      else if u = 9 then [92, 116]
      else if u = 10 then [92, 110]
      else if u = 12 then [92, 102]
      else if u = 13 then [92, 114]
      else if u < 32 \<or> isHigh u \<or> isLow u then unicodeEscape u
      else [u])"

fun quoteUnits :: "jstr \<Rightarrow> jstr" where
  "quoteUnits [] = []"
| "quoteUnits [u] = quoteUnit u"
| "quoteUnits (u # v # s) =
     (if isHigh u \<and> isLow v then u # v # quoteUnits s
      else quoteUnit u @ quoteUnits (v # s))"

definition jsonString :: "jstr \<Rightarrow> jstr" where
  "jsonString s = 34 # quoteUnits s @ [34]"

fun decimal :: "nat \<Rightarrow> jstr" where
  "decimal n = (if n < 10 then [48 + n] else decimal (n div 10) @ [48 + n mod 10])"

declare decimal.simps [simp del]

definition jsonNumber :: "int \<Rightarrow> jstr" where
  "jsonNumber n = (if n < 0 then 45 # decimal (nat (- n)) else decimal (nat n))"

section \<open>Canonical JSON\<close>

text \<open>\<open>Object.entries(value).filter(([, v]) => v !== undefined)\<close>.\<close>

definition definedEntries :: "(jstr \<times> json option) list \<Rightarrow> (jstr \<times> json) list" where
  "definedEntries es = [(k, v). (k, Some v) \<leftarrow> es]"

lemma definedEntries_size:
  "(k, v) \<in> set (definedEntries es) \<Longrightarrow> size v < Suc (size_list (size_prod (\<lambda>_. 0) (size_option size)) es)"
  unfolding definedEntries_def
proof (induction es)
  case Nil
  then show ?case by simp
next
  case (Cons e es)
  then show ?case
    by (cases e; cases "snd e") auto
qed

function canonicalJson :: "json \<Rightarrow> jstr" where
  "canonicalJson JNull = js ''null''"
| "canonicalJson (JBool b) = (if b then js ''true'' else js ''false'')"
| "canonicalJson (JNum n) = jsonNumber n"
| "canonicalJson (JStr s) = jsonString s"
| "canonicalJson (JArr vs) = 91 # join [44] (map canonicalJson vs) @ [93]"
| "canonicalJson (JObj es) =
     123 # join [44] (map (\<lambda>(k, v). jsonString k @ [58] @ canonicalJson v)
                          (sort_key fst (definedEntries es))) @ [125]"
  by pat_completeness auto
termination
  by (relation "measure size") (auto dest: definedEntries_size simp: less_Suc_eq_le size_list_estimation')


text \<open>
  What canonical JSON keeps of a value: members in code unit order, \<open>undefined\<close> ones gone. Reading the
  text back, as \<open>JSON.parse(canonicalJson(v))\<close> does, gives this value.
\<close>

function normalJson :: "json \<Rightarrow> json" where
  "normalJson JNull = JNull"
| "normalJson (JBool b) = JBool b"
| "normalJson (JNum n) = JNum n"
| "normalJson (JStr s) = JStr s"
| "normalJson (JArr vs) = JArr (map normalJson vs)"
| "normalJson (JObj es) =
     JObj (map (\<lambda>(k, v). (k, Some (normalJson v))) (sort_key fst (definedEntries es)))"
  by pat_completeness auto
termination
  by (relation "measure size") (auto dest: definedEntries_size simp: less_Suc_eq_le size_list_estimation')

section \<open>Reading canonical text back is unambiguous\<close>

text \<open>What \<open>JSON.parse\<close> does with the inside of a string: unit by unit, up to the closing quote.\<close>

definition hexValue :: "nat \<Rightarrow> nat" where
  "hexValue c = (if c < 58 then c - 48 else c - 87)"

definition unescape :: "nat \<Rightarrow> nat" where
  "unescape e =
     (if e = 98 then 8 else if e = 116 then 9 else if e = 110 then 10
      else if e = 102 then 12 else if e = 114 then 13 else e)"

fun unquote :: "jstr \<Rightarrow> (jstr \<times> jstr) option" where
  "unquote [] = None"
| "unquote (c # s) =
     (if c = 34 then Some ([], s)
      else if c \<noteq> 92 then map_option (apfst ((#) c)) (unquote s)
      else (case s of
          [] \<Rightarrow> None
        | e # s1 \<Rightarrow>
            if e \<noteq> 117 then map_option (apfst ((#) (unescape e))) (unquote s1)
            else (case s1 of
                a # b # x # d # s2 \<Rightarrow>
                  map_option
                    (apfst ((#) (hexValue a * 4096 + hexValue b * 256 + hexValue x * 16 + hexValue d)))
                    (unquote s2)
              | _ \<Rightarrow> None)))"

lemma hexValue_hexDigit [simp]: "d < 16 \<Longrightarrow> hexValue (hexDigit d) = d"
  by (simp add: hexValue_def hexDigit_def)

lemma hex_digits_sum:
  fixes u :: nat
  assumes "u < 65536"
  shows "u div 4096 mod 16 * 4096 + u div 256 mod 16 * 256 + u div 16 mod 16 * 16 + u mod 16 = u"
proof -
  define a b c where "a = u div 16" and "b = a div 16" and "c = b div 16"
  have "u div 256 = b" "u div 4096 = c"
    by (simp_all add: a_def b_def c_def flip: div_mult2_eq)
  moreover have "c < 16"
    using assms \<open>u div 4096 = c\<close> by (simp add: less_mult_imp_div_less flip: \<open>u div 4096 = c\<close>)
  moreover have "u = 16 * a + u mod 16" "a = 16 * b + a mod 16" "b = 16 * c + b mod 16"
    by (simp_all add: a_def b_def c_def)
  ultimately show ?thesis
    by (simp add: a_def [symmetric])
qed

declare unquote.simps [simp del]

lemma unquote_quote [simp]: "unquote (34 # s) = Some ([], s)"
  by (simp add: unquote.simps)

lemma unquote_plain: "c \<noteq> 34 \<Longrightarrow> c \<noteq> 92 \<Longrightarrow> unquote (c # s) = map_option (apfst ((#) c)) (unquote s)"
  by (simp add: unquote.simps)

lemma unquote_unicodeEscape:
  assumes "u < 65536"
  shows "unquote (unicodeEscape u @ s) = map_option (apfst ((#) u)) (unquote s)"
proof -
  have "unquote (unicodeEscape u @ s) =
    map_option (apfst ((#) (u div 4096 mod 16 * 4096 + u div 256 mod 16 * 256
      + u div 16 mod 16 * 16 + u mod 16))) (unquote s)"
    by (simp add: unicodeEscape_def unquote.simps)
  then show ?thesis
    by (simp only: hex_digits_sum [OF assms])
qed

lemma unquote_quoteUnit: "unquote (quoteUnit u @ s) = map_option (apfst ((#) u)) (unquote s)"
proof (cases "u < 32 \<or> isHigh u \<or> isLow u")
  case True
  then have "u < 65536" by (auto simp: isHigh_def isLow_def)
  then show ?thesis
    by (simp add: quoteUnit_def unquote_unicodeEscape unescape_def unquote.simps)
next
  case False
  then show ?thesis
    by (simp add: quoteUnit_def unescape_def unquote.simps)
qed

lemma unquote_quoteUnits:
  "unquote (quoteUnits s @ 34 # r) = Some (s, r)"
proof (induction s rule: quoteUnits.induct)
  case 1
  then show ?case by simp
next
  case (2 u)
  then show ?case by (simp add: unquote_quoteUnit)
next
  case (3 u v s)
  show ?case
  proof (cases "isHigh u \<and> isLow v")
    case True
    then have "u \<noteq> 34" "u \<noteq> 92" "v \<noteq> 34" "v \<noteq> 92"
      by (auto simp: isHigh_def isLow_def)
    with 3 True show ?thesis
      by (simp add: unquote_plain)
  next
    case False
    with 3 have "unquote (quoteUnits (v # s) @ 34 # r) = Some (v # s, r)" by simp
    with 3 False show ?thesis
      by (auto simp: unquote_quoteUnit)
  qed
qed

lemma quoteUnits_inject:
  assumes "quoteUnits s @ 34 # r = quoteUnits t @ 34 # r'"
  shows "s = t \<and> r = r'"
  using arg_cong [OF assms, of unquote] by (simp add: unquote_quoteUnits)

lemma jsonString_inject:
  assumes "jsonString s @ r = jsonString t @ r'"
  shows "s = t \<and> r = r'"
  using quoteUnits_inject [of s r t r'] assms by (simp add: jsonString_def)

subsection \<open>Numbers\<close>

definition isDigit :: "nat \<Rightarrow> bool" where
  "isDigit c \<longleftrightarrow> 48 \<le> c \<and> c \<le> 57"

definition numberOf :: "jstr \<Rightarrow> nat" where
  "numberOf = foldl (\<lambda>n c. 10 * n + (c - 48)) 0"

lemma decimal_digits: "c \<in> set (decimal n) \<Longrightarrow> isDigit c"
proof (induction n rule: decimal.induct)
  case (1 n)
  then show ?case by (subst (asm) decimal.simps) (auto simp: isDigit_def split: if_splits)
qed

lemma decimal_not_Nil [simp]: "decimal n \<noteq> []"
  by (subst decimal.simps) simp

lemma numberOf_decimal [simp]: "numberOf (decimal n) = n"
proof (induction n rule: decimal.induct)
  case (1 n)
  show ?case
  proof (cases "n < 10")
    case True
    then show ?thesis by (subst decimal.simps) (simp add: numberOf_def)
  next
    case False
    with 1 have "numberOf (decimal (n div 10)) = n div 10" by simp
    with False show ?thesis by (subst decimal.simps) (simp add: numberOf_def)
  qed
qed

text \<open>Text after a value: the end, or what closes or separates.\<close>

definition ends :: "jstr \<Rightarrow> bool" where
  "ends r \<longleftrightarrow> r = [] \<or> hd r \<in> {44, 93, 125}"

lemma ends_simps [simp]: "ends []" "ends (44 # r)" "ends (93 # r)" "ends (125 # r)"
  by (simp_all add: ends_def)

lemma ends_not_digit: "ends r \<Longrightarrow> r = [] \<or> \<not> isDigit (hd r)"
  by (auto simp: ends_def isDigit_def)

lemma digits_prefix:
  assumes "\<forall>c \<in> set xs. P c" "\<forall>c \<in> set ys. P c"
    and "r = [] \<or> \<not> P (hd r)" "r' = [] \<or> \<not> P (hd r')"
    and "xs @ r = ys @ r'"
  shows "xs = ys \<and> r = r'"
proof -
  have take: "takeWhile P (zs @ q) = zs" if "\<forall>c \<in> set zs. P c" "q = [] \<or> \<not> P (hd q)" for zs q
    using that by (cases q) (simp_all add: takeWhile_append2)
  have "takeWhile P (xs @ r) = xs" "takeWhile P (ys @ r') = ys"
    using take assms(1-4) by blast+
  with assms(5) show ?thesis by simp
qed

lemma decimal_inject:
  assumes "ends r" "ends r'" "decimal m @ r = decimal n @ r'"
  shows "m = n \<and> r = r'"
proof -
  have "decimal m = decimal n \<and> r = r'"
    using digits_prefix [of "decimal m" isDigit "decimal n" r r'] assms decimal_digits
      ends_not_digit by blast
  then show ?thesis using numberOf_decimal by metis
qed

lemma hd_decimal: "isDigit (hd (decimal n))"
  using decimal_digits [of "hd (decimal n)" n] by simp

lemma hd_jsonNumber: "hd (jsonNumber n @ r) = 45 \<longleftrightarrow> n < 0"
  using hd_decimal [of "nat n"] by (auto simp: jsonNumber_def isDigit_def)

lemma jsonNumber_inject:
  assumes e: "ends r" "ends r'" and eq: "jsonNumber m @ r = jsonNumber n @ r'"
  shows "m = n \<and> r = r'"
proof (cases "m < 0")
  case True
  then have "n < 0" using hd_jsonNumber eq by metis
  with True have "decimal (nat (- m)) @ r = decimal (nat (- n)) @ r'"
    using eq by (simp add: jsonNumber_def)
  from decimal_inject [OF e this] True \<open>n < 0\<close> show ?thesis by auto
next
  case False
  then have "\<not> n < 0" using hd_jsonNumber eq by metis
  with False have "decimal (nat m) @ r = decimal (nat n) @ r'"
    using eq by (simp add: jsonNumber_def)
  from decimal_inject [OF e this] False \<open>\<not> n < 0\<close> show ?thesis by auto
qed

subsection \<open>Values\<close>

text \<open>
  The text of a list of items, whatever the items are: if each item's text can be told from what
  follows it, so can the list's, up to the bracket that closes it.
\<close>

lemma join_Cons: "join s (x # xs) = x @ concat (map (\<lambda>y. s @ y) xs)"
  by (induction xs arbitrary: x) simp_all

lemma commas_inject:
  assumes item: "\<And>x y r r'. x \<in> set xs \<Longrightarrow> y \<in> set ys \<Longrightarrow> ends r \<Longrightarrow> ends r' \<Longrightarrow>
      f x @ r = f y @ r' \<Longrightarrow> g x = g y \<and> r = r'"
    and c: "c = 93 \<or> c = 125"
    and eq: "concat (map (\<lambda>x. 44 # f x) xs) @ c # r = concat (map (\<lambda>x. 44 # f x) ys) @ c # r'"
  shows "map g xs = map g ys \<and> r = r'"
  using item eq
proof (induction xs arbitrary: ys)
  case Nil
  with c show ?case by (cases ys) auto
next
  case (Cons x xs)
  have tails: "ends (concat (map (\<lambda>x. 44 # f x) zs) @ c # q)" for zs q
    using c by (cases zs) auto
  from Cons.prems c obtain y ys' where ys: "ys = y # ys'"
    by (cases ys) auto
  with Cons.prems(2) have *: "f x @ concat (map (\<lambda>x. 44 # f x) xs) @ c # r =
      f y @ concat (map (\<lambda>x. 44 # f x) ys') @ c # r'"
    by simp
  have "g x = g y \<and> concat (map (\<lambda>x. 44 # f x) xs) @ c # r = concat (map (\<lambda>x. 44 # f x) ys') @ c # r'"
    by (rule Cons.prems(1) [OF _ _ tails tails *]) (simp_all add: ys)
  moreover have "map g xs = map g ys' \<and> r = r'"
    by (rule Cons.IH) (use Cons.prems(1) calculation in \<open>auto simp: ys\<close>)
  ultimately show ?case by (simp add: ys)
qed

lemma items_inject:
  assumes item: "\<And>x y r r'. x \<in> set xs \<Longrightarrow> y \<in> set ys \<Longrightarrow> ends r \<Longrightarrow> ends r' \<Longrightarrow>
      f x @ r = f y @ r' \<Longrightarrow> g x = g y \<and> r = r'"
    and starts: "\<And>x q q'. f x @ q \<noteq> c # q'"
    and c: "c = 93 \<or> c = 125"
    and eq: "join [44] (map f xs) @ c # r = join [44] (map f ys) @ c # r'"
  shows "map g xs = map g ys \<and> r = r'"
proof (cases xs)
  case Nil
  with eq starts show ?thesis
    by (cases ys) (auto simp: join_Cons dest: sym)
next
  case (Cons x xs')
  with eq starts obtain y ys' where ys: "ys = y # ys'"
    by (cases ys) (auto simp: join_Cons)
  with eq Cons have "concat (map (\<lambda>x. 44 # f x) xs) @ c # r = concat (map (\<lambda>x. 44 # f x) ys) @ c # r'"
    by (simp add: join_Cons comp_def)
  from commas_inject [where f = f and g = g, OF item c this] show ?thesis .
qed

lemma hd_jsonNumber_cases: "hd (jsonNumber n @ r) = 45 \<or> isDigit (hd (jsonNumber n @ r))"
  using hd_decimal by (auto simp: jsonNumber_def)

lemma hd_canonicalJson:
  "canonicalJson v @ r \<noteq> [] \<and>
   (case v of JNull \<Rightarrow> hd (canonicalJson v @ r) = 110
    | JBool b \<Rightarrow> hd (canonicalJson v @ r) = (if b then 116 else 102)
    | JNum n \<Rightarrow> hd (canonicalJson v @ r) = 45 \<or> isDigit (hd (canonicalJson v @ r))
    | JStr _ \<Rightarrow> hd (canonicalJson v @ r) = 34
    | JArr _ \<Rightarrow> hd (canonicalJson v @ r) = 91
    | JObj _ \<Rightarrow> hd (canonicalJson v @ r) = 123)"
  using hd_jsonNumber_cases
  by (cases v) (auto simp: js_eval jsonString_def jsonNumber_def)

lemma canonicalJson_starts: "canonicalJson v @ q \<noteq> 93 # q'" "canonicalJson v @ q \<noteq> 125 # q'"
  using hd_canonicalJson [of v q]
  by (cases v; auto simp: isDigit_def js_eval)+

definition sameKind :: "json \<Rightarrow> json \<Rightarrow> bool" where
  "sameKind v w \<longleftrightarrow> (case (v, w) of
     (JNull, JNull) \<Rightarrow> True | (JBool a, JBool b) \<Rightarrow> a = b | (JNum _, JNum _) \<Rightarrow> True
   | (JStr _, JStr _) \<Rightarrow> True | (JArr _, JArr _) \<Rightarrow> True | (JObj _, JObj _) \<Rightarrow> True | _ \<Rightarrow> False)"

lemma canonicalJson_kind:
  assumes "canonicalJson v @ r = canonicalJson w @ r'"
  shows "sameKind v w"
  using hd_canonicalJson [of v r] hd_canonicalJson [of w r'] assms
  by (cases v; cases w) (auto simp: sameKind_def isDigit_def split: if_splits)

definition sortedEntries :: "(jstr \<times> json option) list \<Rightarrow> (jstr \<times> json) list" where
  "sortedEntries es = sort_key fst (definedEntries es)"

lemma set_sortedEntries [simp]: "set (sortedEntries es) = set (definedEntries es)"
  by (simp add: sortedEntries_def)

lemma canonicalJson_inject_gen:
  "ends r \<Longrightarrow> ends r' \<Longrightarrow>
   canonicalJson v @ r = canonicalJson w @ r' \<Longrightarrow> normalJson v = normalJson w \<and> r = r'"
proof (induction v arbitrary: w r r' rule: canonicalJson.induct)
  case 1
  then have "sameKind JNull w" using canonicalJson_kind by blast
  with 1 show ?case by (cases w) (auto simp: sameKind_def)
next
  case (2 b)
  then have "sameKind (JBool b) w" using canonicalJson_kind by blast
  with 2 show ?case by (cases w) (auto simp: sameKind_def)
next
  case (3 n)
  then have "sameKind (JNum n) w" using canonicalJson_kind by blast
  then obtain m where w: "w = JNum m" by (cases w) (auto simp: sameKind_def)
  show ?case
    using 3 jsonNumber_inject [of r r' n m] by (simp add: w)
next
  case (4 s)
  then have "sameKind (JStr s) w" using canonicalJson_kind by blast
  then obtain t where w: "w = JStr t" by (cases w) (auto simp: sameKind_def)
  show ?case
    using 4 jsonString_inject [of s r t r'] by (simp add: w)
next
  case (5 vs)
  then have "sameKind (JArr vs) w" using canonicalJson_kind by blast
  then obtain ws where w: "w = JArr ws" by (cases w) (auto simp: sameKind_def)
  have "map normalJson vs = map normalJson ws \<and> r = r'"
  proof (rule items_inject [where f = canonicalJson and c = 93])
    show "normalJson x = normalJson y \<and> q = q'"
      if "x \<in> set vs" "y \<in> set ws" "ends q" "ends q'" "canonicalJson x @ q = canonicalJson y @ q'" for x y q q'
      using 5(1) [OF that(1,3-5)] .
    show "join [44] (map canonicalJson vs) @ 93 # r = join [44] (map canonicalJson ws) @ 93 # r'"
      using 5(4) by (simp add: w)
  qed (use canonicalJson_starts in auto)
  then show ?case by (simp add: w)
next
  case (6 es)
  then have "sameKind (JObj es) w" using canonicalJson_kind by blast
  then obtain fs where w: "w = JObj fs" by (cases w) (auto simp: sameKind_def)
  let ?f = "\<lambda>(k, v). jsonString k @ [58] @ canonicalJson v"
  let ?g = "\<lambda>(k, v). (k, Some (normalJson v))"
  have "map ?g (sortedEntries es) = map ?g (sortedEntries fs) \<and> r = r'"
  proof (rule items_inject [where f = ?f and c = 125])
    fix x y :: "jstr \<times> json" and q q'
    assume x: "x \<in> set (sortedEntries es)" and y: "y \<in> set (sortedEntries fs)"
      and q: "ends q" "ends q'" and eq: "?f x @ q = ?f y @ q'"
    obtain k u k' u' where xy: "x = (k, u)" "y = (k', u')" by (cases x; cases y)
    from eq have "jsonString k @ 58 # canonicalJson u @ q = jsonString k' @ 58 # canonicalJson u' @ q'"
      by (simp add: xy)
    then have "k = k'" "canonicalJson u @ q = canonicalJson u' @ q'"
      using jsonString_inject by blast+
    moreover have "(k, u) \<in> set (sort_key fst (definedEntries es))"
      using x by (simp add: xy)
    ultimately show "?g x = ?g y \<and> q = q'"
      using 6(1) [OF _ refl q] by (simp add: xy)
  next
    show "?f x @ q \<noteq> 125 # q'" for x q q'
      by (cases x) (simp add: jsonString_def)
    show "join [44] (map ?f (sortedEntries es)) @ 125 # r = join [44] (map ?f (sortedEntries fs)) @ 125 # r'"
      using 6(4) by (simp add: w sortedEntries_def)
  qed simp
  then show ?case by (simp add: w sortedEntries_def)
qed

text \<open>Equal text, then equal values but for member order and \<open>undefined\<close> members.\<close>

lemma canonicalJson_inject: "canonicalJson v = canonicalJson w \<Longrightarrow> normalJson v = normalJson w"
  using canonicalJson_inject_gen [of "[]" "[]" v w] by simp

lemma definedEntries_some: "definedEntries (map (\<lambda>(k, v). (k, Some (f v))) es) = map (\<lambda>(k, v). (k, f v)) es"
  by (induction es) (auto simp: definedEntries_def)

lemma sort_key_mapped: "sort_key fst (map (\<lambda>(k, v). (k, f v)) (sort_key fst xs)) = map (\<lambda>(k, v). (k, f v)) (sort_key fst xs)"
proof (rule sort_key_id_if_sorted)
  have same: "fst \<circ> (\<lambda>(k, v). (k, f v)) = fst" by auto
  show "sorted (map fst (map (\<lambda>(k, v). (k, f v)) (sort_key fst xs)))"
    unfolding map_map same by simp
qed

lemma canonicalJson_normalJson: "canonicalJson (normalJson v) = canonicalJson v"
proof (induction v rule: normalJson.induct)
  case (6 es)
  let ?xs = "sort_key fst (definedEntries es)"
  have texts: "map (\<lambda>(k, v). jsonString k @ [58] @ canonicalJson v) (map (\<lambda>(k, v). (k, normalJson v)) ?xs) =
    map (\<lambda>(k, v). jsonString k @ [58] @ canonicalJson v) ?xs"
    unfolding map_map by (rule map_cong) (use 6 in auto)
  show ?case
    unfolding normalJson.simps canonicalJson.simps definedEntries_some sort_key_mapped texts ..
qed (simp_all add: comp_def cong: map_cong)

lemma canonicalJson_eq_iff: "canonicalJson v = canonicalJson w \<longleftrightarrow> normalJson v = normalJson w"
  using canonicalJson_inject canonicalJson_normalJson by metis

section \<open>Members\<close>

text \<open>The value of an object's member, and how equal canonical text gives equal members.\<close>

fun memberOf :: "jstr \<Rightarrow> json \<Rightarrow> json option" where
  "memberOf k (JObj es) = map_of (definedEntries es) k"
| "memberOf k _ = None"

lemma definedEntries_simps [simp]:
  "definedEntries [] = []"
  "definedEntries ((k, None) # es) = definedEntries es"
  "definedEntries ((k, Some v) # es) = (k, v) # definedEntries es"
  by (simp_all add: definedEntries_def)

lemma memberOf_normalJson:
  assumes "distinct (map fst (definedEntries es))"
  shows "memberOf k (normalJson (JObj es)) = map_option normalJson (memberOf k (JObj es))"
proof -
  have "map_of (sort_key fst (definedEntries es)) = map_of (definedEntries es)"
    using assms by (intro map_of_inject_set [THEN iffD2]) (simp_all add: distinct_map)
  then show ?thesis
    by (simp add: definedEntries_some map_of_map)
qed

lemma canonicalJson_member:
  assumes "canonicalJson (JObj es) = canonicalJson (JObj fs)"
    "distinct (map fst (definedEntries es))" "distinct (map fst (definedEntries fs))"
  shows "map_option normalJson (memberOf k (JObj es)) = map_option normalJson (memberOf k (JObj fs))"
  using canonicalJson_inject [OF assms(1)] memberOf_normalJson [OF assms(2)] memberOf_normalJson [OF assms(3)]
  by metis

end
