(* ===== verification/Errors.thy ===== *)
theory Errors
  imports Prelude
begin

text \<open>
  The error registry: \<open>packages/core/src/errors.ts\<close>. Every failure has a code; the code decides the
  exit status and whether the same call may be retried. A thrown \<open>CommsError\<close> is the value of its
  code on the left of a sum; its message, hint and details are not modelled.
\<close>

datatype error_code =
    UNEXPECTED
  | APPROVAL_REQUIRED
  | APPROVAL_PENDING
  | APPROVAL_EXPIRED
  | APPROVAL_VOID
  | SEND_OUTCOME_UNKNOWN
  | SEND_REFUSED
  | POLICY_NEVER
  | ACT_NOT_ALLOWED
  | STANDING_REFUSED
  | STANDING_LIMIT
  | TAKE_REQUIRED
  | TAKEN_ELSEWHERE
  | RATE_CAPPED
  | UNSENDABLE_HTML
  | LOOSENING_REFUSED
  | NEEDS_NEWER_RELEASE
  | USAGE
  | CURSOR_MISMATCH
  | BAD_DATA
  | REPLY_INVALID
  | NOT_FOUND
  | PROVIDER_UNAVAILABLE
  | SOURCE_UNAVAILABLE
  | SECRET_STORE_UNAVAILABLE
  | TRANSIENT
  | KEYCHAIN_APPROVAL_PENDING
  | LOCK_TIMEOUT
  | AUTH_REQUIRED
  | SCOPE_MISSING
  | WHATSAPP_VISIBILITY_SEAM_REQUIRED
  | CONFIG

text \<open>\<open>EXIT_CODES\<close>: BSD sysexits, and 10 for an approval.\<close>

definition exit_APPROVAL :: nat where "exit_APPROVAL = 10"

fun exitCode :: "error_code \<Rightarrow> nat" where
  "exitCode UNEXPECTED = 1"
| "exitCode APPROVAL_REQUIRED = exit_APPROVAL"
| "exitCode APPROVAL_PENDING = exit_APPROVAL"
| "exitCode APPROVAL_EXPIRED = exit_APPROVAL"
| "exitCode APPROVAL_VOID = exit_APPROVAL"
| "exitCode SEND_OUTCOME_UNKNOWN = exit_APPROVAL"
| "exitCode SEND_REFUSED = exit_APPROVAL"
| "exitCode POLICY_NEVER = exit_APPROVAL"
| "exitCode ACT_NOT_ALLOWED = exit_APPROVAL"
| "exitCode STANDING_REFUSED = exit_APPROVAL"
| "exitCode STANDING_LIMIT = exit_APPROVAL"
| "exitCode TAKE_REQUIRED = exit_APPROVAL"
| "exitCode TAKEN_ELSEWHERE = exit_APPROVAL"
| "exitCode RATE_CAPPED = exit_APPROVAL"
| "exitCode UNSENDABLE_HTML = exit_APPROVAL"
| "exitCode LOOSENING_REFUSED = exit_APPROVAL"
| "exitCode NEEDS_NEWER_RELEASE = 1"
| "exitCode USAGE = 64"
| "exitCode CURSOR_MISMATCH = 64"
| "exitCode BAD_DATA = 65"
| "exitCode REPLY_INVALID = 65"
| "exitCode NOT_FOUND = 66"
| "exitCode PROVIDER_UNAVAILABLE = 69"
| "exitCode SOURCE_UNAVAILABLE = 69"
| "exitCode SECRET_STORE_UNAVAILABLE = 69"
| "exitCode TRANSIENT = 75"
| "exitCode KEYCHAIN_APPROVAL_PENDING = 75"
| "exitCode LOCK_TIMEOUT = 75"
| "exitCode AUTH_REQUIRED = 77"
| "exitCode SCOPE_MISSING = 77"
| "exitCode WHATSAPP_VISIBILITY_SEAM_REQUIRED = 78"
| "exitCode CONFIG = 78"

definition retryable :: "error_code \<Rightarrow> bool" where
  "retryable c \<longleftrightarrow> c \<in> {APPROVAL_PENDING, RATE_CAPPED, PROVIDER_UNAVAILABLE, TRANSIENT,
     KEYCHAIN_APPROVAL_PENDING, LOCK_TIMEOUT}"

end
