(* ===== verification/ApprovalTypes.thy ===== *)
theory ApprovalTypes
  imports Runtime Json Errors
begin

text \<open>
  The data of the approval engine: \<open>packages/core/src/approvals.ts\<close> and \<open>approval-binding.ts\<close>.

  A member that may be \<open>undefined\<close> is an option, a timestamp a \<open>stamp\<close>. \<open>SendPolicy\<close> and
  \<open>ChangePolicy\<close> are one type, \<open>send_policy\<close>; a change policy is never \<open>PNever\<close>. Field names have the
  prefix \<open>r_\<close> (record), \<open>ch_\<close> (change), \<open>dl_\<close> (download), \<open>dc_\<close> (disclosure),
  \<open>sb_\<close> (standing) and so on, because a record's field is a constant of the logic.
\<close>

section \<open>Small types\<close>

datatype approval_state = Pending | Approved | Sending | Used | Failed | Unknown | Expired | Revoked

datatype approval_kind = KSend | KChange | KDownload | KDisclosure | KStanding

datatype route = RChat | RConfirm | RStanding

datatype owner_scope = SOwner | SProspective | SGlobal

datatype via = Elicitation | Terminal | ViaStanding | ViaApp

datatype send_policy = PChat | PConfirm | PNever

text \<open>\<open>POLICY_RANK\<close> and \<open>stricterPolicy\<close>.\<close>

fun policyRank :: "send_policy \<Rightarrow> nat" where
  "policyRank PChat = 0"
| "policyRank PConfirm = 1"
| "policyRank PNever = 2"

definition stricterPolicy :: "send_policy \<Rightarrow> send_policy \<Rightarrow> send_policy" where
  "stricterPolicy a b = (if policyRank a \<ge> policyRank b then a else b)"

record expectation =
  ex_to :: "jstr list"
  ex_cc :: "jstr list"
  ex_bcc :: "jstr list"
  ex_subject :: jstr

section \<open>What each kind binds\<close>

datatype target_kind = TInbox | TAccount

record change_target =
  tg_kind :: target_kind
  tg_name :: jstr
  tg_id :: "jstr option"

text \<open>\<open>Loosening\<close> of \<open>config.ts\<close>, which \<open>SettingChange\<close> shares: a path, two values and an owner's id.\<close>

record loosening =
  lo_path :: jstr
  lo_before :: "json option"
  lo_after :: "json option"
  lo_id :: "jstr option"

record change_binding =
  ch_summary :: jstr
  ch_target :: "change_target option"
  ch_loosened :: "loosening list"
  ch_settings :: "loosening list option"
  ch_effects :: "jstr list"
  ch_doneAtOnce :: "jstr list option"

record listed_file =
  lf_name :: jstr
  lf_size :: "int option"
  lf_renamed :: "jstr option"
  lf_flags :: "jstr list option"

datatype save_answer = AnswerDownloads | AnswerCurrent | AnswerOther jstr

record download_binding =
  dl_summary :: jstr
  dl_targetKind :: target_kind
  dl_targetName :: jstr
  dl_targetId :: jstr
  dl_operation :: jstr
  dl_request :: json
  dl_files :: "jstr list"
  dl_names :: "jstr list"
  dl_downloads :: jstr
  dl_current :: jstr
  dl_listing :: "listed_file list option"
  dl_answer :: "save_answer option"

datatype activation_kind = AkRule | AkJudgeBudget | AkJudgeKind | AkEnableAll | AkSubscription

datatype version_kind = VkRule | VkTarget | VkSubscriber | VkJudge | VkJudgeBudget | VkJudgeKind

record disclosure_version =
  dv_kind :: version_kind
  dv_id :: jstr
  dv_version :: int

record disclosure_binding =
  dc_digest :: jstr
  dc_intent :: jstr
  dc_kind :: activation_kind
  dc_versions :: "disclosure_version list"

datatype standing_act = ActReaction | ActReply

record standing_content =
  sc_kind :: standing_act
  sc_text :: jstr
  sc_digest :: jstr

record shared_state =
  sh_ext :: bool
  sh_pendingExt :: bool
  sh_externalMembers :: "bool option"

record exact_place =
  pl_id :: jstr
  pl_name :: "jstr option"
  pl_members :: int
  pl_shared :: shared_state

datatype standing_places = Exact "exact_place list" | ThreadsIAmIn

record standing_limits =
  sl_perThread :: int
  sl_perHour :: int
  sl_perDay :: int
  sl_perSender :: int
  sl_expiresDays :: int

datatype proposer = ByAgent | ByPerson

record standing_binding =
  sb_summary :: jstr
  sb_targetName :: jstr
  sb_targetId :: jstr
  sb_contents :: "standing_content list"
  sb_places :: standing_places
  sb_limits :: standing_limits
  sb_proposedBy :: proposer
  sb_replaces :: "jstr option"
  sb_warnings :: "jstr list"

text \<open>A narrowing's limits are partial: one option per name of \<open>LIMIT_NAMES\<close>.\<close>

record narrowed_limits =
  nl_perThread :: "int option"
  nl_perHour :: "int option"
  nl_perDay :: "int option"
  nl_perSender :: "int option"
  nl_expiresDays :: "int option"

record standing_narrowing =
  sn_keep :: "jstr list option"
  sn_places :: "jstr list option"
  sn_limits :: "narrowed_limits option"

record standing_use =
  su_channel :: jstr
  su_thread :: jstr
  su_content :: jstr

section \<open>The record\<close>

text \<open>
  \<open>ApprovalRecord\<close>, version 2. On a disclosure record the members the source leaves out
  (\<open>channel\<close>, \<open>ownerScope\<close>, \<open>inboxId\<close>, \<open>draftId\<close>, \<open>expect\<close> and so on) hold empty values that
  nothing reads. \<open>bindingDigest\<close> is an option because the validator has a verdict for its absence.
\<close>

record approval =
  r_approvalId :: jstr
  r_kind :: approval_kind
  r_digestVersion :: int
  r_channel :: jstr
  r_ownerScope :: owner_scope
  r_route :: "route option"
  r_pendingMs :: int
  r_approvedMs :: "int option"
  r_inboxId :: jstr
  r_inboxSub :: "jstr option"
  r_draftId :: jstr
  r_draftMessageId :: jstr
  r_contentDigest :: jstr
  r_bindingDigest :: "jstr option"
  r_sendEpoch :: "int option"
  r_approvedDigest :: "jstr option"
  r_approvedVia :: "via option"
  r_approvedAt :: "stamp option"
  r_usableUntil :: "stamp option"
  r_approvedBindingDigest :: "jstr option"
  r_sendingAt :: "stamp option"
  r_sendingHeartbeatAt :: "stamp option"
  r_usedAt :: "stamp option"
  r_sentAt :: "stamp option"
  r_failedAt :: "stamp option"
  r_revokedAt :: "stamp option"
  r_expiredAt :: "stamp option"
  r_policy :: send_policy
  r_requiredPolicy :: send_policy
  r_riskFlags :: "jstr list"
  r_expect :: expectation
  r_challengeHash :: "jstr option"
  r_challengeAttempts :: int
  r_state :: approval_state
  r_createdAt :: stamp
  r_expiresAt :: stamp
  r_updatedAt :: stamp
  r_sentMessageId :: "jstr option"
  r_reason :: "jstr option"
  r_change :: "change_binding option"
  r_download :: "download_binding option"
  r_disclosure :: "disclosure_binding option"
  r_standing :: "standing_binding option"
  r_narrowed :: "standing_narrowing option"
  r_standingEpoch :: "int option"
  r_standingId :: "jstr option"
  r_standingUse :: "standing_use option"
  r_approvedChangePolicy :: "send_policy option"
  r_preparedBy :: "jstr option"

abbreviation no_expectation :: "jstr \<Rightarrow> expectation" where
  "no_expectation subject \<equiv> \<lparr>ex_to = [], ex_cc = [], ex_bcc = [], ex_subject = subject\<rparr>"

text \<open>Every member that a creation leaves out is absent.\<close>

definition blankApproval :: "jstr \<Rightarrow> approval_kind \<Rightarrow> int \<Rightarrow> approval" where
  "blankApproval approvalId kind now =
     \<lparr>r_approvalId = approvalId, r_kind = kind, r_digestVersion = 2, r_channel = [],
      r_ownerScope = SOwner, r_route = None, r_pendingMs = 0, r_approvedMs = None, r_inboxId = [],
      r_inboxSub = None, r_draftId = [], r_draftMessageId = [], r_contentDigest = [],
      r_bindingDigest = None, r_sendEpoch = None, r_approvedDigest = None, r_approvedVia = None,
      r_approvedAt = None, r_usableUntil = None, r_approvedBindingDigest = None,
      r_sendingAt = None, r_sendingHeartbeatAt = None, r_usedAt = None, r_sentAt = None,
      r_failedAt = None, r_revokedAt = None, r_expiredAt = None, r_policy = PChat,
      r_requiredPolicy = PChat, r_riskFlags = [], r_expect = no_expectation [],
      r_challengeHash = None, r_challengeAttempts = 0, r_state = Pending, r_createdAt = Iso now,
      r_expiresAt = Iso now, r_updatedAt = Iso now, r_sentMessageId = None, r_reason = None,
      r_change = None, r_download = None, r_disclosure = None, r_standing = None,
      r_narrowed = None, r_standingEpoch = None, r_standingId = None, r_standingUse = None,
      r_approvedChangePolicy = None, r_preparedBy = None\<rparr>"

abbreviation active :: "approval \<Rightarrow> bool" where
  "active r \<equiv> r_state r = Pending \<or> r_state r = Approved"

end
