(* ===== verification/Patterns.thy ===== *)
theory Patterns
  imports Runtime
begin

text \<open>
  The regular expressions the approval code tests its identifiers and its standing replies with, each as
  a function on code units, and iteration of a string by code point.
\<close>

definition isUpper :: "nat \<Rightarrow> bool" where "isUpper u \<longleftrightarrow> 65 \<le> u \<and> u \<le> 90"
definition isLower :: "nat \<Rightarrow> bool" where "isLower u \<longleftrightarrow> 97 \<le> u \<and> u \<le> 122"
definition isNumeral :: "nat \<Rightarrow> bool" where "isNumeral u \<longleftrightarrow> 48 \<le> u \<and> u \<le> 57"
definition isLetter :: "nat \<Rightarrow> bool" where "isLetter u \<longleftrightarrow> isUpper u \<or> isLower u"

text \<open>\<open>\w\<close>, whose boundary is \<open>\b\<close>.\<close>

definition isWord :: "nat \<Rightarrow> bool" where "isWord u \<longleftrightarrow> isLetter u \<or> isNumeral u \<or> u = 95"

text \<open>\<open>[0-9A-HJKMNP-TV-Z]\<close>: Crockford's alphabet, without I, L, O and U.\<close>

definition isCrockford :: "nat \<Rightarrow> bool" where
  "isCrockford u \<longleftrightarrow> isNumeral u \<or> (isUpper u \<and> u \<notin> {73, 76, 79, 85})"

definition prefixedId :: "jstr \<Rightarrow> (nat \<Rightarrow> bool) \<Rightarrow> nat \<Rightarrow> jstr \<Rightarrow> bool" where
  "prefixedId p ok n s \<longleftrightarrow>
     take (length p) s = p \<and> length s = length p + n \<and> list_all ok (drop (length p) s)"

text \<open>\<open>APPROVAL_ID_PATTERN\<close> of \<open>ids.ts\<close>, \<open>ACCOUNT_ID_PATTERN\<close> of \<open>config.ts\<close>, \<open>CONNECTION_ID_PATTERN\<close> of \<open>connections.ts\<close>.\<close>

definition approvalIdPattern :: "jstr \<Rightarrow> bool" where
  "approvalIdPattern = prefixedId (js ''ap_'') isCrockford 26"

definition accountIdPattern :: "jstr \<Rightarrow> bool" where
  "accountIdPattern = prefixedId (js ''acc_'') (\<lambda>u. isUpper u \<or> isNumeral u) 16"

definition connectionIdPattern :: "jstr \<Rightarrow> bool" where
  "connectionIdPattern = prefixedId (js ''cn_'') isCrockford 26"

text \<open>\<open>STANDING_PLACE_PATTERN\<close>: \<open>/^[CGD][A-Z0-9]{2,}$/\<close>.\<close>

definition standingPlacePattern :: "jstr \<Rightarrow> bool" where
  "standingPlacePattern s \<longleftrightarrow> (case s of [] \<Rightarrow> False
     | c # t \<Rightarrow> c \<in> {67, 71, 68} \<and> 2 \<le> length t \<and> list_all (\<lambda>u. isUpper u \<or> isNumeral u) t)"

text \<open>\<open>[...text]\<close>: the code points of a string, a surrogate without its partner being its own.\<close>

fun charPoints :: "jstr \<Rightarrow> nat list" where
  "charPoints [] = []"
| "charPoints [u] = [u]"
| "charPoints (u # v # s) =
     (if 55296 \<le> u \<and> u \<le> 56319 \<and> 56320 \<le> v \<and> v \<le> 57343
      then ((u - 55296) * 1024 + (v - 56320) + 65536) # charPoints s
      else u # charPoints (v # s))"

text \<open>\<open>chars.ts\<close>: the characters shown or stripped as dangerous.\<close>

definition invisibleRanges :: "(nat \<times> nat) list" where
  "invisibleRanges =
     [(0xad, 0xad), (0x34f, 0x34f), (0x61c, 0x61c), (0x115f, 0x1160), (0x17b4, 0x17b5),
      (0x180b, 0x180f), (0x200b, 0x200f), (0x2028, 0x2029), (0x202a, 0x202e), (0x2060, 0x2064),
      (0x2066, 0x206f), (0x3164, 0x3164), (0xfe00, 0xfe0f), (0xfeff, 0xfeff), (0xffa0, 0xffa0),
      (0xe0000, 0xe007f)]"

definition isInvisible :: "nat \<Rightarrow> bool" where
  "isInvisible c \<longleftrightarrow> list_ex (\<lambda>(lo, hi). lo \<le> c \<and> c \<le> hi) invisibleRanges"

definition isControl :: "nat \<Rightarrow> bool" where
  "isControl c \<longleftrightarrow> c \<noteq> 9 \<and> c \<noteq> 10 \<and> (c < 32 \<or> c = 127 \<or> (128 \<le> c \<and> c \<le> 159))"

definition isDangerous :: "nat \<Rightarrow> bool" where
  "isDangerous c \<longleftrightarrow> isControl c \<or> isInvisible c"

text \<open>Substring tests.\<close>

fun startsWith :: "jstr \<Rightarrow> jstr \<Rightarrow> bool" where
  "startsWith [] s = True"
| "startsWith (c # p) [] = False"
| "startsWith (c # p) (u # s) = (c = u \<and> startsWith p s)"

fun contains :: "jstr \<Rightarrow> jstr \<Rightarrow> bool" where
  "contains p [] = (p = [])"
| "contains p (u # s) = (startsWith p (u # s) \<or> contains p s)"

text \<open>\<open>/[A-Za-z0-9-]+\.[A-Za-z]{2,}/\<close>: something that looks like a domain.\<close>

fun hasDomain :: "jstr \<Rightarrow> bool" where
  "hasDomain (a # d # x # y # s) =
     (((isLetter a \<or> isNumeral a \<or> a = 45) \<and> d = 46 \<and> isLetter x \<and> isLetter y)
      \<or> hasDomain (d # x # y # s))"
| "hasDomain _ = False"

text \<open>\<open>/<[@!#]/\<close> and \<open>/:[A-Za-z0-9_+-]+:/\<close>.\<close>

fun hasAngleMention :: "jstr \<Rightarrow> bool" where
  "hasAngleMention (a # b # s) = ((a = 60 \<and> b \<in> {64, 33, 35}) \<or> hasAngleMention (b # s))"
| "hasAngleMention _ = False"

definition isEmojiCodeUnit :: "nat \<Rightarrow> bool" where
  "isEmojiCodeUnit u \<longleftrightarrow> isLetter u \<or> isNumeral u \<or> u \<in> {95, 43, 45}"

definition emojiCodeHere :: "jstr \<Rightarrow> bool" where
  "emojiCodeHere s \<longleftrightarrow>
     (let n = takeWhile isEmojiCodeUnit s; r = dropWhile isEmojiCodeUnit s
      in n \<noteq> [] \<and> r \<noteq> [] \<and> hd r = 58)"

fun hasEmojiCode :: "jstr \<Rightarrow> bool" where
  "hasEmojiCode [] = False"
| "hasEmojiCode (u # s) = ((u = 58 \<and> emojiCodeHere s) \<or> hasEmojiCode s)"

text \<open>\<open>/\bw1\s+w2\b/i\<close> for a list of words in lower case.\<close>

fun wordsHere :: "jstr list \<Rightarrow> jstr \<Rightarrow> bool" where
  "wordsHere [] s = True"
| "wordsHere [w] s = (startsWith w s \<and> (case drop (length w) s of [] \<Rightarrow> True | c # _ \<Rightarrow> \<not> isWord c))"
| "wordsHere (w # w' # ws) s =
     (startsWith w s \<and>
      (case drop (length w) s of [] \<Rightarrow> False
       | c # r \<Rightarrow> isSpace c \<and> wordsHere (w' # ws) (dropWhile isSpace r)))"

fun hasWords :: "jstr list \<Rightarrow> bool \<Rightarrow> jstr \<Rightarrow> bool" where
  "hasWords ws prev [] = False"
| "hasWords ws prev (u # s) = ((\<not> prev \<and> wordsHere ws (u # s)) \<or> hasWords ws (isWord u) s)"

text \<open>\<open>normaliseAddress\<close> of \<open>digest.ts\<close>: the text of a last \<open><\<dots>>\<close>, else all of it, trimmed and lower-cased.\<close>

definition inAngles :: "jstr \<Rightarrow> jstr option" where
  "inAngles s =
     (case rev (trimEnd s) of
        [] \<Rightarrow> None
      | c # t \<Rightarrow>
          if c \<noteq> 62 then None
          else (let inner = takeWhile (\<lambda>u. u \<noteq> 60 \<and> u \<noteq> 62) t;
                    rest = dropWhile (\<lambda>u. u \<noteq> 60 \<and> u \<noteq> 62) t
                in if inner \<noteq> [] \<and> rest \<noteq> [] \<and> hd rest = 60 then Some (rev inner) else None))"

definition normaliseAddress :: "runtime \<Rightarrow> jstr \<Rightarrow> jstr" where
  "normaliseAddress rt s =
     rtLower rt (trim (case inAngles s of Some a \<Rightarrow> a | None \<Rightarrow> s))"

end
