(* ===== verification/Standing.thy ===== *)
theory Standing
  imports ApprovalTypes Patterns
begin

text \<open>
  Standing approvals: \<open>packages/core/src/standing.ts\<close> with \<open>standing-emoji.ts\<close>. A person's yes given
  in advance: contents they wrote, places, limits. The operations check what was written, digest it, and
  narrow it; only widening needs a person again.

  A refusal of a content carries its \<open>ContentRefusal\<close> reason (its code is always \<open>BAD_DATA\<close>); the other
  refusals are error codes. The checks of \<open>standingBindingProblem\<close> that a value has the members
  its type says hold by typing here; the others are written out.
\<close>

section \<open>Limits\<close>

datatype limit_name = PerThread | PerHour | PerDay | PerSender | ExpiresDays

definition LIMIT_NAMES :: "limit_name list" where
  "LIMIT_NAMES = [PerThread, PerHour, PerDay, PerSender, ExpiresDays]"

text \<open>\<open>STANDING_LIMITS\<close>: default, least and greatest.\<close>

fun STANDING_LIMITS :: "limit_name \<Rightarrow> int \<times> int \<times> int" where
  "STANDING_LIMITS PerThread = (1, 1, 3)"
| "STANDING_LIMITS PerHour = (10, 1, 30)"
| "STANDING_LIMITS PerDay = (30, 1, 100)"
| "STANDING_LIMITS PerSender = (3, 1, 10)"
| "STANDING_LIMITS ExpiresDays = (7, 1, 30)"

fun limitOf :: "standing_limits \<Rightarrow> limit_name \<Rightarrow> int" where
  "limitOf l PerThread = sl_perThread l"
| "limitOf l PerHour = sl_perHour l"
| "limitOf l PerDay = sl_perDay l"
| "limitOf l PerSender = sl_perSender l"
| "limitOf l ExpiresDays = sl_expiresDays l"

fun narrowedLimitOf :: "narrowed_limits \<Rightarrow> limit_name \<Rightarrow> int option" where
  "narrowedLimitOf l PerThread = nl_perThread l"
| "narrowedLimitOf l PerHour = nl_perHour l"
| "narrowedLimitOf l PerDay = nl_perDay l"
| "narrowedLimitOf l PerSender = nl_perSender l"
| "narrowedLimitOf l ExpiresDays = nl_expiresDays l"

definition limitsBy :: "(limit_name \<Rightarrow> int) \<Rightarrow> standing_limits" where
  "limitsBy f = \<lparr>sl_perThread = f PerThread, sl_perHour = f PerHour, sl_perDay = f PerDay,
     sl_perSender = f PerSender, sl_expiresDays = f ExpiresDays\<rparr>"

definition narrowedLimitsBy :: "(limit_name \<Rightarrow> int option) \<Rightarrow> narrowed_limits" where
  "narrowedLimitsBy f = \<lparr>nl_perThread = f PerThread, nl_perHour = f PerHour, nl_perDay = f PerDay,
     nl_perSender = f PerSender, nl_expiresDays = f ExpiresDays\<rparr>"

lemma limitOf_limitsBy [simp]: "limitOf (limitsBy f) n = f n"
  by (cases n) (simp_all add: limitsBy_def)

lemma narrowedLimitOf_By [simp]: "narrowedLimitOf (narrowedLimitsBy f) n = f n"
  by (cases n) (simp_all add: narrowedLimitsBy_def)

lemma limitsBy_limitOf [simp]: "limitsBy (limitOf l) = l"
  by (simp add: limitsBy_def)

lemma LIMIT_NAMES_all [simp]: "n \<in> set LIMIT_NAMES"
  by (cases n) (simp_all add: LIMIT_NAMES_def)

lemma limits_eqI: "(\<And>n. limitOf a n = limitOf b n) \<Longrightarrow> a = b"
  by (metis limitsBy_limitOf ext)

definition limitInRange :: "limit_name \<Rightarrow> int \<Rightarrow> bool" where
  "limitInRange n v \<longleftrightarrow> (case STANDING_LIMITS n of (_, lo, hi) \<Rightarrow> lo \<le> v \<and> v \<le> hi)"

text \<open>\<open>checkedLimits\<close>: each one given, or its default; refused outside its range.\<close>

definition checkedLimits :: "narrowed_limits \<Rightarrow> error_code + standing_limits" where
  "checkedLimits input =
     (let value = (\<lambda>n. case narrowedLimitOf input n of Some v \<Rightarrow> v | None \<Rightarrow> fst (STANDING_LIMITS n))
      in if list_all (\<lambda>n. limitInRange n (value n)) LIMIT_NAMES then Inr (limitsBy value)
         else Inl BAD_DATA)"

definition allLimits :: "standing_limits \<Rightarrow> narrowed_limits" where
  "allLimits l = narrowedLimitsBy (\<lambda>n. Some (limitOf l n))"

definition STANDING_BIG_ROOM :: int where "STANDING_BIG_ROOM = 50"
definition STANDING_MAX_REACTIONS :: nat where "STANDING_MAX_REACTIONS = 5"
definition STANDING_MAX_REPLIES :: nat where "STANDING_MAX_REPLIES = 5"
definition STANDING_MAX_REPLY_LENGTH :: nat where "STANDING_MAX_REPLY_LENGTH = 200"
definition STANDING_DEFAULT_REACTION :: jstr where "STANDING_DEFAULT_REACTION = js ''eyes''"
definition STANDING_DAY_MS :: int where "STANDING_DAY_MS = 24 * 60 * 60 * 1000"
definition STANDING_FRESH_MS :: int where "STANDING_FRESH_MS = 15 * 60 * 1000"
definition STANDING_THREAD_LOOKBACK_MS :: int where
  "STANDING_THREAD_LOOKBACK_MS = 14 * 24 * 60 * 60 * 1000"

section \<open>Contents\<close>

datatype content_refusal =
    TooManyReactions | TooManyReplies | CustomEmoji | EmptyReply | TooLong | MultiLine | ControlCharacter
  | Mention | Link | Placeholder | Markup | EmojiCode | Pictograph | Duplicate

definition STANDARD_EMOJI :: "jstr list" where
  "STANDARD_EMOJI = map js
     [''eyes'', ''white_check_mark'', ''heavy_check_mark'', ''ballot_box_with_check'', ''+1'', ''thumbsup'',
      ''ok'', ''ok_hand'', ''100'', ''heavy_plus_sign'', ''handshake'', ''raised_hands'', ''pray'', ''clap'',
      ''wave'', ''memo'', ''pencil2'', ''hourglass_flowing_sand'', ''stopwatch'', ''inbox_tray'', ''pushpin'',
      ''mag'', ''bulb'', ''speech_balloon'', ''thinking_face'', ''slightly_smiling_face'', ''heart'', ''tada'',
      ''rocket'', ''sparkles'']"

definition READS_AS_APPROVAL :: "jstr list" where
  "READS_AS_APPROVAL = map js
     [''white_check_mark'', ''heavy_check_mark'', ''ballot_box_with_check'', ''+1'', ''thumbsup'', ''ok'',
      ''ok_hand'', ''100'', ''heavy_plus_sign'', ''handshake'']"

definition isStandardEmoji :: "jstr \<Rightarrow> bool" where
  "isStandardEmoji name \<longleftrightarrow> name \<in> set STANDARD_EMOJI"

fun actName :: "standing_act \<Rightarrow> jstr" where
  "actName ActReaction = js ''reaction''"
| "actName ActReply = js ''reply''"

definition standingContentDigest :: "runtime \<Rightarrow> standing_act \<Rightarrow> jstr \<Rightarrow> jstr" where
  "standingContentDigest rt kind t =
     rtSha rt (canonicalJson (JObj [(js ''kind'', Some (JStr (actName kind))), (js ''text'', Some (JStr t))]))"

text \<open>\<open>/^:[^:]+:$/\<close>, then the name between the colons.\<close>

definition betweenColons :: "jstr \<Rightarrow> bool" where
  "betweenColons s \<longleftrightarrow> 3 \<le> length s \<and> hd s = 58 \<and> last s = 58 \<and> 58 \<notin> set (butlast (tl s))"

definition reactionName :: "jstr \<Rightarrow> content_refusal + jstr" where
  "reactionName written =
     (let trimmed = trim written;
          name = (if betweenColons trimmed then butlast (tl trimmed) else trimmed)
      in if isStandardEmoji name then Inr name else Inl CustomEmoji)"

text \<open>\<open>REPLY_RULES\<close>, in the order checked: the first that applies is the reason.\<close>

definition REPLY_RULES :: "runtime \<Rightarrow> (content_refusal \<times> (jstr \<Rightarrow> bool)) list" where
  "REPLY_RULES rt =
     [(MultiLine, list_ex (\<lambda>u. u \<in> {13, 10, 0x2028, 0x2029})),
      (Pictograph, \<lambda>t. list_ex (\<lambda>c. rtPictographic rt c \<or> c = 0x2713) (charPoints t)),
      (ControlCharacter, \<lambda>t. list_ex (\<lambda>c. c = 9 \<or> isDangerous c) (charPoints t)),
      (Mention, \<lambda>t. 64 \<in> set t \<or> hasAngleMention t),
      (Link, \<lambda>t. let l = map asciiLower t
             in contains (js ''://'') l \<or> contains (js ''www.'') l \<or> contains (js ''mailto:'') l \<or> hasDomain l),
      (Placeholder, list_ex (\<lambda>u. u \<in> {123, 125, 91, 93})),
      (Markup, list_ex (\<lambda>u. u \<in> {60, 62, 42, 95, 126, 96, 124})),
      (EmojiCode, hasEmojiCode)]"

definition brokenRule :: "runtime \<Rightarrow> jstr \<Rightarrow> content_refusal option" where
  "brokenRule rt t = map_option fst (find (\<lambda>(reason, breaks). breaks t) (REPLY_RULES rt))"

definition replyText :: "runtime \<Rightarrow> jstr \<Rightarrow> content_refusal + jstr" where
  "replyText rt written =
     (let t = trim written in
      if t = [] then Inl EmptyReply
      else case brokenRule rt t of
          Some reason \<Rightarrow> Inl reason
        | None \<Rightarrow>
            if STANDING_MAX_REPLY_LENGTH < length (charPoints t) then Inl TooLong else Inr t)"

text \<open>\<open>APPROVAL_WORDS\<close>, and the two warnings. \<open>0x2705\<close> is the check mark the warning shows.\<close>

definition APPROVAL_WORDS :: "(string \<times> string list) list" where
  "APPROVAL_WORDS =
     [(''yes'', [''yes'']), (''approved'', [''approved'']), (''approve'', [''approve'']),
      (''go ahead'', [''go'', ''ahead'']), (''lgtm'', [''lgtm'']), (''ok'', [''ok'']), (''done'', [''done'']),
      (''confirmed'', [''confirmed''])]"

definition replyWarningPrefix :: "jstr \<Rightarrow> jstr" where
  "replyWarningPrefix t = js ''The reply '' @ [34] @ t @ [34] @ js '' can read as approval:''"

definition replyReadsAsApproval :: "jstr \<Rightarrow> jstr option" where
  "replyReadsAsApproval t =
     (let said = [[34] @ js word @ [34]. (word, pattern) \<leftarrow> APPROVAL_WORDS,
                    hasWords (map js pattern) False (map asciiLower t)]
      in if said = [] then None
         else Some (replyWarningPrefix t @ js '' it says '' @ join (js '', '') said @ js ''. People read '' @
           [34] @ js ''OK'' @ [34] @ js '' or '' @ [34] @ js ''Done'' @ [34] @ js '' on '' @ [34] @
           js ''can I deploy?'' @ [34] @ js '' as a yes.''))"

definition readsAsApprovalWarning :: "jstr \<Rightarrow> jstr" where
  "readsAsApprovalWarning name =
     js '':'' @ name @ js '': can read as approval: people read '' @ [0x2705] @ js '' on '' @ [34] @
     js ''can I deploy?'' @ [34] @ js '' as a yes, and a Slack workflow can start on a reaction.''"

fun mapResult :: "('a \<Rightarrow> 'e + 'b) \<Rightarrow> 'a list \<Rightarrow> 'e + 'b list" where
  "mapResult f [] = Inr []"
| "mapResult f (x # xs) = result_bind (f x) (\<lambda>y. result_bind (mapResult f xs) (\<lambda>ys. Inr (y # ys)))"

definition contentOf :: "runtime \<Rightarrow> standing_act \<Rightarrow> jstr \<Rightarrow> standing_content" where
  "contentOf rt kind t = \<lparr>sc_kind = kind, sc_text = t, sc_digest = standingContentDigest rt kind t\<rparr>"

definition contentWarnings :: "jstr list \<Rightarrow> jstr list \<Rightarrow> jstr list" where
  "contentWarnings names texts =
     map readsAsApprovalWarning (filter (\<lambda>n. n \<in> set READS_AS_APPROVAL) names) @
     List.map_filter replyReadsAsApproval texts"

definition checkedContents ::
  "runtime \<Rightarrow> jstr list \<Rightarrow> jstr list \<Rightarrow> content_refusal + (standing_content list \<times> jstr list)" where
  "checkedContents rt reactions replies =
     (if STANDING_MAX_REACTIONS < length reactions then Inl TooManyReactions
      else if STANDING_MAX_REPLIES < length replies then Inl TooManyReplies
      else result_bind
        (if reactions = [] \<and> replies = [] then Inr [STANDING_DEFAULT_REACTION] else mapResult reactionName reactions)
        (\<lambda>names. result_bind (mapResult (replyText rt) replies)
        (\<lambda>texts.
          let contents = map (contentOf rt ActReaction) names @ map (contentOf rt ActReply) texts
          in if \<not> distinct (map sc_digest contents) then Inl Duplicate
             else Inr (contents, contentWarnings names texts))))"

section \<open>The digest of a standing approval\<close>

definition jobj :: "(string \<times> json option) list \<Rightarrow> json" where
  "jobj es = JObj (map (\<lambda>(k, v). (js k, v)) es)"

definition jstring :: "string \<Rightarrow> json" where
  "jstring s = JStr (js s)"

fun jnullable :: "('a \<Rightarrow> json) \<Rightarrow> 'a option \<Rightarrow> json" where
  "jnullable f None = JNull"
| "jnullable f (Some x) = f x"

definition contentJson :: "standing_content \<Rightarrow> json" where
  "contentJson c =
     jobj [(''kind'', Some (JStr (actName (sc_kind c)))), (''text'', Some (JStr (sc_text c))),
           (''digest'', Some (JStr (sc_digest c)))]"

definition sharedJson :: "shared_state \<Rightarrow> json" where
  "sharedJson s =
     jobj [(''extShared'', Some (JBool (sh_ext s))), (''pendingExtShared'', Some (JBool (sh_pendingExt s))),
           (''externalMembers'', Some (jnullable JBool (sh_externalMembers s)))]"

definition placeJson :: "exact_place \<Rightarrow> json" where
  "placeJson p =
     jobj [(''id'', Some (JStr (pl_id p))), (''name'', Some (jnullable JStr (pl_name p))),
           (''members'', Some (JNum (pl_members p))), (''shared'', Some (sharedJson (pl_shared p)))]"

fun canonicalPlaces :: "standing_places \<Rightarrow> json" where
  "canonicalPlaces ThreadsIAmIn = jobj [(''kind'', Some (jstring ''threads-i-am-in''))]"
| "canonicalPlaces (Exact ps) =
     jobj [(''kind'', Some (jstring ''exact'')), (''places'', Some (JArr (map placeJson ps)))]"

definition limitsJson :: "standing_limits \<Rightarrow> json" where
  "limitsJson l =
     jobj [(''perThread'', Some (JNum (sl_perThread l))), (''perHour'', Some (JNum (sl_perHour l))),
           (''perDay'', Some (JNum (sl_perDay l))), (''perSender'', Some (JNum (sl_perSender l))),
           (''expiresDays'', Some (JNum (sl_expiresDays l)))]"

fun proposerName :: "proposer \<Rightarrow> string" where
  "proposerName ByAgent = ''agent''"
| "proposerName ByPerson = ''person''"

definition standingJson :: "standing_binding \<Rightarrow> json" where
  "standingJson b =
     jobj [(''kind'', Some (jstring ''standing'')),
           (''target'', Some (jobj [(''kind'', Some (jstring ''account'')),
              (''name'', Some (JStr (sb_targetName b))), (''id'', Some (JStr (sb_targetId b)))])),
           (''contents'', Some (JArr (map contentJson (sb_contents b)))),
           (''places'', Some (canonicalPlaces (sb_places b))),
           (''limits'', Some (limitsJson (sb_limits b))),
           (''proposedBy'', Some (jstring (proposerName (sb_proposedBy b)))),
           (''replaces'', Some (jnullable JStr (sb_replaces b))),
           (''warnings'', Some (JArr (map JStr (sb_warnings b))))]"

definition standingDigest :: "runtime \<Rightarrow> standing_binding \<Rightarrow> jstr" where
  "standingDigest rt b = rtSha rt (canonicalJson (standingJson b))"

section \<open>Narrowing\<close>

text \<open>The two filters of \<open>effectiveStanding\<close>: what is kept must be held, and something must be.\<close>

definition keptContents :: "jstr list option \<Rightarrow> standing_content list \<Rightarrow> error_code + standing_content list" where
  "keptContents keep contents =
     (case keep of None \<Rightarrow> Inr contents
      | Some ds \<Rightarrow>
          if \<not> list_all (\<lambda>d. list_ex (\<lambda>c. sc_digest c = d) contents) ds then Inl USAGE
          else let kept = filter (\<lambda>c. sc_digest c \<in> set ds) contents
               in if kept = [] then Inl USAGE else Inr kept)"

definition keptPlaces :: "jstr list option \<Rightarrow> standing_places \<Rightarrow> error_code + standing_places" where
  "keptPlaces keep places =
     (case keep of None \<Rightarrow> Inr places
      | Some ids \<Rightarrow>
          (case places of ThreadsIAmIn \<Rightarrow> Inl USAGE
           | Exact held \<Rightarrow>
               if \<not> list_all (\<lambda>i. list_ex (\<lambda>p. pl_id p = i) held) ids then Inl USAGE
               else let kept = filter (\<lambda>p. pl_id p \<in> set ids) held
                    in if kept = [] then Inl USAGE else Inr (Exact kept)))"

definition lowerLimits :: "narrowed_limits option \<Rightarrow> standing_limits \<Rightarrow> standing_limits" where
  "lowerLimits lower limits =
     (case lower of None \<Rightarrow> limits
      | Some l \<Rightarrow> limitsBy (\<lambda>n. case narrowedLimitOf l n of None \<Rightarrow> limitOf limits n
                                   | Some v \<Rightarrow> min (limitOf limits n) v))"

definition effectiveStanding ::
  "standing_binding \<Rightarrow> standing_narrowing option \<Rightarrow> error_code + standing_binding" where
  "effectiveStanding b narrowed =
     (case narrowed of None \<Rightarrow> Inr b
      | Some n \<Rightarrow>
          result_bind (keptContents (sn_keep n) (sb_contents b)) (\<lambda>contents.
          result_bind (keptPlaces (sn_places n) (sb_places b)) (\<lambda>places.
            Inr (b\<lparr>sb_contents := contents, sb_places := places,
                   sb_limits := lowerLimits (sn_limits n) (sb_limits b)\<rparr>))))"

definition placeCovered :: "exact_place list \<Rightarrow> exact_place \<Rightarrow> bool" where
  "placeCovered held p =
     (case find (\<lambda>h. pl_id h = pl_id p) held of None \<Rightarrow> False
      | Some h \<Rightarrow>
          canonicalJson (sharedJson (pl_shared h)) = canonicalJson (sharedJson (pl_shared p)) \<and>
          (pl_members p < STANDING_BIG_ROOM \<or> STANDING_BIG_ROOM \<le> pl_members h))"

datatype standing_change = Same | Narrows | Widens

fun samePlaceKind :: "standing_places \<Rightarrow> standing_places \<Rightarrow> bool" where
  "samePlaceKind (Exact _) (Exact _) = True"
| "samePlaceKind ThreadsIAmIn ThreadsIAmIn = True"
| "samePlaceKind _ _ = False"

fun exactPlaces :: "standing_places \<Rightarrow> exact_place list" where
  "exactPlaces (Exact ps) = ps"
| "exactPlaces ThreadsIAmIn = []"

definition widensStanding :: "standing_binding \<Rightarrow> standing_binding \<Rightarrow> bool" where
  "widensStanding b a \<longleftrightarrow>
     sb_targetId b \<noteq> sb_targetId a
     \<or> list_ex (\<lambda>c. sc_digest c \<notin> sc_digest ` set (sb_contents b)) (sb_contents a)
     \<or> \<not> samePlaceKind (sb_places b) (sb_places a)
     \<or> list_ex (\<lambda>p. \<not> placeCovered (exactPlaces (sb_places b)) p) (exactPlaces (sb_places a))
     \<or> list_ex (\<lambda>n. limitOf (sb_limits b) n < limitOf (sb_limits a) n) LIMIT_NAMES"

definition classifyStandingChange :: "standing_binding \<Rightarrow> standing_binding \<Rightarrow> standing_change" where
  "classifyStandingChange b a =
     (if widensStanding b a then Widens
      else
        let fewerContents = list_ex (\<lambda>c. sc_digest c \<notin> sc_digest ` set (sb_contents a)) (sb_contents b);
            fewerPlaces = list_ex (\<lambda>p. \<not> list_ex (\<lambda>now. pl_id now = pl_id p) (exactPlaces (sb_places a)))
                                  (exactPlaces (sb_places b));
            lower = list_ex (\<lambda>n. limitOf (sb_limits a) n < limitOf (sb_limits b) n) LIMIT_NAMES
        in if fewerContents \<or> fewerPlaces \<or> lower then Narrows else Same)"

definition narrowedFurther ::
  "standing_binding \<Rightarrow> standing_narrowing option \<Rightarrow> standing_narrowing \<Rightarrow> error_code + standing_narrowing" where
  "narrowedFurther b narrowed wanted =
     result_bind (effectiveStanding b narrowed) (\<lambda>now.
     result_bind (effectiveStanding now
         (Some \<lparr>sn_keep = sn_keep wanted, sn_places = sn_places wanted, sn_limits = None\<rparr>)) (\<lambda>kept.
     let asked = narrowedLimitsBy (\<lambda>n. case sn_limits wanted of
             None \<Rightarrow> Some (limitOf (sb_limits kept) n)
           | Some l \<Rightarrow> (case narrowedLimitOf l n of Some v \<Rightarrow> Some v | None \<Rightarrow> Some (limitOf (sb_limits kept) n)))
     in result_bind (checkedLimits asked) (\<lambda>limits.
        let after = kept\<lparr>sb_limits := limits\<rparr>
        in if classifyStandingChange now after = Widens then Inl USAGE
           else Inr \<lparr>sn_keep = Some (map sc_digest (sb_contents after)),
                     sn_places = (case sb_places after of Exact ps \<Rightarrow> Some (map pl_id ps) | ThreadsIAmIn \<Rightarrow> None),
                     sn_limits = Some (allLimits (sb_limits after))\<rparr>)))"

definition standingDays :: "standing_binding \<Rightarrow> standing_narrowing option \<Rightarrow> int" where
  "standingDays b narrowed =
     (case narrowed of None \<Rightarrow> sl_expiresDays (sb_limits b)
      | Some n \<Rightarrow> (case sn_limits n of None \<Rightarrow> sl_expiresDays (sb_limits b)
        | Some l \<Rightarrow> (case nl_expiresDays l of None \<Rightarrow> sl_expiresDays (sb_limits b)
          | Some d \<Rightarrow> min (sl_expiresDays (sb_limits b)) d)))"

text \<open>\<open><n>d\<close>: \<open>/^([1-9][0-9]?)d$/\<close>, and within the table.\<close>

definition parseExpiry :: "jstr \<Rightarrow> error_code + int" where
  "parseExpiry t =
     (let digits = butlast t in
      if t \<noteq> [] \<and> last t = 100 \<and> length digits \<in> {1, 2} \<and> list_all isNumeral digits \<and> hd digits \<noteq> 48
         \<and> limitInRange ExpiresDays (int (numberOf digits))
      then Inr (int (numberOf digits)) else Inl USAGE)"

section \<open>What a standing record may hold\<close>

fun exactPlacesProblem :: "jstr list \<Rightarrow> exact_place list \<Rightarrow> string option" where
  "exactPlacesProblem seen [] = None"
| "exactPlacesProblem seen (p # ps) =
     (if \<not> standingPlacePattern (pl_id p) then Some ''a place is not a Slack channel or DM id''
      else if pl_id p \<in> set seen then Some ''a place is named twice''
      else if pl_members p < 0 \<or> MAX_SAFE_INTEGER < pl_members p then Some ''a place has no member count''
      else exactPlacesProblem (pl_id p # seen) ps)"

fun placesProblem :: "standing_places \<Rightarrow> string option" where
  "placesProblem ThreadsIAmIn = None"
| "placesProblem (Exact ps) = (if ps = [] then Some ''it names no place'' else exactPlacesProblem [] ps)"

definition contentsText :: "standing_content list \<Rightarrow> jstr" where
  "contentsText cs = canonicalJson (JArr (map contentJson cs))"

definition textsOf :: "standing_act \<Rightarrow> standing_content list \<Rightarrow> jstr list" where
  "textsOf kind cs = map sc_text (filter (\<lambda>c. sc_kind c = kind) cs)"

definition limitsProblem :: "standing_limits \<Rightarrow> string option" where
  "limitsProblem l =
     (case checkedLimits (allLimits l) of
        Inl _ \<Rightarrow> Some ''a limit is outside the table''
      | Inr c \<Rightarrow> if canonicalJson (limitsJson c) \<noteq> canonicalJson (limitsJson l)
                 then Some ''its limits are not whole and complete'' else None)"

definition standingBindingProblem :: "runtime \<Rightarrow> standing_binding \<Rightarrow> string option" where
  "standingBindingProblem rt b =
     (if \<not> accountIdPattern (sb_targetId b) then Some ''it names no account by its id''
      else case checkedContents rt (textsOf ActReaction (sb_contents b)) (textsOf ActReply (sb_contents b)) of
        Inl _ \<Rightarrow> Some ''a content is not one a standing approval may hold''
      | Inr (checked, warnings) \<Rightarrow>
          if sb_contents b = [] then Some ''it holds no content''
          else if contentsText checked \<noteq> contentsText (sb_contents b)
            then Some ''its contents are not as checked, in order, with their digests''
          else case placesProblem (sb_places b) of
            Some problem \<Rightarrow> Some problem
          | None \<Rightarrow>
              (case limitsProblem (sb_limits b) of
                Some problem \<Rightarrow> Some problem
              | None \<Rightarrow>
                  if (case sb_replaces b of None \<Rightarrow> False | Some i \<Rightarrow> \<not> approvalIdPattern i)
                    then Some ''what it replaces is not an approval id''
                  else if canonicalJson (JArr (map JStr (sb_warnings b))) \<noteq> canonicalJson (JArr (map JStr warnings))
                    then Some ''its warnings are not the ones its contents give''
                  else None))"

text \<open>The copy \<open>canonicalStandingBinding\<close> makes has the same members: a record is its own copy.\<close>

definition canonicalStandingBinding :: "runtime \<Rightarrow> standing_binding \<Rightarrow> error_code + standing_binding" where
  "canonicalStandingBinding rt b = (if standingBindingProblem rt b \<noteq> None then Inl BAD_DATA else Inr b)"

definition narrowedLimitProblem :: "standing_binding \<Rightarrow> narrowed_limits \<Rightarrow> limit_name \<Rightarrow> string option" where
  "narrowedLimitProblem b l n =
     (case narrowedLimitOf l n of None \<Rightarrow> None
      | Some v \<Rightarrow>
          if MAX_SAFE_INTEGER < v \<or> v < fst (snd (STANDING_LIMITS n)) then Some ''a limit is outside the table''
          else if limitOf (sb_limits b) n < v then Some ''it raises a limit'' else None)"

definition standingNarrowingProblem :: "standing_binding \<Rightarrow> standing_narrowing option \<Rightarrow> string option" where
  "standingNarrowingProblem b narrowed =
     (case narrowed of None \<Rightarrow> None
      | Some n \<Rightarrow>
          let problems = (case sn_limits n of None \<Rightarrow> []
                 | Some l \<Rightarrow> List.map_filter (narrowedLimitProblem b l) LIMIT_NAMES)
          in if problems \<noteq> [] then Some (hd problems)
             else (case effectiveStanding b narrowed of
                     Inl _ \<Rightarrow> Some ''it keeps what the standing approval does not hold''
                   | Inr _ \<Rightarrow> None))"


section \<open>Narrowing only takes away\<close>

text \<open>What standing under \<open>a\<close> permits is permitted under \<open>b\<close>.\<close>

definition permitsWithin :: "standing_binding \<Rightarrow> standing_binding \<Rightarrow> bool" where
  "permitsWithin a b \<longleftrightarrow>
     sb_targetId a = sb_targetId b \<and> samePlaceKind (sb_places b) (sb_places a) \<and>
     sc_digest ` set (sb_contents a) \<subseteq> sc_digest ` set (sb_contents b) \<and>
     (\<forall>p \<in> set (exactPlaces (sb_places a)). placeCovered (exactPlaces (sb_places b)) p) \<and>
     (\<forall>n \<in> set LIMIT_NAMES. limitOf (sb_limits a) n \<le> limitOf (sb_limits b) n)"

lemma list_ex_not: "list_ex (\<lambda>x. \<not> P x) xs \<longleftrightarrow> \<not> (\<forall>x \<in> set xs. P x)"
  by (induction xs) auto

lemma widensStanding_iff: "widensStanding b a \<longleftrightarrow> \<not> permitsWithin a b"
  unfolding widensStanding_def permitsWithin_def not_le [symmetric] list_ex_not image_subset_iff
  by (simp add: eq_commute [of "sb_targetId a"])

lemma classify_Widens: "classifyStandingChange b a = Widens \<longleftrightarrow> \<not> permitsWithin a b"
  by (simp add: classifyStandingChange_def widensStanding_iff Let_def)

lemma permitsWithin_limit: "permitsWithin a b \<Longrightarrow> limitOf (sb_limits a) n \<le> limitOf (sb_limits b) n"
  by (simp add: permitsWithin_def)

lemma samePlaceKind_refl [simp]: "samePlaceKind p p"
  by (cases p) simp_all

lemma samePlaceKind_Exact: "samePlaceKind (Exact xs) q \<Longrightarrow> q = Exact (exactPlaces q)"
  by (cases q) simp_all

lemma samePlaceKind_Threads: "samePlaceKind ThreadsIAmIn q \<Longrightarrow> q = ThreadsIAmIn"
  by (cases q) simp_all

lemma samePlaceKind_trans: "samePlaceKind p q \<Longrightarrow> samePlaceKind q r \<Longrightarrow> samePlaceKind p r"
  by (cases p; cases q; cases r) simp_all

lemma limitInRange_bounds: "limitInRange n v \<Longrightarrow> fst (snd (STANDING_LIMITS n)) \<le> v \<and> v \<le> 100"
  by (cases n) (auto simp: limitInRange_def)

lemma checkedLimits_Inr: "checkedLimits i = Inr l \<Longrightarrow> limitInRange n (limitOf l n)"
  by (auto simp: checkedLimits_def Let_def list_all_iff split: if_splits)

lemma checkedLimits_all:
  "checkedLimits (allLimits l) = (if \<forall>n. limitInRange n (limitOf l n) then Inr l else Inl BAD_DATA)"
proof -
  have "limitsBy (\<lambda>n. limitOf l n) = l" by simp
  then show ?thesis by (simp add: checkedLimits_def Let_def list_all_iff allLimits_def)
qed

lemma limitsProblem_None: "limitsProblem l = None \<longleftrightarrow> (\<forall>n. limitInRange n (limitOf l n))"
  by (simp add: limitsProblem_def checkedLimits_all)

text \<open>\<open>ys\<close> is what a set of names keeps of \<open>xs\<close>, and something is kept.\<close>

definition keepsBy :: "('a \<Rightarrow> 'b) \<Rightarrow> 'a list \<Rightarrow> 'a list \<Rightarrow> bool" where
  "keepsBy f ys xs \<longleftrightarrow> ys = filter (\<lambda>x. f x \<in> f ` set ys) xs \<and> (xs \<noteq> [] \<longrightarrow> ys \<noteq> [])"

lemma keepsBy_refl [simp]: "keepsBy f xs xs"
  by (simp add: keepsBy_def)

lemma keepsBy_filter: "filter (\<lambda>x. f x \<in> D) xs \<noteq> [] \<Longrightarrow> keepsBy f (filter (\<lambda>x. f x \<in> D) xs) xs"
  unfolding keepsBy_def by (auto intro: filter_cong)

lemma keepsBy_trans:
  assumes "keepsBy f ys xs" "keepsBy f zs ys"
  shows "keepsBy f zs xs"
proof -
  have "zs = filter (\<lambda>x. f x \<in> f ` set zs) (filter (\<lambda>x. f x \<in> f ` set ys) xs)"
    using assms unfolding keepsBy_def by metis
  moreover have "f ` set zs \<subseteq> f ` set ys"
    using assms(2) unfolding keepsBy_def by (metis filter_is_subset image_mono)
  ultimately have "zs = filter (\<lambda>x. f x \<in> f ` set zs) xs"
    by (smt (verit, best) filter_cong filter_filter subsetD)
  then show ?thesis using assms by (auto simp: keepsBy_def)
qed

lemma keptContents_keepsBy: "keptContents keep cs = Inr ds \<Longrightarrow> keepsBy sc_digest ds cs"
  by (cases keep) (auto simp: keptContents_def Let_def split: if_splits intro!: keepsBy_filter)

lemma keptPlaces_keepsBy:
  "keptPlaces keep ps = Inr qs \<Longrightarrow>
     samePlaceKind ps qs \<and> keepsBy pl_id (exactPlaces qs) (exactPlaces ps)"
  by (cases keep; cases ps) (auto simp: keptPlaces_def Let_def split: if_splits intro!: keepsBy_filter)

lemma keptContents_again:
  assumes "keepsBy sc_digest ds cs" "cs \<noteq> []"
  shows "keptContents (Some (map sc_digest ds)) cs = Inr ds"
proof -
  from assms have "filter (\<lambda>c. sc_digest c \<in> sc_digest ` set ds) cs = ds" "ds \<noteq> []"
    unfolding keepsBy_def by auto
  moreover have "set ds \<subseteq> set cs" using assms unfolding keepsBy_def by (metis filter_is_subset)
  ultimately show ?thesis
    by (auto simp: keptContents_def Let_def list_all_iff list_ex_iff)
qed

lemma keptPlaces_again:
  assumes "keepsBy pl_id ys xs" "xs \<noteq> []"
  shows "keptPlaces (Some (map pl_id ys)) (Exact xs) = Inr (Exact ys)"
proof -
  from assms have "filter (\<lambda>p. pl_id p \<in> pl_id ` set ys) xs = ys" "ys \<noteq> []"
    unfolding keepsBy_def by auto
  moreover have "set ys \<subseteq> set xs" using assms unfolding keepsBy_def by (metis filter_is_subset)
  ultimately show ?thesis
    by (auto simp: keptPlaces_def Let_def list_all_iff list_ex_iff)
qed

text \<open>Every standing in force keeps some contents and places, by digest and by id, and lower limits.\<close>

definition keptOf :: "standing_binding \<Rightarrow> standing_binding \<Rightarrow> bool" where
  "keptOf a b \<longleftrightarrow>
     keepsBy sc_digest (sb_contents a) (sb_contents b) \<and>
     samePlaceKind (sb_places b) (sb_places a) \<and>
     keepsBy pl_id (exactPlaces (sb_places a)) (exactPlaces (sb_places b)) \<and>
     (\<forall>n. limitOf (sb_limits a) n \<le> limitOf (sb_limits b) n) \<and>
     sb_summary a = sb_summary b \<and> sb_targetName a = sb_targetName b \<and> sb_targetId a = sb_targetId b \<and>
     sb_proposedBy a = sb_proposedBy b \<and> sb_replaces a = sb_replaces b \<and> sb_warnings a = sb_warnings b"

lemma lowerLimits_le: "limitOf (lowerLimits l limits) n \<le> limitOf limits n"
  by (auto simp: lowerLimits_def split: option.splits)

lemma keptOf_refl [simp]: "keptOf b b"
  by (simp add: keptOf_def)

lemma keptOf_trans: "keptOf b c \<Longrightarrow> keptOf a b \<Longrightarrow> keptOf a c"
  unfolding keptOf_def by (auto elim: keepsBy_trans samePlaceKind_trans intro: order_trans)

lemma keptOf_update:
  "keptOf a b \<Longrightarrow> b\<lparr>sb_contents := sb_contents a, sb_places := sb_places a, sb_limits := l\<rparr> = a\<lparr>sb_limits := l\<rparr>"
  by (simp add: keptOf_def)

lemma effectiveStanding_keptOf:
  assumes "effectiveStanding b n = Inr a"
  shows "keptOf a b"
proof (cases n)
  case None
  with assms show ?thesis by (simp add: effectiveStanding_def)
next
  case (Some m)
  with assms obtain cs ps where k: "keptContents (sn_keep m) (sb_contents b) = Inr cs"
    "keptPlaces (sn_places m) (sb_places b) = Inr ps"
    and a: "a = b\<lparr>sb_contents := cs, sb_places := ps, sb_limits := lowerLimits (sn_limits m) (sb_limits b)\<rparr>"
    by (auto simp: effectiveStanding_def result_bind_eq_Inr)
  show ?thesis
    using keptContents_keepsBy [OF k(1)] keptPlaces_keepsBy [OF k(2)]
    by (simp add: keptOf_def a lowerLimits_le)
qed

lemma narrowedFurther_Inr:
  assumes "narrowedFurther b n w = Inr m"
  obtains now kept l where "effectiveStanding b n = Inr now"
    "keptOf kept now" "\<And>i. limitInRange i (limitOf l i)" "permitsWithin (kept\<lparr>sb_limits := l\<rparr>) now"
    "m = \<lparr>sn_keep = Some (map sc_digest (sb_contents kept)),
          sn_places = (case sb_places kept of Exact ps \<Rightarrow> Some (map pl_id ps) | ThreadsIAmIn \<Rightarrow> None),
          sn_limits = Some (allLimits l)\<rparr>"
  using assms unfolding narrowedFurther_def result_bind_eq_Inr Let_def
  by (clarsimp simp: result_bind_eq_Inr classify_Widens split: if_splits)
    (blast dest: checkedLimits_Inr effectiveStanding_keptOf)

lemma lowerLimits_all:
  "(\<And>n. limitOf l n \<le> limitOf b n) \<Longrightarrow> lowerLimits (Some (allLimits l)) b = l"
  by (intro limits_eqI) (simp add: lowerLimits_def allLimits_def min.absorb2)

lemma narrowedFurther_effective:
  assumes ne: "sb_contents b \<noteq> []" "\<And>ps. sb_places b = Exact ps \<Longrightarrow> ps \<noteq> []"
    and m: "narrowedFurther b n w = Inr m"
  shows "\<exists>now after. effectiveStanding b n = Inr now \<and> effectiveStanding b (Some m) = Inr after \<and>
           permitsWithin after now \<and> standingNarrowingProblem b (Some m) = None"
proof -
  obtain now kept l where now: "effectiveStanding b n = Inr now" "keptOf kept now"
    and l: "\<And>i. limitInRange i (limitOf l i)" and within: "permitsWithin (kept\<lparr>sb_limits := l\<rparr>) now"
    and mdef: "m = \<lparr>sn_keep = Some (map sc_digest (sb_contents kept)),
          sn_places = (case sb_places kept of Exact ps \<Rightarrow> Some (map pl_id ps) | ThreadsIAmIn \<Rightarrow> None),
          sn_limits = Some (allLimits l)\<rparr>"
    using narrowedFurther_Inr [OF m] by metis
  have k: "keptOf kept b" using keptOf_trans effectiveStanding_keptOf now by blast
  have le: "limitOf l i \<le> limitOf (sb_limits b) i" for i
    using permitsWithin_limit [OF within, of i] effectiveStanding_keptOf [OF now(1)]
    by (simp add: keptOf_def) (meson order_trans)
  have c: "keptContents (Some (map sc_digest (sb_contents kept))) (sb_contents b) = Inr (sb_contents kept)"
    using k ne(1) by (simp add: keptOf_def keptContents_again)
  have p: "keptPlaces (sn_places m) (sb_places b) = Inr (sb_places kept)"
  proof (cases "sb_places b")
    case ThreadsIAmIn
    then have "sb_places kept = ThreadsIAmIn" using k by (simp add: keptOf_def samePlaceKind_Threads)
    with ThreadsIAmIn show ?thesis by (simp add: mdef keptPlaces_def)
  next
    case (Exact xs)
    then obtain ys where ys: "sb_places kept = Exact ys" "keepsBy pl_id ys xs"
      using k samePlaceKind_Exact unfolding keptOf_def by (metis exactPlaces.simps(1))
    then show ?thesis
      using keptPlaces_again ne(2) [OF Exact] by (simp add: Exact mdef)
  qed
  have eff: "effectiveStanding b (Some m) = Inr (kept\<lparr>sb_limits := l\<rparr>)"
    using c p lowerLimits_all [OF le] by (simp add: effectiveStanding_def mdef keptOf_update [OF k])
  have "narrowedLimitProblem b (allLimits l) i = None" for i
    using le [of i] l [of i]
    using limitInRange_bounds by (fastforce simp: narrowedLimitProblem_def allLimits_def MAX_SAFE_INTEGER_def)
  then have "List.map_filter (narrowedLimitProblem b (allLimits l)) LIMIT_NAMES = []"
    by (simp add: map_filter_def)
  then have "standingNarrowingProblem b (Some m) = None"
    using eff by (simp add: standingNarrowingProblem_def mdef)
  with eff now within show ?thesis by blast
qed

section \<open>Checking again what was checked\<close>

lemma replyText_again: "replyText rt w = Inr t \<Longrightarrow> replyText rt t = Inr t"
  by (auto simp: replyText_def Let_def split: if_splits option.splits)

lemma standard_trim: "list_all (\<lambda>n. trim n = n \<and> \<not> betweenColons n) STANDARD_EMOJI"
  by (simp add: STANDARD_EMOJI_def trim_def trimEnd_def isSpace_def betweenColons_def js_eval)

lemma reactionName_again: "reactionName w = Inr n \<Longrightarrow> reactionName n = Inr n"
  using standard_trim
  by (auto simp: reactionName_def Let_def isStandardEmoji_def list_all_iff split: if_splits)

lemma default_reaction: "reactionName STANDING_DEFAULT_REACTION = Inr STANDING_DEFAULT_REACTION"
  using standard_trim
  by (simp add: reactionName_def isStandardEmoji_def STANDING_DEFAULT_REACTION_def STANDARD_EMOJI_def)

lemma mapResult_again:
  "(\<And>x y. f x = Inr y \<Longrightarrow> f y = Inr y) \<Longrightarrow> mapResult f xs = Inr ys \<Longrightarrow> mapResult f ys = Inr ys \<and> length ys = length xs"
  by (induction xs arbitrary: ys) (auto simp: result_bind_eq_Inr)

lemma textsOf_contents [simp]:
  "textsOf ActReaction (map (contentOf rt ActReaction) ns @ map (contentOf rt ActReply) ts) = ns"
  "textsOf ActReply (map (contentOf rt ActReaction) ns @ map (contentOf rt ActReply) ts) = ts"
  by (simp_all add: textsOf_def comp_def contentOf_def)

lemma checkedContents_Inr:
  assumes "checkedContents rt rs ps = Inr (cs, ws)"
  obtains names texts where "mapResult reactionName names = Inr names" "mapResult (replyText rt) texts = Inr texts"
    "names \<noteq> [] \<or> texts \<noteq> []" "length names \<le> 5" "length texts \<le> 5"
    "cs = map (contentOf rt ActReaction) names @ map (contentOf rt ActReply) texts"
    "distinct (map sc_digest cs)" "ws = contentWarnings names texts"
proof -
  from assms obtain names texts where
    n: "(if rs = [] \<and> ps = [] then Inr [STANDING_DEFAULT_REACTION] else mapResult reactionName rs) = Inr names"
    and t: "mapResult (replyText rt) ps = Inr texts"
    and c: "cs = map (contentOf rt ActReaction) names @ map (contentOf rt ActReply) texts"
      "distinct (map sc_digest cs)" "ws = contentWarnings names texts"
    and le: "length rs \<le> 5" "length ps \<le> 5"
    unfolding checkedContents_def result_bind_eq_Inr
    by (auto simp: result_bind_eq_Inr Let_def STANDING_MAX_REACTIONS_def STANDING_MAX_REPLIES_def
      split: if_splits)
  have "mapResult reactionName names = Inr names \<and> length names \<le> 5 \<and> (names \<noteq> [] \<or> texts \<noteq> [])"
    using n t le mapResult_again [OF reactionName_again, where xs = rs and ys = names]
      mapResult_again [OF replyText_again, where xs = ps and ys = texts]
    by (cases "rs = [] \<and> ps = []") (auto simp: default_reaction)
  moreover have "mapResult (replyText rt) texts = Inr texts" "length texts \<le> 5"
    using mapResult_again [OF replyText_again t] le by auto
  ultimately show thesis using that c by blast
qed

lemma checkedContents_again:
  assumes "checkedContents rt rs ps = Inr (cs, ws)"
  shows "checkedContents rt (textsOf ActReaction cs) (textsOf ActReply cs) = Inr (cs, ws) \<and> cs \<noteq> []"
  using assms
  by (elim checkedContents_Inr)
    (auto simp: checkedContents_def STANDING_MAX_REACTIONS_def STANDING_MAX_REPLIES_def Let_def)

text \<open>A binding put together from what the checks give is one a standing record may hold.\<close>

lemma checked_binding_no_problem:
  assumes c: "checkedContents rt reactions replies = Inr (contents, warnings)"
    and l: "checkedLimits asked = Inr limits"
    and p: "placesProblem places = None"
    and a: "accountIdPattern account"
    and r: "case replaces of None \<Rightarrow> True | Some i \<Rightarrow> approvalIdPattern i"
  shows "standingBindingProblem rt
     \<lparr>sb_summary = summary, sb_targetName = name, sb_targetId = account, sb_contents = contents, sb_places = places,
      sb_limits = limits, sb_proposedBy = by, sb_replaces = replaces, sb_warnings = warnings\<rparr> = None"
proof -
  have "limitsProblem limits = None"
    using checkedLimits_Inr [OF l] by (simp add: limitsProblem_None)
  with checkedContents_again [OF c] p a r show ?thesis
    by (cases replaces) (simp_all add: standingBindingProblem_def)
qed

lemma standingBindingProblem_NoneD:
  assumes "standingBindingProblem rt b = None"
  shows "sb_contents b \<noteq> []" "\<And>ps. sb_places b = Exact ps \<Longrightarrow> ps \<noteq> []" "limitInRange n (limitOf (sb_limits b) n)"
  using assms limitsProblem_None
  by (auto simp: standingBindingProblem_def split: if_splits sum.splits prod.splits option.splits)

text \<open>
  C20. A narrowing only takes away. When \<open>narrowedFurther\<close> accepts what was asked, the narrowing it
  returns is one \<open>standingNarrowingProblem\<close> finds no fault with, and the standing approval in force
  afterwards permits nothing that was not permitted before: no new content, no new place, no higher limit.
\<close>

theorem narrowing_only_takes_away:
  assumes "standingBindingProblem rt b = None" and "narrowedFurther b narrowed wanted = Inr stored"
  shows "standingNarrowingProblem b (Some stored) = None \<and>
    (\<exists>now after. effectiveStanding b narrowed = Inr now \<and> effectiveStanding b (Some stored) = Inr after \<and>
       permitsWithin after now)"
  using narrowedFurther_effective [OF standingBindingProblem_NoneD(1,2) [OF assms(1)] assms(2)]
    assms(1) by blast

text \<open>A standing approval to evaluate with: one reaction, one reply, two channels, the limits' defaults.\<close>

definition samplePlace :: "string \<Rightarrow> exact_place" where
  "samplePlace i = \<lparr>pl_id = js i, pl_name = Some (js ''general''), pl_members = 12,
     pl_shared = \<lparr>sh_ext = False, sh_pendingExt = False, sh_externalMembers = Some False\<rparr>\<rparr>"

definition noLimits :: narrowed_limits where
  "noLimits = narrowedLimitsBy (\<lambda>_. None)"

definition sampleStanding :: standing_binding where
  "sampleStanding =
     \<lparr>sb_summary = js ''ack'', sb_targetName = js ''work'', sb_targetId = js ''acc_0000000000000001'',
      sb_contents = [contentOf sampleRuntime ActReaction (js ''eyes''), contentOf sampleRuntime ActReply (js ''On it'')],
      sb_places = Exact [samplePlace ''C0A'', samplePlace ''C0B''],
      sb_limits = limitsBy (\<lambda>n. fst (STANDING_LIMITS n)), sb_proposedBy = ByAgent, sb_replaces = None,
      sb_warnings = []\<rparr>"

lemma sample_replyText: "replyText sampleRuntime (js ''On it'') = Inr (js ''On it'')"
  by (simp add: replyText_def brokenRule_def REPLY_RULES_def Let_def js_eval trim_def trimEnd_def isSpace_def
      sampleRuntime_def isDangerous_def isControl_def isInvisible_def invisibleRanges_def asciiLower_def
      STANDING_MAX_REPLY_LENGTH_def)

lemma sample_digests:
  "standingContentDigest sampleRuntime ActReaction (js ''eyes'') \<noteq> standingContentDigest sampleRuntime ActReply (js ''On it'')"
  by (simp add: standingContentDigest_def sampleRuntime_def js_eval checksum_def jsonString_def definedEntries_def
      quoteUnit_def isHigh_def isLow_def digits64_neq)

lemma sample_contents:
  "checkedContents sampleRuntime [js '':eyes:''] [js ''On it''] = Inr (sb_contents sampleStanding, sb_warnings sampleStanding)"
proof -
  have r: "reactionName (js '':eyes:'') = Inr (js ''eyes'')"
    by (simp add: reactionName_def trim_def trimEnd_def isSpace_def betweenColons_def isStandardEmoji_def
        STANDARD_EMOJI_def js_eval)
  have "contentWarnings [js ''eyes''] [js ''On it''] = []"
    by (simp add: contentWarnings_def READS_AS_APPROVAL_def map_filter_def replyReadsAsApproval_def APPROVAL_WORDS_def
        js_eval asciiLower_def isWord_def isLetter_def isUpper_def isLower_def isNumeral_def isSpace_def)
  then show ?thesis
    using sample_digests sample_replyText
    by (simp add: checkedContents_def r STANDING_MAX_REACTIONS_def STANDING_MAX_REPLIES_def contentOf_def sampleStanding_def)
qed

lemma sampleStanding_ok: "standingBindingProblem sampleRuntime sampleStanding = None"
proof -
  have "checkedLimits noLimits = Inr (sb_limits sampleStanding)"
    by (simp add: checkedLimits_def noLimits_def LIMIT_NAMES_def limitInRange_def sampleStanding_def)
  moreover have "placesProblem (sb_places sampleStanding) = None"
    by (simp add: sampleStanding_def samplePlace_def standingPlacePattern_def isUpper_def isNumeral_def
        MAX_SAFE_INTEGER_def js_eval)
  moreover have "accountIdPattern (sb_targetId sampleStanding)"
    by (simp add: sampleStanding_def accountIdPattern_def prefixedId_def isUpper_def isNumeral_def js_eval)
  ultimately show ?thesis
    using checked_binding_no_problem [OF sample_contents, where replaces = None] by (simp add: sampleStanding_def)
qed

theorem narrowing_only_takes_away_witness:
  "standingNarrowingProblem sampleStanding (Some
     \<lparr>sn_keep = Some (map sc_digest (sb_contents sampleStanding)), sn_places = Some [js ''C0B''],
      sn_limits = Some (allLimits (limitsBy (\<lambda>n. if n = PerDay then 5 else fst (STANDING_LIMITS n))))\<rparr>) = None"
proof -
  have "narrowedFurther sampleStanding None
      \<lparr>sn_keep = None, sn_places = Some [js ''C0B''],
       sn_limits = Some (narrowedLimitsBy (\<lambda>n. if n = PerDay then Some 5 else None))\<rparr> =
    Inr \<lparr>sn_keep = Some (map sc_digest (sb_contents sampleStanding)), sn_places = Some [js ''C0B''],
      sn_limits = Some (allLimits (limitsBy (\<lambda>n. if n = PerDay then 5 else fst (STANDING_LIMITS n))))\<rparr>"
    by (simp add: narrowedFurther_def effectiveStanding_def keptContents_def keptPlaces_def sampleStanding_def
        samplePlace_def lowerLimits_def checkedLimits_def LIMIT_NAMES_def limitInRange_def classify_Widens
        permitsWithin_def placeCovered_def STANDING_BIG_ROOM_def Let_def limitsBy_def allLimits_def narrowedLimitsBy_def)
  from narrowing_only_takes_away [OF sampleStanding_ok this] show ?thesis by simp
qed

end
