(* ===== verification/ApprovalBinding.thy ===== *)
theory ApprovalBinding
  imports Standing
begin

text \<open>
  What an approval is bound to: \<open>packages/core/src/approval-binding.ts\<close>, and the digests of a change and
  of a download of \<open>approvals.ts\<close>. A record's binding digest is the SHA-256 of the canonical JSON of
  \<open>bindingObjectOf\<close>; a refused disclosure binding is \<open>BAD_DATA\<close>.
\<close>

section \<open>Lifetimes\<close>

text \<open>\<open>APPROVAL_LIFETIMES\<close>, \<open>SENDING_LEASE_MS\<close> and \<open>SENDING_HEARTBEAT_MS\<close>, in milliseconds.\<close>

definition LIFETIME_chat :: int where "LIFETIME_chat = 600000"
definition LIFETIME_confirm :: int where "LIFETIME_confirm = 1800000"
definition LIFETIME_approved :: int where "LIFETIME_approved = 86400000"
definition LIFETIME_download :: int where "LIFETIME_download = 1800000"
definition LIFETIME_standingChild :: int where "LIFETIME_standingChild = 120000"
definition SENDING_LEASE_MS :: int where "SENDING_LEASE_MS = 2 * 60 * 1000"
definition SENDING_HEARTBEAT_MS :: int where "SENDING_HEARTBEAT_MS = 30 * 1000"

lemmas lifetimes = LIFETIME_chat_def LIFETIME_confirm_def LIFETIME_approved_def LIFETIME_download_def
  LIFETIME_standingChild_def SENDING_LEASE_MS_def SENDING_HEARTBEAT_MS_def

fun pendingMsOf :: "route \<Rightarrow> int" where
  "pendingMsOf RStanding = LIFETIME_standingChild"
| "pendingMsOf RConfirm = LIFETIME_confirm"
| "pendingMsOf RChat = LIFETIME_chat"

definition unknownAtOf :: "approval \<Rightarrow> int option" where
  "unknownAtOf r =
     (case (case r_sendingHeartbeatAt r of Some s \<Rightarrow> Some s | None \<Rightarrow> r_sendingAt r) of
        Some (Iso t) \<Rightarrow> Some (t + SENDING_LEASE_MS)
      | _ \<Rightarrow> None)"

definition knownChannels :: "jstr list" where
  "knownChannels = map js [''core'', ''gmail'', ''resend'', ''slack'', ''whatsapp'']"

definition isKnownChannel :: "jstr \<Rightarrow> bool" where
  "isKnownChannel channel \<longleftrightarrow> channel \<in> set knownChannels"

section \<open>A disclosure's binding\<close>

fun versionKindName :: "version_kind \<Rightarrow> jstr" where
  "versionKindName VkRule = js ''rule''"
| "versionKindName VkTarget = js ''target''"
| "versionKindName VkSubscriber = js ''subscriber''"
| "versionKindName VkJudge = js ''judge''"
| "versionKindName VkJudgeBudget = js ''judge-budget''"
| "versionKindName VkJudgeKind = js ''judge-kind''"

fun activationKindName :: "activation_kind \<Rightarrow> jstr" where
  "activationKindName AkRule = js ''rule''"
| "activationKindName AkJudgeBudget = js ''judge-budget''"
| "activationKindName AkJudgeKind = js ''judge-kind''"
| "activationKindName AkEnableAll = js ''enable-all''"
| "activationKindName AkSubscription = js ''subscription''"

definition versionBefore :: "disclosure_version \<Rightarrow> disclosure_version \<Rightarrow> bool" where
  "versionBefore a b \<longleftrightarrow>
     versionKindName (dv_kind a) < versionKindName (dv_kind b)
     \<or> (versionKindName (dv_kind a) = versionKindName (dv_kind b)
        \<and> (dv_id a < dv_id b \<or> (dv_id a = dv_id b \<and> dv_version a < dv_version b)))"

fun versionsInOrder :: "disclosure_version list \<Rightarrow> bool" where
  "versionsInOrder (a # b # vs) = (versionBefore a b \<and> versionsInOrder (b # vs))"
| "versionsInOrder _ = True"

definition onlyKind :: "version_kind \<Rightarrow> disclosure_version list \<Rightarrow> bool" where
  "onlyKind k vs \<longleftrightarrow> (case vs of [v] \<Rightarrow> dv_kind v = k | _ \<Rightarrow> False)"

definition activationVersionsOk :: "activation_kind \<Rightarrow> disclosure_version list \<Rightarrow> bool" where
  "activationVersionsOk k vs = (case k of
      AkRule \<Rightarrow> VkRule \<in> dv_kind ` set vs \<and> VkJudgeBudget \<notin> dv_kind ` set vs \<and> VkJudgeKind \<notin> dv_kind ` set vs
    | AkJudgeBudget \<Rightarrow> onlyKind VkJudgeBudget vs
    | AkJudgeKind \<Rightarrow> onlyKind VkJudgeKind vs
    | AkSubscription \<Rightarrow> onlyKind VkSubscriber vs
    | AkEnableAll \<Rightarrow> list_all (\<lambda>v. dv_kind v = VkRule) vs)"

definition canonicalDisclosureBinding :: "disclosure_binding \<Rightarrow> error_code + disclosure_binding" where
  "canonicalDisclosureBinding b =
     (if \<not> hex64 (dc_digest b) \<or> dc_intent b = []
         \<or> list_ex (\<lambda>v. dv_id v = [] \<or> dv_version v < 1 \<or> MAX_SAFE_INTEGER < dv_version v) (dc_versions b)
         \<or> \<not> versionsInOrder (dc_versions b)
         \<or> \<not> activationVersionsOk (dc_kind b) (dc_versions b)
      then Inl BAD_DATA else Inr b)"

definition disclosureJson :: "disclosure_binding \<Rightarrow> json" where
  "disclosureJson b =
     jobj [(''digest'', Some (JStr (dc_digest b))), (''activationIntentId'', Some (JStr (dc_intent b))),
           (''activationKind'', Some (JStr (activationKindName (dc_kind b)))),
           (''versions'', Some (JArr (map (\<lambda>v. jobj [(''kind'', Some (JStr (versionKindName (dv_kind v)))),
              (''id'', Some (JStr (dv_id v))), (''version'', Some (JNum (dv_version v)))]) (dc_versions b))))]"

definition sameDisclosureBinding :: "disclosure_binding \<Rightarrow> disclosure_binding \<Rightarrow> bool" where
  "sameDisclosureBinding a b \<longleftrightarrow>
     (case (canonicalDisclosureBinding a, canonicalDisclosureBinding b) of
        (Inr x, Inr y) \<Rightarrow> canonicalJson (disclosureJson x) = canonicalJson (disclosureJson y)
      | _ \<Rightarrow> False)"

section \<open>The binding object\<close>

fun kindName :: "approval_kind \<Rightarrow> string" where
  "kindName KSend = ''send''"
| "kindName KChange = ''change''"
| "kindName KDownload = ''download''"
| "kindName KDisclosure = ''disclosure''"
| "kindName KStanding = ''standing''"

fun routeName :: "route \<Rightarrow> string" where
  "routeName RChat = ''chat''"
| "routeName RConfirm = ''confirm''"
| "routeName RStanding = ''standing''"

fun scopeName :: "owner_scope \<Rightarrow> string" where
  "scopeName SOwner = ''owner''"
| "scopeName SProspective = ''prospective''"
| "scopeName SGlobal = ''global''"

fun policyName :: "send_policy \<Rightarrow> string" where
  "policyName PChat = ''chat''"
| "policyName PConfirm = ''confirm''"
| "policyName PNever = ''never''"

definition standingUseProblem :: "standing_use \<Rightarrow> string option" where
  "standingUseProblem u =
     (if su_channel u = [] then Some ''its use has no channel''
      else if su_thread u = [] then Some ''its use has no thread''
      else if \<not> hex64 (su_content u) then Some ''its use names no content''
      else None)"

definition strings :: "jstr list \<Rightarrow> json" where
  "strings ss = JArr (map JStr ss)"

definition expectJson :: "expectation \<Rightarrow> json" where
  "expectJson e =
     jobj [(''to'', Some (strings (ex_to e))), (''cc'', Some (strings (ex_cc e))),
           (''bcc'', Some (strings (ex_bcc e))), (''subject'', Some (JStr (ex_subject e)))]"

definition standingUseJson :: "standing_use \<Rightarrow> json" where
  "standingUseJson u =
     jobj [(''channel'', Some (JStr (su_channel u))), (''thread'', Some (JStr (su_thread u))),
           (''content'', Some (JStr (su_content u)))]"

definition identityOf :: "approval \<Rightarrow> json" where
  "identityOf r =
     jobj [(''approvalId'', Some (JStr (r_approvalId r))),
           (''channel'', Some (JStr (r_channel r))),
           (''ownerScope'', Some (jstring (scopeName (r_ownerScope r)))),
           (''inboxId'', Some (JStr (r_inboxId r))),
           (''inboxSub'', map_option JStr (r_inboxSub r)),
           (''draftId'', Some (JStr (r_draftId r))),
           (''draftMessageId'', Some (JStr (r_draftMessageId r))),
           (''expect'', Some (expectJson (r_expect r))),
           (''sendEpoch'', if r_kind r = KSend \<or> r_kind r = KStanding then map_option JNum (r_sendEpoch r) else None),
           (''standingEpoch'', map_option JNum (r_standingEpoch r)),
           (''standingId'', map_option JStr (r_standingId r)),
           (''standingUse'', map_option standingUseJson (r_standingUse r))]"

definition listedEntry :: "listed_file \<Rightarrow> json" where
  "listedEntry f =
     jobj [(''name'', Some (JStr (lf_name f))), (''size'', Some (jnullable JNum (lf_size f))),
           (''renamed'', map_option JStr (lf_renamed f)), (''flags'', map_option strings (lf_flags f))]"

text \<open>
  A disclosure record that holds no disclosure has no expectation either, and reading one throws a
  \<open>TypeError\<close>: \<open>UNEXPECTED\<close>.
\<close>

definition bindingObjectOf :: "approval \<Rightarrow> error_code + json" where
  "bindingObjectOf r =
     (if r_kind r = KDisclosure then
        (case r_disclosure r of
           None \<Rightarrow> Inl UNEXPECTED
         | Some d \<Rightarrow> result_bind (canonicalDisclosureBinding d) (\<lambda>c.
             Inr (jobj [(''v'', Some (JNum 2)), (''kind'', Some (jstring ''disclosure'')),
                        (''approvalId'', Some (JStr (r_approvalId r))), (''disclosure'', Some (disclosureJson c))])))
      else if r_kind r = KDownload then
        (case r_download r of
           None \<Rightarrow> Inl BAD_DATA
         | Some d \<Rightarrow>
             Inr (jobj [(''v'', Some (JNum 2)), (''kind'', Some (jstring ''download'')),
                        (''contentDigest'', Some (JStr (r_contentDigest r))),
                        (''profile'', Some (jobj [(''pendingMs'', Some (JNum (r_pendingMs r))),
                           (''policy'', Some (jstring (policyName (r_policy r)))),
                           (''requiredPolicy'', Some (jstring (policyName (r_requiredPolicy r))))])),
                        (''identity'', Some (identityOf r)),
                        (''offered'', Some (jobj [(''downloads'', Some (JStr (dl_downloads d))),
                           (''current'', Some (JStr (dl_current d)))])),
                        (''listing'', map_option (\<lambda>l. JArr (map listedEntry l)) (dl_listing d))]))
      else
        Inr (jobj [(''v'', Some (JNum 2)), (''kind'', Some (jstring (kindName (r_kind r)))),
                   (''contentDigest'', Some (JStr (r_contentDigest r))),
                   (''route'', map_option (\<lambda>x. jstring (routeName x)) (r_route r)),
                   (''pendingMs'', Some (JNum (r_pendingMs r))),
                   (''approvedMs'', map_option JNum (r_approvedMs r)),
                   (''identity'', Some (identityOf r))]))"

definition bindingDigestOf :: "runtime \<Rightarrow> approval \<Rightarrow> error_code + jstr" where
  "bindingDigestOf rt r = result_bind (bindingObjectOf r) (\<lambda>v. Inr (rtSha rt (canonicalJson v)))"

section \<open>The digest of a change\<close>

definition nullable :: "json option \<Rightarrow> json" where
  "nullable v = (case v of None \<Rightarrow> JNull | Some x \<Rightarrow> x)"

definition canonicalLoosening :: "loosening \<Rightarrow> jstr" where
  "canonicalLoosening l =
     canonicalJson (jobj [(''path'', Some (JStr (lo_path l))), (''before'', Some (nullable (lo_before l))),
       (''after'', Some (nullable (lo_after l))), (''id'', Some (jnullable JStr (lo_id l)))])"

definition sameLoosening :: "loosening \<Rightarrow> loosening \<Rightarrow> bool" where
  "sameLoosening a b \<longleftrightarrow> canonicalLoosening a = canonicalLoosening b"

fun targetKindName :: "target_kind \<Rightarrow> string" where
  "targetKindName TInbox = ''inbox''"
| "targetKindName TAccount = ''account''"

definition changeTargetJson :: "change_target option \<Rightarrow> json" where
  "changeTargetJson t =
     jnullable (\<lambda>t. jobj [(''kind'', Some (jstring (targetKindName (tg_kind t)))), (''name'', Some (JStr (tg_name t))),
       (''id'', Some (jnullable JStr (tg_id t)))]) t"

definition orEmpty :: "'a list option \<Rightarrow> 'a list" where
  "orEmpty given = (case given of None \<Rightarrow> [] | Some xs \<Rightarrow> xs)"

definition changeJson :: "change_binding \<Rightarrow> json" where
  "changeJson c =
     jobj [(''kind'', Some (jstring ''change'')),
           (''target'', Some (changeTargetJson (ch_target c))),
           (''loosened'', Some (strings (sort (map canonicalLoosening (ch_loosened c))))),
           (''settings'', Some (strings (sort (map canonicalLoosening (orEmpty (ch_settings c)))))),
           (''effects'', Some (strings (ch_effects c))),
           (''doneAtOnce'', if orEmpty (ch_doneAtOnce c) = [] then None else Some (strings (orEmpty (ch_doneAtOnce c))))]"

definition changeDigest :: "runtime \<Rightarrow> change_binding \<Rightarrow> jstr" where
  "changeDigest rt c = rtSha rt (canonicalJson (changeJson c))"

text \<open>\<open>changeDrift\<close> and \<open>downloadDrift\<close> word the first difference found; which one it is.\<close>

datatype change_drift =
    OtherTarget | OtherPaths | MovedLoosening jstr | OtherSetting jstr | OtherEffects | OtherDoneAtOnce | OtherChange

definition looseningPaths :: "change_binding \<Rightarrow> jstr" where
  "looseningPaths c = join [10] (sort (map lo_path (ch_loosened c)))"

definition unlike :: "loosening list \<Rightarrow> loosening list \<Rightarrow> loosening option" where
  "unlike one other = find (\<lambda>s. \<not> list_ex (\<lambda>ok. sameLoosening ok s) other) one"

definition changeDrift :: "change_binding \<Rightarrow> change_binding \<Rightarrow> change_drift" where
  "changeDrift approved now =
     (if canonicalJson (changeTargetJson (ch_target approved)) \<noteq> canonicalJson (changeTargetJson (ch_target now))
      then OtherTarget
      else if looseningPaths approved \<noteq> looseningPaths now then OtherPaths
      else case unlike (ch_loosened now) (ch_loosened approved) of
        Some moved \<Rightarrow> MovedLoosening (lo_path moved)
      | None \<Rightarrow>
          (case (case unlike (orEmpty (ch_settings approved)) (orEmpty (ch_settings now)) of
                   Some s \<Rightarrow> Some s
                 | None \<Rightarrow> unlike (orEmpty (ch_settings now)) (orEmpty (ch_settings approved))) of
             Some unset \<Rightarrow> OtherSetting (lo_path unset)
           | None \<Rightarrow>
               if canonicalJson (strings (ch_effects approved)) \<noteq> canonicalJson (strings (ch_effects now)) then OtherEffects
               else if canonicalJson (strings (orEmpty (ch_doneAtOnce approved))) \<noteq> canonicalJson (strings (orEmpty (ch_doneAtOnce now))) then OtherDoneAtOnce
               else OtherChange))"

section \<open>The digest of a download\<close>

definition downloadJson :: "download_binding \<Rightarrow> json" where
  "downloadJson d =
     jobj [(''kind'', Some (jstring ''download'')),
           (''target'', Some (jobj [(''kind'', Some (jstring (targetKindName (dl_targetKind d)))),
              (''name'', Some (JStr (dl_targetName d))), (''id'', Some (JStr (dl_targetId d)))])),
           (''operation'', Some (JStr (dl_operation d))), (''request'', Some (dl_request d)),
           (''files'', Some (strings (dl_files d))), (''names'', Some (strings (dl_names d)))]"

definition downloadDigest :: "runtime \<Rightarrow> download_binding \<Rightarrow> jstr" where
  "downloadDigest rt d = rtSha rt (canonicalJson (downloadJson d))"

end
