(* ===== verification/ApprovalValidate.thy ===== *)
theory ApprovalValidate
  imports ApprovalBinding
begin

text \<open>
  The integrity check of a version-2 record: \<open>packages/core/src/approval-validate.ts\<close>. A record read
  from the file of an id passes, or fails for one fixed reason; the first check that fails gives it.
  A list of checks is written as the source writes its sequence of returns: the condition, then the reason.
  Checks that a member has its declared type hold by typing, except on the members the model keeps as
  options for them (\<open>bindingDigest\<close>, the \<open>NotIso\<close> timestamps).
\<close>

datatype integrity_reason =
    FileNameMismatch | BindingMissing | BindingMalformed | BindingMismatch | WrongShape | DigestVersion
  | ContentDigestMalformed | ContentDigestMismatch | IdentityContradiction | ListingMismatch | NarrowingInvalid
  | StateImpossible | LifetimeMismatch | TimestampInvalid | TimestampMissing | TimestampMisplaced
  | TimestampMisordered | SentIdMissing | EvidenceMissing | EvidenceInvalid | EvidenceContradictory

datatype attribution = Verified | Unverifiable

datatype validation = Valid | Corrupt integrity_reason attribution

fun firstFail :: "(bool \<times> integrity_reason) list \<Rightarrow> integrity_reason option" where
  "firstFail [] = None"
| "firstFail ((broken, reason) # rest) = (if broken then Some reason else firstFail rest)"

fun orElse :: "'a option \<Rightarrow> 'a option \<Rightarrow> 'a option" where
  "orElse (Some x) y = Some x"
| "orElse None y = y"

lemma firstFail_None: "firstFail xs = None \<longleftrightarrow> list_all (\<lambda>(broken, _). \<not> broken) xs"
  by (induction xs) (auto split: if_splits)

lemma firstFail_Cons [simp]: "firstFail ((b, reason) # xs) = None \<longleftrightarrow> \<not> b \<and> firstFail xs = None"
  by simp

lemma firstFail_append [simp]: "firstFail (xs @ ys) = None \<longleftrightarrow> firstFail xs = None \<and> firstFail ys = None"
  by (simp add: firstFail_None)

declare firstFail.simps(2) [simp del]

lemma orElse_None [simp]: "orElse x y = None \<longleftrightarrow> x = None \<and> y = None"
  by (cases x) simp_all

definition CLOCK_ANOMALY :: jstr where "CLOCK_ANOMALY = js ''clock-anomaly''"
definition DIGEST_VERSION :: int where "DIGEST_VERSION = 2"

text \<open>\<open>STATES_OF\<close>, \<open>CHILD_STATES\<close> and \<open>CLAIMED_SEND\<close>.\<close>

fun STATES_OF :: "approval_kind \<Rightarrow> approval_state list" where
  "STATES_OF KSend = [Pending, Approved, Sending, Used, Failed, Unknown, Expired, Revoked]"
| "STATES_OF KChange = [Pending, Approved, Used, Expired, Revoked]"
| "STATES_OF KDownload = [Pending, Approved, Used, Expired, Revoked]"
| "STATES_OF KStanding = [Pending, Approved, Expired, Revoked]"
| "STATES_OF KDisclosure = [Pending, Approved, Used, Expired, Revoked]"

definition CHILD_STATES :: "approval_state list" where
  "CHILD_STATES = [Approved, Sending, Used, Failed, Unknown, Expired, Revoked]"

definition CLAIMED_SEND :: "approval_state list" where
  "CLAIMED_SEND = [Sending, Used, Failed, Unknown]"

definition isChild :: "approval \<Rightarrow> bool" where
  "isChild r \<longleftrightarrow> r_kind r = KSend \<and> r_route r = Some RStanding"

section \<open>Times\<close>

record times =
  t_createdAt :: "int option"
  t_expiresAt :: "int option"
  t_approvedAt :: "int option"
  t_usableUntil :: "int option"
  t_sendingAt :: "int option"
  t_sendingHeartbeatAt :: "int option"
  t_usedAt :: "int option"
  t_sentAt :: "int option"
  t_failedAt :: "int option"
  t_revokedAt :: "int option"
  t_expiredAt :: "int option"

fun stampTime :: "stamp \<Rightarrow> int option" where
  "stampTime (Iso t) = Some t"
| "stampTime (NotIso _) = None"

definition timeOf :: "stamp option \<Rightarrow> int option" where
  "timeOf s = (case s of None \<Rightarrow> None | Some x \<Rightarrow> stampTime x)"

definition badStamp :: "stamp option \<Rightarrow> bool" where
  "badStamp s = (case s of Some (NotIso _) \<Rightarrow> True | _ \<Rightarrow> False)"

definition stampsOf :: "approval \<Rightarrow> stamp option list" where
  "stampsOf r =
     [Some (r_createdAt r), Some (r_expiresAt r), r_approvedAt r, r_usableUntil r, r_sendingAt r,
      r_sendingHeartbeatAt r, r_usedAt r, r_sentAt r, r_failedAt r, r_revokedAt r, r_expiredAt r]"

definition timesOf :: "approval \<Rightarrow> times" where
  "timesOf r =
     \<lparr>t_createdAt = stampTime (r_createdAt r), t_expiresAt = stampTime (r_expiresAt r),
      t_approvedAt = timeOf (r_approvedAt r), t_usableUntil = timeOf (r_usableUntil r),
      t_sendingAt = timeOf (r_sendingAt r), t_sendingHeartbeatAt = timeOf (r_sendingHeartbeatAt r),
      t_usedAt = timeOf (r_usedAt r), t_sentAt = timeOf (r_sentAt r), t_failedAt = timeOf (r_failedAt r),
      t_revokedAt = timeOf (r_revokedAt r), t_expiredAt = timeOf (r_expiredAt r)\<rparr>"

text \<open>Comparisons of a time that may be absent: an absent one breaks nothing.\<close>

definition given :: "'a option \<Rightarrow> ('a \<Rightarrow> bool) \<Rightarrow> bool" where
  "given x P = (case x of None \<Rightarrow> False | Some v \<Rightarrow> P v)"

lemma given_simps [simp]: "given None P = False" "given (Some v) P = P v"
  by (simp_all add: given_def)

definition present :: "'a option \<Rightarrow> bool" where
  "present x \<longleftrightarrow> x \<noteq> None"

definition firstOf :: "'a option \<Rightarrow> 'a \<Rightarrow> 'a" where
  "firstOf x y = (case x of Some v \<Rightarrow> v | None \<Rightarrow> y)"

section \<open>The checks\<close>

definition checkIdentity :: "approval \<Rightarrow> integrity_reason option" where
  "checkIdentity r =
     (let targetId = (case r_change r of None \<Rightarrow> None | Some c \<Rightarrow> ch_target c);
          expected = (case targetId of None \<Rightarrow> SGlobal
                      | Some t \<Rightarrow> if tg_id t = None then SProspective else SOwner);
          ownId = (if expected = SOwner then (case targetId of Some t \<Rightarrow> firstOf (tg_id t) [] | None \<Rightarrow> []) else []);
          wholeEpoch = (\<lambda>e. given e (\<lambda>n. (0::int) \<le> n));
          standingBound = (r_kind r = KStanding \<or> isChild r)
      in firstFail
       [(\<not> isKnownChannel (r_channel r), IdentityContradiction),
        (r_kind r \<noteq> KChange \<and> (r_ownerScope r \<noteq> SOwner \<or> r_inboxId r = []), IdentityContradiction),
        (r_kind r = KChange \<and> r_ownerScope r \<noteq> expected, IdentityContradiction),
        (r_kind r = KChange \<and> r_inboxId r \<noteq> ownId, IdentityContradiction),
        ((r_kind r = KSend \<or> r_kind r = KStanding) \<and> \<not> wholeEpoch (r_sendEpoch r), IdentityContradiction),
        (r_kind r \<noteq> KSend \<and> r_kind r \<noteq> KStanding \<and> present (r_sendEpoch r), IdentityContradiction),
        (standingBound \<and> (r_channel r \<noteq> js ''slack'' \<or> \<not> wholeEpoch (r_standingEpoch r)), IdentityContradiction),
        (\<not> standingBound \<and> present (r_standingEpoch r), IdentityContradiction),
        (isChild r \<and> \<not> given (r_standingId r) approvalIdPattern, IdentityContradiction),
        (isChild r \<and> r_standingId r = Some (r_approvalId r), IdentityContradiction),
        (isChild r \<and> \<not> given (r_standingUse r) (\<lambda>u. standingUseProblem u = None), IdentityContradiction),
        (\<not> isChild r \<and> (present (r_standingId r) \<or> present (r_standingUse r)), IdentityContradiction),
        (r_kind r = KStanding \<and> \<not> given (r_standing r) (\<lambda>b. sb_targetId b = r_inboxId r), IdentityContradiction),
        (r_kind r = KDownload \<and> \<not> given (r_download r) (\<lambda>d. dl_targetId d = r_inboxId r), IdentityContradiction),
        (r_kind r = KDownload \<and> given (r_download r) (\<lambda>d. given (dl_listing d) (\<lambda>l.
           canonicalJson (strings (map lf_name l)) \<noteq> canonicalJson (strings (dl_names d)))), ListingMismatch)])"

definition checkLifetime :: "approval \<Rightarrow> integrity_reason option" where
  "checkLifetime r =
     (if r_kind r = KDownload then firstFail
        [(r_pendingMs r \<noteq> LIFETIME_download, LifetimeMismatch),
         (present (r_route r) \<or> present (r_approvedMs r), LifetimeMismatch)]
      else if r_kind r = KStanding then
        (case r_standing r of None \<Rightarrow> Some LifetimeMismatch
         | Some b \<Rightarrow>
             let days = sl_expiresDays (sb_limits b) in firstFail
             [(r_route r \<noteq> Some RConfirm \<or> r_pendingMs r \<noteq> LIFETIME_confirm, LifetimeMismatch),
              (\<not> limitInRange ExpiresDays days, LifetimeMismatch),
              (r_approvedMs r \<noteq> Some (days * STANDING_DAY_MS), LifetimeMismatch),
              (r_policy r \<noteq> PConfirm \<or> r_requiredPolicy r \<noteq> PConfirm, LifetimeMismatch)])
      else if isChild r then firstFail
        [(r_pendingMs r \<noteq> LIFETIME_standingChild \<or> r_approvedMs r \<noteq> Some LIFETIME_standingChild, LifetimeMismatch)]
      else (case r_route r of
          Some RChat \<Rightarrow> firstFail
            [(r_pendingMs r \<noteq> pendingMsOf RChat, LifetimeMismatch),
             (r_approvedMs r \<noteq> Some LIFETIME_approved, LifetimeMismatch)]
        | Some RConfirm \<Rightarrow> firstFail
            [(r_pendingMs r \<noteq> pendingMsOf RConfirm, LifetimeMismatch),
             (r_approvedMs r \<noteq> Some LIFETIME_approved, LifetimeMismatch)]
        | _ \<Rightarrow> Some LifetimeMismatch))"

definition anomalous :: "approval \<Rightarrow> bool" where
  "anomalous r \<longleftrightarrow> r_reason r = Some CLOCK_ANOMALY"

text \<open>\<open>checkTimestamps\<close>, in its two halves: where each time may be, then their order.\<close>

definition placedTimes :: "approval \<Rightarrow> times \<Rightarrow> (bool \<times> integrity_reason) list" where
  "placedTimes r t =
     (let kind = r_kind r; state = r_state r;
          onlyIn = (\<lambda>x states. \<not> present x \<or> state \<in> set states) in
       [(given (t_createdAt t) (\<lambda>c. given (t_expiresAt t) (\<lambda>e. e - c \<noteq> r_pendingMs r)), LifetimeMismatch),
        (anomalous r \<and> state \<noteq> Expired, TimestampMisplaced),
        (kind = KDownload \<and> (present (t_approvedAt t) \<or> present (t_usableUntil t)), TimestampMisplaced),
        (kind \<noteq> KSend \<and> (present (t_sendingAt t) \<or> present (t_sendingHeartbeatAt t) \<or> present (t_sentAt t)
            \<or> present (t_failedAt t)), TimestampMisplaced),
        (\<not> onlyIn (t_usedAt t) [Used], TimestampMisplaced),
        (\<not> onlyIn (t_sentAt t) [Used], TimestampMisplaced),
        (\<not> onlyIn (t_failedAt t) [Failed], TimestampMisplaced),
        (\<not> onlyIn (t_revokedAt t) [Revoked], TimestampMisplaced),
        (\<not> onlyIn (t_expiredAt t) [Expired], TimestampMisplaced),
        (kind = KSend \<and> (\<not> onlyIn (t_sendingAt t) CLAIMED_SEND \<or> \<not> onlyIn (t_sendingHeartbeatAt t) CLAIMED_SEND),
           TimestampMisplaced),
        (kind = KSend \<and> state \<in> set CLAIMED_SEND \<and> \<not> present (t_sendingAt t), TimestampMissing),
        (state = Used \<and> \<not> present (t_usedAt t), TimestampMissing),
        (state = Used \<and> kind = KSend \<and> \<not> present (t_sentAt t), TimestampMissing),
        (state = Failed \<and> \<not> present (t_failedAt t), TimestampMissing),
        (state = Revoked \<and> \<not> present (t_revokedAt t), TimestampMissing),
        (state = Expired \<and> \<not> present (t_expiredAt t), TimestampMissing)])"

definition approvedWindow :: "approval \<Rightarrow> times \<Rightarrow> int \<Rightarrow> int \<Rightarrow> (bool \<times> integrity_reason) list" where
  "approvedWindow r t createdAt expiresAt =
     (let bothApproved = present (t_approvedAt t) \<and> present (t_usableUntil t) in
       [(present (t_approvedAt t) \<noteq> present (t_usableUntil t), TimestampMissing),
        (r_state r = Approved \<and> r_kind r \<noteq> KDownload \<and> \<not> present (t_approvedAt t), TimestampMissing),
        (bothApproved \<and> r_state r = Pending, TimestampMisplaced),
        (bothApproved \<and> given (t_approvedAt t) (\<lambda>a. \<not> (createdAt \<le> a \<and> a < expiresAt)), TimestampMisordered),
        (given (t_approvedAt t) (\<lambda>a. given (t_usableUntil t) (\<lambda>u. r_approvedMs r \<noteq> Some (u - a))), LifetimeMismatch),
        (isChild r \<and> \<not> present (t_approvedAt t), TimestampMissing),
        (isChild r \<and> given (t_approvedAt t) (\<lambda>a. a \<noteq> createdAt), TimestampMisordered)])"

definition orderedTimes :: "approval \<Rightarrow> times \<Rightarrow> int \<Rightarrow> int \<Rightarrow> (bool \<times> integrity_reason) list" where
  "orderedTimes r t createdAt expiresAt =
     (let kind = r_kind r; state = r_state r;
          deadline = firstOf (t_usableUntil t) expiresAt; since = firstOf (t_approvedAt t) createdAt;
          ended = (case t_usedAt t of Some u \<Rightarrow> Some u | None \<Rightarrow> t_failedAt t);
          sentUse = (kind = KSend \<and> state = Used) in
       [(given (t_sendingAt t) (\<lambda>s. \<not> (since \<le> s \<and> s < deadline)), TimestampMisordered),
        (given (t_sendingHeartbeatAt t) (\<lambda>h. \<not> given (t_sendingAt t) (\<lambda>s. s \<le> h)), TimestampMisordered),
        (given (t_sendingHeartbeatAt t) (\<lambda>h. given ended (\<lambda>e. e < h)), TimestampMisordered),
        (sentUse \<and> \<not> given (r_sentMessageId r) (\<lambda>i. i \<noteq> []), SentIdMissing),
        (sentUse \<and> (\<not> present (t_sentAt t) \<or> t_usedAt t \<noteq> t_sentAt t), TimestampMisordered),
        (sentUse \<and> \<not> given (t_sendingAt t) (\<lambda>s. given (t_sentAt t) (\<lambda>u. s \<le> u)), TimestampMisordered),
        (\<not> sentUse \<and> present (r_sentMessageId r), TimestampMisplaced),
        (given (t_failedAt t) (\<lambda>f. \<not> given (t_sendingAt t) (\<lambda>s. s \<le> f)), TimestampMisordered),
        (kind \<noteq> KSend \<and> given (t_usedAt t) (\<lambda>u. \<not> (since \<le> u \<and> u < deadline)), TimestampMisordered),
        (given (t_revokedAt t) (\<lambda>v. \<not> (since \<le> v \<and> v < deadline)), TimestampMisordered),
        (given (t_expiredAt t) (\<lambda>x. \<not> (state = Expired \<and> anomalous r) \<and> x < since), TimestampMisordered)])"

definition checkTimestamps :: "approval \<Rightarrow> times \<Rightarrow> integrity_reason option" where
  "checkTimestamps r t =
     (case (t_createdAt t, t_expiresAt t) of
        (Some c, Some e) \<Rightarrow> firstFail (placedTimes r t @ approvedWindow r t c e @ orderedTimes r t c e)
      | _ \<Rightarrow> Some TimestampMissing)"

definition answerJson :: "save_answer \<Rightarrow> json" where
  "answerJson a = (case a of
      AnswerDownloads \<Rightarrow> jobj [(''choice'', Some (jstring ''downloads''))]
    | AnswerCurrent \<Rightarrow> jobj [(''choice'', Some (jstring ''current''))]
    | AnswerOther folder \<Rightarrow> jobj [(''choice'', Some (jstring ''other'')), (''folder'', Some (JStr folder))])"

definition answerDigest :: "runtime \<Rightarrow> jstr option \<Rightarrow> save_answer \<Rightarrow> jstr" where
  "answerDigest rt b a =
     rtSha rt (canonicalJson (jobj [(''bindingDigest'', map_option JStr b), (''answer'', Some (answerJson a))]))"

definition checkEvidence :: "runtime \<Rightarrow> approval \<Rightarrow> integrity_reason option" where
  "checkEvidence rt r =
     (let via = r_approvedVia r; kind = r_kind r;
          answer = (case r_download r of None \<Rightarrow> None | Some d \<Rightarrow> dl_answer d) in
      orElse (firstFail
       [(via = Some ViaApp \<and> kind \<noteq> KChange, EvidenceInvalid),
        ((via = Some ViaStanding) \<noteq> (isChild r \<and> present via), EvidenceInvalid),
        (present (r_approvedChangePolicy r) \<and> (kind \<noteq> KStanding \<or> \<not> present (r_approvedAt r)), EvidenceContradictory)])
      (if kind = KDownload then
         if present (r_approvedBindingDigest r) then Some EvidenceContradictory
         else if \<not> (present via \<or> present (r_approvedDigest r) \<or> present answer)
         then (if r_state r = Approved then Some EvidenceMissing else None)
         else firstFail
           [(\<not> present via \<or> \<not> present (r_approvedDigest r) \<or> \<not> present answer, EvidenceMissing),
            (r_state r = Pending, EvidenceContradictory),
            (given answer (\<lambda>a. r_approvedDigest r \<noteq> Some (answerDigest rt (r_bindingDigest r) a)), EvidenceContradictory)]
       else if present (r_approvedDigest r) then Some EvidenceContradictory
       else if \<not> present (r_approvedAt r) then
         (if present via \<or> present (r_approvedBindingDigest r) then Some EvidenceContradictory else None)
       else firstFail
         [(\<not> present via \<or> \<not> present (r_approvedBindingDigest r), EvidenceMissing),
          (kind = KStanding \<and> r_approvedChangePolicy r \<noteq> Some PChat \<and> r_approvedChangePolicy r \<noteq> Some PConfirm,
             EvidenceMissing),
          (kind = KChange \<and> via \<noteq> Some Terminal \<and> via \<noteq> Some ViaApp, EvidenceInvalid),
          (kind = KStanding \<and> via \<noteq> Some Terminal, EvidenceInvalid),
          (isChild r \<and> via \<noteq> Some ViaStanding, EvidenceInvalid),
          (r_approvedBindingDigest r \<noteq> r_bindingDigest r, EvidenceContradictory)]))"

definition checkDisclosure :: "approval \<Rightarrow> integrity_reason option" where
  "checkDisclosure r =
     (if r_state r \<notin> set (STATES_OF KDisclosure) then Some StateImpossible
      else case r_disclosure r of
        None \<Rightarrow> Some WrongShape
      | Some d \<Rightarrow>
        (case canonicalDisclosureBinding d of
          Inl _ \<Rightarrow> Some WrongShape
        | Inr binding \<Rightarrow>
          if r_pendingMs r \<noteq> LIFETIME_confirm \<or> r_approvedMs r \<noteq> Some LIFETIME_approved then Some LifetimeMismatch
          else if list_ex badStamp (stampsOf r) then Some TimestampInvalid
          else (let t = timesOf r in
            case (t_createdAt t, t_expiresAt t) of
              (Some c, Some e) \<Rightarrow>
                (let st = r_state r; approved = present (t_approvedAt t) \<or> present (t_usableUntil t);
                     deadline = firstOf (t_usableUntil t) e in
                 firstFail
                  [(e - c \<noteq> LIFETIME_confirm, LifetimeMismatch),
                   (present (t_approvedAt t) \<noteq> present (t_usableUntil t), TimestampMissing),
                   (given (t_approvedAt t) (\<lambda>a. \<not> (c \<le> a \<and> a < e)), TimestampMisordered),
                   (given (t_approvedAt t) (\<lambda>a. given (t_usableUntil t) (\<lambda>u. u - a \<noteq> LIFETIME_approved)), LifetimeMismatch),
                   (st = Approved \<and> \<not> approved, TimestampMissing),
                   (st = Used \<and> \<not> present (t_usedAt t), TimestampMissing),
                   (st \<noteq> Used \<and> present (t_usedAt t), TimestampMisplaced),
                   (st = Revoked \<and> \<not> present (t_revokedAt t), TimestampMissing),
                   (st \<noteq> Revoked \<and> present (t_revokedAt t), TimestampMisplaced),
                   (st = Expired \<and> \<not> present (t_expiredAt t), TimestampMissing),
                   (st \<noteq> Expired \<and> present (t_expiredAt t), TimestampMisplaced),
                   (given (t_usedAt t) (\<lambda>u. \<not> (given (t_approvedAt t) (\<lambda>a. a \<le> u) \<and> u < deadline)), TimestampMisordered),
                   (given (t_revokedAt t) (\<lambda>v. \<not> (c \<le> v \<and> v < deadline)), TimestampMisordered),
                   (given (t_expiredAt t) (\<lambda>x. x < firstOf (t_approvedAt t) c), TimestampMisordered),
                   (r_challengeAttempts r \<notin> {0, 1, 2, 3}, EvidenceInvalid),
                   (\<not> approved \<and> (present (r_approvedVia r) \<or> present (r_approvedDigest r)), EvidenceContradictory),
                   (approved \<and> ((r_approvedVia r \<noteq> Some Terminal \<and> r_approvedVia r \<noteq> Some ViaApp)
                      \<or> r_approvedDigest r \<noteq> Some (dc_digest binding)), EvidenceContradictory)])
            | _ \<Rightarrow> Some TimestampMissing)))"

definition checkContent :: "runtime \<Rightarrow> approval \<Rightarrow> integrity_reason option" where
  "checkContent rt r = firstFail
     [(\<not> hex64 (r_contentDigest r), ContentDigestMalformed),
      (r_kind r = KChange \<and> \<not> given (r_change r) (\<lambda>c. changeDigest rt c = r_contentDigest r), ContentDigestMismatch),
      (r_kind r = KDownload \<and> \<not> given (r_download r) (\<lambda>d. downloadDigest rt d = r_contentDigest r), ContentDigestMismatch),
      (r_kind r = KStanding \<and> \<not> given (r_standing r) (\<lambda>b. standingBindingProblem rt b = None), WrongShape),
      (r_kind r = KStanding \<and> \<not> given (r_standing r) (\<lambda>b. standingDigest rt b = r_contentDigest r), ContentDigestMismatch),
      (r_kind r = KStanding \<and> \<not> given (r_standing r) (\<lambda>b. standingNarrowingProblem b (r_narrowed r) = None), NarrowingInvalid),
      (r_kind r \<noteq> KStanding \<and> (present (r_standing r) \<or> present (r_narrowed r)), WrongShape)]"

definition checkVerified :: "runtime \<Rightarrow> approval \<Rightarrow> integrity_reason option" where
  "checkVerified rt r =
     (if r_digestVersion r \<noteq> DIGEST_VERSION then Some DigestVersion
      else if given (r_preparedBy r) (\<lambda>i. \<not> connectionIdPattern i) then Some WrongShape
      else if r_kind r = KDisclosure then checkDisclosure r
      else orElse (checkContent rt r)
       (orElse (checkIdentity r)
       (orElse (firstFail
         [(r_state r \<notin> set (STATES_OF (r_kind r)), StateImpossible),
          (isChild r \<and> r_state r \<notin> set CHILD_STATES, StateImpossible)])
       (orElse (checkLifetime r)
       (if list_ex badStamp (stampsOf r) then Some TimestampInvalid
        else orElse (checkTimestamps r (timesOf r)) (checkEvidence rt r))))))"

definition validateV2 :: "runtime \<Rightarrow> approval \<Rightarrow> jstr \<Rightarrow> validation" where
  "validateV2 rt r fileId =
     (if r_approvalId r \<noteq> fileId then Corrupt FileNameMismatch Unverifiable
      else case r_bindingDigest r of
        None \<Rightarrow> Corrupt BindingMissing Unverifiable
      | Some b \<Rightarrow>
          if \<not> hex64 b then Corrupt BindingMalformed Unverifiable
          else (case bindingDigestOf rt r of
             Inl _ \<Rightarrow> Corrupt WrongShape Unverifiable
           | Inr d \<Rightarrow>
               if d \<noteq> b then Corrupt BindingMismatch Unverifiable
               else (case checkVerified rt r of
                  Some reason \<Rightarrow> Corrupt reason Verified
                | None \<Rightarrow> Valid)))"

end
