(* ===== verification/ConfigPolicy.thy ===== *)
theory ConfigPolicy
  imports ApprovalTypes "HOL-Library.AList"
begin

text \<open>
  What the approval engine reads of the configuration, and the epochs every write owes:
  \<open>packages/core/src/config.ts\<close> (policies, \<open>withSendEpochs\<close>, \<open>withStandingEpoch\<close>) and
  \<open>sendEpochOf\<close> of \<open>send-epoch.ts\<close>.

  An owner is a mailbox or an account; \<open>en_platform\<close> is an account's platform, empty for a mailbox.
  A JavaScript object or \<open>Map\<close> is its list of entries; \<open>AList.update\<close> is \<open>Map.set\<close>.
\<close>

record owner_entry =
  en_id :: jstr
  en_sendPolicy :: "send_policy option"
  en_changePolicy :: "send_policy option"
  en_platform :: jstr

record config =
  cf_version :: nat
  cf_inboxes :: "(jstr \<times> owner_entry) list"
  cf_accounts :: "(jstr \<times> owner_entry) list"
  cf_defaultSend :: send_policy
  cf_defaultChange :: "send_policy option"
  cf_sendEpochs :: "(jstr \<times> int) list option"
  cf_standingEpoch :: "int option"
  cf_legacyDrain :: bool

definition orDefault :: "'a option \<Rightarrow> 'a \<Rightarrow> 'a" where
  "orDefault x y = (case x of Some v \<Rightarrow> v | None \<Rightarrow> y)"

lemma orDefault_simps [simp]: "orDefault (Some v) y = v" "orDefault None y = y"
  by (simp_all add: orDefault_def)

definition ownerEntry :: "config \<Rightarrow> jstr \<Rightarrow> owner_entry option" where
  "ownerEntry cfg ownerId =
     (case find (\<lambda>e. en_id e = ownerId) (map snd (cf_inboxes cfg)) of
        Some e \<Rightarrow> Some e
      | None \<Rightarrow> find (\<lambda>e. en_id e = ownerId) (map snd (cf_accounts cfg)))"

definition defaultChangePolicy :: "config \<Rightarrow> send_policy" where
  "defaultChangePolicy cfg = orDefault (cf_defaultChange cfg) PChat"

text \<open>The strictest of the policies over everything a change touches.\<close>

definition governingChangePolicy :: "config \<Rightarrow> change_binding \<Rightarrow> send_policy" where
  "governingChangePolicy cfg change =
     (let byId = (\<lambda>i. orDefault (case i of None \<Rightarrow> None | Some x \<Rightarrow>
            (case ownerEntry cfg x of None \<Rightarrow> None | Some e \<Rightarrow> en_changePolicy e)) (defaultChangePolicy cfg));
          governing = byId (case ch_target change of None \<Rightarrow> None | Some t \<Rightarrow> tg_id t)
                      # map (\<lambda>l. byId (lo_id l)) (ch_loosened change)
      in if PConfirm \<in> set governing then PConfirm else PChat)"

section \<open>Send epochs\<close>

definition sendEpochOf :: "config \<Rightarrow> jstr \<Rightarrow> int" where
  "sendEpochOf cfg ownerId =
     (case map_of (orDefault (cf_sendEpochs cfg) []) ownerId of
        Some e \<Rightarrow> if 0 \<le> e then e else 0
      | None \<Rightarrow> 0)"

definition policiesById :: "(owner_entry \<Rightarrow> send_policy) \<Rightarrow> config \<Rightarrow> (jstr \<times> send_policy) list" where
  "policiesById f cfg =
     fold (\<lambda>e. AList.update (en_id e) (f e)) (map snd (cf_inboxes cfg) @ map snd (cf_accounts cfg)) []"

definition sendPoliciesById :: "config \<Rightarrow> (jstr \<times> send_policy) list" where
  "sendPoliciesById cfg = policiesById (\<lambda>e. orDefault (en_sendPolicy e) (cf_defaultSend cfg)) cfg"

definition changePoliciesById :: "config \<Rightarrow> (jstr \<times> send_policy) list" where
  "changePoliciesById cfg = policiesById (\<lambda>e. orDefault (en_changePolicy e) (defaultChangePolicy cfg)) cfg"

definition fencedOwners :: "config \<Rightarrow> config \<Rightarrow> jstr list" where
  "fencedOwners was now =
     map fst (filter (\<lambda>(i, p). p = PNever \<and> (case map_of (sendPoliciesById was) i of
        None \<Rightarrow> False | Some q \<Rightarrow> q \<noteq> PNever)) (sendPoliciesById now))"

definition loosensASendPolicy :: "config \<Rightarrow> config \<Rightarrow> bool" where
  "loosensASendPolicy was now \<longleftrightarrow>
     list_ex (\<lambda>(i, p). case map_of (sendPoliciesById was) i of
        None \<Rightarrow> False | Some q \<Rightarrow> policyRank p < policyRank q) (sendPoliciesById now)
     \<or> policyRank (cf_defaultSend now) < policyRank (cf_defaultSend was)"

definition epochOr0 :: "(jstr \<times> int) list \<Rightarrow> jstr \<Rightarrow> int" where
  "epochOr0 es i = orDefault (map_of es i) 0"

definition owedEpochs :: "config \<Rightarrow> config \<Rightarrow> (jstr \<times> int) list" where
  "owedEpochs was now =
     (let held = orDefault (cf_sendEpochs was) [];
          kept = fold (\<lambda>(i, e). AList.update i e) held [];
          raised = fold (\<lambda>(i, e) es. AList.update i (max (epochOr0 es i) e) es)
                        (orDefault (cf_sendEpochs now) []) kept
      in fold (\<lambda>i. AList.update i (epochOr0 held i + 1)) (fencedOwners was now) raised)"

definition withSendEpochs :: "config \<Rightarrow> config \<Rightarrow> error_code + config" where
  "withSendEpochs was now =
     (if cf_version was \<noteq> 3 \<or> cf_version now \<noteq> 3 then
        if list_ex (\<lambda>(i, p). case map_of (sendPoliciesById was) i of None \<Rightarrow> False | Some q \<Rightarrow> q \<noteq> p)
             (sendPoliciesById now)
        then Inl CONFIG else Inr now
      else if (cf_legacyDrain was \<or> cf_legacyDrain now) \<and> loosensASendPolicy was now then Inl TRANSIENT
      else let epochs = owedEpochs was now
           in Inr (if epochs = [] then now else now\<lparr>cf_sendEpochs := Some epochs\<rparr>))"

section \<open>The standing epoch\<close>

definition standingEpochOf :: "config \<Rightarrow> int" where
  "standingEpochOf cfg = (case cf_standingEpoch cfg of Some e \<Rightarrow> if 0 \<le> e then e else 0 | None \<Rightarrow> 0)"

definition tightensAChangePolicy :: "config \<Rightarrow> config \<Rightarrow> bool" where
  "tightensAChangePolicy was now \<longleftrightarrow>
     (defaultChangePolicy was = PChat \<and> defaultChangePolicy now = PConfirm)
     \<or> list_ex (\<lambda>(i, p). p = PConfirm \<and> map_of (changePoliciesById was) i = Some PChat) (changePoliciesById now)"

definition withStandingEpoch :: "config \<Rightarrow> config \<Rightarrow> config" where
  "withStandingEpoch was now =
     (if cf_version was \<noteq> 3 \<or> cf_version now \<noteq> 3 then now
      else
        let held = max (standingEpochOf was) (standingEpochOf now);
            kept = (if tightensAChangePolicy was now then held + 1 else held)
        in if kept = 0 \<and> cf_standingEpoch now = None then now else now\<lparr>cf_standingEpoch := Some kept\<rparr>)"

text \<open>\<open>raiseStandingEpoch\<close> of \<open>standing.ts\<close>: what it asks the configuration store to write.\<close>

definition raiseStandingEpoch :: "config \<Rightarrow> config" where
  "raiseStandingEpoch cfg = cfg\<lparr>cf_standingEpoch := Some (standingEpochOf cfg + 1)\<rparr>"

section \<open>Epochs never fall\<close>

lemma map_of_fold_update:
  "map_of (fold (\<lambda>(i, e). AList.update i e) xs ys) = map_of ys ++ map_of (rev xs)"
  by (induction xs arbitrary: ys) (auto simp: update_conv' map_add_assoc)

lemma epochOr0_update: "epochOr0 (AList.update k v es) i = (if i = k then v else epochOr0 es i)"
  by (simp add: epochOr0_def update_conv)

lemma fold_max_ge: "epochOr0 es i \<le> epochOr0 (fold (\<lambda>(j, e) es. AList.update j (max (epochOr0 es j) e) es) xs es) i"
proof (induction xs arbitrary: es)
  case (Cons x xs)
  obtain j e where "x = (j, e)" by (cases x)
  moreover have "epochOr0 es i \<le> epochOr0 (AList.update j (max (epochOr0 es j) e) es) i"
    by (simp add: epochOr0_update)
  ultimately show ?case
    using Cons.IH [of "AList.update j (max (epochOr0 es j) e) es"] by simp
qed simp

lemma fold_max_given:
  "i \<in> fst ` set xs \<Longrightarrow> \<exists>e. (i, e) \<in> set xs \<and> e \<le> epochOr0 (fold (\<lambda>(j, e) es. AList.update j (max (epochOr0 es j) e) es) xs es) i"
proof (induction xs arbitrary: es)
  case (Cons x xs)
  obtain j e where x: "x = (j, e)" by (cases x)
  show ?case
  proof (cases "j = i")
    case True
    have "e \<le> epochOr0 (AList.update j (max (epochOr0 es j) e) es) i"
      by (simp add: epochOr0_update True)
    then show ?thesis
      using fold_max_ge [of "AList.update j (max (epochOr0 es j) e) es" i xs] True x
      by (intro exI [of _ e]) simp
  next
    case False
    with Cons.prems x have "i \<in> fst ` set xs" by auto
    from Cons.IH [OF this, of "AList.update j (max (epochOr0 es j) e) es"] x show ?thesis by auto
  qed
qed simp

lemma fold_bump:
  "epochOr0 (fold (\<lambda>i. AList.update i (f i)) ids es) i = (if i \<in> set ids then f i else epochOr0 es i)"
  by (induction ids arbitrary: es) (auto simp: epochOr0_update)

lemma epochOr0_kept:
  assumes "distinct (map fst xs)"
  shows "epochOr0 (fold (\<lambda>(i, e). AList.update i e) xs []) i = epochOr0 xs i"
proof -
  have "map_of (rev xs) = map_of xs"
    using assms by (intro map_of_inject_set [THEN iffD2]) (simp_all add: rev_map [symmetric])
  then show ?thesis by (simp add: epochOr0_def map_of_fold_update)
qed

end
