(* ===== verification/ApprovalOutcome.thy ===== *)
theory ApprovalOutcome
  imports ApprovalValidate ConfigPolicy
begin

text \<open>
  What a stored approval is, and what may be done with it: \<open>approval-stored.ts\<close>, \<open>approval-legacy.ts\<close> and
  \<open>approval-outcome.ts\<close> of \<open>packages/core/src\<close>.

  A file's bytes are decoded before this model starts: a file is a record of the version-2 shape (any digest
  version but 1), a version-1 record, or unreadable for one reason. An outcome keeps what the store decides by (state,
  claimable, reason, record, revocation, error code); the words of a refusal and the object shown with it are
  not modelled.
\<close>

section \<open>Stored forms\<close>

datatype unreadable_reason =
    InvalidJson | Truncated | MissingOwnership | MissingKind | UnreadableShape | UnreadableFileName

record legacy_record =
  lg_approvalId :: jstr
  lg_kind :: "approval_kind option"
  lg_inboxId :: jstr
  lg_state :: approval_state
  lg_createdAt :: stamp
  lg_expiresAt :: stamp
  lg_updatedAt :: stamp
  lg_expect :: expectation
  lg_reason :: "jstr option"
  lg_sentMessageId :: "jstr option"

record legacy_view =
  lv_approvalId :: jstr
  lv_kind :: approval_kind
  lv_state :: approval_state
  lv_inboxId :: jstr
  lv_ownerScope :: owner_scope
  lv_channel :: "jstr option"
  lv_reason :: "jstr option"

datatype stored_file = V2File approval | LegacyFile legacy_record | BadFile unreadable_reason

datatype stored_approval =
    V2 approval
  | Legacy legacy_view legacy_record
  | CorruptForm jstr integrity_reason attribution "approval option"
  | Unreadable jstr unreadable_reason

definition LEGACY_SENDING_STALE_MS :: int where "LEGACY_SENDING_STALE_MS = 5 * 60 * 1000"

definition parsedTime :: "runtime \<Rightarrow> stamp \<Rightarrow> int option" where
  "parsedTime rt s = (case s of Iso t \<Rightarrow> Some t | NotIso x \<Rightarrow> rtDateParse rt x)"

text \<open>The state a version-1 record has, by its own release's rules.\<close>

definition deriveLegacyV1State ::
  "runtime \<Rightarrow> legacy_record \<Rightarrow> int \<Rightarrow> approval_state \<times> jstr option" where
  "deriveLegacyV1State rt r now =
     (let expiresAt = parsedTime rt (lg_expiresAt r); createdAt = parsedTime rt (lg_createdAt r);
          unusable = (\<not> present expiresAt \<or> given createdAt (\<lambda>c. now < c))
      in if (lg_state r = Pending \<or> lg_state r = Approved) \<and> (unusable \<or> given expiresAt (\<lambda>e. e \<le> now))
         then (Expired, Some (orDefault (lg_reason r)
                (if unusable then js ''the approval window cannot be read'' else js ''the approval window passed'')))
         else if lg_state r = Sending \<and> given (parsedTime rt (lg_updatedAt r)) (\<lambda>u. LEGACY_SENDING_STALE_MS \<le> now - u)
         then (Unknown, Some (js ''the sending process stopped before recording an outcome''))
         else (lg_state r, lg_reason r))"

definition decodeLegacyV1 :: "runtime \<Rightarrow> legacy_record \<Rightarrow> config option \<Rightarrow> int \<Rightarrow> legacy_view" where
  "decodeLegacyV1 rt r cfg now =
     (let derived = deriveLegacyV1State rt r now;
          account = (case cfg of None \<Rightarrow> None
                     | Some c \<Rightarrow> find (\<lambda>e. en_id e = lg_inboxId r) (map snd (cf_accounts c)));
          channel = (if startsWith (js ''ibx_'') (lg_inboxId r) then Some (js ''gmail'')
                     else if startsWith (js ''acc_'') (lg_inboxId r) then map_option en_platform account
                     else None)
      in \<lparr>lv_approvalId = lg_approvalId r, lv_kind = orDefault (lg_kind r) KSend, lv_state = fst derived,
          lv_inboxId = lg_inboxId r, lv_ownerScope = (if lg_inboxId r = [] then SGlobal else SOwner),
          lv_channel = channel, lv_reason = snd derived\<rparr>)"

text \<open>\<open>decodeStored\<close>, from the point where the file's shape is known.\<close>

definition decodeStored :: "runtime \<Rightarrow> jstr \<Rightarrow> stored_file \<Rightarrow> config option \<Rightarrow> int \<Rightarrow> stored_approval" where
  "decodeStored rt fileId f cfg now = (case f of
      BadFile reason \<Rightarrow> Unreadable fileId reason
    | LegacyFile r \<Rightarrow>
        if lg_kind r = Some KStanding \<or> lg_kind r = Some KDisclosure then Unreadable fileId UnreadableShape
        else if lg_approvalId r \<noteq> fileId then Unreadable fileId UnreadableFileName
        else Legacy (decodeLegacyV1 rt r cfg now) r
    | V2File r \<Rightarrow>
        (case validateV2 rt r fileId of
           Valid \<Rightarrow> V2 r
         | Corrupt reason attribution \<Rightarrow>
             CorruptForm fileId reason attribution (if attribution = Verified then Some r else None)))"

text \<open>Whose it is, what it permits, and which channel made it: \<open>None\<close> when that cannot be trusted.\<close>

definition ownerOf :: "stored_approval \<Rightarrow> jstr option" where
  "ownerOf s = (case s of
      V2 r \<Rightarrow> if r_kind r = KDisclosure then None else Some (r_inboxId r)
    | Legacy v r \<Rightarrow> Some (lg_inboxId r)
    | CorruptForm _ _ _ safe \<Rightarrow>
        (case safe of None \<Rightarrow> None | Some r \<Rightarrow> if r_kind r = KDisclosure then None else Some (r_inboxId r))
    | Unreadable _ _ \<Rightarrow> None)"

definition kindOf :: "stored_approval \<Rightarrow> approval_kind option" where
  "kindOf s = (case s of
      V2 r \<Rightarrow> Some (r_kind r) | Legacy v _ \<Rightarrow> Some (lv_kind v)
    | CorruptForm _ _ _ safe \<Rightarrow> map_option r_kind safe | Unreadable _ _ \<Rightarrow> None)"

definition channelOf :: "stored_approval \<Rightarrow> jstr option" where
  "channelOf s = (case s of
      V2 r \<Rightarrow> if r_kind r = KDisclosure then None else Some (r_channel r)
    | Legacy v _ \<Rightarrow> lv_channel v
    | CorruptForm _ _ _ safe \<Rightarrow>
        (case safe of None \<Rightarrow> None | Some r \<Rightarrow> if r_kind r = KDisclosure then None else Some (r_channel r))
    | Unreadable _ _ \<Rightarrow> None)"

record approval_expectation =
  ax_kind :: "approval_kind option"
  ax_channel :: "jstr option"
  ax_owner :: "jstr option"

definition matchesExpectation :: "stored_approval \<Rightarrow> approval_expectation \<Rightarrow> bool" where
  "matchesExpectation found e = (case kindOf found of
      None \<Rightarrow> ax_owner e = None
    | Some kind \<Rightarrow>
        if kind = KDisclosure then
          (ax_kind e = None \<or> ax_kind e = Some KDisclosure) \<and> ax_channel e = None \<and> ax_owner e = None
        else case ownerOf found of
          None \<Rightarrow> ax_owner e = None
        | Some owner \<Rightarrow>
            (ax_kind e = None \<or> ax_kind e = Some kind)
            \<and> (ax_channel e = None \<or> ax_channel e = channelOf found)
            \<and> (ax_owner e = None \<or> ax_owner e = Some owner))"

section \<open>The live gate\<close>

datatype action = AApprove | AClaim | AWait | ARevoke | AInspect

datatype gate_owner = OwnerPresent | OwnerRemoved | OwnerNone

record live_gate =
  lgt_owner :: gate_owner
  lgt_sendPolicy :: "send_policy option"
  lgt_changePolicy :: "send_policy option"
  lgt_sendEpoch :: "int option"
  lgt_standingEpoch :: "int option"

definition liveGateOf :: "config \<Rightarrow> approval \<Rightarrow> live_gate" where
  "liveGateOf cfg r =
     (let governing = (\<lambda>fallback. case (r_kind r, r_change r) of
            (KChange, Some c) \<Rightarrow> governingChangePolicy cfg c | _ \<Rightarrow> fallback);
          epoch = Some (standingEpochOf cfg)
      in if r_ownerScope r \<noteq> SOwner then
           \<lparr>lgt_owner = OwnerNone, lgt_sendPolicy = None, lgt_changePolicy = Some (governing (defaultChangePolicy cfg)),
            lgt_sendEpoch = None, lgt_standingEpoch = epoch\<rparr>
         else case ownerEntry cfg (r_inboxId r) of
           None \<Rightarrow> \<lparr>lgt_owner = OwnerRemoved, lgt_sendPolicy = None, lgt_changePolicy = None, lgt_sendEpoch = None,
                    lgt_standingEpoch = epoch\<rparr>
         | Some e \<Rightarrow>
            \<lparr>lgt_owner = OwnerPresent, lgt_sendPolicy = Some (orDefault (en_sendPolicy e) (cf_defaultSend cfg)),
             lgt_changePolicy = Some (governing (orDefault (en_changePolicy e) (defaultChangePolicy cfg))),
             lgt_sendEpoch = Some (sendEpochOf cfg (r_inboxId r)), lgt_standingEpoch = epoch\<rparr>)"

definition OWNER_REMOVED_REASON :: jstr where
  "OWNER_REMOVED_REASON = js ''its mailbox or account was removed''"
definition SEND_EPOCH_REASON :: jstr where
  "SEND_EPOCH_REASON = js ''sending was turned off since this was prepared (policy: never)''"
definition STANDING_EPOCH_REASON :: jstr where
  "STANDING_EPOCH_REASON = js ''standing approvals were ended since this was approved''"
definition CHANGE_POLICY_TIGHTENED_REASON :: jstr where
  "CHANGE_POLICY_TIGHTENED_REASON = js ''the change policy was tightened since this was approved''"
definition NEVER_NOTICE :: jstr where
  "NEVER_NOTICE = js ''sending is turned off (policy: never); any use revokes it''"

definition accountNoun :: "jstr \<Rightarrow> jstr" where
  "accountNoun channel =
     (if channel = js ''gmail'' then js ''mailbox'' else if channel = js ''slack'' then js ''workspace''
      else js ''account'')"

definition changePolicyTightened :: "send_policy option \<Rightarrow> send_policy option \<Rightarrow> bool" where
  "changePolicyTightened approved live \<longleftrightarrow> live = Some PConfirm \<and> approved \<noteq> Some PConfirm"

section \<open>Classification\<close>

datatype public_state = Plain approval_state | PublicCorrupt | Answered

record outcome =
  oc_state :: public_state
  oc_claimable :: bool
  oc_ownerRemoved :: bool
  oc_reason :: "jstr option"
  oc_record :: "approval option"
  oc_revokes :: bool
  oc_error :: "error_code option"

definition downloadClaimable :: "approval \<Rightarrow> send_policy option \<Rightarrow> bool" where
  "downloadClaimable r live \<longleftrightarrow>
     r_state r = Approved \<or> (r_state r = Pending \<and> r_requiredPolicy r = PChat \<and> live = Some PChat)"

definition isClaimable :: "approval \<Rightarrow> live_gate \<Rightarrow> bool" where
  "isClaimable r live = (case r_kind r of
      KSend \<Rightarrow> r_state r = Approved \<or> (r_route r = Some RChat \<and> lgt_sendPolicy live = Some PChat)
    | KChange \<Rightarrow> r_state r = Approved \<or> (r_route r = Some RChat \<and> lgt_changePolicy live = Some PChat)
    | KDownload \<Rightarrow> downloadClaimable r (lgt_changePolicy live)
    | KDisclosure \<Rightarrow> r_state r = Approved
    | KStanding \<Rightarrow> False)"

definition errorOf :: "approval \<Rightarrow> action \<Rightarrow> bool \<Rightarrow> bool \<Rightarrow> error_code option" where
  "errorOf r act noConfig revokedByNever = (case r_state r of
      Pending \<Rightarrow> if noConfig \<and> act \<in> {AApprove, AClaim} then Some CONFIG else None
    | Approved \<Rightarrow> if noConfig \<and> act \<in> {AApprove, AClaim} then Some CONFIG else None
    | Revoked \<Rightarrow> Some (if revokedByNever then POLICY_NEVER else APPROVAL_VOID)
    | Expired \<Rightarrow> Some APPROVAL_EXPIRED
    | Used \<Rightarrow> Some APPROVAL_VOID
    | Failed \<Rightarrow> Some APPROVAL_VOID
    | Sending \<Rightarrow> Some APPROVAL_PENDING
    | Unknown \<Rightarrow> Some SEND_OUTCOME_UNKNOWN)"

text \<open>Whether sending is off for a record, and the revocation the configuration derives for an active one.\<close>

definition sendsAs :: "approval \<Rightarrow> bool" where
  "sendsAs r \<longleftrightarrow> r_kind r = KSend \<or> r_kind r = KStanding"

definition standingBound :: "approval \<Rightarrow> bool" where
  "standingBound r \<longleftrightarrow> r_kind r = KStanding \<or> isChild r"

definition neverNow :: "approval \<Rightarrow> live_gate option \<Rightarrow> bool" where
  "neverNow r live \<longleftrightarrow> sendsAs r \<and> given live (\<lambda>g. lgt_owner g = OwnerPresent \<and>
     stricterPolicy (orDefault (lgt_sendPolicy g) PNever) (r_requiredPolicy r) = PNever)"

definition ownerGone :: "approval \<Rightarrow> live_gate option \<Rightarrow> bool" where
  "ownerGone r live \<longleftrightarrow> r_ownerScope r = SOwner \<and> given live (\<lambda>g. lgt_owner g = OwnerRemoved)"

definition neverReason :: "approval \<Rightarrow> live_gate option \<Rightarrow> jstr" where
  "neverReason r live =
     (if given live (\<lambda>g. lgt_sendPolicy g = Some PNever)
      then js ''sending is turned off for this '' @ accountNoun (r_channel r) @ js '' (policy: never)''
      else js ''sending is turned off for this approval (policy: never)'')"

definition derivedReason :: "approval \<Rightarrow> action \<Rightarrow> live_gate option \<Rightarrow> jstr option" where
  "derivedReason r act live =
     (if active r \<and> ownerGone r live then Some OWNER_REMOVED_REASON
      else if active r \<and> neverNow r live then
        (if act \<in> {AApprove, AClaim} then Some (neverReason r live) else None)
      else if active r \<and> sendsAs r \<and> given live (\<lambda>g. lgt_owner g = OwnerPresent \<and>
           Some (orDefault (r_sendEpoch r) 0) \<noteq> lgt_sendEpoch g) then Some SEND_EPOCH_REASON
      else if active r \<and> standingBound r \<and> given live (\<lambda>g. lgt_standingEpoch g \<noteq> None \<and>
           r_standingEpoch r \<noteq> lgt_standingEpoch g) then Some STANDING_EPOCH_REASON
      else if r_kind r = KStanding \<and> r_state r = Approved \<and> given live (\<lambda>g. lgt_owner g = OwnerPresent \<and>
           changePolicyTightened (r_approvedChangePolicy r) (lgt_changePolicy g))
        then Some CHANGE_POLICY_TIGHTENED_REASON
      else None)"

definition classifyDisclosure :: "approval \<Rightarrow> outcome" where
  "classifyDisclosure r =
     \<lparr>oc_state = Plain (r_state r), oc_claimable = (r_state r = Approved), oc_ownerRemoved = False,
      oc_reason = r_reason r, oc_record = Some r, oc_revokes = False,
      oc_error = (case r_state r of Pending \<Rightarrow> None | Approved \<Rightarrow> None | Expired \<Rightarrow> Some APPROVAL_EXPIRED
                  | _ \<Rightarrow> Some APPROVAL_VOID)\<rparr>"

definition revokedAs :: "approval \<Rightarrow> jstr \<Rightarrow> int \<Rightarrow> approval" where
  "revokedAs r reason at =
     r\<lparr>r_state := Revoked, r_reason := Some reason, r_revokedAt := Some (Iso at), r_challengeHash := None\<rparr>"

definition classifyV2 :: "approval \<Rightarrow> action \<Rightarrow> live_gate option \<Rightarrow> int \<Rightarrow> outcome" where
  "classifyV2 r act live now =
     (if r_kind r = KDisclosure then classifyDisclosure r
      else
        let derived = derivedReason r act live;
            revokedByNever = (active r \<and> \<not> ownerGone r live \<and> neverNow r live \<and> act \<in> {AApprove, AClaim});
            after = (case derived of None \<Rightarrow> r | Some reason \<Rightarrow> revokedAs r reason now);
            claimable = (active after \<and> \<not> neverNow r live \<and> given live (isClaimable after));
            reason = (if active after \<and> live \<noteq> None \<and> neverNow r live then Some NEVER_NOTICE else r_reason after);
            state = (if r_kind after = KDownload \<and> (r_state after = Approved \<or> r_state after = Used)
                     then Answered else Plain (r_state after))
        in \<lparr>oc_state = state, oc_claimable = claimable, oc_ownerRemoved = ownerGone r live, oc_reason = reason,
            oc_record = Some after, oc_revokes = (derived \<noteq> None),
            oc_error = errorOf after act (live = None) revokedByNever\<rparr>)"

fun integrityName :: "integrity_reason \<Rightarrow> string" where
  "integrityName FileNameMismatch = ''file-name-mismatch''"
| "integrityName BindingMissing = ''binding-missing''"
| "integrityName BindingMalformed = ''binding-malformed''"
| "integrityName BindingMismatch = ''binding-mismatch''"
| "integrityName WrongShape = ''wrong-shape''"
| "integrityName DigestVersion = ''digest-version''"
| "integrityName ContentDigestMalformed = ''content-digest-malformed''"
| "integrityName ContentDigestMismatch = ''content-digest-mismatch''"
| "integrityName IdentityContradiction = ''identity-contradiction''"
| "integrityName ListingMismatch = ''listing-mismatch''"
| "integrityName NarrowingInvalid = ''narrowing-invalid''"
| "integrityName StateImpossible = ''state-impossible''"
| "integrityName LifetimeMismatch = ''lifetime-mismatch''"
| "integrityName TimestampInvalid = ''timestamp-invalid''"
| "integrityName TimestampMissing = ''timestamp-missing''"
| "integrityName TimestampMisplaced = ''timestamp-misplaced''"
| "integrityName TimestampMisordered = ''timestamp-misordered''"
| "integrityName SentIdMissing = ''sent-id-missing''"
| "integrityName EvidenceMissing = ''evidence-missing''"
| "integrityName EvidenceInvalid = ''evidence-invalid''"
| "integrityName EvidenceContradictory = ''evidence-contradictory''"

fun unreadableName :: "unreadable_reason \<Rightarrow> string" where
  "unreadableName InvalidJson = ''invalid-json''"
| "unreadableName Truncated = ''truncated''"
| "unreadableName MissingOwnership = ''missing-ownership''"
| "unreadableName MissingKind = ''missing-kind''"
| "unreadableName UnreadableShape = ''wrong-shape''"
| "unreadableName UnreadableFileName = ''file-name-mismatch''"

text \<open>The refusal of a record of an earlier release (\<open>otherVersionRefusal\<close>) and of one that cannot be used (\<open>integrityRefusal\<close>).\<close>

definition refusedOutcome :: "public_state \<Rightarrow> jstr option \<Rightarrow> outcome" where
  "refusedOutcome state reason =
     \<lparr>oc_state = state, oc_claimable = False, oc_ownerRemoved = False, oc_reason = reason, oc_record = None,
      oc_revokes = False, oc_error = Some APPROVAL_VOID\<rparr>"

definition approvalOutcome :: "stored_approval \<Rightarrow> action \<Rightarrow> live_gate option \<Rightarrow> int \<Rightarrow> outcome" where
  "approvalOutcome s act live now = (case s of
      V2 r \<Rightarrow> classifyV2 r act live now
    | Legacy v _ \<Rightarrow> refusedOutcome (Plain (lv_state v)) None
    | CorruptForm _ reason _ _ \<Rightarrow> refusedOutcome PublicCorrupt (Some (js (integrityName reason)))
    | Unreadable _ reason \<Rightarrow> refusedOutcome PublicCorrupt (Some (js (unreadableName reason))))"

definition writtenAtALook :: "outcome \<Rightarrow> bool" where
  "writtenAtALook o1 \<longleftrightarrow>
     oc_revokes o1 \<and> given (oc_record o1) (\<lambda>r. r_kind r = KStanding)
     \<and> oc_reason o1 = Some CHANGE_POLICY_TIGHTENED_REASON"

end
