(* ===== verification/ApprovalStore.thy ===== *)
theory ApprovalStore
  imports ApprovalOutcome
begin

text \<open>
  The approval store: \<open>packages/core/src/approvals.ts\<close>. A store is its record files by id and its claim
  markers by id; a marker holds the claim token, when the claim has one. An operation takes the store, the
  configuration it reads under the record's lock, the readings of the clock it makes, and its arguments, and
  gives the store and the error or the value.

  Each reading of the clock is an argument of its own (\<open>clock\<close>), because the code asks the clock again at
  each step. Random ids, challenges and tokens, and the connection a record is prepared through, are
  arguments. Every operation is one step: it runs under its record's file lock. \<open>#markClaimed\<close> runs after
  the lock is released and is a step of its own in \<open>ApprovalSystem\<close>. Daily retention (\<open>ensurePruned\<close>) and
  the \<open>answered\<close> hook are not modelled; a thrown error is its code.
\<close>

record store =
  st_files :: "jstr \<Rightarrow> stored_file option"
  st_claims :: "jstr \<Rightarrow> jstr option option"

record clock =
  ck_read :: int
  ck_derive :: int
  ck_classify :: int
  ck_write :: int
  ck_decide :: int
  ck_rewrite :: int

definition putRecord :: "store \<Rightarrow> approval \<Rightarrow> store" where
  "putRecord st r = st\<lparr>st_files := (st_files st)(r_approvalId r := Some (V2File r))\<rparr>"

definition stamped :: "approval \<Rightarrow> int \<Rightarrow> approval" where
  "stamped r at = r\<lparr>r_updatedAt := Iso at\<rparr>"

section \<open>Derived states\<close>

definition STALE_LEASE_REASON :: jstr where
  "STALE_LEASE_REASON = js ''the sending process stopped before recording an outcome''"
definition WINDOW_PASSED :: jstr where "WINDOW_PASSED = js ''the approval window passed''"

text \<open>The deadline that applies: an approved record's own window, cut short by a narrowing's fewer days.\<close>

definition windowOf :: "approval \<Rightarrow> stamp" where
  "windowOf r =
     (if r_state r = Approved \<and> r_kind r \<noteq> KDownload then firstOf (r_usableUntil r) (r_expiresAt r)
      else r_expiresAt r)"

definition narrowedEnd :: "approval \<Rightarrow> int option" where
  "narrowedEnd r =
     (if r_kind r = KStanding \<and> r_state r = Approved then
        (case (timeOf (r_approvedAt r), r_standing r) of
           (Some a, Some b) \<Rightarrow> Some (a + standingDays b (r_narrowed r) * STANDING_DAY_MS)
         | _ \<Rightarrow> None)
      else None)"

definition deadlineOf :: "approval \<Rightarrow> stamp" where
  "deadlineOf r =
     (case narrowedEnd r of
        Some n \<Rightarrow> if given (stampTime (windowOf r)) (\<lambda>d. n < d) then Iso n else windowOf r
      | None \<Rightarrow> windowOf r)"

definition clockBehind :: "approval \<Rightarrow> int \<Rightarrow> bool" where
  "clockBehind r now \<longleftrightarrow>
     given (stampTime (r_createdAt r)) (\<lambda>c. now < c)
     \<or> (r_state r = Approved \<and> given (timeOf (r_approvedAt r)) (\<lambda>a. now < a))"

definition leaseStart :: "approval \<Rightarrow> int option" where
  "leaseStart r = timeOf (case r_sendingHeartbeatAt r of Some h \<Rightarrow> Some h | None \<Rightarrow> r_sendingAt r)"

definition derive :: "approval \<Rightarrow> int \<Rightarrow> approval" where
  "derive r now =
     (if active r then
        if clockBehind r now
        then r\<lparr>r_state := Expired, r_reason := Some CLOCK_ANOMALY, r_expiredAt := Some (Iso now)\<rparr>
        else if given (stampTime (deadlineOf r)) (\<lambda>d. d \<le> now)
        then r\<lparr>r_state := Expired, r_reason := Some WINDOW_PASSED, r_expiredAt := Some (deadlineOf r)\<rparr>
        else r
      else if r_state r = Sending \<and> given (leaseStart r) (\<lambda>s. s + SENDING_LEASE_MS \<le> now)
      then r\<lparr>r_state := Unknown, r_reason := Some STALE_LEASE_REASON\<rparr>
      else r)"

definition derivedForm :: "stored_approval \<Rightarrow> int \<Rightarrow> stored_approval" where
  "derivedForm s now = (case s of V2 r \<Rightarrow> V2 (derive r now) | _ \<Rightarrow> s)"

definition gateFor :: "config option \<Rightarrow> stored_approval \<Rightarrow> live_gate option" where
  "gateFor cfg s = (case (cfg, s) of (Some c, V2 r) \<Rightarrow> Some (liveGateOf c r) | _ \<Rightarrow> None)"

section \<open>One locked transition\<close>

text \<open>\<open>#path\<close> and \<open>#read\<close>, then what the caller may be told of: anything else is the one \<open>NOT_FOUND\<close>.\<close>

definition findRecord ::
  "runtime \<Rightarrow> store \<Rightarrow> config option \<Rightarrow> int \<Rightarrow> jstr \<Rightarrow> approval_expectation \<Rightarrow> error_code + stored_approval" where
  "findRecord rt st cfg now i ax =
     (if \<not> approvalIdPattern i then Inl USAGE
      else case st_files st i of
        None \<Rightarrow> Inl NOT_FOUND
      | Some f \<Rightarrow>
          let found = decodeStored rt i f cfg now
          in if matchesExpectation found ax then Inr found else Inl NOT_FOUND)"

text \<open>The record as stored, as it reads now, its classification and its live gate.\<close>

definition openRecord ::
  "runtime \<Rightarrow> store \<Rightarrow> config option \<Rightarrow> clock \<Rightarrow> jstr \<Rightarrow> approval_expectation \<Rightarrow> action
     \<Rightarrow> error_code + (approval \<times> approval \<times> outcome \<times> live_gate option)" where
  "openRecord rt st cfg ck i ax act =
     result_bind (findRecord rt st cfg (ck_read ck) i ax) (\<lambda>found.
       let derived = derivedForm found (ck_derive ck);
           live = gateFor cfg derived;
           oc = approvalOutcome derived act live (ck_classify ck)
       in case (found, derived) of
            (V2 r, V2 d) \<Rightarrow> Inr (r, d, oc, live)
          | _ \<Rightarrow> Inl (orDefault (oc_error oc) APPROVAL_VOID))"

text \<open>What a decision leaves: refused with nothing more written, unchanged, or a next record and a refusal made after it.\<close>

datatype decision = Refuse error_code | Unchanged | Next approval "error_code option"

text \<open>\<open>#holdsClaim\<close>: a marker without a token is held by nobody.\<close>

definition holdsClaim :: "store \<Rightarrow> jstr \<Rightarrow> jstr \<Rightarrow> bool" where
  "holdsClaim st i token \<longleftrightarrow> st_claims st i = Some (Some token)"

definition currentRecord :: "action \<Rightarrow> approval \<Rightarrow> outcome \<Rightarrow> approval" where
  "currentRecord act d oc =
     (if oc_revokes oc \<and> act \<noteq> AInspect \<and> act \<noteq> AWait then firstOf (oc_record oc) d else d)"

definition settle :: "store \<Rightarrow> approval \<Rightarrow> approval \<Rightarrow> int \<Rightarrow> store" where
  "settle st stored current now = (if r_state current \<noteq> r_state stored then putRecord st (stamped current now) else st)"

definition conclude :: "store \<Rightarrow> approval \<Rightarrow> int \<Rightarrow> decision \<Rightarrow> store \<times> (error_code + approval)" where
  "conclude st current now d = (case d of
      Refuse e \<Rightarrow> (st, Inl e)
    | Unchanged \<Rightarrow> (st, Inr current)
    | Next n refused \<Rightarrow>
        (putRecord st (stamped n now), (case refused of None \<Rightarrow> Inr n | Some e \<Rightarrow> Inl e)))"

definition transition ::
  "runtime \<Rightarrow> store \<Rightarrow> config option \<Rightarrow> clock \<Rightarrow> jstr \<Rightarrow> approval_expectation \<Rightarrow> action \<Rightarrow> jstr option
     \<Rightarrow> (store \<Rightarrow> approval \<Rightarrow> outcome \<Rightarrow> store \<times> 'x)
     \<Rightarrow> (approval \<Rightarrow> outcome \<Rightarrow> live_gate option \<Rightarrow> 'x \<Rightarrow> decision)
     \<Rightarrow> store \<times> (error_code + approval)" where
  "transition rt st cfg ck i ax act token prior decide =
     (case openRecord rt st cfg ck i ax act of
        Inl e \<Rightarrow> (st, Inl e)
      | Inr (stored, d, oc, live) \<Rightarrow>
          if given token (\<lambda>t. \<not> holdsClaim st i t) then (st, Inl UNEXPECTED)
          else
            let current = currentRecord act d oc;
                (st2, seen) = prior (settle st stored current (ck_write ck)) current oc
            in conclude st2 current (ck_rewrite ck) (decide current oc live seen))"

definition noPrior :: "store \<Rightarrow> approval \<Rightarrow> outcome \<Rightarrow> store \<times> unit" where
  "noPrior st r oc = (st, ())"

definition anyOf :: "approval_kind \<Rightarrow> approval_expectation" where
  "anyOf kind = \<lparr>ax_kind = Some kind, ax_channel = None, ax_owner = None\<rparr>"

definition ownedBy :: "approval_kind \<Rightarrow> jstr \<Rightarrow> approval_expectation" where
  "ownedBy kind owner = \<lparr>ax_kind = Some kind, ax_channel = None, ax_owner = Some owner\<rparr>"

text \<open>\<open>inspect\<close>: a look, or the first step of an action.\<close>

definition inspect ::
  "runtime \<Rightarrow> store \<Rightarrow> config option \<Rightarrow> clock \<Rightarrow> jstr \<Rightarrow> approval_expectation \<Rightarrow> action
     \<Rightarrow> store \<times> (error_code + (stored_approval \<times> outcome))" where
  "inspect rt st cfg ck i ax act =
     (case findRecord rt st cfg (ck_read ck) i ax of
        Inl e \<Rightarrow> (st, Inl e)
      | Inr found \<Rightarrow>
          let derived = derivedForm found (ck_derive ck);
              oc = approvalOutcome derived act (gateFor cfg derived) (ck_classify ck)
          in case (found, derived) of
               (V2 r, V2 d) \<Rightarrow>
                 let acting = (oc_revokes oc \<and> (act \<noteq> AInspect \<and> act \<noteq> AWait \<or> writtenAtALook oc));
                     current = (if acting then firstOf (oc_record oc) d else d)
                 in (settle st r current (ck_write ck), Inr (V2 current, oc))
             | _ \<Rightarrow> (st, Inr (derived, oc)))"

section \<open>Creation\<close>

text \<open>\<open>#bound\<close>: the binding is recomputed from the record's own fields, last.\<close>

definition bound :: "runtime \<Rightarrow> approval \<Rightarrow> error_code + approval" where
  "bound rt r =
     (if r_kind r \<noteq> KDisclosure \<and> \<not> isKnownChannel (r_channel r) then Inl UNEXPECTED
      else result_bind (bindingDigestOf rt r) (\<lambda>d. Inr (r\<lparr>r_bindingDigest := Some d\<rparr>)))"

definition written :: "store \<Rightarrow> error_code + approval \<Rightarrow> store \<times> (error_code + approval)" where
  "written st r = (case r of Inl e \<Rightarrow> (st, Inl e) | Inr a \<Rightarrow> (putRecord st a, Inr a))"

definition pendingRecord :: "jstr \<Rightarrow> approval_kind \<Rightarrow> int \<Rightarrow> int \<Rightarrow> jstr option \<Rightarrow> approval" where
  "pendingRecord newId kind now pendingMs preparedBy =
     (blankApproval newId kind now)\<lparr>r_pendingMs := pendingMs, r_expiresAt := Iso (now + pendingMs),
        r_preparedBy := preparedBy\<rparr>"

record send_input =
  in_channel :: jstr
  in_inboxId :: jstr
  in_inboxSub :: "jstr option"
  in_draftId :: jstr
  in_draftMessageId :: jstr
  in_contentDigest :: jstr
  in_sendEpoch :: int
  in_policy :: send_policy
  in_requiredPolicy :: send_policy
  in_riskFlags :: "jstr list"
  in_expect :: expectation

definition createRecord :: "runtime \<Rightarrow> int \<Rightarrow> jstr \<Rightarrow> jstr option \<Rightarrow> send_input \<Rightarrow> error_code + approval" where
  "createRecord rt now newId preparedBy input =
     (if \<not> hex64 (in_contentDigest input) then Inl UNEXPECTED
      else if \<not> isKnownChannel (in_channel input) then Inl UNEXPECTED
      else
        let required = stricterPolicy (in_policy input) (in_requiredPolicy input);
            way = (if required = PConfirm then RConfirm else RChat);
            pendingMs = pendingMsOf way
        in bound rt ((pendingRecord newId KSend now pendingMs preparedBy)
             \<lparr>r_channel := in_channel input, r_ownerScope := SOwner, r_route := Some way,
              r_approvedMs := Some LIFETIME_approved, r_inboxId := in_inboxId input, r_inboxSub := in_inboxSub input,
              r_draftId := in_draftId input, r_draftMessageId := in_draftMessageId input,
              r_contentDigest := in_contentDigest input, r_sendEpoch := Some (in_sendEpoch input),
              r_policy := in_policy input, r_requiredPolicy := required, r_riskFlags := in_riskFlags input,
              r_expect := in_expect input\<rparr>))"

definition create :: "runtime \<Rightarrow> store \<Rightarrow> int \<Rightarrow> jstr \<Rightarrow> jstr option \<Rightarrow> send_input \<Rightarrow> store \<times> (error_code + approval)" where
  "create rt st now newId preparedBy input = written st (createRecord rt now newId preparedBy input)"

definition disclosureRecord ::
  "runtime \<Rightarrow> int \<Rightarrow> jstr \<Rightarrow> jstr option \<Rightarrow> disclosure_binding \<Rightarrow> error_code + approval" where
  "disclosureRecord rt now newId preparedBy binding =
     result_bind (canonicalDisclosureBinding binding) (\<lambda>d.
       bound rt ((pendingRecord newId KDisclosure now LIFETIME_confirm preparedBy)
         \<lparr>r_approvedMs := Some LIFETIME_approved, r_disclosure := Some d\<rparr>))"

definition createDisclosure where
  "createDisclosure rt st now newId preparedBy binding = written st (disclosureRecord rt now newId preparedBy binding)"

definition changeRecord ::
  "runtime \<Rightarrow> int \<Rightarrow> jstr \<Rightarrow> jstr option \<Rightarrow> jstr \<Rightarrow> change_binding \<Rightarrow> send_policy \<Rightarrow> error_code + approval" where
  "changeRecord rt now newId preparedBy channel given_change pol =
     (if \<not> isKnownChannel channel then Inl UNEXPECTED
      else
        let change = given_change\<lparr>ch_settings := Some (orEmpty (ch_settings given_change)),
              ch_doneAtOnce := (if orEmpty (ch_doneAtOnce given_change) = [] then None else ch_doneAtOnce given_change)\<rparr>;
            digest = changeDigest rt change;
            scope = (case ch_target change of None \<Rightarrow> SGlobal
                     | Some t \<Rightarrow> if tg_id t = None then SProspective else SOwner);
            way = (if pol = PConfirm then RConfirm else RChat);
            pendingMs = pendingMsOf way
        in bound rt ((pendingRecord newId KChange now pendingMs preparedBy)
             \<lparr>r_channel := channel, r_ownerScope := scope, r_route := Some way, r_approvedMs := Some LIFETIME_approved,
              r_inboxId := (case ch_target change of None \<Rightarrow> [] | Some t \<Rightarrow> orDefault (tg_id t) []),
              r_draftId := js ''change'', r_draftMessageId := digest, r_contentDigest := digest,
              r_policy := pol, r_requiredPolicy := pol, r_expect := no_expectation (ch_summary change),
              r_change := Some change\<rparr>))"

definition createChange where
  "createChange rt st now newId preparedBy channel change pol =
     written st (changeRecord rt now newId preparedBy channel change pol)"

definition requireEpochs :: "int \<Rightarrow> int \<Rightarrow> bool" where
  "requireEpochs a b \<longleftrightarrow> 0 \<le> a \<and> a \<le> MAX_SAFE_INTEGER \<and> 0 \<le> b \<and> b \<le> MAX_SAFE_INTEGER"

definition standingRecord ::
  "runtime \<Rightarrow> int \<Rightarrow> jstr \<Rightarrow> jstr option \<Rightarrow> standing_binding \<Rightarrow> jstr \<Rightarrow> int \<Rightarrow> int \<Rightarrow> error_code + approval" where
  "standingRecord rt now newId preparedBy binding inboxSub sendEpoch standingEpoch =
     result_bind (canonicalStandingBinding rt binding) (\<lambda>standing.
       if inboxSub = [] then Inl BAD_DATA
       else if \<not> requireEpochs sendEpoch standingEpoch then Inl UNEXPECTED
       else
         let digest = standingDigest rt standing
         in bound rt ((pendingRecord newId KStanding now LIFETIME_confirm preparedBy)
              \<lparr>r_channel := js ''slack'', r_ownerScope := SOwner, r_route := Some RConfirm,
               r_approvedMs := Some (sl_expiresDays (sb_limits standing) * STANDING_DAY_MS),
               r_inboxId := sb_targetId standing, r_inboxSub := Some inboxSub, r_draftId := js ''standing'',
               r_draftMessageId := digest, r_contentDigest := digest, r_sendEpoch := Some sendEpoch,
               r_standingEpoch := Some standingEpoch, r_policy := PConfirm, r_requiredPolicy := PConfirm,
               r_expect := no_expectation (sb_summary standing), r_standing := Some standing\<rparr>))"

definition createStanding where
  "createStanding rt st now newId preparedBy binding inboxSub sendEpoch standingEpoch =
     written st (standingRecord rt now newId preparedBy binding inboxSub sendEpoch standingEpoch)"

definition keptListing :: "listed_file \<Rightarrow> listed_file" where
  "keptListing f = f\<lparr>lf_flags := (if orEmpty (lf_flags f) = [] then None else lf_flags f)\<rparr>"

definition downloadRecord ::
  "runtime \<Rightarrow> int \<Rightarrow> jstr \<Rightarrow> jstr option \<Rightarrow> jstr \<Rightarrow> download_binding \<Rightarrow> send_policy \<Rightarrow> error_code + approval" where
  "downloadRecord rt now newId preparedBy channel input pol =
     (let download = input\<lparr>dl_request := normalJson (dl_request input),
            dl_listing := map_option (map keptListing) (dl_listing input), dl_answer := None\<rparr>
      in if given (dl_listing download) (\<lambda>l.
              canonicalJson (strings (map lf_name l)) \<noteq> canonicalJson (strings (dl_names download)))
         then Inl UNEXPECTED
         else if \<not> isKnownChannel channel then Inl UNEXPECTED
         else
           let digest = downloadDigest rt download; required = (if pol = PChat then PChat else PConfirm)
           in bound rt ((pendingRecord newId KDownload now LIFETIME_download preparedBy)
                \<lparr>r_channel := channel, r_ownerScope := SOwner, r_inboxId := dl_targetId download,
                 r_draftId := js ''download'', r_draftMessageId := digest, r_contentDigest := digest,
                 r_policy := required, r_requiredPolicy := required, r_expect := no_expectation (dl_summary download),
                 r_download := Some download\<rparr>))"

definition createDownload where
  "createDownload rt st now newId preparedBy channel input pol =
     written st (downloadRecord rt now newId preparedBy channel input pol)"

end
