(* ===== verification/ApprovalActions.thy ===== *)
theory ApprovalActions
  imports ApprovalStore
begin

text \<open>
  What is done with a stored approval: challenges, approvals, answers, claims, leases, outcomes and
  revocations, of \<open>packages/core/src/approvals.ts\<close> and \<open>ids.ts\<close>. Each action is a decision on the record
  its transition opened; the decision is a definition of its own, so that its lemmas need no store.
\<close>

section \<open>Challenges\<close>

definition MAX_CHALLENGE_ATTEMPTS :: int where "MAX_CHALLENGE_ATTEMPTS = 3"

definition hashChallenge :: "runtime \<Rightarrow> jstr \<Rightarrow> jstr" where
  "hashChallenge rt challenge = rtSha rt (rtUpper rt (trim challenge))"

definition hexDigitValue :: "nat \<Rightarrow> nat option" where
  "hexDigitValue c =
     (if 48 \<le> c \<and> c \<le> 57 then Some (c - 48)
      else if 97 \<le> c \<and> c \<le> 102 then Some (c - 87)
      else if 65 \<le> c \<and> c \<le> 70 then Some (c - 55) else None)"

text \<open>\<open>Buffer.from(text, 'hex')\<close>: whole bytes, up to the first that is not one.\<close>

fun hexBytes :: "jstr \<Rightarrow> nat list" where
  "hexBytes (a # b # s) = (case (hexDigitValue a, hexDigitValue b) of
      (Some x, Some y) \<Rightarrow> (16 * x + y) # hexBytes s
    | _ \<Rightarrow> [])"
| "hexBytes _ = []"

definition challengeMatches :: "runtime \<Rightarrow> jstr \<Rightarrow> jstr \<Rightarrow> bool" where
  "challengeMatches rt answer storedHash \<longleftrightarrow> hexBytes (hashChallenge rt answer) = hexBytes storedHash"

text \<open>A challenge that is absent or empty is none.\<close>

definition noChallenge :: "approval \<Rightarrow> bool" where
  "noChallenge r \<longleftrightarrow> r_challengeHash r = None \<or> r_challengeHash r = Some []"

definition issueDecision :: "runtime \<Rightarrow> jstr \<Rightarrow> approval \<Rightarrow> outcome \<Rightarrow> decision" where
  "issueDecision rt challenge current oc =
     (case oc_error oc of Some e \<Rightarrow> Refuse e
      | None \<Rightarrow>
          if r_state current \<noteq> Pending then Refuse USAGE
          else Next (current\<lparr>r_challengeHash := Some (hashChallenge rt challenge)\<rparr>) None)"

definition issueChallenge where
  "issueChallenge rt st cfg ck i kind challenge =
     (if kind = KDisclosure then (st, Inl APPROVAL_REQUIRED)
      else transition rt st cfg ck i (anyOf kind) AApprove None noPrior
             (\<lambda>current oc live _. issueDecision rt challenge current oc))"

definition issueDisclosureChallenge where
  "issueDisclosureChallenge rt st cfg ck i challenge =
     transition rt st cfg ck i (anyOf KDisclosure) AApprove None noPrior
       (\<lambda>current oc live _. issueDecision rt challenge current oc)"

section \<open>Approvals\<close>

record live_draft =
  ld_draftMessageId :: jstr
  ld_contentDigest :: jstr

definition TOO_MANY_ANSWERS :: jstr where "TOO_MANY_ANSWERS = js ''too many wrong answers to the challenge''"

text \<open>A revocation by \<open>approve\<close>, which leaves the challenge, and one that clears it.\<close>

definition voided :: "approval \<Rightarrow> jstr \<Rightarrow> int \<Rightarrow> approval" where
  "voided r reason at = r\<lparr>r_state := Revoked, r_reason := Some reason, r_revokedAt := Some (Iso at)\<rparr>"

text \<open>The wrong answer: counted, and the third one voids the record.\<close>

definition wrongAnswer :: "approval \<Rightarrow> int \<Rightarrow> decision" where
  "wrongAnswer current at =
     (let attempts = r_challengeAttempts current + 1 in
      if MAX_CHALLENGE_ATTEMPTS \<le> attempts
      then Next (voided (current\<lparr>r_challengeAttempts := attempts\<rparr>) TOO_MANY_ANSWERS at) (Some APPROVAL_VOID)
      else Next (current\<lparr>r_challengeAttempts := attempts\<rparr>) (Some APPROVAL_REQUIRED))"

definition NOT_AT_TERMINAL :: jstr where
  "NOT_AT_TERMINAL = js ''the change policy is confirm, and this was not approved at a terminal''"

definition driftReason :: "approval_kind \<Rightarrow> jstr" where
  "driftReason kind =
     (if kind = KChange then js ''the change shown is not the one the approval was prepared for''
      else if kind = KStanding then js ''the standing approval shown is not the one that was prepared''
      else js ''the draft changed after the preview was prepared'')"

definition approvedRecord :: "approval \<Rightarrow> approval_kind \<Rightarrow> via \<Rightarrow> live_gate option \<Rightarrow> int \<Rightarrow> approval" where
  "approvedRecord current kind via gate at =
     current\<lparr>r_state := Approved, r_approvedVia := Some via, r_approvedAt := Some (Iso at),
       r_usableUntil := Some (Iso (at + orDefault (r_approvedMs current) LIFETIME_approved)),
       r_approvedBindingDigest := r_bindingDigest current, r_challengeHash := None,
       r_approvedChangePolicy := (if kind = KStanding
         then Some (orDefault (case gate of None \<Rightarrow> None | Some g \<Rightarrow> lgt_changePolicy g) PChat)
         else r_approvedChangePolicy current)\<rparr>"

definition approveDecision ::
  "runtime \<Rightarrow> approval_kind \<Rightarrow> via \<Rightarrow> live_draft \<Rightarrow> jstr \<Rightarrow> int \<Rightarrow> approval \<Rightarrow> outcome \<Rightarrow> live_gate option \<Rightarrow> decision" where
  "approveDecision rt kind via live answer at current oc gate =
     (case oc_error oc of Some e \<Rightarrow> Refuse e
      | None \<Rightarrow>
          if r_state current \<noteq> Pending then Refuse USAGE
          else if noChallenge current then Refuse APPROVAL_REQUIRED
          else if kind = KChange \<and> via \<noteq> Terminal \<and> via \<noteq> ViaApp
            then Next (voided current NOT_AT_TERMINAL at) (Some APPROVAL_VOID)
          else if kind = KStanding \<and> via \<noteq> Terminal
            then Next (voided current (js ''a standing approval is approved only with its code at a terminal, and this was not approved at a terminal'') at) (Some APPROVAL_VOID)
          else if ld_draftMessageId live \<noteq> r_draftMessageId current \<or> ld_contentDigest live \<noteq> r_contentDigest current
            then Next (voided current (driftReason kind) at) (Some APPROVAL_VOID)
          else if \<not> given (r_challengeHash current) (challengeMatches rt answer)
            then wrongAnswer current at
          else Next (approvedRecord current kind via gate at) None)"

definition approve where
  "approve rt st cfg ck i kind via live answer =
     (if kind = KDisclosure then (st, Inl APPROVAL_REQUIRED)
      else if via = ViaApp \<and> kind \<noteq> KChange then (st, Inl APPROVAL_REQUIRED)
      else transition rt st cfg ck i (anyOf kind) AApprove None noPrior
             (\<lambda>current oc gate _. approveDecision rt kind via live answer (ck_decide ck) current oc gate))"

definition approveDisclosureDecision ::
  "runtime \<Rightarrow> disclosure_binding \<Rightarrow> jstr \<Rightarrow> via \<Rightarrow> int \<Rightarrow> approval \<Rightarrow> outcome \<Rightarrow> decision" where
  "approveDisclosureDecision rt liveBinding answer via at current oc =
     (case oc_error oc of Some e \<Rightarrow> Refuse e
      | None \<Rightarrow>
          if r_state current \<noteq> Pending then Refuse USAGE
          else if via \<noteq> Terminal \<and> via \<noteq> ViaApp then Refuse APPROVAL_REQUIRED
          else if noChallenge current then Refuse APPROVAL_REQUIRED
          else if \<not> given (r_disclosure current) (\<lambda>b. sameDisclosureBinding b liveBinding)
            then Next (revokedAs current (js ''the disclosure binding changed after it was prepared'') at) (Some APPROVAL_VOID)
          else if \<not> given (r_challengeHash current) (challengeMatches rt answer)
            then wrongAnswer current at
          else Next (current\<lparr>r_state := Approved, r_approvedVia := Some via, r_approvedAt := Some (Iso at),
              r_usableUntil := Some (Iso (at + LIFETIME_approved)),
              r_approvedDigest := map_option dc_digest (r_disclosure current), r_challengeHash := None\<rparr>) None)"

definition approveDisclosure where
  "approveDisclosure rt st cfg ck i liveBinding answer via =
     transition rt st cfg ck i (anyOf KDisclosure) AApprove None noPrior
       (\<lambda>current oc gate _. approveDisclosureDecision rt liveBinding answer via (ck_decide ck) current oc)"

definition answerDecision ::
  "runtime \<Rightarrow> via \<Rightarrow> save_answer \<Rightarrow> approval \<Rightarrow> outcome \<Rightarrow> decision" where
  "answerDecision rt via answer current oc =
     (case oc_error oc of Some e \<Rightarrow> Refuse e
      | None \<Rightarrow>
          if r_state current = Approved then Refuse APPROVAL_VOID
          else case r_download current of
            None \<Rightarrow> Refuse APPROVAL_VOID
          | Some d \<Rightarrow>
              if downloadDigest rt d \<noteq> r_contentDigest current then Refuse APPROVAL_VOID
              else Next (current\<lparr>r_state := Approved, r_approvedVia := Some via,
                  r_approvedDigest := Some (answerDigest rt (r_bindingDigest current) answer),
                  r_download := Some (d\<lparr>dl_answer := Some answer\<rparr>)\<rparr>) None)"

definition answerDownload where
  "answerDownload rt st cfg ck i via answer =
     transition rt st cfg ck i (anyOf KDownload) AApprove None noPrior
       (\<lambda>current oc gate _. answerDecision rt via answer current oc)"

section \<open>Claims\<close>

text \<open>\<open>sameList\<close> and \<open>sameExpectation\<close>: recipients by address alone.\<close>

definition recipientText :: "runtime \<Rightarrow> jstr list \<Rightarrow> jstr" where
  "recipientText rt addresses = join [10] (sort (remdups (map (normaliseAddress rt) addresses)))"

definition sameList :: "runtime \<Rightarrow> jstr list \<Rightarrow> jstr list \<Rightarrow> bool" where
  "sameList rt a b \<longleftrightarrow> recipientText rt a = recipientText rt b"

definition sameExpectation :: "runtime \<Rightarrow> expectation \<Rightarrow> expectation \<Rightarrow> bool" where
  "sameExpectation rt a b \<longleftrightarrow>
     sameList rt (ex_to a) (ex_to b) \<and> sameList rt (ex_cc a) (ex_cc b) \<and> sameList rt (ex_bcc a) (ex_bcc b)
     \<and> trim (ex_subject a) = trim (ex_subject b)"

record live_send =
  lsd_inboxId :: jstr
  lsd_inboxSub :: "jstr option"
  lsd_draft :: live_draft
  lsd_expect :: expectation

text \<open>
  The checks that void a send, in order, with the reason of the first that fails. An account bound as
  the empty string is none, as JavaScript's truth of a string has it.
\<close>

definition accountDiffers :: "approval \<Rightarrow> live_send \<Rightarrow> bool" where
  "accountDiffers r live \<longleftrightarrow>
     given (r_inboxSub r) (\<lambda>s. s \<noteq> []) \<and> r_inboxSub r \<noteq> lsd_inboxSub live"

definition sendProblem :: "runtime \<Rightarrow> approval \<Rightarrow> live_send \<Rightarrow> jstr option" where
  "sendProblem rt r live =
     (if accountDiffers r live
      then Some (if given (lsd_inboxSub live) (\<lambda>s. s \<noteq> []) then js ''the inbox is now connected to a different account''
                 else js ''the account this was prepared for could not be confirmed'')
      else if ld_draftMessageId (lsd_draft live) \<noteq> r_draftMessageId r
      then Some (js ''the draft was edited after the preview'')
      else if ld_contentDigest (lsd_draft live) \<noteq> r_contentDigest r
      then Some (js ''the draft content changed after the preview'')
      else if \<not> sameExpectation rt (lsd_expect live) (r_expect r)
      then Some (js ''the recipients or subject given do not match the prepared draft'')
      else None)"

definition claimSendDecision ::
  "runtime \<Rightarrow> live_send \<Rightarrow> bool \<Rightarrow> int \<Rightarrow> jstr option \<Rightarrow> approval \<Rightarrow> outcome \<Rightarrow> decision" where
  "claimSendDecision rt live aborted at parentProblem current oc =
     (case oc_error oc of Some e \<Rightarrow> Refuse e
      | None \<Rightarrow>
          if aborted then Refuse USAGE
          else case parentProblem of
            Some reason \<Rightarrow> Next (revokedAs current reason at) (Some APPROVAL_VOID)
          | None \<Rightarrow>
              (case sendProblem rt current live of
                 Some reason \<Rightarrow> Next (revokedAs current reason at) (Some APPROVAL_VOID)
               | None \<Rightarrow>
                   if \<not> oc_claimable oc then Refuse APPROVAL_PENDING
                   else if r_state current = Approved \<and> r_approvedBindingDigest current \<noteq> r_bindingDigest current
                   then Next (revokedAs current (js ''the approved content is not the content now in the draft'') at)
                          (Some APPROVAL_VOID)
                   else Next (current\<lparr>r_state := Sending, r_sendingAt := Some (Iso at)\<rparr>) None))"

text \<open>\<open>#standingParentProblem\<close>: the standing approval read again, under its own lock.\<close>

definition parentCovers :: "approval \<Rightarrow> standing_use \<Rightarrow> outcome \<Rightarrow> error_code + jstr option" where
  "parentCovers child use oc =
     (let ended = js ''its standing approval has ended'' @
            (case oc_reason oc of None \<Rightarrow> [] | Some why \<Rightarrow> js '' ('' @ why @ js '')'')
      in case (oc_error oc, oc_record oc) of
           (None, Some p) \<Rightarrow>
             (case r_standing p of
                None \<Rightarrow> Inr (Some ended)
              | Some b \<Rightarrow>
                  if r_state p \<noteq> Approved then Inr (Some ended)
                  else (case effectiveStanding b (r_narrowed p) of
                      Inl e \<Rightarrow> Inl e
                    | Inr inForce \<Rightarrow>
                        if \<not> list_ex (\<lambda>c. sc_digest c = su_content use) (sb_contents inForce)
                        then Inr (Some (js ''its standing approval no longer holds what it sends''))
                        else (case sb_places inForce of
                            ThreadsIAmIn \<Rightarrow> Inr None
                          | Exact ps \<Rightarrow> if list_ex (\<lambda>p. pl_id p = su_channel use) ps then Inr None
                              else Inr (Some (js ''its standing approval no longer covers where it goes'')))))
         | _ \<Rightarrow> Inr (Some ended))"

definition standingParentProblem ::
  "runtime \<Rightarrow> store \<Rightarrow> config option \<Rightarrow> clock \<Rightarrow> approval \<Rightarrow> store \<times> (error_code + jstr option)" where
  "standingParentProblem rt st cfg ck child =
     (case (r_standingId child, r_standingUse child) of
        (Some parentId, Some use) \<Rightarrow>
          (case inspect rt st cfg ck parentId (ownedBy KStanding (r_inboxId child)) AClaim of
             (st', Inl _) \<Rightarrow> (st', Inr (Some (js ''its standing approval could not be read'')))
           | (st', Inr (_, oc)) \<Rightarrow> (st', parentCovers child use oc))
      | _ \<Rightarrow> (st, Inr (Some (js ''it names no standing approval it is a use of''))))"

definition childPrior ::
  "runtime \<Rightarrow> config option \<Rightarrow> clock \<Rightarrow> store \<Rightarrow> approval \<Rightarrow> outcome \<Rightarrow> store \<times> (error_code + jstr option)" where
  "childPrior rt cfg ck st current oc =
     (if oc_error oc = None \<and> r_route current = Some RStanding \<and> r_state current = Approved
      then standingParentProblem rt st cfg ck current else (st, Inr None))"

text \<open>The claim under the lock. \<open>pck\<close> are the readings made while the parent is looked at.\<close>

definition claimSendRecord where
  "claimSendRecord rt st cfg ck pck i live aborted =
     transition rt st cfg ck i (ownedBy KSend (lsd_inboxId live)) AClaim None (childPrior rt cfg pck)
       (\<lambda>current oc gate seen. case seen of Inl e \<Rightarrow> Refuse e
          | Inr parentProblem \<Rightarrow> claimSendDecision rt live aborted (ck_decide ck) parentProblem current oc)"

text \<open>\<open>#markClaimed\<close>: the marker is made only if there is none.\<close>

definition markClaimed :: "store \<Rightarrow> jstr \<Rightarrow> jstr option \<Rightarrow> store \<times> (error_code + unit)" where
  "markClaimed st i token =
     (case st_claims st i of
        Some _ \<Rightarrow> (st, Inl APPROVAL_VOID)
      | None \<Rightarrow> (st\<lparr>st_claims := (st_claims st)(i := Some token)\<rparr>, Inr ()))"

definition thenMark :: "store \<times> (error_code + approval) \<Rightarrow> jstr option \<Rightarrow> store \<times> (error_code + approval)" where
  "thenMark done token = (case done of
      (st, Inl e) \<Rightarrow> (st, Inl e)
    | (st, Inr r) \<Rightarrow>
        (case markClaimed st (r_approvalId r) token of
           (st', Inl e) \<Rightarrow> (st', Inl e)
         | (st', Inr _) \<Rightarrow> (st', Inr r)))"

definition claimForSend where
  "claimForSend rt st cfg ck pck i live aborted token =
     thenMark (claimSendRecord rt st cfg ck pck i live aborted) (Some token)"

definition claimChangeDecision ::
  "runtime \<Rightarrow> change_binding \<Rightarrow> send_policy \<Rightarrow> bool \<Rightarrow> int \<Rightarrow> (change_drift option \<Rightarrow> jstr) \<Rightarrow> approval \<Rightarrow> outcome
     \<Rightarrow> live_gate option \<Rightarrow> decision" where
  "claimChangeDecision rt change pol aborted at says current oc gate =
     (case oc_error oc of Some e \<Rightarrow> Refuse e
      | None \<Rightarrow>
          if aborted then Refuse USAGE
          else if changeDigest rt change \<noteq> r_contentDigest current
            then Next (voided current (says (map_option (\<lambda>c. changeDrift c change) (r_change current))) at)
                   (Some APPROVAL_VOID)
          else
            let governing = stricterPolicy pol (orDefault (case gate of None \<Rightarrow> None | Some g \<Rightarrow> lgt_changePolicy g) PConfirm);
                strict = (\<not> oc_claimable oc \<or> stricterPolicy governing (r_requiredPolicy current) \<noteq> PChat)
            in if strict \<and> r_state current \<noteq> Approved then Refuse APPROVAL_PENDING
               else if strict \<and> r_approvedVia current \<noteq> Some Terminal \<and> r_approvedVia current \<noteq> Some ViaApp
                 then Next (voided current NOT_AT_TERMINAL at) (Some APPROVAL_VOID)
               else Next (current\<lparr>r_state := Used, r_usedAt := Some (Iso at)\<rparr>) None)"

text \<open>\<open>says\<close> words a drift; what it says is not modelled.\<close>

definition claimChangeRecord where
  "claimChangeRecord rt st cfg ck i change pol aborted says =
     transition rt st cfg ck i (anyOf KChange) AClaim None noPrior
       (\<lambda>current oc gate _. claimChangeDecision rt change pol aborted (ck_decide ck) says current oc gate)"

definition claimForChange where
  "claimForChange rt st cfg ck i change pol aborted says =
     thenMark (claimChangeRecord rt st cfg ck i change pol aborted says) None"

definition claimDownloadDecision ::
  "runtime \<Rightarrow> download_binding \<Rightarrow> bool \<Rightarrow> int \<Rightarrow> approval \<Rightarrow> outcome \<Rightarrow> decision" where
  "claimDownloadDecision rt live aborted at current oc =
     (case oc_error oc of Some e \<Rightarrow> Refuse e
      | None \<Rightarrow>
          if aborted then Refuse USAGE
          else if \<not> given (r_download current) (\<lambda>d. downloadDigest rt d = r_contentDigest current)
            then Next (voided current (js ''the question does not describe the download it is bound to'') at)
                   (Some APPROVAL_VOID)
          else if downloadDigest rt live \<noteq> r_contentDigest current then Refuse USAGE
          else if \<not> oc_claimable oc then Refuse APPROVAL_PENDING
          else Next (current\<lparr>r_state := Used, r_usedAt := Some (Iso at)\<rparr>) None)"

definition claimDownloadRecord where
  "claimDownloadRecord rt st cfg ck i live aborted =
     transition rt st cfg ck i (anyOf KDownload) AClaim None noPrior
       (\<lambda>current oc gate _. claimDownloadDecision rt live aborted (ck_decide ck) current oc)"

definition claimForDownload where
  "claimForDownload rt st cfg ck i live aborted = thenMark (claimDownloadRecord rt st cfg ck i live aborted) None"

definition claimDisclosureDecision ::
  "disclosure_binding \<Rightarrow> int option \<Rightarrow> int \<Rightarrow> approval \<Rightarrow> outcome \<Rightarrow> decision" where
  "claimDisclosureDecision liveBinding deadlineMs at current oc =
     (case oc_error oc of Some e \<Rightarrow> Refuse e
      | None \<Rightarrow>
          if given deadlineMs (\<lambda>d. d \<le> at) then Refuse APPROVAL_VOID
          else if r_state current = Pending then Refuse APPROVAL_PENDING
          else if r_state current \<noteq> Approved then Refuse APPROVAL_VOID
          else if \<not> given (r_disclosure current) (\<lambda>b. sameDisclosureBinding b liveBinding \<and>
                 r_approvedDigest current = Some (dc_digest b))
            then Next (revokedAs current (js ''the disclosure binding changed after it was approved'') at)
                   (Some APPROVAL_VOID)
          else Next (current\<lparr>r_state := Used, r_usedAt := Some (Iso at)\<rparr>) None)"

definition claimDisclosureRecord where
  "claimDisclosureRecord rt st cfg ck i liveBinding deadlineMs =
     (if given deadlineMs (\<lambda>d. d \<le> 0 \<or> MAX_SAFE_INTEGER < d) then (st, Inl BAD_DATA)
      else transition rt st cfg ck i (anyOf KDisclosure) AClaim None noPrior
        (\<lambda>current oc gate _. claimDisclosureDecision liveBinding deadlineMs (ck_decide ck) current oc))"

definition claimForDisclosure where
  "claimForDisclosure rt st cfg ck i liveBinding deadlineMs =
     thenMark (claimDisclosureRecord rt st cfg ck i liveBinding deadlineMs) None"

section \<open>The lease and the outcome of a send\<close>

definition heartbeatDecision :: "int \<Rightarrow> approval \<Rightarrow> decision" where
  "heartbeatDecision now current =
     (if r_state current \<noteq> Sending then Unchanged
      else if \<not> given (leaseStart current) (\<lambda>s. s < now) then Unchanged
      else Next (current\<lparr>r_sendingHeartbeatAt := Some (Iso now)\<rparr>) None)"

text \<open>\<open>renewed\<close> is whether the record was \<open>sending\<close> when the decision was made.\<close>

definition heartbeat where
  "heartbeat rt st cfg ck i token =
     (case transition rt st cfg ck i (anyOf KSend) AInspect (Some token) noPrior
        (\<lambda>current oc gate _. heartbeatDecision (ck_decide ck) current) of
        (st', Inl e) \<Rightarrow> (st', Inl e)
      | (st', Inr r) \<Rightarrow> (st', Inr (r_state r = Sending)))"

text \<open>\<open>fence\<close>: \<open>go\<close> is \<open>True\<close>.\<close>

definition fence where
  "fence rt st cfg ck i token = heartbeat rt st cfg ck i token"

datatype send_outcome = SentAs jstr | FailedWith jstr

definition completeDecision :: "send_outcome \<Rightarrow> int \<Rightarrow> approval \<Rightarrow> outcome \<Rightarrow> decision" where
  "completeDecision result now current oc =
     (if r_state current \<noteq> Sending \<and> r_state current \<noteq> Unknown
      then Refuse (orDefault (oc_error oc) APPROVAL_VOID)
      else
        let at = Iso (case leaseStart current of Some floor \<Rightarrow> max now floor | None \<Rightarrow> now)
        in case result of
             SentAs messageId \<Rightarrow>
               Next (current\<lparr>r_state := Used, r_sentMessageId := Some messageId, r_sentAt := Some at, r_usedAt := Some at,
                   r_reason := None\<rparr>) None
           | FailedWith why \<Rightarrow>
               Next (current\<lparr>r_state := Failed, r_reason := Some why, r_failedAt := Some at\<rparr>) None)"

definition complete where
  "complete rt st cfg ck i token result =
     (if result = SentAs [] then (st, Inl BAD_DATA)
      else transition rt st cfg ck i (anyOf KSend) AClaim (Some token) noPrior
             (\<lambda>current oc gate _. completeDecision result (ck_decide ck) current oc))"

section \<open>Revocation\<close>

datatype disposition = ByThePerson | ByLifecycle | ByIntegrity

definition putLegacy :: "store \<Rightarrow> legacy_record \<Rightarrow> store" where
  "putLegacy st r = st\<lparr>st_files := (st_files st)(lg_approvalId r := Some (LegacyFile r))\<rparr>"

definition deriveLegacy :: "runtime \<Rightarrow> legacy_record \<Rightarrow> int \<Rightarrow> legacy_record" where
  "deriveLegacy rt r now =
     (case deriveLegacyV1State rt r now of (s, why) \<Rightarrow>
        if s = lg_state r then r
        else r\<lparr>lg_state := s, lg_reason := (case why of None \<Rightarrow> lg_reason r | Some w \<Rightarrow> Some w)\<rparr>)"

definition revokeLegacy ::
  "runtime \<Rightarrow> store \<Rightarrow> clock \<Rightarrow> jstr \<Rightarrow> jstr \<Rightarrow> store \<times> (error_code + legacy_record)" where
  "revokeLegacy rt st ck i reason =
     (if \<not> approvalIdPattern i then (st, Inl USAGE)
      else case st_files st i of
        None \<Rightarrow> (st, Inl NOT_FOUND)
      | Some f \<Rightarrow>
          (case decodeStored rt i f None (ck_read ck) of
             Legacy v raw \<Rightarrow>
               let derived = deriveLegacy rt raw (ck_derive ck) in
               if lg_state derived \<noteq> Pending \<and> lg_state derived \<noteq> Approved then (st, Inr derived)
               else
                 let revoked = raw\<lparr>lg_state := Revoked, lg_reason := Some reason, lg_updatedAt := Iso (ck_write ck)\<rparr>
                 in (putLegacy st revoked, Inr revoked)
           | _ \<Rightarrow> (st, Inl APPROVAL_VOID)))"

definition revokeDecision :: "jstr \<Rightarrow> int \<Rightarrow> approval \<Rightarrow> decision" where
  "revokeDecision reason at current =
     (if active current then Next (revokedAs current reason at) None else Unchanged)"

definition revoke where
  "revoke rt st cfg ck i reason by ax =
     (case findRecord rt st cfg (ck_read ck) i ax of
        Inl e \<Rightarrow> (st, Inl e)
      | Inr (Legacy v raw) \<Rightarrow>
          if by = ByIntegrity then (st, Inl APPROVAL_VOID)
          else (case revokeLegacy rt st ck i reason of
              (st', Inl e) \<Rightarrow> (st', Inl e)
            | (st', Inr r) \<Rightarrow> (st', Inr (Legacy (decodeLegacyV1 rt r cfg (ck_decide ck)) r)))
      | Inr (V2 r) \<Rightarrow>
          (case transition rt st cfg ck i ax ARevoke None noPrior
             (\<lambda>current oc gate _. revokeDecision reason (ck_decide ck) current) of
             (st', Inl e) \<Rightarrow> (st', Inl e)
           | (st', Inr r') \<Rightarrow> (st', Inr (V2 r')))
      | Inr _ \<Rightarrow> (st, Inl APPROVAL_VOID))"

section \<open>Standing approvals in force\<close>

definition narrowDecision :: "standing_narrowing \<Rightarrow> approval \<Rightarrow> outcome \<Rightarrow> decision" where
  "narrowDecision wanted current oc =
     (case oc_error oc of Some e \<Rightarrow> Refuse e
      | None \<Rightarrow>
          if \<not> active current then Refuse APPROVAL_VOID
          else case r_standing current of
            None \<Rightarrow> Refuse APPROVAL_VOID
          | Some b \<Rightarrow>
              (case narrowedFurther b (r_narrowed current) wanted of
                 Inl e \<Rightarrow> Refuse e
               | Inr n \<Rightarrow> Next (current\<lparr>r_narrowed := Some n\<rparr>) None))"

definition narrowStanding where
  "narrowStanding rt st cfg ck i owner wanted =
     transition rt st cfg ck i (ownedBy KStanding owner) ARevoke None noPrior
       (\<lambda>current oc gate _. narrowDecision wanted current oc)"

text \<open>\<open>withStanding\<close>: the record and its classification for a use, with the store as written under its lock.\<close>

definition withStanding where
  "withStanding rt st cfg ck i owner =
     (case openRecord rt st cfg ck i (ownedBy KStanding owner) AClaim of
        Inl e \<Rightarrow> (st, Inl e)
      | Inr (stored, d, oc, live) \<Rightarrow>
          let current = (if oc_revokes oc then firstOf (oc_record oc) d else d)
          in (settle st stored current (ck_write ck), Inr (current, oc)))"

record child_input =
  cn_standingId :: jstr
  cn_standingEpoch :: int
  cn_inboxId :: jstr
  cn_inboxSub :: jstr
  cn_draftId :: jstr
  cn_draftMessageId :: jstr
  cn_contentDigest :: jstr
  cn_sendEpoch :: int
  cn_riskFlags :: "jstr list"
  cn_expect :: expectation
  cn_use :: standing_use

definition unboundUse :: "approval \<Rightarrow> child_input \<Rightarrow> bool" where
  "unboundUse p input \<longleftrightarrow>
     r_state p \<noteq> Approved
     \<or> r_approvedVia p \<noteq> Some Terminal \<or> r_approvedBindingDigest p \<noteq> r_bindingDigest p
     \<or> r_standingEpoch p \<noteq> Some (cn_standingEpoch input) \<or> r_sendEpoch p \<noteq> Some (cn_sendEpoch input)
     \<or> r_inboxSub p \<noteq> Some (cn_inboxSub input)"

definition childRecord ::
  "runtime \<Rightarrow> int \<Rightarrow> jstr \<Rightarrow> jstr option \<Rightarrow> live_gate option \<Rightarrow> child_input \<Rightarrow> error_code + approval" where
  "childRecord rt now newId preparedBy live input =
     result_bind (bound rt ((pendingRecord newId KSend now LIFETIME_standingChild preparedBy)
        \<lparr>r_channel := js ''slack'', r_ownerScope := SOwner, r_route := Some RStanding,
         r_approvedMs := Some LIFETIME_standingChild, r_inboxId := cn_inboxId input,
         r_inboxSub := Some (cn_inboxSub input), r_draftId := cn_draftId input,
         r_draftMessageId := cn_draftMessageId input, r_contentDigest := cn_contentDigest input,
         r_sendEpoch := Some (cn_sendEpoch input), r_standingEpoch := Some (cn_standingEpoch input),
         r_standingId := Some (cn_standingId input), r_standingUse := Some (cn_use input),
         r_policy := (if given live (\<lambda>g. lgt_sendPolicy g = Some PChat) then PChat else PConfirm),
         r_requiredPolicy := PConfirm, r_riskFlags := cn_riskFlags input, r_expect := cn_expect input,
         r_state := Approved, r_approvedVia := Some ViaStanding, r_approvedAt := Some (Iso now),
         r_usableUntil := Some (Iso (now + LIFETIME_standingChild))\<rparr>))
       (\<lambda>sealed. Inr (sealed\<lparr>r_approvedBindingDigest := r_bindingDigest sealed\<rparr>))"

text \<open>\<open>givenId\<close> is whether the id was given by the caller: it has to be a fresh one.\<close>

definition createStandingChild where
  "createStandingChild rt st cfg ck newId givenId preparedBy input =
     (if \<not> hex64 (cn_contentDigest input) then (st, Inl UNEXPECTED)
      else if standingUseProblem (cn_use input) \<noteq> None then (st, Inl UNEXPECTED)
      else if \<not> requireEpochs (cn_sendEpoch input) (cn_standingEpoch input) then (st, Inl UNEXPECTED)
      else if givenId \<and> (\<not> approvalIdPattern newId \<or> st_files st newId \<noteq> None) then (st, Inl UNEXPECTED)
      else case openRecord rt st cfg ck (cn_standingId input) (ownedBy KStanding (cn_inboxId input)) AClaim of
        Inl e \<Rightarrow> (st, Inl e)
      | Inr (stored, d, oc, live) \<Rightarrow>
          (case oc_error oc of
             Some e \<Rightarrow> (st, Inl e)
           | None \<Rightarrow>
               let p = firstOf (oc_record oc) d in
               if r_state p = Pending then (st, Inl APPROVAL_PENDING)
               else if unboundUse p input then (st, Inl APPROVAL_VOID)
               else written st (childRecord rt (ck_decide ck) newId preparedBy live input)))"

end
