(* ===== verification/ApprovalInvariant.thy ===== *)
theory ApprovalInvariant
  imports ApprovalActions
begin

text \<open>
  A valid record stays valid. \<open>validRecord\<close> is the validator's verdict (\<open>valid_iff\<close>), split into what the
  binding covers, which no action changes (\<open>staticOk\<close>, \<open>wipe\<close>), and the life cycle: the states, times and
  evidence (\<open>dynamicOk\<close>). \<open>lifeOk\<close> states the life cycle of the four ordinary kinds directly, and
  \<open>checkTimestamps_iff\<close> shows that the validator's sequence of checks decides exactly it. The lemmas below
  then show, step by step, that what an action writes keeps it.
\<close>


definition wipe :: "approval \<Rightarrow> approval" where
  "wipe r = r\<lparr>r_state := Pending, r_approvedDigest := None, r_approvedVia := None, r_approvedAt := None,
     r_usableUntil := None, r_approvedBindingDigest := None, r_sendingAt := None, r_sendingHeartbeatAt := None,
     r_usedAt := None, r_sentAt := None, r_failedAt := None, r_revokedAt := None, r_expiredAt := None,
     r_riskFlags := [], r_challengeHash := None, r_challengeAttempts := 0, r_createdAt := Iso 0, r_expiresAt := Iso 0,
     r_updatedAt := Iso 0, r_sentMessageId := None, r_reason := None, r_narrowed := None,
     r_approvedChangePolicy := None,
     r_download := map_option (\<lambda>d. d\<lparr>dl_answer := None\<rparr>) (r_download r)\<rparr>"

definition narrowOk :: "approval \<Rightarrow> bool" where
  "narrowOk r \<longleftrightarrow>
     (if r_kind r = KStanding then given (r_standing r) (\<lambda>b. standingNarrowingProblem b (r_narrowed r) = None)
      else r_narrowed r = None)"

definition staticOk :: "runtime \<Rightarrow> approval \<Rightarrow> bool" where
  "staticOk rt r \<longleftrightarrow>
     (\<exists>b. r_bindingDigest r = Some b \<and> hex64 b \<and> bindingDigestOf rt r = Inr b) \<and>
     r_digestVersion r = DIGEST_VERSION \<and> \<not> given (r_preparedBy r) (\<lambda>i. \<not> connectionIdPattern i) \<and>
     (if r_kind r = KDisclosure
      then given (r_disclosure r) (\<lambda>d. \<exists>c. canonicalDisclosureBinding d = Inr c) \<and>
           r_pendingMs r = LIFETIME_confirm \<and> r_approvedMs r = Some LIFETIME_approved
      else checkContent rt r = None \<and> checkIdentity r = None \<and> checkLifetime r = None)"

lemma wipe_fields [simp]:
  "r_approvalId (wipe r) = r_approvalId r" "r_kind (wipe r) = r_kind r"
  "r_digestVersion (wipe r) = r_digestVersion r" "r_channel (wipe r) = r_channel r"
  "r_ownerScope (wipe r) = r_ownerScope r" "r_route (wipe r) = r_route r"
  "r_pendingMs (wipe r) = r_pendingMs r" "r_approvedMs (wipe r) = r_approvedMs r"
  "r_inboxId (wipe r) = r_inboxId r" "r_inboxSub (wipe r) = r_inboxSub r"
  "r_draftId (wipe r) = r_draftId r" "r_draftMessageId (wipe r) = r_draftMessageId r"
  "r_contentDigest (wipe r) = r_contentDigest r" "r_bindingDigest (wipe r) = r_bindingDigest r"
  "r_sendEpoch (wipe r) = r_sendEpoch r" "r_policy (wipe r) = r_policy r"
  "r_requiredPolicy (wipe r) = r_requiredPolicy r" "r_expect (wipe r) = r_expect r"
  "r_change (wipe r) = r_change r" "r_disclosure (wipe r) = r_disclosure r"
  "r_standing (wipe r) = r_standing r" "r_standingEpoch (wipe r) = r_standingEpoch r"
  "r_standingId (wipe r) = r_standingId r" "r_standingUse (wipe r) = r_standingUse r"
  "r_preparedBy (wipe r) = r_preparedBy r" "r_narrowed (wipe r) = None"
  "r_download (wipe r) = map_option (\<lambda>d. d\<lparr>dl_answer := None\<rparr>) (r_download r)"
  by (simp_all add: wipe_def)

lemma isChild_wipe [simp]: "isChild (wipe r) = isChild r"
  by (simp add: isChild_def wipe_def)

lemma map_option_given: "given (map_option f x) P = given x (\<lambda>v. P (f v))"
  by (cases x) simp_all

lemma identityOf_wipe [simp]: "identityOf (wipe r) = identityOf r"
  by (simp add: identityOf_def)

lemma bindingObjectOf_wipe [simp]: "bindingObjectOf (wipe r) = bindingObjectOf r"
  unfolding bindingObjectOf_def wipe_fields identityOf_wipe
  by (cases "r_download r") simp_all

lemma bindingDigestOf_wipe [simp]: "bindingDigestOf rt (wipe r) = bindingDigestOf rt r"
  by (simp add: bindingDigestOf_def)

lemma downloadDigest_answer [simp]: "downloadDigest rt (d\<lparr>dl_answer := a\<rparr>) = downloadDigest rt d"
  by (simp add: downloadDigest_def downloadJson_def)

lemma checkContent_wipe: "r_kind r \<noteq> KDisclosure \<Longrightarrow> checkContent rt r = None \<longleftrightarrow> checkContent rt (wipe r) = None \<and> narrowOk r"
  by (cases "r_kind r"; cases "r_standing r")
    (simp_all add: checkContent_def narrowOk_def map_option_given present_def standingNarrowingProblem_def)

lemma checkIdentity_wipe [simp]: "checkIdentity (wipe r) = checkIdentity r"
  unfolding checkIdentity_def wipe_fields isChild_wipe map_option_given by simp

lemma checkLifetime_wipe [simp]: "checkLifetime (wipe r) = checkLifetime r"
  unfolding checkLifetime_def wipe_fields isChild_wipe by simp

lemma staticOk_wipe: "staticOk rt r \<longleftrightarrow> staticOk rt (wipe r) \<and> (r_kind r \<noteq> KDisclosure \<longrightarrow> narrowOk r)"
proof -
  show ?thesis
    unfolding staticOk_def wipe_fields bindingDigestOf_wipe
    using checkContent_wipe [of r rt] by auto
qed

lemma staticOk_step: "staticOk rt r \<Longrightarrow> wipe r' = wipe r \<Longrightarrow> r_narrowed r' = r_narrowed r \<Longrightarrow> staticOk rt r'"
proof -
  assume s: "staticOk rt r" and w: "wipe r' = wipe r" and n: "r_narrowed r' = r_narrowed r"
  have "r_kind (wipe r') = r_kind (wipe r)" "r_standing (wipe r') = r_standing (wipe r)" by (simp_all add: w del: wipe_fields)
  then have "r_kind r' = r_kind r" "r_standing r' = r_standing r" by simp_all
  then show ?thesis
    using s w n staticOk_wipe [of rt r] staticOk_wipe [of rt r'] by (simp add: narrowOk_def)
qed

definition dynamicOk :: "runtime \<Rightarrow> approval \<Rightarrow> bool" where
  "dynamicOk rt r \<longleftrightarrow>
     (if r_kind r = KDisclosure then checkDisclosure r = None
      else r_state r \<in> set (STATES_OF (r_kind r)) \<and> (isChild r \<longrightarrow> r_state r \<in> set CHILD_STATES) \<and>
        \<not> list_ex badStamp (stampsOf r) \<and> checkTimestamps r (timesOf r) = None \<and> checkEvidence rt r = None)"

lemma checkDisclosure_static:
  "checkDisclosure r = None \<Longrightarrow>
     given (r_disclosure r) (\<lambda>d. \<exists>c. canonicalDisclosureBinding d = Inr c) \<and>
     r_pendingMs r = LIFETIME_confirm \<and> r_approvedMs r = Some LIFETIME_approved"
  by (auto simp: checkDisclosure_def split: if_splits option.splits sum.splits)

lemma checkVerified_None:
  "checkVerified rt r = None \<and> (\<exists>b. r_bindingDigest r = Some b \<and> hex64 b \<and> bindingDigestOf rt r = Inr b)
   \<longleftrightarrow> staticOk rt r \<and> dynamicOk rt r"
  using checkDisclosure_static [of r]
  by (auto simp: checkVerified_def staticOk_def dynamicOk_def firstFail_None)

lemma valid_iff: "validateV2 rt r i = Valid \<longleftrightarrow> r_approvalId r = i \<and> staticOk rt r \<and> dynamicOk rt r"
  unfolding checkVerified_None [symmetric]
  by (auto simp: validateV2_def split: option.splits sum.splits if_splits)


definition windowOk :: "approval \<Rightarrow> times \<Rightarrow> int \<Rightarrow> int \<Rightarrow> bool" where
  "windowOk r t c e \<longleftrightarrow>
     (case (t_approvedAt t, t_usableUntil t) of
        (None, None) \<Rightarrow> (r_state r = Approved \<longrightarrow> r_kind r = KDownload) \<and> \<not> isChild r
      | (Some a, Some u) \<Rightarrow>
          r_kind r \<noteq> KDownload \<and> r_state r \<noteq> Pending \<and> c \<le> a \<and> a < e \<and> r_approvedMs r = Some (u - a)
          \<and> (isChild r \<longrightarrow> a = c)
      | _ \<Rightarrow> False)"

definition endingsOk :: "approval \<Rightarrow> times \<Rightarrow> bool" where
  "endingsOk r t \<longleftrightarrow>
     (t_usedAt t \<noteq> None \<longleftrightarrow> r_state r = Used) \<and>
     (t_sentAt t \<noteq> None \<longleftrightarrow> r_state r = Used \<and> r_kind r = KSend) \<and>
     (t_failedAt t \<noteq> None \<longleftrightarrow> r_state r = Failed) \<and>
     (t_revokedAt t \<noteq> None \<longleftrightarrow> r_state r = Revoked) \<and>
     (t_expiredAt t \<noteq> None \<longleftrightarrow> r_state r = Expired) \<and>
     (t_sendingAt t \<noteq> None \<longleftrightarrow> r_state r \<in> set CLAIMED_SEND \<and> r_kind r = KSend) \<and>
     (t_sendingHeartbeatAt t \<noteq> None \<longrightarrow> r_state r \<in> set CLAIMED_SEND \<and> r_kind r = KSend) \<and>
     (anomalous r \<longrightarrow> r_state r = Expired)"

definition orderOk :: "approval \<Rightarrow> times \<Rightarrow> int \<Rightarrow> int \<Rightarrow> bool" where
  "orderOk r t since deadline \<longleftrightarrow>
     (\<forall>s. t_sendingAt t = Some s \<longrightarrow> since \<le> s \<and> s < deadline) \<and>
     (\<forall>h. t_sendingHeartbeatAt t = Some h \<longrightarrow>
        (\<exists>s. t_sendingAt t = Some s \<and> s \<le> h) \<and>
        (\<forall>u. t_usedAt t = Some u \<longrightarrow> h \<le> u) \<and> (\<forall>f. t_failedAt t = Some f \<longrightarrow> h \<le> f)) \<and>
     (if r_kind r = KSend \<and> r_state r = Used
      then (\<exists>i. r_sentMessageId r = Some i \<and> i \<noteq> []) \<and> t_usedAt t = t_sentAt t \<and>
           (\<exists>s u. t_sendingAt t = Some s \<and> t_usedAt t = Some u \<and> s \<le> u)
      else r_sentMessageId r = None) \<and>
     (\<forall>f. t_failedAt t = Some f \<longrightarrow> (\<exists>s. t_sendingAt t = Some s \<and> s \<le> f)) \<and>
     (r_kind r \<noteq> KSend \<longrightarrow> (\<forall>u. t_usedAt t = Some u \<longrightarrow> since \<le> u \<and> u < deadline)) \<and>
     (\<forall>v. t_revokedAt t = Some v \<longrightarrow> since \<le> v \<and> v < deadline) \<and>
     (\<forall>x. t_expiredAt t = Some x \<longrightarrow> (r_state r = Expired \<and> anomalous r) \<or> since \<le> x)"

definition lifeOk :: "approval \<Rightarrow> times \<Rightarrow> bool" where
  "lifeOk r t \<longleftrightarrow>
     (\<exists>c e. t_createdAt t = Some c \<and> t_expiresAt t = Some e \<and> e = c + r_pendingMs r \<and>
        windowOk r t c e \<and> endingsOk r t \<and>
        orderOk r t (firstOf (t_approvedAt t) c) (firstOf (t_usableUntil t) e))"

lemma given_iff: "given x P \<longleftrightarrow> (\<exists>v. x = Some v \<and> P v)"
  by (cases x) simp_all

lemma present_iff: "present x \<longleftrightarrow> (\<exists>v. x = Some v)"
  by (cases x) (simp_all add: present_def)

lemma approvedWindow_iff:
  "firstFail (approvedWindow r t c e) = None \<longleftrightarrow> windowOk r t c e"
  if "r_kind r = KDownload \<longrightarrow> t_approvedAt t = None \<and> t_usableUntil t = None"
  using that
  by (cases "t_approvedAt t"; cases "t_usableUntil t")
    (auto simp: approvedWindow_def windowOk_def Let_def present_def isChild_def)

lemma orderedTimes_iff:
  assumes "t_usedAt t = None \<or> t_failedAt t = None"
  shows "firstFail (orderedTimes r t c e) = None \<longleftrightarrow>
     orderOk r t (firstOf (t_approvedAt t) c) (firstOf (t_usableUntil t) e)"
proof -
  let ?sent = "r_kind r = KSend \<and> r_state r = Used"
  have beats: "(\<not> given (t_sendingHeartbeatAt t) (\<lambda>h. \<not> given (t_sendingAt t) (\<lambda>s. s \<le> h)) \<and>
      \<not> given (t_sendingHeartbeatAt t) (\<lambda>h. given (case t_usedAt t of None \<Rightarrow> t_failedAt t | Some x \<Rightarrow> Some x) (\<lambda>e. e < h))) \<longleftrightarrow>
    (\<forall>h. t_sendingHeartbeatAt t = Some h \<longrightarrow>
        (\<exists>s. t_sendingAt t = Some s \<and> s \<le> h) \<and>
        (\<forall>u. t_usedAt t = Some u \<longrightarrow> h \<le> u) \<and> (\<forall>f. t_failedAt t = Some f \<longrightarrow> h \<le> f))"
    using assms by (cases "t_sendingHeartbeatAt t"; cases "t_sendingAt t"; cases "t_usedAt t"; cases "t_failedAt t") auto
  have sent: "(\<not> (?sent \<and> \<not> given (r_sentMessageId r) (\<lambda>i. i \<noteq> [])) \<and>
      \<not> (?sent \<and> (\<not> present (t_sentAt t) \<or> t_usedAt t \<noteq> t_sentAt t)) \<and>
      \<not> (?sent \<and> \<not> given (t_sendingAt t) (\<lambda>s. given (t_sentAt t) (\<lambda>u. s \<le> u))) \<and>
      \<not> (\<not> ?sent \<and> present (r_sentMessageId r))) \<longleftrightarrow>
    (if ?sent
      then (\<exists>i. r_sentMessageId r = Some i \<and> i \<noteq> []) \<and> t_usedAt t = t_sentAt t \<and>
           (\<exists>s u. t_sendingAt t = Some s \<and> t_usedAt t = Some u \<and> s \<le> u)
      else r_sentMessageId r = None)"
    by (cases ?sent; cases "r_sentMessageId r"; cases "t_sentAt t"; cases "t_sendingAt t") (auto simp: present_def)
  have ranges: "(\<not> given x (\<lambda>s. \<not> (a \<le> s \<and> s < b))) \<longleftrightarrow> (\<forall>s. x = Some s \<longrightarrow> a \<le> s \<and> s < b)"
    for x :: "int option" and a b by (cases x) auto
  have fails: "(\<not> given (t_failedAt t) (\<lambda>f. \<not> given (t_sendingAt t) (\<lambda>s. s \<le> f))) \<longleftrightarrow>
    (\<forall>f. t_failedAt t = Some f \<longrightarrow> (\<exists>s. t_sendingAt t = Some s \<and> s \<le> f))"
    by (cases "t_failedAt t"; cases "t_sendingAt t") auto
  have expires: "(\<not> given (t_expiredAt t) (\<lambda>x. \<not> P \<and> x < a)) \<longleftrightarrow> (\<forall>x. t_expiredAt t = Some x \<longrightarrow> P \<or> a \<le> x)" for P a
    by (cases "t_expiredAt t") auto
  show ?thesis
    unfolding orderedTimes_def orderOk_def Let_def firstFail_Cons firstFail.simps(1) beats [symmetric] sent [symmetric]
      ranges [symmetric] fails [symmetric] expires [symmetric]
    by argo
qed

lemma placedTimes_iff:
  "firstFail (placedTimes r t) = None \<longleftrightarrow>
     given (t_createdAt t) (\<lambda>c. given (t_expiresAt t) (\<lambda>e. e - c = r_pendingMs r)) \<and> endingsOk r t \<and>
     (r_kind r = KDownload \<longrightarrow> t_approvedAt t = None \<and> t_usableUntil t = None)"
  if "t_createdAt t \<noteq> None" "t_expiresAt t \<noteq> None" "r_state r \<in> set (STATES_OF (r_kind r))" "r_kind r \<noteq> KDisclosure"
  using that unfolding placedTimes_def Let_def firstFail_Cons firstFail.simps(1) endingsOk_def
  by (cases "r_kind r"; cases "r_state r") (auto simp: present_iff CLAIMED_SEND_def)

lemma endingsOk_once: "endingsOk r t \<Longrightarrow> t_usedAt t = None \<or> t_failedAt t = None"
  by (cases "r_state r = Used") (simp_all add: endingsOk_def)

lemma windowOk_download:
  "windowOk r t c e \<Longrightarrow> r_kind r = KDownload \<longrightarrow> t_approvedAt t = None \<and> t_usableUntil t = None"
  by (auto simp: windowOk_def split: option.splits)

lemma checkTimestamps_iff:
  assumes "r_state r \<in> set (STATES_OF (r_kind r))" "r_kind r \<noteq> KDisclosure"
  shows "checkTimestamps r t = None \<longleftrightarrow> lifeOk r t"
proof (cases "\<exists>c e. t_createdAt t = Some c \<and> t_expiresAt t = Some e")
  case True
  then obtain c e where ce: "t_createdAt t = Some c" "t_expiresAt t = Some e" by blast
  then have p: "firstFail (placedTimes r t) = None \<longleftrightarrow> e = c + r_pendingMs r \<and> endingsOk r t \<and>
     (r_kind r = KDownload \<longrightarrow> t_approvedAt t = None \<and> t_usableUntil t = None)"
    using placedTimes_iff [OF _ _ assms, of t] by (auto simp: algebra_simps)
  have "checkTimestamps r t = None \<longleftrightarrow>
      firstFail (placedTimes r t) = None \<and> firstFail (approvedWindow r t c e) = None \<and>
      firstFail (orderedTimes r t c e) = None"
    by (simp add: checkTimestamps_def ce)
  also have "\<dots> \<longleftrightarrow> e = c + r_pendingMs r \<and> windowOk r t c e \<and> endingsOk r t \<and>
      orderOk r t (firstOf (t_approvedAt t) c) (firstOf (t_usableUntil t) e)"
  proof -
    show ?thesis
    proof (cases "r_kind r = KDownload \<longrightarrow> t_approvedAt t = None \<and> t_usableUntil t = None")
      case True
      show ?thesis unfolding p approvedWindow_iff [OF True] using True orderedTimes_iff [of t r c e] endingsOk_once [of r t] by (cases "endingsOk r t") simp_all
    next
      case False
      then show ?thesis unfolding p using windowOk_download [of r t c e] by (cases "windowOk r t c e") auto
    qed
  qed
  finally show ?thesis by (simp add: lifeOk_def ce)
next
  case False
  then show ?thesis by (auto simp: checkTimestamps_def lifeOk_def split: option.splits)
qed

text \<open>Evidence, by whether a person has decided.\<close>

definition answerOf :: "approval \<Rightarrow> save_answer option" where
  "answerOf r = (case r_download r of None \<Rightarrow> None | Some d \<Rightarrow> dl_answer d)"

definition evidenceOk :: "runtime \<Rightarrow> approval \<Rightarrow> bool" where
  "evidenceOk rt r \<longleftrightarrow>
     (r_approvedVia r = Some ViaApp \<longrightarrow> r_kind r = KChange) \<and>
     (r_approvedVia r = Some ViaStanding \<longleftrightarrow> isChild r \<and> r_approvedVia r \<noteq> None) \<and>
     (if r_kind r = KDownload then
        r_approvedBindingDigest r = None \<and> r_approvedChangePolicy r = None \<and>
        (answerOf r = None \<longrightarrow> r_approvedVia r = None \<and> r_approvedDigest r = None \<and> r_state r \<noteq> Approved) \<and>
        (\<forall>a. answerOf r = Some a \<longrightarrow> r_approvedVia r \<noteq> None \<and> r_state r \<noteq> Pending \<and>
           r_approvedDigest r = Some (answerDigest rt (r_bindingDigest r) a))
      else
        r_approvedDigest r = None \<and>
        (if r_approvedAt r = None then
           r_approvedVia r = None \<and> r_approvedBindingDigest r = None \<and> r_approvedChangePolicy r = None
         else
           r_approvedVia r \<noteq> None \<and> r_approvedBindingDigest r = r_bindingDigest r \<and> r_bindingDigest r \<noteq> None \<and>
           (if r_kind r = KStanding then r_approvedChangePolicy r \<in> {Some PChat, Some PConfirm} \<and> r_approvedVia r = Some Terminal
            else r_approvedChangePolicy r = None) \<and>
           (r_kind r = KChange \<longrightarrow> r_approvedVia r = Some Terminal \<or> r_approvedVia r = Some ViaApp)))"

lemma checkEvidence_iff: "r_bindingDigest r \<noteq> None \<Longrightarrow> checkEvidence rt r = None \<longleftrightarrow> evidenceOk rt r"
proof (cases "r_kind r = KDownload")
  case True
  then have "\<not> isChild r" by (simp add: isChild_def)
  with True show ?thesis
    unfolding checkEvidence_def evidenceOk_def answerOf_def [symmetric]
    by (cases "answerOf r"; cases "r_approvedVia r"; cases "r_approvedDigest r") (auto simp: present_def Let_def)
next
  case False
  assume "r_bindingDigest r \<noteq> None"
  with False show ?thesis
    by (cases "r_approvedVia r"; cases "r_approvedAt r"; cases "r_approvedBindingDigest r"; cases "r_kind r"; cases "isChild r")
      (auto simp: checkEvidence_def evidenceOk_def present_def Let_def isChild_def firstFail.simps(2))
qed

definition goodStamps :: "approval \<Rightarrow> bool" where
  "goodStamps r \<longleftrightarrow> \<not> list_ex badStamp (stampsOf r)"

lemma dynamicOk_iff:
  assumes "r_kind r \<noteq> KDisclosure" "r_bindingDigest r \<noteq> None"
  shows "dynamicOk rt r \<longleftrightarrow>
     r_state r \<in> set (STATES_OF (r_kind r)) \<and> (isChild r \<longrightarrow> r_state r \<noteq> Pending) \<and> goodStamps r \<and>
     lifeOk r (timesOf r) \<and> evidenceOk rt r"
  using checkTimestamps_iff [of r "timesOf r"] checkEvidence_iff [of r rt] assms
  by (cases "r_state r") (auto simp: dynamicOk_def goodStamps_def CHILD_STATES_def)

definition validRecord :: "runtime \<Rightarrow> approval \<Rightarrow> bool" where
  "validRecord rt r \<longleftrightarrow> staticOk rt r \<and> dynamicOk rt r"

lemma goodStamps_iff:
  "goodStamps r \<longleftrightarrow> \<not> badStamp (Some (r_createdAt r)) \<and> \<not> badStamp (Some (r_expiresAt r)) \<and>
     \<not> badStamp (r_approvedAt r) \<and> \<not> badStamp (r_usableUntil r) \<and> \<not> badStamp (r_sendingAt r) \<and>
     \<not> badStamp (r_sendingHeartbeatAt r) \<and> \<not> badStamp (r_usedAt r) \<and> \<not> badStamp (r_sentAt r) \<and>
     \<not> badStamp (r_failedAt r) \<and> \<not> badStamp (r_revokedAt r) \<and> \<not> badStamp (r_expiredAt r)"
  by (simp add: goodStamps_def stampsOf_def)

lemma badStamp_simps [simp]: "\<not> badStamp None" "\<not> badStamp (Some (Iso t))"
  by (simp_all add: badStamp_def)

lemma badStamp_time: "\<not> badStamp s \<Longrightarrow> s = map_option Iso (timeOf s)"
  by (cases s) (auto simp: badStamp_def timeOf_def split: stamp.splits)

lemma timeOf_simps [simp]: "timeOf None = None" "timeOf (Some s) = stampTime s"
  by (simp_all add: timeOf_def)

lemma timesOf_fields [simp]:
  "t_createdAt (timesOf r) = stampTime (r_createdAt r)" "t_expiresAt (timesOf r) = stampTime (r_expiresAt r)"
  "t_approvedAt (timesOf r) = timeOf (r_approvedAt r)" "t_usableUntil (timesOf r) = timeOf (r_usableUntil r)"
  "t_sendingAt (timesOf r) = timeOf (r_sendingAt r)"
  "t_sendingHeartbeatAt (timesOf r) = timeOf (r_sendingHeartbeatAt r)"
  "t_usedAt (timesOf r) = timeOf (r_usedAt r)" "t_sentAt (timesOf r) = timeOf (r_sentAt r)"
  "t_failedAt (timesOf r) = timeOf (r_failedAt r)" "t_revokedAt (timesOf r) = timeOf (r_revokedAt r)"
  "t_expiredAt (timesOf r) = timeOf (r_expiredAt r)"
  by (simp_all add: timesOf_def)

lemma timeOf_None: "\<not> badStamp s \<Longrightarrow> timeOf s = None \<Longrightarrow> s = None"
  by (cases s) (auto simp: badStamp_def timeOf_def split: stamp.splits)

lemma timeOf_Some: "\<not> badStamp s \<Longrightarrow> timeOf s = Some t \<Longrightarrow> s = Some (Iso t)"
  by (cases s) (auto simp: badStamp_def timeOf_def split: stamp.splits)

text \<open>The window a record is acted on in: from its approval, or its creation, up to its deadline.\<close>

definition sinceAt :: "approval \<Rightarrow> int" where
  "sinceAt r = firstOf (timeOf (r_approvedAt r)) (the (stampTime (r_createdAt r)))"

definition untilAt :: "approval \<Rightarrow> int" where
  "untilAt r = firstOf (timeOf (r_usableUntil r)) (the (stampTime (r_expiresAt r)))"

text \<open>What a decision on an active record leaves alone.\<close>

definition sameWindow :: "approval \<Rightarrow> approval \<Rightarrow> bool" where
  "sameWindow r' r \<longleftrightarrow>
     wipe r' = wipe r \<and> r_createdAt r' = r_createdAt r \<and> r_expiresAt r' = r_expiresAt r \<and>
     r_approvedAt r' = r_approvedAt r \<and> r_usableUntil r' = r_usableUntil r \<and> r_download r' = r_download r \<and>
     r_approvedVia r' = r_approvedVia r \<and> r_approvedDigest r' = r_approvedDigest r \<and>
     r_approvedBindingDigest r' = r_approvedBindingDigest r \<and> r_approvedChangePolicy r' = r_approvedChangePolicy r"

lemma wipe_eqD:
  assumes "wipe a = wipe b"
  shows "r_kind a = r_kind b" "isChild a = isChild b" "r_approvedMs a = r_approvedMs b" "r_pendingMs a = r_pendingMs b"
    "r_bindingDigest a = r_bindingDigest b" "r_standing a = r_standing b" "r_approvalId a = r_approvalId b"
  using arg_cong [OF assms, of r_kind] arg_cong [OF assms, of isChild] arg_cong [OF assms, of r_approvedMs]
    arg_cong [OF assms, of r_pendingMs] arg_cong [OF assms, of r_bindingDigest] arg_cong [OF assms, of r_standing]
    arg_cong [OF assms, of r_approvalId]
  by simp_all

lemma active_none:
  assumes "goodStamps r" "endingsOk r (timesOf r)" "active r"
  shows "r_sendingAt r = None" "r_sendingHeartbeatAt r = None" "r_usedAt r = None" "r_sentAt r = None"
    "r_failedAt r = None" "r_revokedAt r = None" "r_expiredAt r = None" "\<not> anomalous r"
proof -
  have t: "timeOf (r_sendingAt r) = None" "timeOf (r_sendingHeartbeatAt r) = None" "timeOf (r_usedAt r) = None"
    "timeOf (r_sentAt r) = None" "timeOf (r_failedAt r) = None" "timeOf (r_revokedAt r) = None"
    "timeOf (r_expiredAt r) = None" "\<not> anomalous r"
    using assms(2,3) unfolding endingsOk_def timesOf_fields CLAIMED_SEND_def
    by (elim disjE; simp)+
  note g = assms(1) [unfolded goodStamps_iff]
  show "r_sendingAt r = None" "r_sendingHeartbeatAt r = None" "r_usedAt r = None" "r_sentAt r = None"
    "r_failedAt r = None" "r_revokedAt r = None" "r_expiredAt r = None" "\<not> anomalous r"
    using timeOf_None t g by blast+
qed

lemma dynamic_active:
  assumes "dynamicOk rt r" "active r" "r_kind r \<noteq> KDisclosure" "r_bindingDigest r \<noteq> None"
  shows "goodStamps r" "endingsOk r (timesOf r)" "r_sentMessageId r = None" "evidenceOk rt r"
    "r_createdAt r = Iso (the (stampTime (r_createdAt r)))" "r_expiresAt r = Iso (the (stampTime (r_expiresAt r)))"
    "the (stampTime (r_expiresAt r)) = the (stampTime (r_createdAt r)) + r_pendingMs r"
    "windowOk r (timesOf r) (the (stampTime (r_createdAt r))) (the (stampTime (r_expiresAt r)))"
proof -
  note d = assms(1) [unfolded dynamicOk_iff [OF assms(3,4)]]
  from d show g: "goodStamps r" "evidenceOk rt r" by blast+
  from d obtain c e where l: "stampTime (r_createdAt r) = Some c" "stampTime (r_expiresAt r) = Some e"
    "e = c + r_pendingMs r" "windowOk r (timesOf r) c e" "endingsOk r (timesOf r)"
    "orderOk r (timesOf r) (firstOf (timeOf (r_approvedAt r)) c) (firstOf (timeOf (r_usableUntil r)) e)"
    unfolding lifeOk_def timesOf_fields by blast
  show "endingsOk r (timesOf r)" by fact
  show "r_sentMessageId r = None" using l(6) assms(2) by (auto simp: orderOk_def)
  show "r_createdAt r = Iso (the (stampTime (r_createdAt r)))" "r_expiresAt r = Iso (the (stampTime (r_expiresAt r)))"
    using l(1,2) by (cases "r_createdAt r"; cases "r_expiresAt r"; simp)+
  show "the (stampTime (r_expiresAt r)) = the (stampTime (r_createdAt r)) + r_pendingMs r"
    "windowOk r (timesOf r) (the (stampTime (r_createdAt r))) (the (stampTime (r_expiresAt r)))"
    using l(1-4) by simp_all
qed

lemma windowOk_leave:
  assumes "windowOk r (timesOf r) c e" "sameWindow r' r" "\<not> active r'"
  shows "windowOk r' (timesOf r') c e"
  using assms wipe_eqD [of r' r]
  by (auto simp: windowOk_def sameWindow_def split: option.splits)

lemma evidenceOk_leave:
  assumes "evidenceOk rt r" "sameWindow r' r" "\<not> active r'"
  shows "evidenceOk rt r'"
proof -
  note w = wipe_eqD [of r' r]
  have f: "wipe r' = wipe r" "r_download r' = r_download r"
    "r_approvedVia r' = r_approvedVia r" "r_approvedDigest r' = r_approvedDigest r" "r_approvedAt r' = r_approvedAt r"
    "r_approvedBindingDigest r' = r_approvedBindingDigest r" "r_approvedChangePolicy r' = r_approvedChangePolicy r"
    using assms(2) by (simp_all add: sameWindow_def)
  have g: "answerOf r' = answerOf r" by (simp add: answerOf_def f(2))
  show ?thesis
    using assms(1,3) unfolding evidenceOk_def w [OF f(1)] f(3-) g
    by (split if_split_asm; split if_split; blast)
qed

lemma leave_active:
  assumes r: "dynamicOk rt r" "active r" "r_kind r \<noteq> KDisclosure" "r_bindingDigest r \<noteq> None"
    and same: "sameWindow r' r" and away: "\<not> active r'" "r_state r' \<in> set (STATES_OF (r_kind r))"
    and good: "goodStamps r'" and ends: "endingsOk r' (timesOf r')"
    and order: "orderOk r' (timesOf r') (sinceAt r) (untilAt r)"
  shows "dynamicOk rt r'"
proof -
  note d = dynamic_active [OF r]
  note w = wipe_eqD [of r' r]
  have f: "wipe r' = wipe r" "r_createdAt r' = r_createdAt r" "r_expiresAt r' = r_expiresAt r"
    "r_approvedAt r' = r_approvedAt r" "r_usableUntil r' = r_usableUntil r"
    using same by (simp_all add: sameWindow_def)
  have k: "r_kind r' \<noteq> KDisclosure" "r_bindingDigest r' \<noteq> None" using r w [OF f(1)] by simp_all
  have c: "stampTime (r_createdAt r) = Some (the (stampTime (r_createdAt r)))"
    "stampTime (r_expiresAt r) = Some (the (stampTime (r_expiresAt r)))"
    using d(5,6) by (metis stampTime.simps(1))+
  have "lifeOk r' (timesOf r')"
    unfolding lifeOk_def timesOf_fields f(2-)
    using c d(7) w(4) [OF f(1)] windowOk_leave [OF d(8) same away(1)] ends order
    unfolding sinceAt_def untilAt_def by metis
  then show ?thesis
    unfolding dynamicOk_iff [OF k]
    using away w [OF f(1)] good evidenceOk_leave [OF d(4) same away(1)] by auto
qed

lemma revoke_active:
  assumes r: "dynamicOk rt r" "active r" "r_kind r \<noteq> KDisclosure" "r_bindingDigest r \<noteq> None"
    and at: "sinceAt r \<le> at" "at < untilAt r" and why: "reason \<noteq> CLOCK_ANOMALY"
  shows "dynamicOk rt (r\<lparr>r_state := Revoked, r_reason := Some reason, r_revokedAt := Some (Iso at)\<rparr>)" (is "dynamicOk rt ?r")
proof (rule leave_active [OF r])
  note d = dynamic_active [OF r] and n = active_none [OF dynamic_active(1,2) [OF r] r(2)]
  show "sameWindow ?r r" by (simp add: sameWindow_def wipe_def)
  show "goodStamps ?r" using d(1) by (simp add: goodStamps_iff)
  show "endingsOk ?r (timesOf ?r)" using n why by (simp add: endingsOk_def anomalous_def CLAIMED_SEND_def)
  show "orderOk ?r (timesOf ?r) (sinceAt r) (untilAt r)" using n d(3) at by (simp add: orderOk_def)
  show "r_state ?r \<in> set (STATES_OF (r_kind r))" by (cases "r_kind r") simp_all
qed simp

lemma expire_active:
  assumes r: "dynamicOk rt r" "active r" "r_kind r \<noteq> KDisclosure" "r_bindingDigest r \<noteq> None"
    and at: "reason = CLOCK_ANOMALY \<or> sinceAt r \<le> at"
  shows "dynamicOk rt (r\<lparr>r_state := Expired, r_reason := Some reason, r_expiredAt := Some (Iso at)\<rparr>)" (is "dynamicOk rt ?r")
proof (rule leave_active [OF r])
  note d = dynamic_active [OF r] and n = active_none [OF dynamic_active(1,2) [OF r] r(2)]
  show "sameWindow ?r r" by (simp add: sameWindow_def wipe_def)
  show "goodStamps ?r" using d(1) by (simp add: goodStamps_iff)
  show "endingsOk ?r (timesOf ?r)" using n by (simp add: endingsOk_def CLAIMED_SEND_def)
  show "orderOk ?r (timesOf ?r) (sinceAt r) (untilAt r)" using n d(3) at by (simp add: orderOk_def anomalous_def)
  show "r_state ?r \<in> set (STATES_OF (r_kind r))" by (cases "r_kind r") simp_all
qed simp

lemma use_active:
  assumes r: "dynamicOk rt r" "active r" "r_kind r = KChange \<or> r_kind r = KDownload" "r_bindingDigest r \<noteq> None"
    and at: "sinceAt r \<le> at" "at < untilAt r"
  shows "dynamicOk rt (r\<lparr>r_state := Used, r_usedAt := Some (Iso at)\<rparr>)" (is "dynamicOk rt ?r")
proof -
  have k: "r_kind r \<noteq> KDisclosure" "r_kind r \<noteq> KSend" using r(3) by auto
  note r' = r(1,2) k(1) r(4)
  note d = dynamic_active [OF r'] and n = active_none [OF dynamic_active(1,2) [OF r'] r(2)]
  show ?thesis
  proof (rule leave_active [OF r'])
    show "sameWindow ?r r" by (simp add: sameWindow_def wipe_def)
    show "goodStamps ?r" using d(1) by (simp add: goodStamps_iff)
    show "endingsOk ?r (timesOf ?r)" using n k by (simp add: endingsOk_def CLAIMED_SEND_def anomalous_def)
    show "orderOk ?r (timesOf ?r) (sinceAt r) (untilAt r)" using n d(3) at k by (simp add: orderOk_def)
    show "r_state ?r \<in> set (STATES_OF (r_kind r))" using r(3) by auto
  qed simp
qed

lemma send_active:
  assumes r: "dynamicOk rt r" "active r" "r_kind r = KSend" "r_bindingDigest r \<noteq> None"
    and at: "sinceAt r \<le> at" "at < untilAt r"
  shows "dynamicOk rt (r\<lparr>r_state := Sending, r_sendingAt := Some (Iso at)\<rparr>)" (is "dynamicOk rt ?r")
proof -
  have k: "r_kind r \<noteq> KDisclosure" using r(3) by auto
  note r' = r(1,2) k r(4)
  note d = dynamic_active [OF r'] and n = active_none [OF dynamic_active(1,2) [OF r'] r(2)]
  show ?thesis
  proof (rule leave_active [OF r'])
    show "sameWindow ?r r" by (simp add: sameWindow_def wipe_def)
    show "goodStamps ?r" using d(1) by (simp add: goodStamps_iff)
    show "endingsOk ?r (timesOf ?r)" using n r(3) by (simp add: endingsOk_def CLAIMED_SEND_def anomalous_def)
    show "orderOk ?r (timesOf ?r) (sinceAt r) (untilAt r)" using n d(3) at r(3) by (simp add: orderOk_def)
    show "r_state ?r \<in> set (STATES_OF (r_kind r))" using r(3) by auto
  qed simp
qed

lemma evidence_download:
  assumes "evidenceOk rt r" "r_kind r = KDownload"
  shows "r_approvedBindingDigest r = None" "r_approvedChangePolicy r = None"
    "answerOf r = None \<Longrightarrow> r_approvedVia r = None \<and> r_approvedDigest r = None \<and> r_state r \<noteq> Approved"
    "answerOf r = Some a \<Longrightarrow> r_approvedVia r \<noteq> None \<and> r_state r \<noteq> Pending \<and>
       r_approvedDigest r = Some (answerDigest rt (r_bindingDigest r) a)"
  using assms unfolding evidenceOk_def if_P [OF assms(2)] by blast+

lemma evidence_undecided:
  assumes "evidenceOk rt r" "r_kind r \<noteq> KDownload" "r_approvedAt r = None"
  shows "r_approvedDigest r = None" "r_approvedVia r = None" "r_approvedBindingDigest r = None"
    "r_approvedChangePolicy r = None"
  using assms(1) unfolding evidenceOk_def if_not_P [OF assms(2)] if_P [OF assms(3)] by blast+

text \<open>A pending record becomes approved.\<close>

lemma pending_none:
  assumes "dynamicOk rt r" "r_state r = Pending" "r_kind r \<noteq> KDisclosure" "r_bindingDigest r \<noteq> None"
  shows "r_approvedAt r = None" "r_usableUntil r = None" "r_approvedVia r = None" "r_approvedDigest r = None"
    "r_approvedBindingDigest r = None" "r_approvedChangePolicy r = None" "\<not> isChild r" "r_kind r = KDownload \<longrightarrow> answerOf r = None"
proof -
  have a: "active r" using assms(2) by simp
  note d = dynamic_active [OF assms(1) a assms(3,4)]
  have "timeOf (r_approvedAt r) = None" "timeOf (r_usableUntil r) = None" and c: "\<not> isChild r"
    using d(8) assms(2) by (auto simp: windowOk_def split: option.splits)
  then show n: "r_approvedAt r = None" "r_usableUntil r = None"
    using d(1) by (auto simp: goodStamps_iff intro: timeOf_None)
  show "\<not> isChild r" by fact
  show an: "r_kind r = KDownload \<longrightarrow> answerOf r = None"
    using evidence_download(4) [OF d(4)] assms(2) by (cases "answerOf r") auto
  show "r_approvedVia r = None" "r_approvedDigest r = None" "r_approvedBindingDigest r = None" "r_approvedChangePolicy r = None"
    using evidence_download(1-3) [OF d(4)] evidence_undecided [OF d(4) _ n(1)] an
    by (cases "r_kind r = KDownload"; simp)+
qed

lemma approve_pending:
  assumes r: "dynamicOk rt r" "r_state r = Pending" "r_kind r = KSend \<or> r_kind r = KChange \<or> r_kind r = KStanding"
      "r_bindingDigest r \<noteq> None"
    and at: "sinceAt r \<le> at" "at < untilAt r" and ms: "r_approvedMs r = Some ms"
    and via: "via \<noteq> ViaStanding" "via = ViaApp \<longrightarrow> r_kind r = KChange"
      "r_kind r \<noteq> KSend \<longrightarrow> via = Terminal \<or> (via = ViaApp \<and> r_kind r = KChange)"
    and gate: "given gate (\<lambda>g. lgt_changePolicy g \<noteq> Some PNever) \<or> gate = None"
  shows "dynamicOk rt (approvedRecord r (r_kind r) via gate at)"
proof -
  have k: "r_kind r \<noteq> KDisclosure" and a: "active r" using r by auto
  note d = dynamic_active [OF r(1) a k r(4)] and n = active_none [OF dynamic_active(1,2) [OF r(1) a k r(4)] a]
    and p = pending_none [OF r(1,2) k r(4)]
  let ?r = "approvedRecord r (r_kind r) via gate at"
  obtain c where c: "r_createdAt r = Iso c" "r_expiresAt r = Iso (c + r_pendingMs r)"
    using d(5-7) by metis
  have t: "c \<le> at" "at < c + r_pendingMs r"
    using at by (simp_all add: sinceAt_def untilAt_def p firstOf_def c)
  have f: "r_kind ?r = r_kind r" "r_bindingDigest ?r = r_bindingDigest r" "r_state ?r = Approved" "isChild ?r = isChild r"
    by (simp_all add: approvedRecord_def isChild_def)
  have "goodStamps ?r" using d(1) by (simp add: goodStamps_iff approvedRecord_def)
  moreover have "lifeOk ?r (timesOf ?r)"
  proof -
    have "windowOk ?r (timesOf ?r) c (c + r_pendingMs r)"
      using t r(3) ms p by (simp add: windowOk_def approvedRecord_def isChild_def) auto
    moreover have "endingsOk ?r (timesOf ?r)"
      using n by (simp add: endingsOk_def approvedRecord_def CLAIMED_SEND_def anomalous_def)
    moreover have "orderOk ?r (timesOf ?r) s u" for s u
      using n d(3) by (simp add: orderOk_def approvedRecord_def)
    ultimately show ?thesis
      using c by (simp add: lifeOk_def approvedRecord_def)
  qed
  moreover have "evidenceOk rt ?r"
    using p via r(3,4) gate
    by (cases "r_kind r"; cases gate; cases "lgt_changePolicy (the gate)"; cases "the (lgt_changePolicy (the gate))")
      (auto simp: evidenceOk_def approvedRecord_def isChild_def)
  ultimately show ?thesis
    using r(3,4) k f p(7) by (subst dynamicOk_iff) auto
qed

lemma answer_pending:
  assumes r: "dynamicOk rt r" "r_state r = Pending" "r_kind r = KDownload" "r_bindingDigest r \<noteq> None"
    and d: "r_download r = Some dl" and via: "via \<noteq> ViaApp" "via \<noteq> ViaStanding"
  shows "dynamicOk rt (r\<lparr>r_state := Approved, r_approvedVia := Some via,
      r_approvedDigest := Some (answerDigest rt (r_bindingDigest r) a), r_download := Some (dl\<lparr>dl_answer := Some a\<rparr>)\<rparr>)"
    (is "dynamicOk rt ?r")
proof -
  have k: "r_kind r \<noteq> KDisclosure" and act: "active r" using r by auto
  note d' = dynamic_active [OF r(1) act k r(4)] and n = active_none [OF dynamic_active(1,2) [OF r(1) act k r(4)] act]
    and p = pending_none [OF r(1,2) k r(4)]
  obtain c where c: "r_createdAt r = Iso c" "r_expiresAt r = Iso (c + r_pendingMs r)"
    using d'(5-7) by metis
  have "goodStamps ?r" using d'(1) by (simp add: goodStamps_iff)
  moreover have "windowOk ?r (timesOf ?r) c (c + r_pendingMs r)"
    using p r(3) by (simp add: windowOk_def isChild_def)
  moreover have "endingsOk ?r (timesOf ?r)" using n by (simp add: endingsOk_def CLAIMED_SEND_def anomalous_def)
  moreover have "orderOk ?r (timesOf ?r) s u" for s u using n d'(3) by (simp add: orderOk_def)
  moreover have "evidenceOk rt ?r"
    using p r(3) via by (auto simp: evidenceOk_def answerOf_def isChild_def)
  ultimately show ?thesis
    using r(3,4) c by (subst dynamicOk_iff) (simp_all add: lifeOk_def isChild_def)
qed

text \<open>A record being sent, or one whose claimant stopped.\<close>

lemma dynamic_sending:
  assumes "dynamicOk rt r" "r_state r = Sending \<or> r_state r = Unknown" "r_bindingDigest r \<noteq> None" "r_kind r \<noteq> KDisclosure"
  shows "goodStamps r" "evidenceOk rt r" "r_kind r = KSend"
    "\<exists>c s. r_createdAt r = Iso c \<and> r_expiresAt r = Iso (c + r_pendingMs r) \<and> r_sendingAt r = Some (Iso s) \<and>
       windowOk r (timesOf r) c (c + r_pendingMs r) \<and> sinceAt r \<le> s \<and> s < untilAt r \<and>
       (\<forall>h. r_sendingHeartbeatAt r = Some (Iso h) \<longrightarrow> s \<le> h)"
    "r_usedAt r = None" "r_sentAt r = None" "r_failedAt r = None" "r_revokedAt r = None" "r_expiredAt r = None"
    "\<not> anomalous r" "r_sentMessageId r = None"
proof -
  note d = assms(1) [unfolded dynamicOk_iff [OF assms(4,3)]]
  from d show g: "goodStamps r" "evidenceOk rt r" by blast+
  from d assms(2) show k: "r_kind r = KSend" by (cases "r_kind r") auto
  from d obtain c e where l: "stampTime (r_createdAt r) = Some c" "stampTime (r_expiresAt r) = Some e"
    "e = c + r_pendingMs r" "windowOk r (timesOf r) c e" "endingsOk r (timesOf r)"
    "orderOk r (timesOf r) (firstOf (timeOf (r_approvedAt r)) c) (firstOf (timeOf (r_usableUntil r)) e)"
    unfolding lifeOk_def timesOf_fields by blast
  have iso: "r_createdAt r = Iso c" "r_expiresAt r = Iso (c + r_pendingMs r)"
    using l(1-3) by (cases "r_createdAt r"; cases "r_expiresAt r"; simp)+
  have "timeOf (r_sendingAt r) \<noteq> None"
    using l(5) assms(2) k unfolding endingsOk_def timesOf_fields CLAIMED_SEND_def by auto
  then obtain s where s: "timeOf (r_sendingAt r) = Some s" by blast
  then have "r_sendingAt r = Some (Iso s)" using g(1) by (auto simp: goodStamps_iff intro: timeOf_Some)
  then show "\<exists>c s. r_createdAt r = Iso c \<and> r_expiresAt r = Iso (c + r_pendingMs r) \<and> r_sendingAt r = Some (Iso s) \<and>
       windowOk r (timesOf r) c (c + r_pendingMs r) \<and> sinceAt r \<le> s \<and> s < untilAt r \<and>
       (\<forall>h. r_sendingHeartbeatAt r = Some (Iso h) \<longrightarrow> s \<le> h)"
    using l(3,4,6) iso s by (intro exI [of _ c] exI [of _ s]) (auto simp: orderOk_def sinceAt_def untilAt_def)
  have t: "timeOf (r_usedAt r) = None" "timeOf (r_sentAt r) = None" "timeOf (r_failedAt r) = None"
    "timeOf (r_revokedAt r) = None" "timeOf (r_expiredAt r) = None" "\<not> anomalous r"
    using l(5) assms(2) unfolding endingsOk_def timesOf_fields by (elim disjE; simp)+
  then show "r_usedAt r = None" "r_sentAt r = None" "r_failedAt r = None" "r_revokedAt r = None" "r_expiredAt r = None"
    "\<not> anomalous r"
    using g(1) timeOf_None unfolding goodStamps_iff by blast+
  show "r_sentMessageId r = None" using l(6) assms(2) by (auto simp: orderOk_def)
qed

text \<open>What a step from \<open>sending\<close> leaves alone, and what it may do.\<close>

lemma leave_sending:
  assumes r: "dynamicOk rt r" "r_state r = Sending \<or> r_state r = Unknown" "r_bindingDigest r \<noteq> None" "r_kind r \<noteq> KDisclosure"
    and same: "sameWindow r' r" "r_sendingAt r' = r_sendingAt r"
    and state: "r_state r' \<in> set CLAIMED_SEND" and good: "goodStamps r'"
    and ends: "endingsOk r' (timesOf r')"
    and order: "\<And>s. r_sendingAt r = Some (Iso s) \<Longrightarrow> sinceAt r \<le> s \<Longrightarrow> s < untilAt r \<Longrightarrow>
       (\<And>h. r_sendingHeartbeatAt r = Some (Iso h) \<Longrightarrow> s \<le> h) \<Longrightarrow> orderOk r' (timesOf r') (sinceAt r) (untilAt r)"
  shows "dynamicOk rt r'"
proof -
  note d = dynamic_sending [OF r]
  obtain c s where c: "r_createdAt r = Iso c" "r_expiresAt r = Iso (c + r_pendingMs r)" "r_sendingAt r = Some (Iso s)"
     "windowOk r (timesOf r) c (c + r_pendingMs r)" "sinceAt r \<le> s" "s < untilAt r"
     "\<forall>h. r_sendingHeartbeatAt r = Some (Iso h) \<longrightarrow> s \<le> h"
    using d(4) by blast
  note w = wipe_eqD [of r' r]
  have f: "wipe r' = wipe r" "r_createdAt r' = r_createdAt r" "r_expiresAt r' = r_expiresAt r"
    "r_approvedAt r' = r_approvedAt r" "r_usableUntil r' = r_usableUntil r"
    using same(1) by (simp_all add: sameWindow_def)
  have k: "r_kind r' \<noteq> KDisclosure" "r_bindingDigest r' \<noteq> None" "r_kind r' = KSend" using r d(3) w [OF f(1)] by simp_all
  have away: "\<not> active r'" "r_state r' \<in> set (STATES_OF KSend)" using state by (auto simp: CLAIMED_SEND_def)
  have "lifeOk r' (timesOf r')"
    unfolding lifeOk_def timesOf_fields f(2-)
    using c w(4) [OF f(1)] windowOk_leave [OF c(4) same(1) away(1)] ends order [OF c(3,5,6)]
    unfolding sinceAt_def untilAt_def by auto
  then show ?thesis
    unfolding dynamicOk_iff [OF k(1,2)]
    using away k(3) good evidenceOk_leave [OF d(2) same(1) away(1)] by auto
qed

lemma stale_sending:
  assumes r: "dynamicOk rt r" "r_state r = Sending" "r_bindingDigest r \<noteq> None" "r_kind r \<noteq> KDisclosure"
    and why: "reason \<noteq> CLOCK_ANOMALY"
  shows "dynamicOk rt (r\<lparr>r_state := Unknown, r_reason := Some reason\<rparr>)" (is "dynamicOk rt ?r")
proof -
  have s: "r_state r = Sending \<or> r_state r = Unknown" using r(2) by simp
  note d = dynamic_sending [OF r(1) s r(3,4)]
  show ?thesis
  proof (rule leave_sending [OF r(1) s r(3,4)])
    show "sameWindow ?r r" by (simp add: sameWindow_def wipe_def)
    show "goodStamps ?r" using d(1) by (simp add: goodStamps_iff)
    show "endingsOk ?r (timesOf ?r)" using d why by (auto simp: endingsOk_def anomalous_def CLAIMED_SEND_def)
    show "orderOk ?r (timesOf ?r) (sinceAt r) (untilAt r)"
      if "r_sendingAt r = Some (Iso s)" "sinceAt r \<le> s" "s < untilAt r"
        "\<And>h. r_sendingHeartbeatAt r = Some (Iso h) \<Longrightarrow> s \<le> h" for s
      using that d by (auto simp: orderOk_def goodStamps_iff dest!: timeOf_Some)
  qed (simp_all add: CLAIMED_SEND_def)
qed

lemma renew_sending:
  assumes r: "dynamicOk rt r" "r_state r = Sending" "r_bindingDigest r \<noteq> None" "r_kind r \<noteq> KDisclosure"
    and at: "leaseStart r = Some s" "s < now"
  shows "dynamicOk rt (r\<lparr>r_sendingHeartbeatAt := Some (Iso now)\<rparr>)" (is "dynamicOk rt ?r")
proof -
  have s: "r_state r = Sending \<or> r_state r = Unknown" using r(2) by simp
  note d = dynamic_sending [OF r(1) s r(3,4)]
  show ?thesis
  proof (rule leave_sending [OF r(1) s r(3,4)])
    show "sameWindow ?r r" by (simp add: sameWindow_def wipe_def)
    show "goodStamps ?r" using d(1) by (simp add: goodStamps_iff)
    show "endingsOk ?r (timesOf ?r)" using d r(2) by (auto simp: endingsOk_def anomalous_def CLAIMED_SEND_def)
    show "orderOk ?r (timesOf ?r) (sinceAt r) (untilAt r)"
      if "r_sendingAt r = Some (Iso s')" "sinceAt r \<le> s'" "s' < untilAt r"
        "\<And>h. r_sendingHeartbeatAt r = Some (Iso h) \<Longrightarrow> s' \<le> h" for s'
      using that d at r(2) by (fastforce simp: orderOk_def leaseStart_def goodStamps_iff dest!: timeOf_Some split: option.splits)
  qed (simp_all add: CLAIMED_SEND_def r(2))
qed

lemma finish_sending:
  assumes r: "dynamicOk rt r" "r_state r = Sending \<or> r_state r = Unknown" "r_bindingDigest r \<noteq> None" "r_kind r \<noteq> KDisclosure"
    and at: "leaseStart r = Some s" "s \<le> now"
  shows "i \<noteq> [] \<Longrightarrow> dynamicOk rt (r\<lparr>r_state := Used, r_sentMessageId := Some i, r_sentAt := Some (Iso now),
           r_usedAt := Some (Iso now), r_reason := None\<rparr>)" (is "_ \<Longrightarrow> dynamicOk rt ?u")
    and "why \<noteq> CLOCK_ANOMALY \<Longrightarrow> dynamicOk rt (r\<lparr>r_state := Failed, r_reason := Some why, r_failedAt := Some (Iso now)\<rparr>)"
      (is "_ \<Longrightarrow> dynamicOk rt ?f")
proof -
  note d = dynamic_sending [OF r]
  show "dynamicOk rt ?u" if "i \<noteq> []"
  proof (rule leave_sending [OF r])
    show "sameWindow ?u r" by (simp add: sameWindow_def wipe_def)
    show "goodStamps ?u" using d(1) by (simp add: goodStamps_iff)
    show "endingsOk ?u (timesOf ?u)" using d by (auto simp: endingsOk_def anomalous_def CLAIMED_SEND_def)
    show "orderOk ?u (timesOf ?u) (sinceAt r) (untilAt r)"
      if "r_sendingAt r = Some (Iso s')" "sinceAt r \<le> s'" "s' < untilAt r"
        "\<And>h. r_sendingHeartbeatAt r = Some (Iso h) \<Longrightarrow> s' \<le> h" for s'
      using that d at \<open>i \<noteq> []\<close>
      by (fastforce simp: orderOk_def leaseStart_def goodStamps_iff dest!: timeOf_Some split: option.splits)
  qed (simp_all add: CLAIMED_SEND_def)
  show "dynamicOk rt ?f" if "why \<noteq> CLOCK_ANOMALY"
  proof (rule leave_sending [OF r])
    show "sameWindow ?f r" by (simp add: sameWindow_def wipe_def)
    show "goodStamps ?f" using d(1) by (simp add: goodStamps_iff)
    show "endingsOk ?f (timesOf ?f)" using d that by (auto simp: endingsOk_def anomalous_def CLAIMED_SEND_def)
    show "orderOk ?f (timesOf ?f) (sinceAt r) (untilAt r)"
      if "r_sendingAt r = Some (Iso s')" "sinceAt r \<le> s'" "s' < untilAt r"
        "\<And>h. r_sendingHeartbeatAt r = Some (Iso h) \<Longrightarrow> s' \<le> h" for s'
      using that d at
      by (fastforce simp: orderOk_def leaseStart_def goodStamps_iff dest!: timeOf_Some split: option.splits)
  qed (simp_all add: CLAIMED_SEND_def)
qed

end
