(* ===== verification/ApprovalDisclosure.thy ===== *)
theory ApprovalDisclosure
  imports ApprovalInvariant
begin

text \<open>
  The life cycle of a disclosure's approval, stated directly (\<open>disclosureLife\<close>), what the validator's
  \<open>checkDisclosure\<close> decides of it, and that what an action writes keeps it.
\<close>

definition disclosureWindow :: "approval \<Rightarrow> jstr \<Rightarrow> int \<Rightarrow> bool" where
  "disclosureWindow r digest c \<longleftrightarrow>
     (r_approvedAt r = None \<and> r_usableUntil r = None \<and> r_approvedVia r = None \<and> r_approvedDigest r = None
         \<and> r_state r \<noteq> Approved)
      \<or> (\<exists>a. r_approvedAt r = Some (Iso a) \<and> r_usableUntil r = Some (Iso (a + LIFETIME_approved)) \<and> c \<le> a \<and>
           a < c + LIFETIME_confirm \<and> (r_approvedVia r = Some Terminal \<or> r_approvedVia r = Some ViaApp) \<and>
           r_approvedDigest r = Some digest)"

definition disclosureLife :: "approval \<Rightarrow> jstr \<Rightarrow> int \<Rightarrow> bool" where
  "disclosureLife r digest c \<longleftrightarrow>
     r_createdAt r = Iso c \<and> r_expiresAt r = Iso (c + LIFETIME_confirm) \<and>
     r_state r \<in> set (STATES_OF KDisclosure) \<and> goodStamps r \<and>
     disclosureWindow r digest c \<and>
     (r_usedAt r \<noteq> None \<longleftrightarrow> r_state r = Used) \<and> (r_revokedAt r \<noteq> None \<longleftrightarrow> r_state r = Revoked) \<and>
     (r_expiredAt r \<noteq> None \<longleftrightarrow> r_state r = Expired) \<and>
     (\<forall>u. r_usedAt r = Some (Iso u) \<longrightarrow> r_approvedAt r \<noteq> None \<and> sinceAt r \<le> u \<and> u < untilAt r) \<and>
     (\<forall>v. r_revokedAt r = Some (Iso v) \<longrightarrow> c \<le> v \<and> v < untilAt r) \<and>
     (\<forall>x. r_expiredAt r = Some (Iso x) \<longrightarrow> sinceAt r \<le> x) \<and>
     0 \<le> r_challengeAttempts r \<and> r_challengeAttempts r \<le> 3"

lemma attempts_range: "(n::int) \<notin> {0, 1, 2, 3} \<longleftrightarrow> \<not> (0 \<le> n \<and> n \<le> 3)"
  by auto

lemma checkDisclosure_life:
  assumes d: "r_disclosure r = Some d" "canonicalDisclosureBinding d = Inr b"
    and ms: "r_pendingMs r = LIFETIME_confirm" "r_approvedMs r = Some LIFETIME_approved"
  shows "checkDisclosure r = None \<longleftrightarrow> (\<exists>c. disclosureLife r (dc_digest b) c)"
proof (cases "goodStamps r \<and> r_state r \<in> set (STATES_OF KDisclosure)")
  case False
  then show ?thesis
    by (auto simp: checkDisclosure_def d ms disclosureLife_def goodStamps_def)
next
  case True
  then have g: "goodStamps r" "r_state r \<in> set (STATES_OF KDisclosure)" by auto
  then obtain c e where iso: "r_createdAt r = Iso c" "r_expiresAt r = Iso e"
    by (cases "r_createdAt r"; cases "r_expiresAt r") (auto simp: goodStamps_iff badStamp_def)
  note s = g(1) [unfolded goodStamps_iff]
  define A U where "A = timeOf (r_approvedAt r)" and "U = timeOf (r_usableUntil r)"
  have AU: "r_approvedAt r = map_option Iso A" "r_usableUntil r = map_option Iso U"
    using s badStamp_time unfolding A_def U_def by blast+
  have once: "(\<exists>c. disclosureLife r (dc_digest b) c) \<longleftrightarrow> disclosureLife r (dc_digest b) c"
    using iso by (auto simp: disclosureLife_def)
  have window: "(\<not> (present A \<noteq> present U) \<and> \<not> given A (\<lambda>a. \<not> (c \<le> a \<and> a < e)) \<and>
      \<not> given A (\<lambda>a. given U (\<lambda>u. u - a \<noteq> LIFETIME_approved)) \<and>
      \<not> (r_state r = Approved \<and> \<not> (present A \<or> present U)) \<and>
      \<not> (\<not> (present A \<or> present U) \<and> (present (r_approvedVia r) \<or> present (r_approvedDigest r))) \<and>
      \<not> ((present A \<or> present U) \<and> ((r_approvedVia r \<noteq> Some Terminal \<and> r_approvedVia r \<noteq> Some ViaApp)
                      \<or> r_approvedDigest r \<noteq> Some (dc_digest b)))) \<longleftrightarrow>
    ((r_approvedAt r = None \<and> r_usableUntil r = None \<and> r_approvedVia r = None \<and> r_approvedDigest r = None
         \<and> r_state r \<noteq> Approved)
      \<or> (\<exists>a. r_approvedAt r = Some (Iso a) \<and> r_usableUntil r = Some (Iso (a + LIFETIME_approved)) \<and> c \<le> a \<and>
           a < e \<and> (r_approvedVia r = Some Terminal \<or> r_approvedVia r = Some ViaApp) \<and>
           r_approvedDigest r = Some (dc_digest b)))"
    unfolding AU by (cases A; cases U) (auto simp: present_def)
  have iff: "(\<not> (P \<and> \<not> present (timeOf x)) \<and> \<not> (\<not> P \<and> present (timeOf x))) \<longleftrightarrow> (x \<noteq> None \<longleftrightarrow> P)"
    if "\<not> badStamp x" for x P
    using that by (cases x) (auto simp: present_def badStamp_def split: stamp.splits)
  have all: "\<not> given (timeOf x) (\<lambda>t. \<not> P t) \<longleftrightarrow> (\<forall>t. x = Some (Iso t) \<longrightarrow> P t)" if "\<not> badStamp x" for x P
    using that by (cases x) (auto simp: badStamp_def split: stamp.splits)
  have later: "\<not> given (timeOf x) (\<lambda>t. t < a) \<longleftrightarrow> (\<forall>t. x = Some (Iso t) \<longrightarrow> a \<le> t)" if "\<not> badStamp x" for x and a :: int
    using that by (cases x) (auto simp: badStamp_def split: stamp.splits)
  have since: "sinceAt r = firstOf A c" "untilAt r = firstOf U e"
    by (simp_all add: sinceAt_def untilAt_def A_def U_def iso)
  have used: "given A (\<lambda>a. a \<le> u) \<longleftrightarrow> r_approvedAt r \<noteq> None \<and> firstOf A c \<le> u" for u
    unfolding AU by (cases A) (simp_all add: firstOf_def)
  have pieces: "checkDisclosure r = None \<longleftrightarrow>
      e - c = LIFETIME_confirm \<and> (\<not> (present A \<noteq> present U) \<and> \<not> given A (\<lambda>a. \<not> (c \<le> a \<and> a < e)) \<and>
      \<not> given A (\<lambda>a. given U (\<lambda>u. u - a \<noteq> LIFETIME_approved)) \<and>
      \<not> (r_state r = Approved \<and> \<not> (present A \<or> present U)) \<and>
      \<not> (\<not> (present A \<or> present U) \<and> (present (r_approvedVia r) \<or> present (r_approvedDigest r))) \<and>
      \<not> ((present A \<or> present U) \<and> ((r_approvedVia r \<noteq> Some Terminal \<and> r_approvedVia r \<noteq> Some ViaApp)
                      \<or> r_approvedDigest r \<noteq> Some (dc_digest b)))) \<and>
      (\<not> (r_state r = Used \<and> \<not> present (timeOf (r_usedAt r))) \<and> \<not> (\<not> r_state r = Used \<and> present (timeOf (r_usedAt r)))) \<and>
      (\<not> (r_state r = Revoked \<and> \<not> present (timeOf (r_revokedAt r))) \<and> \<not> (\<not> r_state r = Revoked \<and> present (timeOf (r_revokedAt r)))) \<and>
      (\<not> (r_state r = Expired \<and> \<not> present (timeOf (r_expiredAt r))) \<and> \<not> (\<not> r_state r = Expired \<and> present (timeOf (r_expiredAt r)))) \<and>
      \<not> given (timeOf (r_usedAt r)) (\<lambda>u. \<not> (given A (\<lambda>a. a \<le> u) \<and> u < firstOf U e)) \<and>
      \<not> given (timeOf (r_revokedAt r)) (\<lambda>v. \<not> (c \<le> v \<and> v < firstOf U e)) \<and>
      \<not> given (timeOf (r_expiredAt r)) (\<lambda>x. x < firstOf A c) \<and>
      (0 \<le> r_challengeAttempts r \<and> r_challengeAttempts r \<le> 3)"
    using g(2) unfolding checkDisclosure_def d ms option.case sum.case goodStamps_def [symmetric]
    by (simp only: g(1) [unfolded goodStamps_def] simp_thms if_False if_True Let_def timesOf_fields iso stampTime.simps
      option.case prod.case firstFail_Cons firstFail.simps(1) A_def [symmetric] U_def [symmetric] attempts_range) argo
  have bs: "\<not> badStamp (r_usedAt r)" "\<not> badStamp (r_revokedAt r)" "\<not> badStamp (r_expiredAt r)"
    using s by blast+
  show ?thesis
  proof (cases "e = c + LIFETIME_confirm")
    case True
    show ?thesis
      unfolding once unfolding pieces window iff [OF bs(1)] iff [OF bs(2)] iff [OF bs(3)] all [OF bs(1)] all [OF bs(2)]
        later [OF bs(3)] used disclosureLife_def disclosureWindow_def since
      using iso True g by (simp only: add_diff_cancel_left' simp_thms conj_assoc) argo?
  next
    case False
    then show ?thesis
      unfolding once unfolding pieces window disclosureLife_def using iso by simp
  qed
qed

text \<open>A valid disclosure record is one with a canonical binding and such a life.\<close>

lemma canonicalDisclosureBinding_Inr: "canonicalDisclosureBinding d = Inr b \<Longrightarrow> b = d"
  by (auto simp: canonicalDisclosureBinding_def split: if_splits)

lemma disclosure_dynamic:
  assumes "staticOk rt r" "r_kind r = KDisclosure"
  shows "\<exists>d. r_disclosure r = Some d \<and> canonicalDisclosureBinding d = Inr d \<and>
     (dynamicOk rt r \<longleftrightarrow> (\<exists>c. disclosureLife r (dc_digest d) c))"
proof -
  from assms obtain d b where d: "r_disclosure r = Some d" "canonicalDisclosureBinding d = Inr b"
    and ms: "r_pendingMs r = LIFETIME_confirm" "r_approvedMs r = Some LIFETIME_approved"
    by (auto simp: staticOk_def given_iff)
  show ?thesis
    using checkDisclosure_life [OF d ms] d canonicalDisclosureBinding_Inr [OF d(2)] assms(2)
    by (auto simp: dynamicOk_def)
qed

lemma disclosure_stamps:
  assumes "disclosureLife r g c"
  shows "goodStamps r" "timeOf (r_usedAt r) = None \<longleftrightarrow> r_usedAt r = None" "timeOf (r_revokedAt r) = None \<longleftrightarrow> r_revokedAt r = None"
    "timeOf (r_expiredAt r) = None \<longleftrightarrow> r_expiredAt r = None" "stampTime (r_createdAt r) = Some c"
    "stampTime (r_expiresAt r) = Some (c + LIFETIME_confirm)"
  using assms timeOf_None unfolding disclosureLife_def goodStamps_iff by auto

lemma window_simps [simp]:
  "sinceAt (r\<lparr>r_state := s\<rparr>) = sinceAt r" "untilAt (r\<lparr>r_state := s\<rparr>) = untilAt r"
  "sinceAt (r\<lparr>r_reason := y\<rparr>) = sinceAt r" "untilAt (r\<lparr>r_reason := y\<rparr>) = untilAt r"
  "sinceAt (r\<lparr>r_challengeHash := y\<rparr>) = sinceAt r" "untilAt (r\<lparr>r_challengeHash := y\<rparr>) = untilAt r"
  "sinceAt (r\<lparr>r_challengeAttempts := n\<rparr>) = sinceAt r" "untilAt (r\<lparr>r_challengeAttempts := n\<rparr>) = untilAt r"
  "sinceAt (r\<lparr>r_usedAt := x\<rparr>) = sinceAt r" "untilAt (r\<lparr>r_usedAt := x\<rparr>) = untilAt r"
  "sinceAt (r\<lparr>r_revokedAt := x\<rparr>) = sinceAt r" "untilAt (r\<lparr>r_revokedAt := x\<rparr>) = untilAt r"
  "sinceAt (r\<lparr>r_expiredAt := x\<rparr>) = sinceAt r" "untilAt (r\<lparr>r_expiredAt := x\<rparr>) = untilAt r"
  by (simp_all add: sinceAt_def untilAt_def)

lemma disclosure_leave:
  assumes "disclosureLife r g c" "active r" "sinceAt r \<le> at"
  shows "disclosureLife (r\<lparr>r_state := Expired, r_reason := why, r_expiredAt := Some (Iso at)\<rparr>) g c"
    and "at < untilAt r \<Longrightarrow>
      disclosureLife (r\<lparr>r_state := Revoked, r_reason := why, r_revokedAt := Some (Iso at), r_challengeHash := h\<rparr>) g c"
    and "at < untilAt r \<Longrightarrow> r_state r = Approved \<Longrightarrow>
      disclosureLife (r\<lparr>r_state := Used, r_usedAt := Some (Iso at)\<rparr>) g c"
proof -
  note d = assms(1) [unfolded disclosureLife_def]
  have none: "r_usedAt r = None" "r_revokedAt r = None" "r_expiredAt r = None" using d assms(2) by auto
  have c: "c \<le> at"
    using d assms(3) by (auto simp: disclosureWindow_def sinceAt_def firstOf_def)
  have w: "disclosureWindow (r\<lparr>r_state := Expired, r_reason := why, r_expiredAt := x\<rparr>) g c"
    "disclosureWindow (r\<lparr>r_state := Revoked, r_reason := why, r_revokedAt := x, r_challengeHash := h\<rparr>) g c"
    "disclosureWindow (r\<lparr>r_state := Used, r_usedAt := x\<rparr>) g c" for x
    using d by (simp_all add: disclosureWindow_def) blast+
  have a: "r_state r = Approved \<Longrightarrow> r_approvedAt r \<noteq> None" using d by (auto simp: disclosureWindow_def)
  have g: "goodStamps (r\<lparr>r_state := Expired, r_reason := why, r_expiredAt := Some (Iso at)\<rparr>)"
    "goodStamps (r\<lparr>r_state := Revoked, r_reason := why, r_revokedAt := Some (Iso at), r_challengeHash := h\<rparr>)"
    "goodStamps (r\<lparr>r_state := Used, r_usedAt := Some (Iso at)\<rparr>)"
    using d by (simp_all add: goodStamps_iff)
  note f = disclosureLife_def w g
  show "disclosureLife (r\<lparr>r_state := Expired, r_reason := why, r_expiredAt := Some (Iso at)\<rparr>) g c"
    using d none assms(3) by (simp add: f)
  show "disclosureLife (r\<lparr>r_state := Revoked, r_reason := why, r_revokedAt := Some (Iso at), r_challengeHash := h\<rparr>) g c"
    if "at < untilAt r"
    using d none that c by (simp add: f)
  show "disclosureLife (r\<lparr>r_state := Used, r_usedAt := Some (Iso at)\<rparr>) g c" if "at < untilAt r" "r_state r = Approved"
    using d none that assms(3) a by (simp add: f)
qed

lemma disclosure_approve:
  assumes "disclosureLife r g c" "r_state r = Pending" "c \<le> at" "at < c + LIFETIME_confirm" "via = Terminal \<or> via = ViaApp"
    "r_usableUntil r = None"
  shows "disclosureLife (r\<lparr>r_state := Approved, r_approvedVia := Some via, r_approvedAt := Some (Iso at),
     r_usableUntil := Some (Iso (at + LIFETIME_approved)), r_approvedDigest := Some g, r_challengeHash := None\<rparr>) g c"
  using assms by (simp add: disclosureLife_def disclosureWindow_def goodStamps_iff)

end
