(* ===== verification/ApprovalValidity.thy ===== *)
theory ApprovalValidity
  imports ApprovalDisclosure
begin

text \<open>
  What the store keeps of a record at every step (\<open>soundRecord\<close>): it is valid, and reading it later, when its
  window has passed or its sender has stopped, gives a valid record again (\<open>derive_sound\<close>). What still reads as
  active is inside its window (\<open>derive_inWindow\<close>).
\<close>

section \<open>Sound records\<close>

text \<open>
  A valid record, with what the code keeps of a pending disclosure that the validator does not test: it has
  room for another wrong answer, and no approval yet.
\<close>

definition openFor :: "approval \<Rightarrow> bool" where
  "openFor r \<longleftrightarrow> (r_state r = Pending \<longrightarrow> r_challengeAttempts r < MAX_CHALLENGE_ATTEMPTS \<and> r_approvedAt r = None)"

definition soundRecord :: "runtime \<Rightarrow> approval \<Rightarrow> bool" where
  "soundRecord rt r \<longleftrightarrow>
     validRecord rt r \<and> (r_kind r = KDisclosure \<longrightarrow> openFor r)"

lemma sound_static: "soundRecord rt r \<Longrightarrow> staticOk rt r"
  and sound_dynamic: "soundRecord rt r \<Longrightarrow> dynamicOk rt r"
  by (simp_all add: soundRecord_def validRecord_def)

lemma sound_bound: "soundRecord rt r \<Longrightarrow> r_bindingDigest r \<noteq> None"
  by (auto simp: soundRecord_def validRecord_def staticOk_def)

lemma sound_disclosure:
  assumes "soundRecord rt r" "r_kind r = KDisclosure"
  obtains d c where "r_disclosure r = Some d" "canonicalDisclosureBinding d = Inr d" "disclosureLife r (dc_digest d) c"
  using disclosure_dynamic [OF sound_static [OF assms(1)] assms(2)] sound_dynamic [OF assms(1)] by auto

lemma sound_step:
  assumes "soundRecord rt r" "wipe r' = wipe r" "r_narrowed r' = r_narrowed r" "dynamicOk rt r'"
    and "r_kind r = KDisclosure \<Longrightarrow> openFor r'"
  shows "soundRecord rt r'"
  using staticOk_step [OF sound_static [OF assms(1)] assms(2,3)] assms(4,5) wipe_eqD(1) [OF assms(2)]
  by (simp add: soundRecord_def validRecord_def)

lemma disclosure_step:
  assumes "soundRecord rt r" "r_kind r = KDisclosure" "r_disclosure r = Some d" "disclosureLife r' (dc_digest d) c"
    "wipe r' = wipe r" "r_narrowed r' = r_narrowed r"
    "openFor r'"
  shows "soundRecord rt r'"
proof -
  have s: "staticOk rt r'" by (rule staticOk_step [OF sound_static [OF assms(1)] assms(5,6)])
  have k: "r_kind r' = KDisclosure" using wipe_eqD(1) [OF assms(5)] assms(2) by simp
  have "r_disclosure (wipe r') = r_disclosure (wipe r)" by (simp add: assms(5) del: wipe_fields)
  then have d: "r_disclosure r' = Some d" using assms(3) by simp
  show ?thesis
    using disclosure_dynamic [OF s k] d assms(4,7) s by (auto simp: soundRecord_def validRecord_def)
qed

text \<open>What no check reads.\<close>

lemma challenge_checks:
  "timesOf (r\<lparr>r_challengeHash := h\<rparr>) = timesOf r" "stampsOf (r\<lparr>r_challengeHash := h\<rparr>) = stampsOf r"
  "placedTimes (r\<lparr>r_challengeHash := h\<rparr>) t = placedTimes r t"
  "approvedWindow (r\<lparr>r_challengeHash := h\<rparr>) t c e = approvedWindow r t c e"
  "orderedTimes (r\<lparr>r_challengeHash := h\<rparr>) t c e = orderedTimes r t c e"
  "checkEvidence rt (r\<lparr>r_challengeHash := h\<rparr>) = checkEvidence rt r" "isChild (r\<lparr>r_challengeHash := h\<rparr>) = isChild r"
  "checkDisclosure (r\<lparr>r_challengeHash := h\<rparr>) = checkDisclosure r"
  unfolding placedTimes_def approvedWindow_def orderedTimes_def checkEvidence_def timesOf_def
    stampsOf_def isChild_def anomalous_def checkDisclosure_def
  by (simp_all cong: option.case_cong if_cong sum.case_cong)

lemma updated_checks:
  "timesOf (r\<lparr>r_updatedAt := u\<rparr>) = timesOf r" "stampsOf (r\<lparr>r_updatedAt := u\<rparr>) = stampsOf r"
  "placedTimes (r\<lparr>r_updatedAt := u\<rparr>) t = placedTimes r t"
  "approvedWindow (r\<lparr>r_updatedAt := u\<rparr>) t c e = approvedWindow r t c e"
  "orderedTimes (r\<lparr>r_updatedAt := u\<rparr>) t c e = orderedTimes r t c e"
  "checkEvidence rt (r\<lparr>r_updatedAt := u\<rparr>) = checkEvidence rt r" "isChild (r\<lparr>r_updatedAt := u\<rparr>) = isChild r"
  "checkDisclosure (r\<lparr>r_updatedAt := u\<rparr>) = checkDisclosure r"
  unfolding placedTimes_def approvedWindow_def orderedTimes_def checkEvidence_def timesOf_def
    stampsOf_def isChild_def anomalous_def checkDisclosure_def
  by (simp_all cong: option.case_cong if_cong sum.case_cong)

lemma neutral_dynamic [simp]:
  "dynamicOk rt (r\<lparr>r_challengeHash := h\<rparr>) = dynamicOk rt r" "dynamicOk rt (r\<lparr>r_updatedAt := u\<rparr>) = dynamicOk rt r"
  by (simp_all add: dynamicOk_def checkTimestamps_def challenge_checks updated_checks cong: option.case_cong)

lemma attempts_checks:
  "timesOf (r\<lparr>r_challengeAttempts := n\<rparr>) = timesOf r" "stampsOf (r\<lparr>r_challengeAttempts := n\<rparr>) = stampsOf r"
  "placedTimes (r\<lparr>r_challengeAttempts := n\<rparr>) t = placedTimes r t"
  "approvedWindow (r\<lparr>r_challengeAttempts := n\<rparr>) t c e = approvedWindow r t c e"
  "orderedTimes (r\<lparr>r_challengeAttempts := n\<rparr>) t c e = orderedTimes r t c e"
  "checkEvidence rt (r\<lparr>r_challengeAttempts := n\<rparr>) = checkEvidence rt r" "isChild (r\<lparr>r_challengeAttempts := n\<rparr>) = isChild r"
  unfolding placedTimes_def approvedWindow_def orderedTimes_def checkEvidence_def timesOf_def
    stampsOf_def isChild_def anomalous_def
  by (simp_all cong: option.case_cong if_cong)

lemma attempts_dynamic: "r_kind r \<noteq> KDisclosure \<Longrightarrow> dynamicOk rt (r\<lparr>r_challengeAttempts := n\<rparr>) = dynamicOk rt r"
  by (simp add: dynamicOk_def checkTimestamps_def attempts_checks cong: option.case_cong)

lemma neutral_wipe [simp]:
  "wipe (r\<lparr>r_challengeHash := h\<rparr>) = wipe r" "wipe (r\<lparr>r_updatedAt := u\<rparr>) = wipe r"
  "wipe (r\<lparr>r_challengeAttempts := n\<rparr>) = wipe r" "wipe (r\<lparr>r_state := s\<rparr>) = wipe r" "wipe (r\<lparr>r_reason := y\<rparr>) = wipe r"
  "wipe (r\<lparr>r_expiredAt := x\<rparr>) = wipe r" "wipe (r\<lparr>r_revokedAt := x\<rparr>) = wipe r" "wipe (r\<lparr>r_usedAt := x\<rparr>) = wipe r"
  "wipe (r\<lparr>r_sendingAt := x\<rparr>) = wipe r" "wipe (r\<lparr>r_sendingHeartbeatAt := x\<rparr>) = wipe r" "wipe (r\<lparr>r_sentAt := x\<rparr>) = wipe r"
  "wipe (r\<lparr>r_failedAt := x\<rparr>) = wipe r" "wipe (r\<lparr>r_sentMessageId := y\<rparr>) = wipe r"
  "wipe (r\<lparr>r_approvedVia := v\<rparr>) = wipe r" "wipe (r\<lparr>r_approvedAt := x\<rparr>) = wipe r" "wipe (r\<lparr>r_usableUntil := x\<rparr>) = wipe r"
  "wipe (r\<lparr>r_approvedDigest := y\<rparr>) = wipe r" "wipe (r\<lparr>r_approvedBindingDigest := y\<rparr>) = wipe r"
  "wipe (r\<lparr>r_approvedChangePolicy := p\<rparr>) = wipe r" "wipe (r\<lparr>r_narrowed := w\<rparr>) = wipe r"
  by (simp_all add: wipe_def)

lemma challenge_sound [simp]: "soundRecord rt (r\<lparr>r_challengeHash := h\<rparr>) = soundRecord rt r"
proof -
  have "staticOk rt (r\<lparr>r_challengeHash := h\<rparr>) = staticOk rt r"
    using staticOk_step [of rt r "r\<lparr>r_challengeHash := h\<rparr>"] staticOk_step [of rt "r\<lparr>r_challengeHash := h\<rparr>" r] by auto
  then show ?thesis by (simp add: soundRecord_def validRecord_def openFor_def)
qed

lemma stamped_sound [simp]: "soundRecord rt (stamped r u) = soundRecord rt r"
proof -
  have "staticOk rt (r\<lparr>r_updatedAt := u\<rparr>) = staticOk rt r" for u
    using staticOk_step [of rt r "r\<lparr>r_updatedAt := u\<rparr>"] staticOk_step [of rt "r\<lparr>r_updatedAt := u\<rparr>" r] by auto
  then show ?thesis by (simp add: soundRecord_def validRecord_def stamped_def openFor_def)
qed

text \<open>The endings of an active record.\<close>

definition inWindow :: "approval \<Rightarrow> int \<Rightarrow> bool" where
  "inWindow r at \<longleftrightarrow> sinceAt r \<le> at \<and> at < untilAt r"

lemma sound_revoked:
  assumes "soundRecord rt r" "active r" "inWindow r at" "reason \<noteq> CLOCK_ANOMALY"
  shows "soundRecord rt (r\<lparr>r_state := Revoked, r_reason := Some reason, r_revokedAt := Some (Iso at)\<rparr>)"
proof (cases "r_kind r = KDisclosure")
  case True
  obtain d c where d: "r_disclosure r = Some d" "disclosureLife r (dc_digest d) c"
    by (rule sound_disclosure [OF assms(1) True]) blast
  let ?r = "r\<lparr>r_state := Revoked, r_reason := Some reason, r_revokedAt := Some (Iso at)\<rparr>"
  have "soundRecord rt (?r\<lparr>r_challengeHash := None\<rparr>)"
    using disclosure_leave(2) [OF d(2) assms(2), of at None "Some reason"] assms(3)
    by (intro disclosure_step [OF assms(1) True d(1), of _ c]) (simp_all add: inWindow_def openFor_def)
  then show ?thesis by (simp only: challenge_sound)
next
  case False
  show ?thesis
    using revoke_active [OF sound_dynamic [OF assms(1)] assms(2) False sound_bound [OF assms(1)]] assms(3,4)
    by (intro sound_step [OF assms(1)]) (simp_all add: inWindow_def openFor_def)
qed

lemma sound_expired:
  assumes "soundRecord rt r" "active r" "sinceAt r \<le> at \<or> reason = CLOCK_ANOMALY \<and> r_kind r \<noteq> KDisclosure"
  shows "soundRecord rt (r\<lparr>r_state := Expired, r_reason := Some reason, r_expiredAt := Some (Iso at)\<rparr>)"
proof (cases "r_kind r = KDisclosure")
  case True
  obtain d c where d: "r_disclosure r = Some d" "disclosureLife r (dc_digest d) c"
    by (rule sound_disclosure [OF assms(1) True]) blast
  show ?thesis
    using disclosure_leave(1) [OF d(2) assms(2), of at "Some reason"] assms(3) True
    by (intro disclosure_step [OF assms(1) True d(1), of _ c]) (simp_all add: openFor_def)
next
  case False
  show ?thesis
    using expire_active [OF sound_dynamic [OF assms(1)] assms(2) False sound_bound [OF assms(1)]] assms(3)
    by (intro sound_step [OF assms(1)]) (auto simp: openFor_def)
qed

lemma sound_used:
  assumes "soundRecord rt r" "active r" "inWindow r at" "r_kind r \<in> {KChange, KDownload} \<or> r_kind r = KDisclosure \<and> r_state r = Approved"
  shows "soundRecord rt (r\<lparr>r_state := Used, r_usedAt := Some (Iso at)\<rparr>)"
proof (cases "r_kind r = KDisclosure")
  case True
  obtain d c where d: "r_disclosure r = Some d" "disclosureLife r (dc_digest d) c"
    by (rule sound_disclosure [OF assms(1) True]) blast
  show ?thesis
    using disclosure_leave(3) [OF d(2) assms(2), of at] assms(3,4) True
    by (intro disclosure_step [OF assms(1) True d(1), of _ c]) (simp_all add: inWindow_def openFor_def)
next
  case False
  then have "r_kind r = KChange \<or> r_kind r = KDownload" using assms(4) by auto
  then show ?thesis
    using use_active [OF sound_dynamic [OF assms(1)] assms(2) _ sound_bound [OF assms(1)]] assms(3) False
    by (intro sound_step [OF assms(1)]) (simp_all add: inWindow_def openFor_def)
qed

text \<open>A decision of a person.\<close>

lemma sound_approvedMs:
  assumes "soundRecord rt r" "r_kind r \<noteq> KDownload"
  shows "\<exists>ms > 0. r_approvedMs r = Some ms" "0 < r_pendingMs r"
proof -
  have "staticOk rt r" by (rule sound_static [OF assms(1)])
  then have "(\<exists>ms > 0. r_approvedMs r = Some ms) \<and> 0 < r_pendingMs r"
    using assms(2)
    by (cases "r_kind r"; cases "r_route r"; cases "the (r_route r)")
      (auto simp: staticOk_def checkLifetime_def lifetimes STANDING_DAY_MS_def Let_def limitInRange_def split: option.splits if_splits)
  then show "\<exists>ms > 0. r_approvedMs r = Some ms" "0 < r_pendingMs r" by blast+
qed

lemma sound_pending:
  assumes "soundRecord rt r" "r_kind r \<noteq> KDownload"
  shows "0 < r_pendingMs r" using sound_approvedMs [OF assms] by blast

text \<open>The window of an active record.\<close>

lemma active_window:
  assumes "soundRecord rt r" "active r"
  obtains c where "r_createdAt r = Iso c" "r_expiresAt r = Iso (c + r_pendingMs r)"
    "r_approvedAt r = None \<and> r_usableUntil r = None \<and> (r_state r = Approved \<longrightarrow> r_kind r = KDownload) \<or>
     (\<exists>a ms. r_approvedAt r = Some (Iso a) \<and> r_approvedMs r = Some ms \<and> r_usableUntil r = Some (Iso (a + ms)) \<and>
        c \<le> a \<and> r_kind r \<noteq> KDownload \<and> r_state r = Approved)"
proof (cases "r_kind r = KDisclosure")
  case True
  obtain d c where "r_disclosure r = Some d" and d: "disclosureLife r (dc_digest d) c" by (rule sound_disclosure [OF assms(1) True]) blast
  have ms: "r_pendingMs r = LIFETIME_confirm" "r_approvedMs r = Some LIFETIME_approved" "openFor r"
    using sound_static [OF assms(1)] assms(1) True by (simp_all add: staticOk_def soundRecord_def)
  note d' = d [unfolded disclosureLife_def]
  show ?thesis
    by (rule that [of c])
      (use d' ms True assms(2) in \<open>auto simp: disclosureWindow_def openFor_def\<close>)
next
  case False
  note d = dynamic_active [OF sound_dynamic [OF assms(1)] assms(2) False sound_bound [OF assms(1)]]
  let ?c = "the (stampTime (r_createdAt r))"
  have w: "windowOk r (timesOf r) ?c (the (stampTime (r_expiresAt r)))" by (rule d(8))
  note g = d(1) [unfolded goodStamps_iff]
  show ?thesis
  proof (rule that [of ?c])
    show "r_createdAt r = Iso ?c" "r_expiresAt r = Iso (?c + r_pendingMs r)" using d(5-7) by simp_all
    show "r_approvedAt r = None \<and> r_usableUntil r = None \<and> (r_state r = Approved \<longrightarrow> r_kind r = KDownload) \<or>
     (\<exists>a ms. r_approvedAt r = Some (Iso a) \<and> r_approvedMs r = Some ms \<and> r_usableUntil r = Some (Iso (a + ms)) \<and>
        ?c \<le> a \<and> r_kind r \<noteq> KDownload \<and> r_state r = Approved)"
    proof -
      obtain A U where au: "r_approvedAt r = map_option Iso A" "r_usableUntil r = map_option Iso U"
        using badStamp_time g by metis
      then show ?thesis
        using w assms(2) unfolding windowOk_def timesOf_fields au by (cases A; cases U) auto
    qed
  qed
qed

lemma sound_narrow:
  assumes "soundRecord rt r" "r_kind r = KStanding" "r_standing r = Some b"
  shows "0 \<le> standingDays b (r_narrowed r)"
proof -
  have s: "staticOk rt r" by (rule sound_static [OF assms(1)])
  then have l: "limitInRange ExpiresDays (sl_expiresDays (sb_limits b))" and n: "narrowOk r"
    using assms(2,3) staticOk_wipe [of rt r] by (auto simp: staticOk_def checkLifetime_def Let_def split: if_splits)
  from n have "standingNarrowingProblem b (r_narrowed r) = None"
    using assms(2,3) by (simp add: narrowOk_def)
  then show ?thesis
    using l by (auto simp: standingDays_def standingNarrowingProblem_def limitInRange_def narrowedLimitProblem_def
        LIMIT_NAMES_def list_ex_iff split: option.splits if_splits)
qed

text \<open>What a record reads as now is sound, and what is still active is in its window.\<close>

lemma window_until:
  assumes "soundRecord rt r" "active r"
  shows "windowOf r = Iso (untilAt r)" "sinceAt r < untilAt r"
    "clockBehind r now \<longleftrightarrow> now < sinceAt r"
proof -
  obtain c where c: "r_createdAt r = Iso c" "r_expiresAt r = Iso (c + r_pendingMs r)"
    "r_approvedAt r = None \<and> r_usableUntil r = None \<and> (r_state r = Approved \<longrightarrow> r_kind r = KDownload) \<or>
     (\<exists>a ms. r_approvedAt r = Some (Iso a) \<and> r_approvedMs r = Some ms \<and> r_usableUntil r = Some (Iso (a + ms)) \<and>
        c \<le> a \<and> r_kind r \<noteq> KDownload \<and> r_state r = Approved)"
    by (rule active_window [OF assms])
  have p: "0 < r_pendingMs r"
    using sound_approvedMs [OF assms(1)] sound_static [OF assms(1)]
    by (cases "r_kind r = KDownload") (auto simp: staticOk_def checkLifetime_def lifetimes)
  from c(3) show "windowOf r = Iso (untilAt r)" by (elim disjE exE conjE) (simp_all add: windowOf_def untilAt_def c(2) firstOf_def)
  from c(3) show "sinceAt r < untilAt r"
    using p sound_approvedMs(1) [OF assms(1)]
    by (elim disjE exE conjE) (auto simp: sinceAt_def untilAt_def c(1,2) firstOf_def)
  from c(3) show "clockBehind r now \<longleftrightarrow> now < sinceAt r"
    by (elim disjE exE conjE) (auto simp: sinceAt_def clockBehind_def c(1) firstOf_def)
qed

lemma narrowed_after:
  assumes "soundRecord rt r" "narrowedEnd r = Some n"
  shows "sinceAt r \<le> n"
proof -
  from assms(2) have k: "r_kind r = KStanding" by (auto simp: narrowedEnd_def split: if_splits)
  with assms(2) obtain a b where "timeOf (r_approvedAt r) = Some a" "r_standing r = Some b"
    "n = a + standingDays b (r_narrowed r) * STANDING_DAY_MS"
    by (auto simp: narrowedEnd_def split: if_splits option.splits)
  then show ?thesis
    using sound_narrow [OF assms(1) k, of b] by (simp add: sinceAt_def firstOf_def STANDING_DAY_MS_def)
qed

lemma deadline_between:
  assumes "soundRecord rt r" "active r"
  obtains d where "deadlineOf r = Iso d" "sinceAt r \<le> d" "d \<le> untilAt r"
proof (cases "given (narrowedEnd r) (\<lambda>n. n < untilAt r)")
  case True
  then obtain n where n: "narrowedEnd r = Some n" "n < untilAt r" by (auto simp: given_iff)
  then show ?thesis
    using that [of n] narrowed_after [OF assms(1) n(1)] window_until [OF assms] by (simp add: deadlineOf_def)
next
  case False
  then have "deadlineOf r = Iso (untilAt r)"
    using window_until(1) [OF assms] by (cases "narrowedEnd r") (simp_all add: deadlineOf_def)
  then show ?thesis using that [of "untilAt r"] window_until(2) [OF assms] by simp
qed

lemma derive_active:
  "active (derive r now) \<longleftrightarrow> active r \<and> \<not> clockBehind r now \<and> \<not> given (stampTime (deadlineOf r)) (\<lambda>d. d \<le> now)"
  by (cases "active r"; cases "clockBehind r now"; cases "given (stampTime (deadlineOf r)) (\<lambda>d. d \<le> now)") (simp_all add: derive_def)

lemma derive_same: "active (derive r now) \<Longrightarrow> derive r now = r"
  unfolding derive_active by (simp add: derive_def)

lemma derive_inWindow:
  assumes "soundRecord rt r" "active (derive r now)"
  shows "derive r now = r \<and> inWindow r now"
proof -
  have a: "active r" and d: "derive r now = r" and n: "\<not> clockBehind r now" "\<not> given (stampTime (deadlineOf r)) (\<lambda>d. d \<le> now)"
    using assms(2) derive_same [OF assms(2)] unfolding derive_active by blast+
  obtain d where "deadlineOf r = Iso d" "d \<le> untilAt r" by (rule deadline_between [OF assms(1) a])
  then show ?thesis
    using d n window_until(3) [OF assms(1) a] by (simp add: inWindow_def)
qed

lemma derive_sound:
  assumes "soundRecord rt r" "r_kind r = KDisclosure \<longrightarrow> \<not> (active r \<and> clockBehind r now)"
  shows "soundRecord rt (derive r now)"
proof (cases "active r")
  case True
  obtain d where d: "deadlineOf r = Iso d" "sinceAt r \<le> d" by (rule deadline_between [OF assms(1) True])
  show ?thesis
    using True assms sound_expired [OF assms(1) True, of now CLOCK_ANOMALY] sound_expired [OF assms(1) True, of d WINDOW_PASSED] d
    by (auto simp: derive_def)
next
  case False
  show ?thesis
  proof (cases "r_state r = Sending \<and> given (leaseStart r) (\<lambda>s. s + SENDING_LEASE_MS \<le> now)")
    case True
    have "STALE_LEASE_REASON \<noteq> CLOCK_ANOMALY" by (simp add: STALE_LEASE_REASON_def CLOCK_ANOMALY_def)
    have k: "r_kind r \<noteq> KDisclosure"
      using sound_dynamic [OF assms(1)] sound_disclosure [OF assms(1)] True
      by (auto simp: disclosureLife_def elim!: sound_disclosure [OF assms(1)])
    then show ?thesis
      using True False stale_sending [OF sound_dynamic [OF assms(1)] _ sound_bound [OF assms(1)] k \<open>STALE_LEASE_REASON \<noteq> _\<close>]
      by (simp add: derive_def) (intro sound_step [OF assms(1)]; simp add: openFor_def)
  next
    case False
    then show ?thesis using assms(1) \<open>\<not> active r\<close> by (auto simp: derive_def)
  qed
qed

end
