(* ===== verification/ApprovalTransition.thy ===== *)
theory ApprovalTransition
  imports ApprovalValidity
begin

text \<open>
  What every action writes is sound when what it opened was (the \<open>sound_\<close> lemmas), and one locked transition
  keeps a store sound when its decision does (\<open>transition_sound\<close>).
\<close>

section \<open>What an action writes\<close>

lemma sound_approved:
  assumes "soundRecord rt r" "r_state r = Pending" "inWindow r at" "r_kind r = KSend \<or> r_kind r = KChange \<or> r_kind r = KStanding"
    and "via \<noteq> ViaStanding" "via = ViaApp \<longrightarrow> r_kind r = KChange"
      "r_kind r \<noteq> KSend \<longrightarrow> via = Terminal \<or> (via = ViaApp \<and> r_kind r = KChange)"
    and "given gate (\<lambda>g. lgt_changePolicy g \<noteq> Some PNever) \<or> gate = None"
  shows "soundRecord rt (approvedRecord r (r_kind r) via gate at)"
proof -
  obtain ms where ms: "r_approvedMs r = Some ms" using sound_approvedMs(1) [OF assms(1)] assms(4) by auto
  have "dynamicOk rt (approvedRecord r (r_kind r) via gate at)"
    using assms(3) by (intro approve_pending [OF sound_dynamic [OF assms(1)] assms(2,4) sound_bound [OF assms(1)] _ _ ms assms(5-8)])
      (simp_all add: inWindow_def)
  then show ?thesis
    using assms(4) by (intro sound_step [OF assms(1)]) (auto simp: approvedRecord_def)
qed

lemma sound_answered:
  assumes "soundRecord rt r" "r_state r = Pending" "r_kind r = KDownload" "r_download r = Some dl" "via \<noteq> ViaApp" "via \<noteq> ViaStanding"
  shows "soundRecord rt (r\<lparr>r_state := Approved, r_approvedVia := Some via,
      r_approvedDigest := Some (answerDigest rt (r_bindingDigest r) a), r_download := Some (dl\<lparr>dl_answer := Some a\<rparr>)\<rparr>)"
proof -
  have w: "wipe (r\<lparr>r_state := Approved, r_approvedVia := Some via,
      r_approvedDigest := Some (answerDigest rt (r_bindingDigest r) a), r_download := Some (dl\<lparr>dl_answer := Some a\<rparr>)\<rparr>) = wipe r"
    using assms(4) by (simp add: wipe_def)
  show ?thesis
    using assms(3) answer_pending [OF sound_dynamic [OF assms(1)] assms(2,3) sound_bound [OF assms(1)] assms(4-6)]
    by (intro sound_step [OF assms(1) w]) simp_all
qed

lemma sound_disclosure_approved:
  assumes "soundRecord rt r" "r_state r = Pending" "inWindow r at" "r_kind r = KDisclosure" "via = Terminal \<or> via = ViaApp"
  shows "soundRecord rt (r\<lparr>r_state := Approved, r_approvedVia := Some via, r_approvedAt := Some (Iso at),
     r_usableUntil := Some (Iso (at + LIFETIME_approved)), r_approvedDigest := map_option dc_digest (r_disclosure r),
     r_challengeHash := None\<rparr>)"
proof -
  obtain d c where d: "r_disclosure r = Some d" "disclosureLife r (dc_digest d) c"
    by (rule sound_disclosure [OF assms(1,4)])
  have none: "r_approvedAt r = None" using assms(1,2,4) by (simp add: soundRecord_def openFor_def)
  then have "r_usableUntil r = None" using d(2) by (auto simp: disclosureLife_def disclosureWindow_def)
  moreover have "c \<le> at" "at < c + LIFETIME_confirm"
    using assms(3) d(2) none \<open>r_usableUntil r = None\<close>
    by (simp_all add: inWindow_def sinceAt_def untilAt_def disclosureLife_def firstOf_def)
  ultimately show ?thesis
    using disclosure_approve [OF d(2) assms(2) _ _ assms(5)] d(1)
    by (intro disclosure_step [OF assms(1,4) d(1), of _ c]) (simp_all add: openFor_def)
qed

lemma sound_attempts:
  assumes "soundRecord rt r" "r_kind r = KDisclosure \<longrightarrow> 0 \<le> n \<and> n \<le> 3 \<and> (r_state r = Pending \<longrightarrow> n < 3)"
  shows "soundRecord rt (r\<lparr>r_challengeAttempts := n\<rparr>)"
proof (cases "r_kind r = KDisclosure")
  case True
  obtain d c where d: "r_disclosure r = Some d" "disclosureLife r (dc_digest d) c"
    by (rule sound_disclosure [OF assms(1) True])
  have "disclosureLife (r\<lparr>r_challengeAttempts := n\<rparr>) (dc_digest d) c"
    using d(2) assms(2) True by (simp add: disclosureLife_def disclosureWindow_def goodStamps_iff)
  then show ?thesis
    using assms True by (intro disclosure_step [OF assms(1) True d(1), of _ c])
      (simp_all add: openFor_def MAX_CHALLENGE_ATTEMPTS_def soundRecord_def)
next
  case False
  then show ?thesis
    using attempts_dynamic [OF False] sound_dynamic [OF assms(1)] by (intro sound_step [OF assms(1)]) simp_all
qed

lemma sound_wrongAnswer:
  assumes "soundRecord rt r" "r_state r = Pending" "inWindow r at" "wrongAnswer r at = Next n e"
  shows "soundRecord rt n"
proof (cases "MAX_CHALLENGE_ATTEMPTS \<le> r_challengeAttempts r + 1")
  case True
  have r: "TOO_MANY_ANSWERS \<noteq> CLOCK_ANOMALY" by (simp add: TOO_MANY_ANSWERS_def CLOCK_ANOMALY_def)
  let ?r = "r\<lparr>r_state := Revoked, r_reason := Some TOO_MANY_ANSWERS, r_revokedAt := Some (Iso at)\<rparr>"
  have "soundRecord rt ?r"
    using assms(2) by (intro sound_revoked [OF assms(1) _ assms(3) r]) simp
  then have "soundRecord rt (?r\<lparr>r_challengeAttempts := r_challengeAttempts r + 1\<rparr>)"
    using True assms(1,2) by (intro sound_attempts) (auto simp: MAX_CHALLENGE_ATTEMPTS_def soundRecord_def openFor_def)
  moreover have "n = ?r\<lparr>r_challengeAttempts := r_challengeAttempts r + 1\<rparr>"
    using assms(4) True by (intro approval.equality) (auto simp: wrongAnswer_def Let_def voided_def)
  ultimately show ?thesis by simp
next
  case False
  have "n = r\<lparr>r_challengeAttempts := r_challengeAttempts r + 1\<rparr>"
    using assms(4) False by (simp add: wrongAnswer_def Let_def)
  moreover have "0 \<le> r_challengeAttempts r" if "r_kind r = KDisclosure"
    by (rule sound_disclosure [OF assms(1) that]) (simp add: disclosureLife_def)
  ultimately show ?thesis
    using False by (auto simp: MAX_CHALLENGE_ATTEMPTS_def intro!: sound_attempts [OF assms(1)])
qed

lemma sound_sending:
  assumes "soundRecord rt r" "active r" "inWindow r at" "r_kind r = KSend"
  shows "soundRecord rt (r\<lparr>r_state := Sending, r_sendingAt := Some (Iso at)\<rparr>)"
  using send_active [OF sound_dynamic [OF assms(1)] assms(2,4) sound_bound [OF assms(1)]] assms(3,4)
  by (intro sound_step [OF assms(1)]) (simp_all add: inWindow_def)

lemma sound_heartbeat:
  assumes "soundRecord rt r" "r_kind r = KSend" "heartbeatDecision now r = Next n e"
  shows "soundRecord rt n"
proof -
  from assms(3) obtain s where s: "r_state r = Sending" "leaseStart r = Some s" "s < now"
    and n: "n = r\<lparr>r_sendingHeartbeatAt := Some (Iso now)\<rparr>"
    by (auto simp: heartbeatDecision_def given_iff split: if_splits)
  show ?thesis
    using renew_sending [OF sound_dynamic [OF assms(1)] s(1) sound_bound [OF assms(1)] _ s(2,3)] assms(2) n
    by (intro sound_step [OF assms(1)]) simp_all
qed

lemma sound_complete:
  assumes "soundRecord rt r" "r_kind r = KSend" "completeDecision result now r oc = Next n e"
    and "result \<noteq> SentAs []" "result \<noteq> FailedWith CLOCK_ANOMALY"
  shows "soundRecord rt n"
proof -
  have st: "r_state r = Sending \<or> r_state r = Unknown" using assms(3) by (auto simp: completeDecision_def split: if_splits)
  note d = dynamic_sending [OF sound_dynamic [OF assms(1)] st sound_bound [OF assms(1)]]
  have "leaseStart r \<noteq> None"
    using d(1,4) assms(2) badStamp_time [of "r_sendingHeartbeatAt r"]
    by (cases "r_sendingHeartbeatAt r") (auto simp: leaseStart_def goodStamps_iff badStamp_def split: stamp.splits)
  then obtain s where s: "leaseStart r = Some s" by blast
  note f = finish_sending [OF sound_dynamic [OF assms(1)] st sound_bound [OF assms(1)] _ s, of "max now s"]
  show ?thesis
  proof (cases result)
    case (SentAs m)
    then have "n = r\<lparr>r_state := Used, r_sentMessageId := Some m, r_sentAt := Some (Iso (max now s)), r_usedAt := Some (Iso (max now s)), r_reason := None\<rparr>"
      using assms(3) st s by (auto simp: completeDecision_def Let_def split: if_splits)
    then show ?thesis using f(1) [of m] assms(2,4) SentAs by (intro sound_step [OF assms(1)]) simp_all
  next
    case (FailedWith why)
    then have "n = r\<lparr>r_state := Failed, r_reason := Some why, r_failedAt := Some (Iso (max now s))\<rparr>"
      using assms(3) st s by (auto simp: completeDecision_def Let_def split: if_splits)
    then show ?thesis using f(2) [of why] assms(2,5) FailedWith by (intro sound_step [OF assms(1)]) simp_all
  qed
qed

text \<open>A narrowing, which the validator accepts because \<open>narrowedFurther\<close> made it.\<close>

lemma narrowed_checks:
  "timesOf (r\<lparr>r_narrowed := w\<rparr>) = timesOf r" "stampsOf (r\<lparr>r_narrowed := w\<rparr>) = stampsOf r"
  "placedTimes (r\<lparr>r_narrowed := w\<rparr>) t = placedTimes r t"
  "approvedWindow (r\<lparr>r_narrowed := w\<rparr>) t c e = approvedWindow r t c e"
  "orderedTimes (r\<lparr>r_narrowed := w\<rparr>) t c e = orderedTimes r t c e"
  "checkEvidence rt (r\<lparr>r_narrowed := w\<rparr>) = checkEvidence rt r" "isChild (r\<lparr>r_narrowed := w\<rparr>) = isChild r"
  "checkDisclosure (r\<lparr>r_narrowed := w\<rparr>) = checkDisclosure r"
  unfolding placedTimes_def approvedWindow_def orderedTimes_def checkEvidence_def timesOf_def
    stampsOf_def isChild_def anomalous_def checkDisclosure_def
  by (simp_all cong: option.case_cong if_cong sum.case_cong)

lemma narrowed_dynamic: "dynamicOk rt (r\<lparr>r_narrowed := w\<rparr>) = dynamicOk rt r"
  by (simp add: dynamicOk_def checkTimestamps_def narrowed_checks cong: option.case_cong)

lemma sound_narrowed:
  assumes "soundRecord rt r" "r_kind r = KStanding" "narrowDecision wanted r oc = Next n e"
  shows "soundRecord rt n"
proof -
  from assms(3) obtain b m where b: "r_standing r = Some b" "narrowedFurther b (r_narrowed r) wanted = Inr m"
    and n: "n = r\<lparr>r_narrowed := Some m\<rparr>"
    by (auto simp: narrowDecision_def split: option.splits if_splits sum.splits)
  have s: "staticOk rt r" by (rule sound_static [OF assms(1)])
  then have ok: "standingBindingProblem rt b = None"
    using assms(2) b(1) by (simp add: staticOk_def checkContent_def)
  then have "standingNarrowingProblem b (Some m) = None"
    using narrowedFurther_effective [OF standingBindingProblem_NoneD(1,2) [OF ok] b(2)] by blast
  then have "staticOk rt n"
    using s staticOk_wipe [of rt r] staticOk_wipe [of rt n] assms(2) b(1) n by (simp add: narrowOk_def)
  then show ?thesis
    using sound_dynamic [OF assms(1)] assms(2) n by (simp add: soundRecord_def validRecord_def narrowed_dynamic)
qed

section \<open>Disclosures under a clock that went back\<close>

text \<open>
  A waiting disclosure that was made, or approved, after what the clock reads now is expired at once, as every record
  is. But the validator of disclosures has no exemption for that expiry, so it calls what is then written misordered.
\<close>

definition rolledBack :: "runtime \<Rightarrow> approval \<Rightarrow> bool" where
  "rolledBack rt r \<longleftrightarrow>
     (\<exists>p now. soundRecord rt p \<and> r_kind p = KDisclosure \<and> active p \<and> clockBehind p now \<and> r = derive p now)"

lemma misordered_disclosure:
  assumes "checkDisclosure r = None" "r_state r = Expired" "x < sinceAt r"
  shows "checkDisclosure (r\<lparr>r_expiredAt := Some (Iso x)\<rparr>) = Some TimestampMisordered"
proof -
  let ?r = "r\<lparr>r_expiredAt := Some (Iso x)\<rparr>"
  obtain d b where d: "r_disclosure r = Some d" "canonicalDisclosureBinding d = Inr b"
    using checkDisclosure_static [OF assms(1)] by (auto simp: given_iff)
  note ms = checkDisclosure_static [OF assms(1), THEN conjunct2]
  obtain c where life: "disclosureLife r (dc_digest b) c"
    using checkDisclosure_life [OF d] ms assms(1) by blast
  then have iso: "r_createdAt r = Iso c" "r_expiresAt r = Iso (c + LIFETIME_confirm)" "goodStamps r"
    by (simp_all add: disclosureLife_def)
  then have stamps: "\<not> list_ex badStamp (stampsOf ?r)"
    by (auto simp: goodStamps_def stampsOf_def badStamp_def)
  have since: "x < firstOf (timeOf (r_approvedAt r)) c"
    using assms(3) by (simp add: sinceAt_def iso)
  have gone: "r_usedAt r = None" "r_revokedAt r = None"
    using life assms(2) by (auto simp: disclosureLife_def)
  have window: "timeOf (r_approvedAt r) = None \<and> timeOf (r_usableUntil r) = None
      \<or> (\<exists>a. timeOf (r_approvedAt r) = Some a \<and> timeOf (r_usableUntil r) = Some (a + LIFETIME_approved) \<and> c \<le> a
          \<and> a < c + LIFETIME_confirm)"
    using life by (auto simp: disclosureLife_def disclosureWindow_def)
  show ?thesis
    using window
    by (elim disjE exE conjE)
      (use stamps since in \<open>simp_all add: checkDisclosure_def d ms assms(2) iso gone timesOf_def Let_def firstFail.simps
        present_def firstOf_def\<close>)
qed

lemma rolledBack_corrupt:
  assumes "rolledBack rt r"
  shows "validateV2 rt r (r_approvalId r) = Corrupt TimestampMisordered Verified"
proof -
  obtain p now where p: "soundRecord rt p" "r_kind p = KDisclosure" "active p" "clockBehind p now" "r = derive p now"
    using assms by (auto simp: rolledBack_def)
  let ?q = "p\<lparr>r_state := Expired, r_reason := Some CLOCK_ANOMALY, r_expiredAt := Some (Iso (sinceAt p))\<rparr>"
  have q: "soundRecord rt ?q"
    by (rule sound_expired [OF p(1,3)]) simp
  have r: "r = ?q\<lparr>r_expiredAt := Some (Iso now)\<rparr>"
    using p(3-5) by (simp add: derive_def)
  have "checkDisclosure ?q = None"
    using sound_dynamic [OF q] p(2) by (simp add: dynamicOk_def)
  moreover have "now < sinceAt ?q"
    using window_until(3) [OF p(1,3)] p(4) by (simp add: sinceAt_def)
  ultimately have check: "checkDisclosure r = Some TimestampMisordered"
    unfolding r by (intro misordered_disclosure) simp_all
  have "staticOk rt r"
    unfolding r by (rule staticOk_step [OF sound_static [OF q]]) simp_all
  moreover have "r_kind r = KDisclosure"
    using p(2) r by simp
  ultimately show ?thesis
    using check by (auto simp: validateV2_def checkVerified_def staticOk_def)
qed

section \<open>Sound stores\<close>

text \<open>
  Every record of the store is under its own name and is sound, or is such a disclosure. A clock that reads the same
  while a record is derived, classified and decided on is \<open>steadyAt\<close>.
\<close>

definition keptRecord :: "runtime \<Rightarrow> approval \<Rightarrow> bool" where
  "keptRecord rt r \<longleftrightarrow> soundRecord rt r \<or> rolledBack rt r"

lemma kept_sound [intro]: "soundRecord rt r \<Longrightarrow> keptRecord rt r"
  by (simp add: keptRecord_def)

definition soundStore :: "runtime \<Rightarrow> store \<Rightarrow> bool" where
  "soundStore rt st \<longleftrightarrow> (\<forall>i r. st_files st i = Some (V2File r) \<longrightarrow> r_approvalId r = i \<and> keptRecord rt r)"

definition steadyAt :: "clock \<Rightarrow> int \<Rightarrow> bool" where
  "steadyAt ck now \<longleftrightarrow> ck_derive ck = now \<and> ck_classify ck = now \<and> ck_decide ck = now"

lemma soundStoreD: "soundStore rt st \<Longrightarrow> st_files st i = Some (V2File r) \<Longrightarrow> r_approvalId r = i \<and> keptRecord rt r"
  by (simp add: soundStore_def)

lemma kept_put: "soundStore rt st \<Longrightarrow> keptRecord rt r \<Longrightarrow> soundStore rt (putRecord st r)"
  by (simp add: soundStore_def putRecord_def)

lemma sound_put: "soundStore rt st \<Longrightarrow> soundRecord rt r \<Longrightarrow> soundStore rt (putRecord st r)"
  by (rule kept_put) auto

lemma stamped_fields [simp]:
  "r_approvalId (stamped r u) = r_approvalId r" "r_state (stamped r u) = r_state r" "r_kind (stamped r u) = r_kind r"
  by (simp_all add: stamped_def)

lemma derive_stamped: "active p \<Longrightarrow> clockBehind p now \<Longrightarrow> derive (stamped p u) now = stamped (derive p now) u"
  by (simp add: derive_def stamped_def clockBehind_def)

lemma rolledBack_fields: "rolledBack rt r \<Longrightarrow> r_kind r = KDisclosure \<and> r_state r = Expired"
  by (auto simp: rolledBack_def derive_def)

lemma rolledBack_stamped: "rolledBack rt r \<Longrightarrow> rolledBack rt (stamped r u)"
proof -
  assume "rolledBack rt r"
  then obtain p now where p: "soundRecord rt p" "r_kind p = KDisclosure" "active p" "clockBehind p now" "r = derive p now"
    by (auto simp: rolledBack_def)
  then have "soundRecord rt (stamped p u)" "active (stamped p u)" "clockBehind (stamped p u) now"
    "stamped r u = derive (stamped p u) now"
    using derive_stamped [OF p(3,4), of u] by simp_all (simp add: stamped_def clockBehind_def)
  then show "rolledBack rt (stamped r u)"
    using p(2) unfolding rolledBack_def by (metis stamped_fields(3))
qed

lemma kept_stamped: "keptRecord rt r \<Longrightarrow> keptRecord rt (stamped r u)"
  using rolledBack_stamped by (auto simp: keptRecord_def)

lemma derive_kept: "soundRecord rt r \<Longrightarrow> keptRecord rt (derive r now)"
  using derive_sound [of rt r now] by (auto simp: keptRecord_def rolledBack_def)

lemma active_kept: "keptRecord rt r \<Longrightarrow> active r \<Longrightarrow> soundRecord rt r"
  using rolledBack_fields by (fastforce simp: keptRecord_def)

lemma other_kept: "keptRecord rt r \<Longrightarrow> r_kind r \<noteq> KDisclosure \<Longrightarrow> soundRecord rt r"
  using rolledBack_fields by (auto simp: keptRecord_def)

text \<open>What the validator accepts of a store that is kept is sound.\<close>

lemma valid_kept: "keptRecord rt r \<Longrightarrow> validateV2 rt r i = Valid \<Longrightarrow> soundRecord rt r"
  using rolledBack_corrupt [of rt r] by (auto simp: keptRecord_def valid_iff) (metis valid_iff validation.distinct(1))

text \<open>What an action opened: the record as it reads, and its classification.\<close>

lemma findRecord_V2:
  assumes "findRecord rt st cfg now i ax = Inr (V2 r)"
  shows "st_files st i = Some (V2File r)" "validateV2 rt r i = Valid" "matchesExpectation (V2 r) ax" "approvalIdPattern i"
  using assms
  by (auto simp: findRecord_def decodeStored_def Let_def split: if_splits option.splits stored_file.splits validation.splits)

lemma openRecord_Inr:
  assumes "openRecord rt st cfg ck i ax act = Inr (r, d, oc, live)"
  shows "findRecord rt st cfg (ck_read ck) i ax = Inr (V2 r)" "d = derive r (ck_derive ck)"
    "live = gateFor cfg (V2 d)" "oc = classifyV2 d act live (ck_classify ck)"
proof -
  from assms obtain found where f: "findRecord rt st cfg (ck_read ck) i ax = Inr found"
    and rest: "(case (found, derivedForm found (ck_derive ck)) of (V2 r, V2 d) \<Rightarrow>
       Inr (r, d, approvalOutcome (derivedForm found (ck_derive ck)) act (gateFor cfg (derivedForm found (ck_derive ck)))
          (ck_classify ck), gateFor cfg (derivedForm found (ck_derive ck)))
     | _ \<Rightarrow> Inl (orDefault (oc_error (approvalOutcome (derivedForm found (ck_derive ck)) act
          (gateFor cfg (derivedForm found (ck_derive ck))) (ck_classify ck))) APPROVAL_VOID)) = Inr (r, d, oc, live)"
    by (auto simp: openRecord_def result_bind_eq_Inr Let_def)
  show "findRecord rt st cfg (ck_read ck) i ax = Inr (V2 r)" "d = derive r (ck_derive ck)"
    "live = gateFor cfg (V2 d)" "oc = classifyV2 d act live (ck_classify ck)"
    using f rest by (cases found; auto simp: derivedForm_def approvalOutcome_def)+
qed

lemma derive_fields [simp]:
  "r_approvalId (derive r now) = r_approvalId r" "r_kind (derive r now) = r_kind r" "isChild (derive r now) = isChild r"
  "r_bindingDigest (derive r now) = r_bindingDigest r"
  by (simp_all add: derive_def isChild_def)

lemma revokedAs_eq: "revokedAs r reason at = r\<lparr>r_state := Revoked, r_reason := Some reason, r_revokedAt := Some (Iso at)\<rparr>\<lparr>r_challengeHash := None\<rparr>"
  by (simp add: revokedAs_def)

lemma sound_revokedAs: "soundRecord rt r \<Longrightarrow> active r \<Longrightarrow> inWindow r at \<Longrightarrow> reason \<noteq> CLOCK_ANOMALY \<Longrightarrow> soundRecord rt (revokedAs r reason at)"
  unfolding revokedAs_eq challenge_sound by (rule sound_revoked)

lemma sound_voided: "soundRecord rt r \<Longrightarrow> active r \<Longrightarrow> inWindow r at \<Longrightarrow> reason \<noteq> CLOCK_ANOMALY \<Longrightarrow> soundRecord rt (voided r reason at)"
  unfolding voided_def by (rule sound_revoked)

text \<open>A derived reason is never the clock's, and only an active record has one.\<close>

lemma derivedReason_Some:
  assumes "derivedReason r act live = Some reason"
  shows "active r" "reason \<noteq> CLOCK_ANOMALY"
proof -
  show "active r" using assms by (auto simp: derivedReason_def split: if_splits)
  show "reason \<noteq> CLOCK_ANOMALY"
    using assms by (auto simp: derivedReason_def neverReason_def accountNoun_def CLOCK_ANOMALY_def OWNER_REMOVED_REASON_def
      SEND_EPOCH_REASON_def STANDING_EPOCH_REASON_def CHANGE_POLICY_TIGHTENED_REASON_def js_eval split: if_splits)
qed

lemma classify_disclosure [simp]: "r_kind d = KDisclosure \<Longrightarrow> classifyV2 d act live now = classifyDisclosure d"
  by (simp add: classifyV2_def)

lemma classify_fields:
  assumes "r_kind d \<noteq> KDisclosure"
  shows "oc_revokes (classifyV2 d act live now) = (derivedReason d act live \<noteq> None)"
    "oc_record (classifyV2 d act live now) =
       Some (case derivedReason d act live of None \<Rightarrow> d | Some reason \<Rightarrow> revokedAs d reason now)"
    "oc_error (classifyV2 d act live now) =
       errorOf (case derivedReason d act live of None \<Rightarrow> d | Some reason \<Rightarrow> revokedAs d reason now) act (live = None)
         (active d \<and> \<not> ownerGone d live \<and> neverNow d live \<and> act \<in> {AApprove, AClaim})"
    "oc_claimable (classifyV2 d act live now) =
       (let after = (case derivedReason d act live of None \<Rightarrow> d | Some reason \<Rightarrow> revokedAs d reason now)
        in active after \<and> \<not> neverNow d live \<and> given live (isClaimable after))"
  using assms by (simp_all add: classifyV2_def Let_def)

lemma revokedAs_state [simp]: "r_state (revokedAs r reason at) = Revoked"
  by (simp add: revokedAs_def)

lemma errorOf_None: "errorOf r act noConfig never = None \<Longrightarrow> active r"
  by (cases "r_state r") (auto simp: errorOf_def)

lemma classify_revokes:
  assumes "oc = classifyV2 d act live now" "oc_revokes oc"
  obtains reason where "active d" "reason \<noteq> CLOCK_ANOMALY" "oc_record oc = Some (revokedAs d reason now)"
proof (cases "r_kind d = KDisclosure")
  case True
  then show ?thesis using assms by (simp add: classifyDisclosure_def)
next
  case False
  note f = classify_fields [OF False, of act live now]
  then obtain reason where "derivedReason d act live = Some reason" using assms by auto
  then show ?thesis using that [of reason] derivedReason_Some f(2) assms(1) by simp
qed

lemma classify_no_error:
  assumes "oc = classifyV2 d act live now" "oc_error oc = None"
  shows "active d" "\<not> oc_revokes oc"
proof -
  have "active d \<and> \<not> oc_revokes oc"
  proof (cases "r_kind d = KDisclosure")
    case True
    then show ?thesis
      using assms by (cases "r_state d") (simp_all add: classifyDisclosure_def)
  next
    case False
    note f = classify_fields [OF False, of act live now]
    show ?thesis
      using f assms by (cases "derivedReason d act live") (auto dest: errorOf_None)
  qed
  then show "active d" "\<not> oc_revokes oc" by blast+
qed

lemma current_sound:
  assumes "soundRecord rt d" "active d \<longrightarrow> inWindow d now" "oc = classifyV2 d act live now"
  shows "soundRecord rt (currentRecord act d oc)"
proof (cases "oc_revokes oc")
  case True
  obtain reason where r: "active d" "reason \<noteq> CLOCK_ANOMALY" "oc_record oc = Some (revokedAs d reason now)"
    by (rule classify_revokes [OF assms(3) True])
  then have "soundRecord rt (revokedAs d reason now)"
    using assms(1,2) sound_revokedAs by blast
  with r(3) assms(1) show ?thesis by (simp add: currentRecord_def firstOf_def)
next
  case False
  with assms(1) show ?thesis by (simp add: currentRecord_def)
qed

lemma current_kept:
  assumes "keptRecord rt d" "active d \<longrightarrow> inWindow d now" "oc = classifyV2 d act live now"
  shows "keptRecord rt (currentRecord act d oc)"
proof (cases "soundRecord rt d")
  case True
  then show ?thesis
    using current_sound [OF True assms(2,3)] by blast
next
  case False
  then have "r_kind d = KDisclosure"
    using assms(1) other_kept by blast
  then have "currentRecord act d oc = d"
    by (simp add: assms(3) currentRecord_def classifyDisclosure_def)
  then show ?thesis
    using assms(1) by simp
qed

lemma current_fields:
  assumes "oc = classifyV2 d act live now"
  shows "r_approvalId (currentRecord act d oc) = r_approvalId d" "r_kind (currentRecord act d oc) = r_kind d"
    "active (currentRecord act d oc) \<Longrightarrow> currentRecord act d oc = d"
    "oc_error oc = None \<Longrightarrow> currentRecord act d oc = d"
proof -
  have c: "currentRecord act d oc = d \<or> (\<exists>reason. currentRecord act d oc = revokedAs d reason now)"
  proof (cases "oc_revokes oc")
    case True
    then obtain reason where "oc_record oc = Some (revokedAs d reason now)" by (rule classify_revokes [OF assms])
    then show ?thesis by (auto simp: currentRecord_def firstOf_def)
  qed (simp add: currentRecord_def)
  then show "r_approvalId (currentRecord act d oc) = r_approvalId d" "r_kind (currentRecord act d oc) = r_kind d"
    "active (currentRecord act d oc) \<Longrightarrow> currentRecord act d oc = d"
    by (auto simp: revokedAs_def)
  show "oc_error oc = None \<Longrightarrow> currentRecord act d oc = d"
    using classify_no_error(2) [OF assms] by (simp add: currentRecord_def)
qed

section \<open>A transition keeps the store sound\<close>

text \<open>
  It is enough that the decision, made on a sound record that is in its window while it is active, leaves a sound
  record under the same name.
\<close>

definition keepsSound ::
  "runtime \<Rightarrow> int \<Rightarrow> approval_kind option \<Rightarrow> action \<Rightarrow> config option \<Rightarrow> ('x \<Rightarrow> bool)
     \<Rightarrow> (approval \<Rightarrow> outcome \<Rightarrow> live_gate option \<Rightarrow> 'x \<Rightarrow> decision) \<Rightarrow> bool" where
  "keepsSound rt now kind act cfg P decide \<longleftrightarrow>
     (\<forall>d seen n e. keptRecord rt d \<and> (active d \<longrightarrow> inWindow d now) \<and> (kind = None \<or> kind = Some (r_kind d)) \<and> P seen \<and>
        decide (currentRecord act d (classifyV2 d act (gateFor cfg (V2 d)) now)) (classifyV2 d act (gateFor cfg (V2 d)) now)
          (gateFor cfg (V2 d)) seen = Next n e
      \<longrightarrow> keptRecord rt n \<and> r_approvalId n = r_approvalId d)"

text \<open>What reading a stored record gives, under a steady clock.\<close>

lemma opened_sound:
  assumes "soundStore rt st" "findRecord rt st cfg t i ax = Inr (V2 r)"
    and "d = derive r now" "oc = classifyV2 d act live now"
  shows "r_approvalId r = i" "keptRecord rt d" "active d \<longrightarrow> inWindow d now" "ax_kind ax = None \<or> ax_kind ax = Some (r_kind d)"
    "keptRecord rt (currentRecord act d oc)" "r_approvalId (currentRecord act d oc) = i"
proof -
  note fd = findRecord_V2 [OF assms(2)]
  show r: "r_approvalId r = i" using soundStoreD [OF assms(1) fd(1)] by blast
  have rs: "soundRecord rt r"
    using soundStoreD [OF assms(1) fd(1)] fd(2) valid_kept by blast
  show kind: "ax_kind ax = None \<or> ax_kind ax = Some (r_kind d)"
    using fd(3) assms(3) by (auto simp: matchesExpectation_def kindOf_def ownerOf_def split: if_splits)
  show ds: "keptRecord rt d"
    unfolding assms(3) by (rule derive_kept [OF rs])
  show win: "active d \<longrightarrow> inWindow d now" using derive_inWindow [OF rs, of now] assms(3) by auto
  show "keptRecord rt (currentRecord act d oc)" "r_approvalId (currentRecord act d oc) = i"
    using current_kept [OF ds win assms(4)] current_fields(1) [OF assms(4)] assms(3) r by simp_all
qed

lemma settle_sound: "soundStore rt st \<Longrightarrow> keptRecord rt c \<Longrightarrow> soundStore rt (settle st r c at)"
  by (simp add: settle_def kept_put kept_stamped)

lemma transition_sound:
  assumes st: "soundStore rt st" and now: "steadyAt ck now"
    and dec: "keepsSound rt now (ax_kind ax) act cfg P decide"
    and prior: "\<And>s r oc. soundStore rt s \<Longrightarrow> soundStore rt (fst (prior s r oc)) \<and> P (snd (prior s r oc))"
  shows "soundStore rt (fst (transition rt st cfg ck i ax act token prior decide))"
proof (cases "openRecord rt st cfg ck i ax act")
  case (Inl e)
  then show ?thesis using st by (simp add: transition_def)
next
  case (Inr x)
  obtain r d oc live where x: "x = (r, d, oc, live)" by (cases x)
  note op = openRecord_Inr [OF Inr [unfolded x]]
  have t: "ck_derive ck = now" "ck_classify ck = now" using now by (simp_all add: steadyAt_def)
  have dd: "d = derive r now" and oc: "oc = classifyV2 d act live now" using op(2,4) t by simp_all
  note o = opened_sound [OF st op(1) dd oc]
  let ?c = "currentRecord act d oc"
  have s1: "soundStore rt (settle st r ?c (ck_write ck))"
    using st o(5) by (rule settle_sound)
  show ?thesis
  proof (cases "given token (\<lambda>t. \<not> holdsClaim st i t)")
    case True
    then show ?thesis using st by (simp add: transition_def Inr x)
  next
    case False
    obtain s2 seen where p: "prior (settle st r ?c (ck_write ck)) ?c oc = (s2, seen)" by fastforce
    then have s2: "soundStore rt s2" "P seen" using prior [OF s1, of ?c oc] by simp_all
    have "soundStore rt (fst (conclude s2 ?c (ck_rewrite ck) (decide ?c oc live seen)))"
    proof (cases "decide ?c oc live seen")
      case (Next n e)
      then have "keptRecord rt n"
        using dec [unfolded keepsSound_def, rule_format, of d seen n e] o(2-4) oc op(3) s2(2) by simp
      then show ?thesis using s2(1) by (simp add: conclude_def Next kept_put kept_stamped)
    qed (use s2 in \<open>simp_all add: conclude_def\<close>)
    then show ?thesis using False p by (simp add: transition_def Inr x Let_def)
  qed
qed

lemma inspect_sound:
  assumes st: "soundStore rt st" and now: "steadyAt ck now"
  shows "soundStore rt (fst (inspect rt st cfg ck i ax act))"
proof (cases "findRecord rt st cfg (ck_read ck) i ax")
  case (Inl e)
  then show ?thesis using st by (simp add: inspect_def)
next
  case (Inr found)
  show ?thesis
  proof (cases found)
    case (V2 r)
    have t: "ck_derive ck = now" "ck_classify ck = now" using now by (simp_all add: steadyAt_def)
    let ?d = "derive r now"
    let ?oc = "classifyV2 ?d act (gateFor cfg (V2 ?d)) now"
    note o = opened_sound [OF st Inr [unfolded V2] refl, of ?oc now act "gateFor cfg (V2 ?d)"]
    have "keptRecord rt (if oc_revokes ?oc then firstOf (oc_record ?oc) ?d else ?d)"
    proof (cases "oc_revokes ?oc")
      case True
      obtain reason where "active ?d" "reason \<noteq> CLOCK_ANOMALY" "oc_record ?oc = Some (revokedAs ?d reason now)"
        by (rule classify_revokes [OF refl True])
      then show ?thesis using o(2,3) active_kept sound_revokedAs kept_sound by (simp add: firstOf_def)
    qed (use o(2) in simp)
    then have "keptRecord rt (if oc_revokes ?oc \<and> w then firstOf (oc_record ?oc) ?d else ?d)" for w
      using o(2) by (cases w) simp_all
    moreover have "fst (inspect rt st cfg ck i ax act) =
      settle st r (if oc_revokes ?oc \<and> (act \<noteq> AInspect \<and> act \<noteq> AWait \<or> writtenAtALook ?oc) then firstOf (oc_record ?oc) ?d else ?d)
        (ck_write ck)"
      by (auto simp: inspect_def Inr V2 derivedForm_def approvalOutcome_def t Let_def)
    ultimately show ?thesis using settle_sound [OF st] by simp
  qed (use st in \<open>simp_all add: inspect_def Inr derivedForm_def Let_def\<close>)
qed

end
