(* ===== verification/ApprovalDecisions.thy ===== *)
theory ApprovalDecisions
  imports ApprovalTransition
begin

text \<open>
  The decision of every action keeps a record sound, so that the action's transition keeps the store sound.
  A configuration's change policies are \<open>chat\<close> or \<open>confirm\<close>, as their type says (\<open>chatOrConfirm\<close>).
\<close>

section \<open>Every action's decision\<close>

text \<open>A decision that goes on only where the classification has no error: it works on an active record in its window.\<close>

lemma keepsSound_usable:
  assumes err: "\<And>d oc live seen n e x. oc_error oc = Some x \<Longrightarrow> decide d oc live seen \<noteq> Next n e"
    and ok: "\<And>d oc live seen n e. soundRecord rt d \<Longrightarrow> active d \<Longrightarrow> inWindow d now \<Longrightarrow> kind = None \<or> kind = Some (r_kind d) \<Longrightarrow>
      P seen \<Longrightarrow> live = gateFor cfg (V2 d) \<Longrightarrow> oc_error oc = None \<Longrightarrow> decide d oc live seen = Next n e \<Longrightarrow>
      soundRecord rt n \<and> r_approvalId n = r_approvalId d"
  shows "keepsSound rt now kind act cfg P decide"
  unfolding keepsSound_def
proof (intro allI impI)
  fix d seen n e
  let ?live = "gateFor cfg (V2 d)"
  let ?oc = "classifyV2 d act ?live now"
  assume a: "keptRecord rt d \<and> (active d \<longrightarrow> inWindow d now) \<and> (kind = None \<or> kind = Some (r_kind d)) \<and> P seen \<and>
    decide (currentRecord act d ?oc) ?oc ?live seen = Next n e"
  then have "oc_error ?oc = None" using err by (cases "oc_error ?oc") blast+
  then have d: "active d" "currentRecord act d ?oc = d" "soundRecord rt d"
    using a classify_no_error(1) [OF refl] current_fields(4) [OF refl] active_kept by blast+
  then have "soundRecord rt n \<and> r_approvalId n = r_approvalId d"
    using a ok [of d seen ?live ?oc n e] \<open>oc_error ?oc = None\<close> by simp
  then show "keptRecord rt n \<and> r_approvalId n = r_approvalId d"
    by blast
qed

lemma issue_keeps:
  "keepsSound rt now kind AApprove cfg P (\<lambda>current oc live seen. issueDecision rt challenge current oc)"
  by (rule keepsSound_usable) (auto simp: issueDecision_def split: if_splits)

definition chatOrConfirm :: "config \<Rightarrow> bool" where
  "chatOrConfirm cfg \<longleftrightarrow>
     cf_defaultChange cfg \<noteq> Some PNever \<and>
     (\<forall>e \<in> snd ` (set (cf_inboxes cfg) \<union> set (cf_accounts cfg)). en_changePolicy e \<noteq> Some PNever)"

lemma ownerEntry_in: "ownerEntry cfg i = Some e \<Longrightarrow> e \<in> snd ` (set (cf_inboxes cfg) \<union> set (cf_accounts cfg)) \<and> en_id e = i"
  by (auto simp: ownerEntry_def find_Some_iff in_set_conv_nth split: option.splits)
    (metis nth_map image_eqI UnI1 UnI2 nth_mem length_map)+

lemma gate_change_policy:
  assumes "\<forall>c. cfg = Some c \<longrightarrow> chatOrConfirm c"
  shows "given (gateFor cfg (V2 d)) (\<lambda>g. lgt_changePolicy g \<noteq> Some PNever) \<or> gateFor cfg (V2 d) = None"
proof (cases cfg)
  case (Some c)
  have w: "chatOrConfirm c" using assms Some by simp
  have gov: "governingChangePolicy c b \<noteq> PNever" for b by (simp add: governingChangePolicy_def Let_def)
  have def: "defaultChangePolicy c \<noteq> PNever" using w by (cases "cf_defaultChange c") (auto simp: chatOrConfirm_def defaultChangePolicy_def)
  have ent: "orDefault (en_changePolicy e) (defaultChangePolicy c) \<noteq> PNever" if "ownerEntry c i = Some e" for i e
    using ownerEntry_in [OF that] w def by (cases "en_changePolicy e") (auto simp: chatOrConfirm_def)
  show ?thesis
    using gov def ent by (auto simp: Some gateFor_def liveGateOf_def Let_def split: option.splits approval_kind.splits)
qed (simp add: gateFor_def)

lemma approvedRecord_id [simp]: "r_approvalId (approvedRecord r k via gate at) = r_approvalId r"
  by (simp add: approvedRecord_def)

lemma voided_id [simp]: "r_approvalId (voided r reason at) = r_approvalId r" "r_approvalId (revokedAs r reason at) = r_approvalId r"
  by (simp_all add: voided_def revokedAs_def)

lemma wrongAnswer_id: "wrongAnswer r at = Next n e \<Longrightarrow> r_approvalId n = r_approvalId r"
  by (auto simp: wrongAnswer_def Let_def split: if_splits)

lemma approve_keeps:
  assumes "kind \<noteq> KDisclosure" "kind \<noteq> KDownload" "via \<noteq> ViaStanding" "via = ViaApp \<longrightarrow> kind = KChange"
    and "\<forall>c. cfg = Some c \<longrightarrow> chatOrConfirm c"
  shows "keepsSound rt now (Some kind) AApprove cfg P
     (\<lambda>current oc gate seen. approveDecision rt kind via live answer now current oc gate)"
proof (rule keepsSound_usable)
  fix d oc gate seen n e
  assume d: "soundRecord rt d" "active d" "inWindow d now" "Some kind = None \<or> Some kind = Some (r_kind d)"
    "gate = gateFor cfg (V2 d)" "oc_error oc = None" "approveDecision rt kind via live answer now d oc gate = Next n e"
  have k: "kind = r_kind d" using d(4) by simp
  have v: "soundRecord rt (voided d reason now)" if "reason \<noteq> CLOCK_ANOMALY" for reason
    by (rule sound_voided [OF d(1-3) that])
  have r: "NOT_AT_TERMINAL \<noteq> CLOCK_ANOMALY" "driftReason kind \<noteq> CLOCK_ANOMALY"
    "js ''a standing approval is approved only with its code at a terminal, and this was not approved at a terminal'' \<noteq> CLOCK_ANOMALY"
    by (simp_all add: NOT_AT_TERMINAL_def driftReason_def CLOCK_ANOMALY_def)
  have p: "r_state d = Pending" using d(6,7) by (auto simp: approveDecision_def split: if_splits)
  consider "\<exists>reason. reason \<noteq> CLOCK_ANOMALY \<and> n = voided d reason now" | "wrongAnswer d now = Next n e"
    | "n = approvedRecord d kind via gate now" "kind = KChange \<longrightarrow> via = Terminal \<or> via = ViaApp" "kind = KStanding \<longrightarrow> via = Terminal"
    using d(6,7) r by (auto simp: approveDecision_def split: if_splits)
  then show "soundRecord rt n \<and> r_approvalId n = r_approvalId d"
  proof cases
    case 1
    then show ?thesis using v by auto
  next
    case 2
    then show ?thesis using sound_wrongAnswer [OF d(1) p d(3)] wrongAnswer_id by blast
  next
    case 3
    have "r_kind d = KSend \<or> r_kind d = KChange \<or> r_kind d = KStanding" using assms(1,2) k by (cases "r_kind d") auto
    then show ?thesis
      using sound_approved [OF d(1) p d(3), of via gate] assms(3,4) 3 k gate_change_policy [OF assms(5), of d] d(5) by auto
  qed
qed (auto simp: approveDecision_def)

lemma approveDisclosure_keeps:
  "keepsSound rt now (Some KDisclosure) AApprove cfg P
     (\<lambda>current oc gate seen. approveDisclosureDecision rt binding answer via now current oc)"
proof (rule keepsSound_usable)
  fix d oc gate seen n e
  assume d: "soundRecord rt d" "active d" "inWindow d now" "Some KDisclosure = None \<or> Some KDisclosure = Some (r_kind d)"
    "gate = gateFor cfg (V2 d)" "oc_error oc = None" "approveDisclosureDecision rt binding answer via now d oc = Next n e"
  have p: "r_state d = Pending" "via = Terminal \<or> via = ViaApp" using d(6,7) by (auto simp: approveDisclosureDecision_def split: if_splits)
  have v: "soundRecord rt (revokedAs d reason now)" if "reason \<noteq> CLOCK_ANOMALY" for reason
    by (rule sound_revokedAs [OF d(1-3) that])
  show "soundRecord rt n \<and> r_approvalId n = r_approvalId d"
    using d(6,7) p v sound_wrongAnswer [OF d(1) p(1) d(3)] wrongAnswer_id sound_disclosure_approved [OF d(1) p(1) d(3) _ p(2)] d(4)
    by (auto simp: approveDisclosureDecision_def CLOCK_ANOMALY_def split: if_splits)
qed (auto simp: approveDisclosureDecision_def)

lemma answer_keeps:
  assumes "via \<noteq> ViaApp" "via \<noteq> ViaStanding"
  shows "keepsSound rt now (Some KDownload) AApprove cfg P (\<lambda>current oc gate seen. answerDecision rt via answer current oc)"
  using sound_answered assms
  by (intro keepsSound_usable) (auto simp: answerDecision_def split: if_splits option.splits)

text \<open>The claims.\<close>

lemma claimSend_keeps:
  "keepsSound rt now (Some KSend) AClaim cfg (\<lambda>seen. \<forall>reason. seen = Inr (Some reason) \<longrightarrow> reason \<noteq> CLOCK_ANOMALY)
     (\<lambda>current oc gate seen. case seen of Inl e \<Rightarrow> Refuse e
        | Inr parentProblem \<Rightarrow> claimSendDecision rt live aborted now parentProblem current oc)"
proof (rule keepsSound_usable)
  fix d oc gate seen n e
  assume d: "soundRecord rt d" "active d" "inWindow d now" "Some KSend = None \<or> Some KSend = Some (r_kind d)"
    "\<forall>reason. seen = Inr (Some reason) \<longrightarrow> reason \<noteq> CLOCK_ANOMALY" "gate = gateFor cfg (V2 d)" "oc_error oc = None"
    "(case seen of Inl e \<Rightarrow> Refuse e | Inr parentProblem \<Rightarrow> claimSendDecision rt live aborted now parentProblem d oc) = Next n e"
  have s: "reason \<noteq> CLOCK_ANOMALY" if "sendProblem rt d live = Some reason" for reason
    using that by (auto simp: sendProblem_def CLOCK_ANOMALY_def split: if_splits)
  show "soundRecord rt n \<and> r_approvalId n = r_approvalId d"
    using d(5,7,8) s sound_revokedAs [OF d(1-3)] sound_sending [OF d(1-3)] d(4)
    by (auto simp: claimSendDecision_def CLOCK_ANOMALY_def split: if_splits option.splits sum.splits)
qed (auto simp: claimSendDecision_def split: sum.splits)

lemma claimChange_keeps:
  assumes "\<And>x. says x \<noteq> CLOCK_ANOMALY"
  shows "keepsSound rt now (Some KChange) AClaim cfg P
     (\<lambda>current oc gate seen. claimChangeDecision rt change pol aborted now says current oc gate)"
proof (rule keepsSound_usable)
  fix d oc gate seen n e
  assume d: "soundRecord rt d" "active d" "inWindow d now" "Some KChange = None \<or> Some KChange = Some (r_kind d)"
    "oc_error oc = None" "claimChangeDecision rt change pol aborted now says d oc gate = Next n e"
  have r: "NOT_AT_TERMINAL \<noteq> CLOCK_ANOMALY" by (simp add: NOT_AT_TERMINAL_def CLOCK_ANOMALY_def)
  have "(\<exists>reason. reason \<noteq> CLOCK_ANOMALY \<and> n = voided d reason now) \<or> n = d\<lparr>r_state := Used, r_usedAt := Some (Iso now)\<rparr>"
    using d(5,6) r assms unfolding claimChangeDecision_def Let_def by (auto split: if_split_asm)
  then show "soundRecord rt n \<and> r_approvalId n = r_approvalId d"
    using sound_voided [OF d(1-3)] sound_used [OF d(1-3)] d(4) by auto
qed (auto simp: claimChangeDecision_def)

lemma claimDownload_keeps:
  "keepsSound rt now (Some KDownload) AClaim cfg P
     (\<lambda>current oc gate seen. claimDownloadDecision rt live aborted now current oc)"
  using sound_voided sound_used
  by (intro keepsSound_usable) (auto simp: claimDownloadDecision_def CLOCK_ANOMALY_def split: if_splits)

lemma claimDisclosure_keeps:
  "keepsSound rt now (Some KDisclosure) AClaim cfg P
     (\<lambda>current oc gate seen. claimDisclosureDecision binding deadline now current oc)"
  using sound_revokedAs sound_used
  by (intro keepsSound_usable) (auto simp: claimDisclosureDecision_def CLOCK_ANOMALY_def split: if_splits)

text \<open>The rest of a send's life, revocations and narrowings.\<close>

lemma heartbeat_keeps:
  "keepsSound rt now (Some KSend) AInspect cfg P (\<lambda>current oc gate seen. heartbeatDecision now current)"
  unfolding keepsSound_def
proof (intro allI impI, elim conjE)
  fix d and seen :: 'a and n e
  let ?c = "currentRecord AInspect d (classifyV2 d AInspect (gateFor cfg (V2 d)) now)"
  assume k: "keptRecord rt d" and d: "Some KSend = None \<or> Some KSend = Some (r_kind d)" "heartbeatDecision now ?c = Next n e"
  then have s: "soundRecord rt d" using other_kept by auto
  have "?c = d" by (simp add: currentRecord_def)
  then have "soundRecord rt n \<and> r_approvalId n = r_approvalId d"
    using d sound_heartbeat [OF s] by (auto simp: heartbeatDecision_def split: if_splits)
  then show "keptRecord rt n \<and> r_approvalId n = r_approvalId d"
    by blast
qed

lemma current_cases:
  assumes "oc = classifyV2 d act live now"
  shows "currentRecord act d oc = d \<or> r_state (currentRecord act d oc) = Revoked"
proof (cases "oc_revokes oc")
  case True
  then obtain reason where "oc_record oc = Some (revokedAs d reason now)" by (rule classify_revokes [OF assms])
  then show ?thesis by (auto simp: currentRecord_def firstOf_def)
qed (simp add: currentRecord_def)

lemma current_sending:
  assumes "oc = classifyV2 d act live now" "r_state (currentRecord act d oc) = Sending \<or> r_state (currentRecord act d oc) = Unknown"
  shows "currentRecord act d oc = d"
  using current_cases [OF assms(1)] assms(2) by auto

lemma complete_keeps:
  assumes "result \<noteq> SentAs []" "result \<noteq> FailedWith CLOCK_ANOMALY"
  shows "keepsSound rt now (Some KSend) AClaim cfg P (\<lambda>current oc gate seen. completeDecision result now current oc)"
  unfolding keepsSound_def
proof (intro allI impI, elim conjE)
  fix d and seen :: 'a and n e
  let ?oc = "classifyV2 d AClaim (gateFor cfg (V2 d)) now"
  let ?c = "currentRecord AClaim d ?oc"
  assume k: "keptRecord rt d" and d: "Some KSend = None \<or> Some KSend = Some (r_kind d)" "completeDecision result now ?c ?oc = Next n e"
  then have s: "soundRecord rt d" using other_kept by auto
  from d have "?c = d" by (intro current_sending [OF refl]) (auto simp: completeDecision_def split: if_splits)
  moreover have "r_approvalId n = r_approvalId ?c"
    using d(2) by (cases result) (auto simp: completeDecision_def Let_def split: if_splits)
  ultimately show "keptRecord rt n \<and> r_approvalId n = r_approvalId d"
    using d sound_complete [OF s _ _ assms] by auto
qed

lemma revoke_keeps:
  assumes "reason \<noteq> CLOCK_ANOMALY"
  shows "keepsSound rt now kind ARevoke cfg P (\<lambda>current oc gate seen. revokeDecision reason now current)"
  unfolding keepsSound_def
proof (intro allI impI, elim conjE)
  fix d and seen :: 'a and n e
  let ?oc = "classifyV2 d ARevoke (gateFor cfg (V2 d)) now"
  let ?c = "currentRecord ARevoke d ?oc"
  assume k: "keptRecord rt d" and d: "active d \<longrightarrow> inWindow d now" "revokeDecision reason now ?c = Next n e"
  then have a: "active ?c" and n: "n = revokedAs ?c reason now" by (auto simp: revokeDecision_def split: if_splits)
  have c: "?c = d" by (rule current_fields(3) [OF refl a])
  then have "inWindow d now" "soundRecord rt d" using d(1) a active_kept [OF k] by (simp_all only: simp_thms)
  then have "soundRecord rt n \<and> r_approvalId n = r_approvalId d"
    using sound_revokedAs [OF _ _ _ assms, of rt d now] a unfolding n c by simp
  then show "keptRecord rt n \<and> r_approvalId n = r_approvalId d"
    by blast
qed

lemma narrow_keeps:
  "keepsSound rt now (Some KStanding) ARevoke cfg P (\<lambda>current oc gate seen. narrowDecision wanted current oc)"
proof (rule keepsSound_usable)
  fix d oc gate seen n e
  assume d: "soundRecord rt d" "Some KStanding = None \<or> Some KStanding = Some (r_kind d)" "narrowDecision wanted d oc = Next n e"
  have "r_approvalId n = r_approvalId d"
    using d(3) by (auto simp: narrowDecision_def split: if_splits option.splits sum.splits)
  then show "soundRecord rt n \<and> r_approvalId n = r_approvalId d" using sound_narrowed [OF d(1) _ d(3)] d(2) by simp
qed (auto simp: narrowDecision_def)

section \<open>Every action keeps a store sound\<close>

lemma noPrior_sound: "soundStore rt s \<Longrightarrow> soundStore rt (fst (noPrior s r oc)) \<and> (\<lambda>_. True) (snd (noPrior s r oc))"
  by (simp add: noPrior_def)

lemmas plain_transition = transition_sound [where P = "\<lambda>_. True", OF _ _ _ noPrior_sound]

lemma steady_decide: "steadyAt ck now \<Longrightarrow> ck_decide ck = now"
  by (simp add: steadyAt_def)

lemma markClaimed_files [simp]: "st_files (fst (markClaimed st i token)) = st_files st"
  by (auto simp: markClaimed_def split: option.splits)

lemma thenMark_sound: "soundStore rt (fst done) \<Longrightarrow> soundStore rt (fst (thenMark done token))"
proof -
  have "st_files (fst (thenMark done token)) = st_files (fst done)"
  proof (cases "snd done")
    case (Inr r)
    obtain st' res where m: "markClaimed (fst done) (r_approvalId r) token = (st', res)" by fastforce
    then have "st_files st' = st_files (fst done)" using markClaimed_files [of "fst done" "r_approvalId r" token] by simp
    then show ?thesis using m Inr by (cases "done"; cases res) (simp_all add: thenMark_def)
  qed (cases "done", simp add: thenMark_def)
  then show "soundStore rt (fst done) \<Longrightarrow> soundStore rt (fst (thenMark done token))" by (simp add: soundStore_def)
qed

lemma ax_kind_simps [simp]: "ax_kind (anyOf k) = Some k" "ax_kind (ownedBy k owner) = Some k"
  by (simp_all add: anyOf_def ownedBy_def)

text \<open>A send's parent, and why it refuses: never the clock.\<close>

lemma parentCovers_reason: "parentCovers child use oc = Inr (Some reason) \<Longrightarrow> reason \<noteq> CLOCK_ANOMALY"
  by (auto simp: parentCovers_def Let_def CLOCK_ANOMALY_def js_eval split: option.splits if_splits sum.splits standing_places.splits)

lemma childPrior_sound:
  assumes "steadyAt pck later" "soundStore rt st"
  shows "soundStore rt (fst (childPrior rt cfg pck st r oc)) \<and>
    (\<forall>reason. snd (childPrior rt cfg pck st r oc) = Inr (Some reason) \<longrightarrow> reason \<noteq> CLOCK_ANOMALY)"
proof -
  have "soundStore rt (fst (standingParentProblem rt st cfg pck r)) \<and>
    (\<forall>reason. snd (standingParentProblem rt st cfg pck r) = Inr (Some reason) \<longrightarrow> reason \<noteq> CLOCK_ANOMALY)"
  proof (cases "r_standingId r"; cases "r_standingUse r")
    fix parent use assume p: "r_standingId r = Some parent" "r_standingUse r = Some use"
    obtain st' res where i: "inspect rt st cfg pck parent (ownedBy KStanding (r_inboxId r)) AClaim = (st', res)" by fastforce
    have "soundStore rt st'"
      using inspect_sound [OF assms(2,1), where ax = "ownedBy KStanding (r_inboxId r)" and cfg = cfg and i = parent and act = AClaim] i by simp
    then show ?thesis
      using parentCovers_reason
      by (cases res) (auto simp: standingParentProblem_def p i CLOCK_ANOMALY_def split: prod.splits)
  qed (use assms(2) in \<open>simp_all add: standingParentProblem_def CLOCK_ANOMALY_def\<close>)
  then show ?thesis using assms(2) by (simp add: childPrior_def)
qed

end
