(* ===== verification/ApprovalCreation.thy ===== *)
theory ApprovalCreation
  imports ApprovalDecisions
begin

text \<open>
  Every record a creation makes is sound, for every kind: what \<open>create\<close>, \<open>createDisclosure\<close>, \<open>createChange\<close>,
  \<open>createStanding\<close>, \<open>createDownload\<close> and \<open>createStandingChild\<close> write is read back as valid.
\<close>

section \<open>What a creation writes\<close>

definition preparedOk :: "jstr option \<Rightarrow> bool" where
  "preparedOk p \<longleftrightarrow> \<not> given p (\<lambda>i. \<not> connectionIdPattern i)"

lemma identityOf_binding [simp]: "identityOf (r\<lparr>r_bindingDigest := d\<rparr>) = identityOf r"
  "identityOf (r\<lparr>r_approvedBindingDigest := d\<rparr>) = identityOf r"
  by (simp_all add: identityOf_def)

lemma bindingDigestOf_binding [simp]: "bindingDigestOf rt (r\<lparr>r_bindingDigest := d\<rparr>) = bindingDigestOf rt r"
  "bindingDigestOf rt (r\<lparr>r_approvedBindingDigest := d\<rparr>) = bindingDigestOf rt r"
  unfolding bindingDigestOf_def bindingObjectOf_def by (simp_all cong: option.case_cong if_cong)

lemma static_binding [simp]:
  "checkContent rt (r\<lparr>r_bindingDigest := d\<rparr>) = checkContent rt r" "checkIdentity (r\<lparr>r_bindingDigest := d\<rparr>) = checkIdentity r"
  "checkLifetime (r\<lparr>r_bindingDigest := d\<rparr>) = checkLifetime r"
  unfolding checkContent_def checkIdentity_def checkLifetime_def isChild_def
  by (simp_all cong: option.case_cong if_cong route.case_cong)

lemma bound_Inr:
  assumes "bound rt r = Inr r'" "sha_hex rt"
  obtains d where "r' = r\<lparr>r_bindingDigest := Some d\<rparr>" "hex64 d" "bindingDigestOf rt r' = Inr d"
    "r_kind r = KDisclosure \<or> isKnownChannel (r_channel r)"
proof -
  from assms(1) obtain d where d: "bindingDigestOf rt r = Inr d" "r' = r\<lparr>r_bindingDigest := Some d\<rparr>"
    "r_kind r = KDisclosure \<or> isKnownChannel (r_channel r)"
    by (auto simp: bound_def result_bind_eq_Inr split: if_splits)
  then have "hex64 d" using assms(2) by (auto simp: bindingDigestOf_def result_bind_eq_Inr)
  with d that show ?thesis by simp
qed

text \<open>A record that waits, with nothing decided yet.\<close>

definition freshPending :: "approval \<Rightarrow> bool" where
  "freshPending r \<longleftrightarrow>
     r_state r = Pending \<and> \<not> isChild r \<and> r_approvedAt r = None \<and> r_usableUntil r = None \<and> r_sendingAt r = None \<and>
     r_sendingHeartbeatAt r = None \<and> r_usedAt r = None \<and> r_sentAt r = None \<and> r_failedAt r = None \<and>
     r_revokedAt r = None \<and> r_expiredAt r = None \<and> r_approvedVia r = None \<and> r_approvedDigest r = None \<and>
     r_approvedBindingDigest r = None \<and> r_approvedChangePolicy r = None \<and> r_sentMessageId r = None \<and>
     r_reason r = None \<and> r_narrowed r = None \<and> r_challengeAttempts r = 0 \<and> answerOf r = None \<and>
     (\<exists>c. r_createdAt r = Iso c \<and> r_expiresAt r = Iso (c + r_pendingMs r))"

lemma fresh_dynamic:
  assumes "freshPending r" "r_kind r \<noteq> KDisclosure" "r_bindingDigest r \<noteq> None"
  shows "dynamicOk rt r"
proof -
  note f = assms(1) [unfolded freshPending_def]
  have "lifeOk r (timesOf r)"
    using f by (auto simp: lifeOk_def windowOk_def endingsOk_def orderOk_def CLAIMED_SEND_def anomalous_def)
  moreover have "evidenceOk rt r" using f by (simp add: evidenceOk_def)
  moreover have "goodStamps r" using f by (auto simp: goodStamps_iff)
  moreover have "r_state r \<in> set (STATES_OF (r_kind r))" using f by (cases "r_kind r") simp_all
  ultimately show ?thesis using f by (simp add: dynamicOk_iff [OF assms(2,3)])
qed

lemma fresh_sound:
  assumes "bound rt r0 = Inr r" "sha_hex rt" "freshPending r0" "r_kind r0 \<noteq> KDisclosure" "r_digestVersion r0 = 2"
    "preparedOk (r_preparedBy r0)"
    "isKnownChannel (r_channel r0) \<Longrightarrow> checkContent rt r0 = None \<and> checkIdentity r0 = None \<and> checkLifetime r0 = None"
  shows "soundRecord rt r \<and> r_approvalId r = r_approvalId r0"
proof -
  obtain d where d: "r = r0\<lparr>r_bindingDigest := Some d\<rparr>" "hex64 d" "bindingDigestOf rt r = Inr d" "isKnownChannel (r_channel r0)"
    using bound_Inr [OF assms(1,2)] assms(4) by metis
  have "freshPending r"
    using assms(3) by (auto simp: d(1) freshPending_def isChild_def answerOf_def)
  then have "dynamicOk rt r" using assms(4) d(1) by (intro fresh_dynamic) simp_all
  moreover have c: "checkContent rt r = None" "checkIdentity r = None" "checkLifetime r = None"
    using assms(7) [OF d(4)] unfolding d(1) static_binding by blast+
  ultimately show ?thesis
    using d assms(4-6) by (simp add: soundRecord_def validRecord_def staticOk_def preparedOk_def DIGEST_VERSION_def)
qed

lemmas pending_defs = pendingRecord_def blankApproval_def

lemma createRecord_sound:
  assumes "createRecord rt now newId preparedBy input = Inr r" "sha_hex rt" "preparedOk preparedBy"
    and "in_inboxId input \<noteq> []" "0 \<le> in_sendEpoch input"
  shows "soundRecord rt r \<and> r_approvalId r = newId"
proof -
  let ?req = "stricterPolicy (in_policy input) (in_requiredPolicy input)"
  let ?way = "if ?req = PConfirm then RConfirm else RChat"
  let ?r = "(pendingRecord newId KSend now (pendingMsOf ?way) preparedBy)
    \<lparr>r_channel := in_channel input, r_ownerScope := SOwner, r_route := Some ?way,
     r_approvedMs := Some LIFETIME_approved, r_inboxId := in_inboxId input, r_inboxSub := in_inboxSub input,
     r_draftId := in_draftId input, r_draftMessageId := in_draftMessageId input,
     r_contentDigest := in_contentDigest input, r_sendEpoch := Some (in_sendEpoch input),
     r_policy := in_policy input, r_requiredPolicy := ?req, r_riskFlags := in_riskFlags input,
     r_expect := in_expect input\<rparr>"
  from assms(1) have b: "bound rt ?r = Inr r" and h: "hex64 (in_contentDigest input)" and k: "isKnownChannel (in_channel input)"
    by (auto simp: createRecord_def Let_def split: if_splits)
  have "soundRecord rt r \<and> r_approvalId r = r_approvalId ?r"
    using assms(3-5) h k
    by (intro fresh_sound [OF b assms(2)])
      (simp_all add: pending_defs freshPending_def isChild_def answerOf_def checkContent_def checkIdentity_def
        checkLifetime_def present_def)
  then show ?thesis by (simp add: pending_defs)
qed

lemma changeRecord_sound:
  assumes "changeRecord rt now newId preparedBy channel input pol = Inr r" "sha_hex rt" "preparedOk preparedBy"
  shows "soundRecord rt r \<and> r_approvalId r = newId"
proof -
  let ?c = "input\<lparr>ch_settings := Some (orEmpty (ch_settings input)),
     ch_doneAtOnce := (if orEmpty (ch_doneAtOnce input) = [] then None else ch_doneAtOnce input)\<rparr>"
  let ?way = "if pol = PConfirm then RConfirm else RChat"
  let ?r = "(pendingRecord newId KChange now (pendingMsOf ?way) preparedBy)
     \<lparr>r_channel := channel,
      r_ownerScope := (case ch_target ?c of None \<Rightarrow> SGlobal | Some t \<Rightarrow> if tg_id t = None then SProspective else SOwner),
      r_route := Some ?way, r_approvedMs := Some LIFETIME_approved,
      r_inboxId := (case ch_target ?c of None \<Rightarrow> [] | Some t \<Rightarrow> orDefault (tg_id t) []),
      r_draftId := js ''change'', r_draftMessageId := changeDigest rt ?c, r_contentDigest := changeDigest rt ?c,
      r_policy := pol, r_requiredPolicy := pol, r_expect := no_expectation (ch_summary ?c),
      r_change := Some ?c\<rparr>"
  from assms(1) have b: "bound rt ?r = Inr r" and k: "isKnownChannel channel"
    by (auto simp: changeRecord_def Let_def simp del: if_image_distrib split: if_split_asm)
  have h: "hex64 (changeDigest rt ?c)" using assms(2) by (auto simp: changeDigest_def)
  have "soundRecord rt r \<and> r_approvalId r = r_approvalId ?r"
    using assms(3) h k
    by (intro fresh_sound [OF b assms(2)])
      (auto simp: pending_defs freshPending_def isChild_def answerOf_def checkContent_def checkIdentity_def
        checkLifetime_def present_def firstOf_def orDefault_def Let_def split: option.splits)
  then show ?thesis by (simp add: pending_defs)
qed

lemma accountId_not_empty: "accountIdPattern s \<Longrightarrow> s \<noteq> []"
  by (auto simp: accountIdPattern_def prefixedId_def js_eval)

lemma standing_targets:
  "standingBindingProblem rt b = None \<Longrightarrow> accountIdPattern (sb_targetId b)"
  by (auto simp: standingBindingProblem_def split: if_splits)

lemma standingRecord_sound:
  assumes "standingRecord rt now newId preparedBy binding sub sendEpoch standingEpoch = Inr r" "sha_hex rt" "preparedOk preparedBy"
  shows "soundRecord rt r \<and> r_approvalId r = newId"
proof -
  let ?r = "(pendingRecord newId KStanding now LIFETIME_confirm preparedBy)
     \<lparr>r_channel := js ''slack'', r_ownerScope := SOwner, r_route := Some RConfirm,
      r_approvedMs := Some (sl_expiresDays (sb_limits binding) * STANDING_DAY_MS),
      r_inboxId := sb_targetId binding, r_inboxSub := Some sub, r_draftId := js ''standing'',
      r_draftMessageId := standingDigest rt binding, r_contentDigest := standingDigest rt binding,
      r_sendEpoch := Some sendEpoch, r_standingEpoch := Some standingEpoch, r_policy := PConfirm,
      r_requiredPolicy := PConfirm, r_expect := no_expectation (sb_summary binding), r_standing := Some binding\<rparr>"
  from assms(1) have b: "bound rt ?r = Inr r" and ok: "standingBindingProblem rt binding = None"
    and e: "0 \<le> sendEpoch" "0 \<le> standingEpoch"
    by (auto simp: standingRecord_def canonicalStandingBinding_def result_bind_eq_Inr requireEpochs_def Let_def split: if_split_asm)
  have h: "hex64 (standingDigest rt binding)" using assms(2) by (auto simp: standingDigest_def)
  have l: "limitInRange ExpiresDays (sl_expiresDays (sb_limits binding))"
    using standingBindingProblem_NoneD(3) [OF ok, of ExpiresDays] by simp
  have "soundRecord rt r \<and> r_approvalId r = r_approvalId ?r"
    using assms(3) h ok e l accountId_not_empty [OF standing_targets [OF ok]]
    by (intro fresh_sound [OF b assms(2)])
      (auto simp: pending_defs freshPending_def isChild_def answerOf_def checkContent_def checkIdentity_def
        checkLifetime_def present_def standingNarrowingProblem_def Let_def)
  then show ?thesis by (simp add: pending_defs)
qed

lemma downloadRecord_sound:
  assumes "downloadRecord rt now newId preparedBy channel input pol = Inr r" "sha_hex rt" "preparedOk preparedBy"
    and "dl_targetId input \<noteq> []"
  shows "soundRecord rt r \<and> r_approvalId r = newId"
proof -
  let ?d = "input\<lparr>dl_request := normalJson (dl_request input),
            dl_listing := map_option (map keptListing) (dl_listing input), dl_answer := None\<rparr>"
  let ?req = "if pol = PChat then PChat else PConfirm"
  let ?r = "(pendingRecord newId KDownload now LIFETIME_download preparedBy)
     \<lparr>r_channel := channel, r_ownerScope := SOwner, r_inboxId := dl_targetId ?d,
      r_draftId := js ''download'', r_draftMessageId := downloadDigest rt ?d, r_contentDigest := downloadDigest rt ?d,
      r_policy := ?req, r_requiredPolicy := ?req, r_expect := no_expectation (dl_summary ?d),
      r_download := Some ?d\<rparr>"
  from assms(1) have b: "bound rt ?r = Inr r" and k: "isKnownChannel channel"
    and ls: "\<not> given (dl_listing ?d) (\<lambda>l. canonicalJson (strings (map lf_name l)) \<noteq> canonicalJson (strings (dl_names ?d)))"
    unfolding downloadRecord_def Let_def by (simp_all split: if_split_asm)
  have h: "hex64 (downloadDigest rt ?d)" using assms(2) by (auto simp: downloadDigest_def)
  have "soundRecord rt r \<and> r_approvalId r = r_approvalId ?r"
    using assms(3,4) h ls k
    by (intro fresh_sound [OF b assms(2)])
      (simp_all add: pending_defs freshPending_def isChild_def answerOf_def checkContent_def checkIdentity_def
        checkLifetime_def present_def Let_def)
  then show ?thesis by (simp add: pending_defs)
qed

lemma disclosureRecord_sound:
  assumes "disclosureRecord rt now newId preparedBy binding = Inr r" "sha_hex rt" "preparedOk preparedBy"
  shows "soundRecord rt r \<and> r_approvalId r = newId"
proof -
  let ?r = "(pendingRecord newId KDisclosure now LIFETIME_confirm preparedBy)
     \<lparr>r_approvedMs := Some LIFETIME_approved, r_disclosure := Some binding\<rparr>"
  from assms(1) obtain b' where "bound rt ?r = Inr r" and c: "canonicalDisclosureBinding binding = Inr b'" "b' = binding"
    by (auto simp: disclosureRecord_def result_bind_eq_Inr dest: canonicalDisclosureBinding_Inr)
  then obtain d where d: "r = ?r\<lparr>r_bindingDigest := Some d\<rparr>" "hex64 d" "bindingDigestOf rt r = Inr d"
    using bound_Inr [OF _ assms(2)] by metis
  have s: "staticOk rt r"
    using d(2,3) c assms(3) by (auto simp: d(1) staticOk_def pending_defs DIGEST_VERSION_def preparedOk_def)
  have "disclosureLife r (dc_digest binding) now"
    by (auto simp: d(1) disclosureLife_def disclosureWindow_def goodStamps_iff pending_defs)
  then have "dynamicOk rt r"
    using disclosure_dynamic [OF s] by (auto simp: d(1) pending_defs)
  then show ?thesis
    using s by (auto simp: d(1) soundRecord_def validRecord_def openFor_def pending_defs MAX_CHALLENGE_ATTEMPTS_def)
qed

text \<open>A standing child: approved as it is made, by the standing approval it is a use of.\<close>

lemma childRecord_sound:
  assumes "childRecord rt now newId preparedBy live input = Inr r" "sha_hex rt" "preparedOk preparedBy"
    and "hex64 (cn_contentDigest input)" "standingUseProblem (cn_use input) = None"
      "requireEpochs (cn_sendEpoch input) (cn_standingEpoch input)" "approvalIdPattern (cn_standingId input)"
      "cn_standingId input \<noteq> newId" "cn_inboxId input \<noteq> []"
  shows "soundRecord rt r \<and> r_approvalId r = newId"
proof -
  let ?r = "(pendingRecord newId KSend now LIFETIME_standingChild preparedBy)
        \<lparr>r_channel := js ''slack'', r_ownerScope := SOwner, r_route := Some RStanding,
         r_approvedMs := Some LIFETIME_standingChild, r_inboxId := cn_inboxId input,
         r_inboxSub := Some (cn_inboxSub input), r_draftId := cn_draftId input,
         r_draftMessageId := cn_draftMessageId input, r_contentDigest := cn_contentDigest input,
         r_sendEpoch := Some (cn_sendEpoch input), r_standingEpoch := Some (cn_standingEpoch input),
         r_standingId := Some (cn_standingId input), r_standingUse := Some (cn_use input),
         r_policy := (if given live (\<lambda>g. lgt_sendPolicy g = Some PChat) then PChat else PConfirm),
         r_requiredPolicy := PConfirm, r_riskFlags := cn_riskFlags input, r_expect := cn_expect input,
         r_state := Approved, r_approvedVia := Some ViaStanding, r_approvedAt := Some (Iso now),
         r_usableUntil := Some (Iso (now + LIFETIME_standingChild))\<rparr>"
  from assms(1) obtain b where "bound rt ?r = Inr b" and r: "r = b\<lparr>r_approvedBindingDigest := r_bindingDigest b\<rparr>"
    by (auto simp: childRecord_def result_bind_eq_Inr)
  then obtain d where d: "b = ?r\<lparr>r_bindingDigest := Some d\<rparr>" "hex64 d" "bindingDigestOf rt b = Inr d"
    "?r = ?r" "r_kind ?r = KDisclosure \<or> isKnownChannel (r_channel ?r)"
    using bound_Inr [OF _ assms(2)] by metis
  have rd: "r = ?r\<lparr>r_bindingDigest := Some d, r_approvedBindingDigest := Some d\<rparr>" by (simp add: r d(1))
  have k: "isKnownChannel (js ''slack'')" using d(5) by (simp add: pending_defs)
  have c: "isChild r" by (simp add: rd isChild_def pending_defs)
  have st: "checkContent rt r = None" "checkIdentity r = None" "checkLifetime r = None"
    using assms(4-9) k c
    by (simp_all add: checkContent_def checkIdentity_def checkLifetime_def requireEpochs_def)
      (simp_all add: rd pending_defs present_def)
  have f: "r_digestVersion r = 2" "r_preparedBy r = preparedBy" "r_kind r = KSend" "r_bindingDigest r = Some d"
    by (simp_all add: rd pending_defs)
  have "bindingDigestOf rt r = Inr d" using d(3) by (simp add: r)
  then have s: "staticOk rt r"
    using st d(2) assms(3) f by (simp add: staticOk_def DIGEST_VERSION_def preparedOk_def)
  have "lifeOk r (timesOf r)"
    using c by (simp add: lifeOk_def windowOk_def endingsOk_def orderOk_def anomalous_def)
      (simp add: rd pending_defs CLAIMED_SEND_def LIFETIME_standingChild_def)
  moreover have "evidenceOk rt r"
    using c by (simp add: evidenceOk_def) (simp add: rd pending_defs)
  moreover have "goodStamps r" by (simp add: rd goodStamps_iff pending_defs)
  ultimately have "dynamicOk rt r"
    using c by (subst dynamicOk_iff) (simp_all add: rd pending_defs)
  then show ?thesis using s by (simp add: soundRecord_def validRecord_def) (simp add: rd pending_defs)
qed

end
