(* ===== verification/ApprovalSystem.thy ===== *)
theory ApprovalSystem
  imports ApprovalCreation
begin

text \<open>
  The operations of the approval store together. Each one keeps every record sound (\<open>perform_sound\<close>), a run of
  them too (the locale \<open>guarded_machine\<close>); and whatever they do, and whatever happens to the files, a claim is
  granted once for an approval (the locale \<open>once_only\<close>, interpreted on \<open>markClaimed\<close>, and the relation \<open>step\<close>).
\<close>

section \<open>Operations\<close>

datatype operation =
    OpCreate jstr "jstr option" send_input
  | OpCreateDisclosure jstr "jstr option" disclosure_binding
  | OpCreateChange jstr "jstr option" jstr change_binding send_policy
  | OpCreateStanding jstr "jstr option" standing_binding jstr int int
  | OpCreateDownload jstr "jstr option" jstr download_binding send_policy
  | OpCreateChild jstr bool "jstr option" child_input
  | OpInspect jstr approval_expectation action
  | OpIssue jstr approval_kind jstr
  | OpIssueDisclosure jstr jstr
  | OpApprove jstr approval_kind via live_draft jstr
  | OpApproveDisclosure jstr disclosure_binding jstr via
  | OpAnswer jstr via save_answer
  | OpClaimSend jstr live_send bool jstr clock
  | OpClaimChange jstr change_binding send_policy bool "change_drift option \<Rightarrow> jstr"
  | OpClaimDownload jstr download_binding bool
  | OpClaimDisclosure jstr disclosure_binding "int option"
  | OpHeartbeat jstr jstr
  | OpComplete jstr jstr send_outcome
  | OpRevoke jstr jstr disposition approval_expectation
  | OpRevokeLegacy jstr jstr
  | OpNarrow jstr jstr standing_narrowing
  | OpUse jstr jstr

text \<open>What an operation does under its locks: the store after it. A claim still has its marker to make.\<close>

fun perform :: "runtime \<Rightarrow> config option \<Rightarrow> clock \<Rightarrow> operation \<Rightarrow> store \<Rightarrow> store" where
  "perform rt cfg ck (OpCreate i p input) st = fst (create rt st (ck_decide ck) i p input)"
| "perform rt cfg ck (OpCreateDisclosure i p b) st = fst (createDisclosure rt st (ck_decide ck) i p b)"
| "perform rt cfg ck (OpCreateChange i p ch change pol) st = fst (createChange rt st (ck_decide ck) i p ch change pol)"
| "perform rt cfg ck (OpCreateStanding i p b sub e1 e2) st = fst (createStanding rt st (ck_decide ck) i p b sub e1 e2)"
| "perform rt cfg ck (OpCreateDownload i p ch d pol) st = fst (createDownload rt st (ck_decide ck) i p ch d pol)"
| "perform rt cfg ck (OpCreateChild i g p input) st = fst (createStandingChild rt st cfg ck i g p input)"
| "perform rt cfg ck (OpInspect i ax act) st = fst (inspect rt st cfg ck i ax act)"
| "perform rt cfg ck (OpIssue i kind c) st = fst (issueChallenge rt st cfg ck i kind c)"
| "perform rt cfg ck (OpIssueDisclosure i c) st = fst (issueDisclosureChallenge rt st cfg ck i c)"
| "perform rt cfg ck (OpApprove i kind via live answer) st = fst (approve rt st cfg ck i kind via live answer)"
| "perform rt cfg ck (OpApproveDisclosure i b answer via) st = fst (approveDisclosure rt st cfg ck i b answer via)"
| "perform rt cfg ck (OpAnswer i via answer) st = fst (answerDownload rt st cfg ck i via answer)"
| "perform rt cfg ck (OpClaimSend i live aborted token pck) st = fst (claimSendRecord rt st cfg ck pck i live aborted)"
| "perform rt cfg ck (OpClaimChange i change pol aborted says) st = fst (claimChangeRecord rt st cfg ck i change pol aborted says)"
| "perform rt cfg ck (OpClaimDownload i live aborted) st = fst (claimDownloadRecord rt st cfg ck i live aborted)"
| "perform rt cfg ck (OpClaimDisclosure i b deadline) st = fst (claimDisclosureRecord rt st cfg ck i b deadline)"
| "perform rt cfg ck (OpHeartbeat i token) st = fst (heartbeat rt st cfg ck i token)"
| "perform rt cfg ck (OpComplete i token result) st = fst (complete rt st cfg ck i token result)"
| "perform rt cfg ck (OpRevoke i reason by ax) st = fst (revoke rt st cfg ck i reason by ax)"
| "perform rt cfg ck (OpRevokeLegacy i reason) st = fst (revokeLegacy rt st ck i reason)"
| "perform rt cfg ck (OpNarrow i owner wanted) st = fst (narrowStanding rt st cfg ck i owner wanted)"
| "perform rt cfg ck (OpUse i owner) st = fst (withStanding rt st cfg ck i owner)"

text \<open>The marker a claim goes on to make: the record its claim returned, with the token of a send's.\<close>

fun claims :: "runtime \<Rightarrow> config option \<Rightarrow> clock \<Rightarrow> operation \<Rightarrow> store \<Rightarrow> (jstr \<times> jstr option) option" where
  "claims rt cfg ck (OpClaimSend i live aborted token pck) st =
     (case snd (claimSendRecord rt st cfg ck pck i live aborted) of Inl _ \<Rightarrow> None | Inr r \<Rightarrow> Some (r_approvalId r, Some token))"
| "claims rt cfg ck (OpClaimChange i change pol aborted says) st =
     (case snd (claimChangeRecord rt st cfg ck i change pol aborted says) of Inl _ \<Rightarrow> None | Inr r \<Rightarrow> Some (r_approvalId r, None))"
| "claims rt cfg ck (OpClaimDownload i live aborted) st =
     (case snd (claimDownloadRecord rt st cfg ck i live aborted) of Inl _ \<Rightarrow> None | Inr r \<Rightarrow> Some (r_approvalId r, None))"
| "claims rt cfg ck (OpClaimDisclosure i b deadline) st =
     (case snd (claimDisclosureRecord rt st cfg ck i b deadline) of Inl _ \<Rightarrow> None | Inr r \<Rightarrow> Some (r_approvalId r, None))"
| "claims rt cfg ck op st = None"

section \<open>Every operation keeps the store sound\<close>

text \<open>
  What the callers of the store give it: ids of their own processes, an owner that is named, a reason that is not
  the clock's. \<open>opOk\<close> states it per operation.
\<close>

definition steady :: "clock \<Rightarrow> bool" where
  "steady ck \<longleftrightarrow> ck_derive ck = ck_decide ck \<and> ck_classify ck = ck_decide ck"

fun opOk :: "operation \<Rightarrow> store \<Rightarrow> bool" where
  "opOk (OpCreate i p input) st \<longleftrightarrow> preparedOk p \<and> in_inboxId input \<noteq> [] \<and> 0 \<le> in_sendEpoch input"
| "opOk (OpCreateDisclosure i p b) st \<longleftrightarrow> preparedOk p"
| "opOk (OpCreateChange i p ch change pol) st \<longleftrightarrow> preparedOk p"
| "opOk (OpCreateStanding i p b sub e1 e2) st \<longleftrightarrow> preparedOk p"
| "opOk (OpCreateDownload i p ch d pol) st \<longleftrightarrow> preparedOk p \<and> dl_targetId d \<noteq> []"
| "opOk (OpCreateChild i g p input) st \<longleftrightarrow> preparedOk p \<and> cn_standingId input \<noteq> i \<and> cn_inboxId input \<noteq> []"
| "opOk (OpApprove i kind via live answer) st \<longleftrightarrow> kind \<noteq> KDownload \<and> via \<noteq> ViaStanding"
| "opOk (OpAnswer i via answer) st \<longleftrightarrow> via \<noteq> ViaApp \<and> via \<noteq> ViaStanding"
| "opOk (OpClaimSend i live aborted token pck) st \<longleftrightarrow> steady pck"
| "opOk (OpClaimChange i change pol aborted says) st \<longleftrightarrow> (\<forall>x. says x \<noteq> CLOCK_ANOMALY)"
| "opOk (OpComplete i token result) st \<longleftrightarrow> result \<noteq> FailedWith CLOCK_ANOMALY"
| "opOk (OpRevoke i reason by ax) st \<longleftrightarrow> reason \<noteq> CLOCK_ANOMALY"
| "opOk op st \<longleftrightarrow> True"

lemma steady_at: "steady ck \<Longrightarrow> steadyAt ck (ck_decide ck)"
  by (simp add: steady_def steadyAt_def)

lemma written_sound:
  assumes "soundStore rt st" "\<And>r. res = Inr r \<Longrightarrow> soundRecord rt r"
  shows "soundStore rt (fst (written st res))"
  using assms by (cases res) (simp_all add: written_def sound_put)

lemma putLegacy_sound: "soundStore rt st \<Longrightarrow> soundStore rt (putLegacy st r)"
  by (simp add: soundStore_def putLegacy_def)

lemma revokeLegacy_sound: "soundStore rt st \<Longrightarrow> soundStore rt (fst (revokeLegacy rt st ck i reason))"
  by (auto simp: revokeLegacy_def Let_def putLegacy_sound split: option.splits stored_approval.splits)

lemma revoke_sound:
  assumes "soundStore rt st" "steadyAt ck now" "reason \<noteq> CLOCK_ANOMALY"
  shows "soundStore rt (fst (revoke rt st cfg ck i reason by ax))"
proof -
  have t: "soundStore rt (fst (transition rt st cfg ck i ax ARevoke None noPrior
             (\<lambda>current oc gate _. revokeDecision reason (ck_decide ck) current)))"
    unfolding steady_decide [OF assms(2)]
    by (rule plain_transition [OF assms(1,2) revoke_keeps [OF assms(3)]])
  have l: "soundStore rt (fst (revokeLegacy rt st ck i reason))" by (rule revokeLegacy_sound [OF assms(1)])
  show ?thesis
    using t l assms(1) unfolding revoke_def by (auto split: sum.split stored_approval.split prod.split)
qed

lemma withStanding_sound:
  assumes "soundStore rt st" "steadyAt ck now"
  shows "soundStore rt (fst (withStanding rt st cfg ck i owner))"
proof (cases "openRecord rt st cfg ck i (ownedBy KStanding owner) AClaim")
  case (Inl e)
  then show ?thesis using assms(1) by (simp add: withStanding_def)
next
  case (Inr x)
  obtain r d oc live where x: "x = (r, d, oc, live)" by (cases x)
  note op = openRecord_Inr [OF Inr [unfolded x]]
  have dd: "d = derive r now" and oc: "oc = classifyV2 d AClaim live now"
    using op(2,4) assms(2) by (simp_all add: steadyAt_def)
  have "keptRecord rt (currentRecord AClaim d oc)"
    by (rule opened_sound(5) [OF assms(1) op(1) dd oc])
  then show ?thesis
    using settle_sound [OF assms(1)] by (simp add: withStanding_def Inr x currentRecord_def Let_def)
qed

lemma child_sound:
  assumes "soundStore rt st" "sha_hex rt" "preparedOk p" "cn_standingId input \<noteq> i" "cn_inboxId input \<noteq> []"
  shows "soundStore rt (fst (createStandingChild rt st cfg ck i g p input))"
proof -
  have "soundStore rt (fst (written st (childRecord rt (ck_decide ck) i p live input)))"
    if "hex64 (cn_contentDigest input)" "standingUseProblem (cn_use input) = None"
      "requireEpochs (cn_sendEpoch input) (cn_standingEpoch input)" "approvalIdPattern (cn_standingId input)" for live
    using childRecord_sound [OF _ assms(2,3) that assms(4,5)] by (intro written_sound [OF assms(1)]) blast
  moreover have "approvalIdPattern (cn_standingId input)"
    if "openRecord rt st cfg ck (cn_standingId input) (ownedBy KStanding (cn_inboxId input)) AClaim = Inr x" for x
    using openRecord_Inr(1) [of rt st cfg ck "cn_standingId input" "ownedBy KStanding (cn_inboxId input)" AClaim "fst x" "fst (snd x)"
        "fst (snd (snd x))" "snd (snd (snd x))"] that findRecord_V2(4) by fastforce
  ultimately show ?thesis
    using assms(1) by (simp add: createStandingChild_def Let_def split: sum.split prod.split option.split)
qed

text \<open>Each operation, by the decision it makes.\<close>

lemma perform_sound:
  assumes "soundStore rt st" "sha_hex rt" "\<forall>c. cfg = Some c \<longrightarrow> chatOrConfirm c" "steady ck" "opOk op st"
  shows "soundStore rt (perform rt cfg ck op st)"
proof -
  note s = assms(1) and at = steady_at [OF assms(4)]
  note tr = plain_transition [OF s at]
  show ?thesis
  proof (cases op)
    case (OpCreate i p input)
    then show ?thesis using assms(2,5) createRecord_sound by (auto simp: create_def intro!: written_sound [OF s])
  next
    case (OpCreateDisclosure i p b)
    then show ?thesis using assms(2,5) disclosureRecord_sound by (auto simp: createDisclosure_def intro!: written_sound [OF s])
  next
    case (OpCreateChange i p ch change pol)
    then show ?thesis using assms(2,5) changeRecord_sound by (auto simp: createChange_def intro!: written_sound [OF s])
  next
    case (OpCreateStanding i p b sub e1 e2)
    then show ?thesis using assms(2,5) standingRecord_sound by (auto simp: createStanding_def intro!: written_sound [OF s])
  next
    case (OpCreateDownload i p ch d pol)
    then show ?thesis using assms(2,5) downloadRecord_sound by (auto simp: createDownload_def intro!: written_sound [OF s])
  next
    case (OpCreateChild i g p input)
    then show ?thesis using assms(5) child_sound [OF s assms(2)] by simp
  next
    case (OpInspect i ax act)
    then show ?thesis using inspect_sound [OF s at] by simp
  next
    case (OpIssue i kind c)
    then show ?thesis using s issue_keeps by (auto simp: issueChallenge_def intro!: tr)
  next
    case (OpIssueDisclosure i c)
    then show ?thesis using issue_keeps by (auto simp: issueDisclosureChallenge_def intro!: tr)
  next
    case (OpApprove i kind via live answer)
    then show ?thesis
      using s assms(3,5) approve_keeps [of kind via cfg] by (auto simp: approve_def intro!: tr)
  next
    case (OpApproveDisclosure i b answer via)
    then show ?thesis using approveDisclosure_keeps by (auto simp: approveDisclosure_def intro!: tr)
  next
    case (OpAnswer i via answer)
    then show ?thesis using assms(5) answer_keeps by (auto simp: answerDownload_def intro!: tr)
  next
    case (OpClaimSend i live aborted token pck)
    then have p: "steadyAt pck (ck_decide pck)" using assms(5) by (simp add: steady_at)
    show ?thesis
      unfolding OpClaimSend perform.simps claimSendRecord_def
      using claimSend_keeps [of rt "ck_decide ck" cfg live aborted]
      by (intro transition_sound [OF s at, where P = "\<lambda>seen. \<forall>reason. seen = Inr (Some reason) \<longrightarrow> reason \<noteq> CLOCK_ANOMALY"])
        (simp_all add: childPrior_sound [OF p])
  next
    case (OpClaimChange i change pol aborted says)
    then show ?thesis using assms(5) by (auto simp: claimChangeRecord_def intro!: tr claimChange_keeps)
  next
    case (OpClaimDownload i live aborted)
    then show ?thesis using claimDownload_keeps by (auto simp: claimDownloadRecord_def intro!: tr)
  next
    case (OpClaimDisclosure i b deadline)
    then show ?thesis using s claimDisclosure_keeps by (auto simp: claimDisclosureRecord_def intro!: tr)
  next
    case (OpHeartbeat i token)
    have "soundStore rt (fst (transition rt st cfg ck i (anyOf KSend) AInspect (Some token) noPrior
        (\<lambda>current oc gate _. heartbeatDecision (ck_decide ck) current)))"
      using heartbeat_keeps by (auto intro!: tr)
    then show ?thesis by (auto simp: OpHeartbeat heartbeat_def split: prod.split sum.split)
  next
    case (OpComplete i token result)
    then show ?thesis using s assms(5) complete_keeps by (auto simp: complete_def intro!: tr)
  next
    case (OpRevoke i reason who ax)
    then show ?thesis using revoke_sound [OF s at] assms(5) by simp
  next
    case (OpRevokeLegacy i reason)
    then show ?thesis using revokeLegacy_sound [OF s] by simp
  next
    case (OpNarrow i owner wanted)
    then show ?thesis using narrow_keeps by (auto simp: narrowStanding_def intro!: tr)
  next
    case (OpUse i owner)
    then show ?thesis using withStanding_sound [OF s at] by simp
  qed
qed

section \<open>A machine whose every admitted step keeps an invariant\<close>

text \<open>\<open>admits\<close>: each step of a run is admitted in the state it is taken in.\<close>

fun admits :: "('op \<Rightarrow> 's \<Rightarrow> 's) \<Rightarrow> ('op \<Rightarrow> 's \<Rightarrow> bool) \<Rightarrow> 'op list \<Rightarrow> 's \<Rightarrow> bool" where
  "admits run adm [] s = True"
| "admits run adm (x # xs) s = (adm x s \<and> admits run adm xs (run x s))"

locale guarded_machine =
  fixes run :: "'op \<Rightarrow> 's \<Rightarrow> 's" and adm :: "'op \<Rightarrow> 's \<Rightarrow> bool" and good :: "'s \<Rightarrow> bool"
  assumes keeps: "good s \<Longrightarrow> adm x s \<Longrightarrow> good (run x s)"
begin

lemma good_runs: "good s \<Longrightarrow> admits run adm xs s \<Longrightarrow> good (fold run xs s)"
  by (induction xs arbitrary: s) (simp_all add: keeps)

end

definition performStep :: "runtime \<Rightarrow> config option \<times> clock \<times> operation \<Rightarrow> store \<Rightarrow> store" where
  "performStep rt x st = (case x of (cfg, ck, op) \<Rightarrow> perform rt cfg ck op st)"

definition stepOk :: "runtime \<Rightarrow> config option \<times> clock \<times> operation \<Rightarrow> store \<Rightarrow> bool" where
  "stepOk rt x st \<longleftrightarrow> (case x of (cfg, ck, op) \<Rightarrow>
     sha_hex rt \<and> (\<forall>c. cfg = Some c \<longrightarrow> chatOrConfirm c) \<and> steady ck \<and> opOk op st)"

interpretation approvals: guarded_machine "performStep rt" "stepOk rt" "soundStore rt" for rt
  by unfold_locales (auto simp: performStep_def stepOk_def perform_sound)

section \<open>Claims are granted once\<close>

text \<open>Something taken by a key, at most once. What else happens may only add to what is taken.\<close>

locale once_only =
  fixes taken :: "'s \<Rightarrow> 'k \<Rightarrow> bool" and take_it :: "'s \<Rightarrow> 'k \<Rightarrow> 'v \<Rightarrow> 's \<times> ('e + unit)"
  assumes take_taken: "taken s k \<Longrightarrow> \<exists>e. take_it s k v = (s, Inl e)"
    and take_free: "\<not> taken s k \<Longrightarrow> \<exists>s'. take_it s k v = (s', Inr ()) \<and> taken s' k \<and> (\<forall>j. taken s j \<longrightarrow> taken s' j)"
begin

lemma grant_once:
  assumes "distinct granted \<and> (\<forall>k \<in> set granted. taken s k)" "take_it s k v = (s', Inr ())"
  shows "distinct (k # granted) \<and> (\<forall>j \<in> set (k # granted). taken s' j)"
proof -
  have "\<not> taken s k" using take_taken [of s k v] assms(2) by auto
  then show ?thesis using take_free [of s k v] assms by auto
qed

lemma refused_same: "take_it s k v = (s', Inl e) \<Longrightarrow> s' = s"
  using take_taken [of s k v] take_free [of s k v] by (cases "taken s k") auto

end

interpretation markers: once_only "\<lambda>st i. st_claims st i \<noteq> None" markClaimed
  by unfold_locales (auto simp: markClaimed_def)

text \<open>No operation removes a marker, nor makes one: only \<open>markClaimed\<close> does.\<close>

lemma putRecord_claims [simp]: "st_claims (putRecord st r) = st_claims st"
  by (simp add: putRecord_def)

lemma settle_claims [simp]: "st_claims (settle st r c at) = st_claims st"
  by (simp add: settle_def)

lemma conclude_claims [simp]: "st_claims (fst (conclude st r at d)) = st_claims st"
  by (cases d) (simp_all add: conclude_def)

lemma transition_claims:
  assumes "\<And>s r oc. st_claims (fst (prior s r oc)) = st_claims s"
  shows "st_claims (fst (transition rt st cfg ck i ax act token prior decide)) = st_claims st"
proof (cases "openRecord rt st cfg ck i ax act")
  case (Inr x)
  obtain r d oc live where x: "x = (r, d, oc, live)" by (cases x)
  let ?c = "currentRecord act d oc"
  obtain s2 seen where p: "prior (settle st r ?c (ck_write ck)) ?c oc = (s2, seen)" by fastforce
  then have "st_claims s2 = st_claims st" using assms [of "settle st r ?c (ck_write ck)" ?c oc] by simp
  then show ?thesis using p by (simp add: transition_def Inr x Let_def)
qed (simp add: transition_def)

lemma noPrior_claims: "st_claims (fst (noPrior s r oc)) = st_claims s"
  by (simp add: noPrior_def)

lemmas plain_claims = transition_claims [OF noPrior_claims]

lemma inspect_claims: "st_claims (fst (inspect rt st cfg ck i ax act)) = st_claims st"
  by (auto simp: inspect_def Let_def split: sum.split stored_approval.split)

lemma childPrior_claims: "st_claims (fst (childPrior rt cfg pck st r oc)) = st_claims st"
proof -
  have "st_claims (fst (standingParentProblem rt st cfg pck r)) = st_claims st"
    using inspect_claims [of rt st cfg pck "the (r_standingId r)" "ownedBy KStanding (r_inboxId r)" AClaim]
    by (auto simp: standingParentProblem_def split: option.split prod.split sum.split)
  then show ?thesis by (simp add: childPrior_def)
qed

lemma written_claims [simp]: "st_claims (fst (written st r)) = st_claims st"
  by (cases r) (simp_all add: written_def)

lemma revokeLegacy_claims: "st_claims (fst (revokeLegacy rt st ck i reason)) = st_claims st"
  by (auto simp: revokeLegacy_def putLegacy_def Let_def split: option.split stored_approval.split)

lemma revoke_claims: "st_claims (fst (revoke rt st cfg ck i reason who ax)) = st_claims st"
proof -
  have t: "st_claims (fst (transition rt st cfg ck i ax ARevoke None noPrior
             (\<lambda>current oc gate _. revokeDecision reason (ck_decide ck) current))) = st_claims st"
    by (rule plain_claims)
  have l: "st_claims (fst (revokeLegacy rt st ck i reason)) = st_claims st" by (rule revokeLegacy_claims)
  show ?thesis using t l unfolding revoke_def by (auto split: sum.split stored_approval.split prod.split)
qed

lemma heartbeat_claims: "st_claims (fst (heartbeat rt st cfg ck i token)) = st_claims st"
proof -
  have "st_claims (fst (transition rt st cfg ck i (anyOf KSend) AInspect (Some token) noPrior
        (\<lambda>current oc gate _. heartbeatDecision (ck_decide ck) current))) = st_claims st"
    by (rule plain_claims)
  then show ?thesis by (auto simp: heartbeat_def split: prod.split sum.split)
qed

lemma perform_claims: "st_claims (perform rt cfg ck op st) = st_claims st"
  by (cases op) (simp_all add: create_def createDisclosure_def createChange_def createStanding_def createDownload_def
      createStandingChild_def issueChallenge_def issueDisclosureChallenge_def approve_def approveDisclosure_def
      answerDownload_def claimSendRecord_def claimChangeRecord_def claimDownloadRecord_def claimDisclosureRecord_def
      complete_def narrowStanding_def withStanding_def inspect_claims heartbeat_claims revoke_claims revokeLegacy_claims
      plain_claims transition_claims [OF childPrior_claims] Let_def split: sum.split prod.split option.split)

section \<open>The system: operations, markers and rewritten files\<close>

text \<open>
  A claim's marker is made after its lock is released, so that other operations run in between. \<open>sy_waiting\<close> are
  the claims that still have theirs to make, \<open>sy_granted\<close> the ids whose claim returned. Any file may be put back as
  it was, or changed, by whoever can write the directory (\<open>rewritten\<close>); a marker is never removed.
\<close>

record system =
  sy_store :: store
  sy_waiting :: "(jstr \<times> jstr option) list"
  sy_granted :: "jstr list"

inductive step :: "runtime \<Rightarrow> system \<Rightarrow> system \<Rightarrow> bool" for rt where
  operated: "step rt s (s\<lparr>sy_store := perform rt cfg ck op (sy_store s),
      sy_waiting := (case claims rt cfg ck op (sy_store s) of None \<Rightarrow> sy_waiting s | Some w \<Rightarrow> w # sy_waiting s)\<rparr>)"
| granted: "(i, token) \<in> set (sy_waiting s) \<Longrightarrow> markClaimed (sy_store s) i token = (st', Inr ()) \<Longrightarrow>
    step rt s (s\<lparr>sy_store := st', sy_waiting := remove1 (i, token) (sy_waiting s), sy_granted := i # sy_granted s\<rparr>)"
| refused: "(i, token) \<in> set (sy_waiting s) \<Longrightarrow> markClaimed (sy_store s) i token = (st', Inl e) \<Longrightarrow>
    step rt s (s\<lparr>sy_store := st', sy_waiting := remove1 (i, token) (sy_waiting s)\<rparr>)"
| rewritten: "step rt s (s\<lparr>sy_store := (sy_store s)\<lparr>st_files := files\<rparr>\<rparr>)"

inductive reachable :: "runtime \<Rightarrow> system \<Rightarrow> bool" for rt where
  start: "reachable rt \<lparr>sy_store = st, sy_waiting = [], sy_granted = []\<rparr>"
| further: "reachable rt s \<Longrightarrow> step rt s t \<Longrightarrow> reachable rt t"

inductive_cases stepE: "step rt s t"

text \<open>What was granted has its marker, and was granted once.\<close>

definition grantedOnce :: "system \<Rightarrow> bool" where
  "grantedOnce s \<longleftrightarrow> distinct (sy_granted s) \<and> (\<forall>i \<in> set (sy_granted s). st_claims (sy_store s) i \<noteq> None)"

lemma step_grantedOnce: "step rt s t \<Longrightarrow> grantedOnce s \<Longrightarrow> grantedOnce t"
proof (induction rule: step.induct)
  case (operated s cfg ck op)
  then show ?case by (simp add: grantedOnce_def perform_claims)
next
  case (granted i token s st')
  then show ?case
    using markers.grant_once [of "sy_granted s" "sy_store s" i token st'] by (simp add: grantedOnce_def)
next
  case (refused i token s st' e)
  then show ?case
    using markers.refused_same [of "sy_store s" i token st' e] by (simp add: grantedOnce_def)
next
  case (rewritten s files)
  then show ?case by (simp add: grantedOnce_def)
qed

lemma reachable_grantedOnce: "reachable rt s \<Longrightarrow> grantedOnce s"
  by (induction rule: reachable.induct) (auto simp: grantedOnce_def [of "\<lparr>sy_store = _, sy_waiting = _, sy_granted = _\<rparr>"]
      intro: step_grantedOnce)

end
