(* ===== verification/ApprovalMoves.thy ===== *)
theory ApprovalMoves
  imports ApprovalSystem
begin

text \<open>
  What an operation may do to a record that exists. A relation between a record and what an operation leaves of it
  is carried from a decision to its operation, and to every record of the store, by the locale \<open>record_change\<close>.
  It is interpreted twice: records move along the diagram of \<open>nextStates\<close> with everything they were bound to
  kept (\<open>perform_changed\<close>), and only an approving operation approves (\<open>perform_approves\<close>).
\<close>

section \<open>A relation every reading keeps\<close>

definition related :: "(approval \<Rightarrow> approval \<Rightarrow> bool) \<Rightarrow> store \<Rightarrow> store \<Rightarrow> jstr \<Rightarrow> bool" where
  "related R st st' j \<longleftrightarrow>
     st_files st' j = st_files st j \<or>
     (\<exists>r r'. st_files st j = Some (V2File r) \<and> st_files st' j = Some (V2File r') \<and> R r r') \<or>
     (\<exists>r r'. st_files st j = Some (LegacyFile r) \<and> st_files st' j = Some (LegacyFile r'))"

definition decides :: "(approval \<Rightarrow> approval \<Rightarrow> bool) \<Rightarrow> (approval \<Rightarrow> outcome \<Rightarrow> live_gate option \<Rightarrow> 'x \<Rightarrow> decision) \<Rightarrow> bool" where
  "decides R decide \<longleftrightarrow>
     (\<forall>c oc live seen n e. (oc_error oc = None \<longrightarrow> active c) \<longrightarrow> decide c oc live seen = Next n e \<longrightarrow> R c n)"

definition quiet ::
  "(approval \<Rightarrow> approval \<Rightarrow> bool) \<Rightarrow> approval_kind option \<Rightarrow> (store \<Rightarrow> approval \<Rightarrow> outcome \<Rightarrow> store \<times> 'x) \<Rightarrow> bool" where
  "quiet R kind prior \<longleftrightarrow>
     (\<forall>s c oc x. st_files s (r_approvalId c) = Some (V2File x) \<and> r_kind x = r_kind c \<and> (kind = None \<or> kind = Some (r_kind c)) \<longrightarrow>
        st_files (fst (prior s c oc)) (r_approvalId c) = st_files s (r_approvalId c) \<and>
        (\<forall>j. related R s (fst (prior s c oc)) j))"

lemma decidesI:
  "(\<And>c oc live seen n e. (oc_error oc = None \<Longrightarrow> active c) \<Longrightarrow> decide c oc live seen = Next n e \<Longrightarrow> R c n) \<Longrightarrow> decides R decide"
  unfolding decides_def by blast

lemma decidesD: "decides R decide \<Longrightarrow> oc_error oc = None \<longrightarrow> active c \<Longrightarrow> decide c oc live seen = Next n e \<Longrightarrow> R c n"
  unfolding decides_def by metis

lemma related_refl [simp]: "related R st st j"
  by (simp add: related_def)

lemma matches_kind: "matchesExpectation (V2 r) ax \<Longrightarrow> ax_kind ax = None \<or> ax_kind ax = Some (r_kind r)"
  by (auto simp: matchesExpectation_def kindOf_def ownerOf_def split: if_splits)

lemma decoded_legacy: "decodeStored rt i f cfg t = Legacy v raw \<Longrightarrow> f = LegacyFile raw \<and> lg_approvalId raw = i"
  by (auto simp: decodeStored_def split: stored_file.splits if_splits validation.splits)

lemma revokeLegacy_related: "related R st (fst (revokeLegacy rt st ck i reason)) j"
  by (auto simp: revokeLegacy_def putLegacy_def related_def Let_def split: option.splits stored_approval.splits
      dest!: decoded_legacy)

lemma noPrior_quiet [simp]: "quiet R kind noPrior"
  by (simp add: quiet_def noPrior_def)

text \<open>The record made by an operation that makes one.\<close>

lemma written_related: "j \<noteq> i \<Longrightarrow> (\<And>r. res = Inr r \<Longrightarrow> r_approvalId r = i) \<Longrightarrow> related R st (fst (written st res)) j"
  by (cases res) (auto simp: written_def related_def putRecord_def)

lemma created_id:
  "createRecord rt now i p input = Inr r \<Longrightarrow> r_approvalId r = i"
  "disclosureRecord rt now i p b = Inr r \<Longrightarrow> r_approvalId r = i"
  "changeRecord rt now i p ch change pol = Inr r \<Longrightarrow> r_approvalId r = i"
  "standingRecord rt now i p sb sub e1 e2 = Inr r \<Longrightarrow> r_approvalId r = i"
  "downloadRecord rt now i p ch d pol = Inr r \<Longrightarrow> r_approvalId r = i"
  "childRecord rt now i p live cin = Inr r \<Longrightarrow> r_approvalId r = i"
  by (auto simp: createRecord_def disclosureRecord_def changeRecord_def standingRecord_def downloadRecord_def childRecord_def
      bound_def result_bind_eq_Inr pending_defs Let_def split: if_splits)

fun makes :: "operation \<Rightarrow> jstr option" where
  "makes (OpCreate i p input) = Some i"
| "makes (OpCreateDisclosure i p b) = Some i"
| "makes (OpCreateChange i p ch change pol) = Some i"
| "makes (OpCreateStanding i p b sub e1 e2) = Some i"
| "makes (OpCreateDownload i p ch d pol) = Some i"
| "makes (OpCreateChild i g p input) = Some i"
| "makes op = None"

lemma child_related: "j \<noteq> i \<Longrightarrow> related R st (fst (createStandingChild rt st cfg ck i g p input)) j"
  by (auto simp: createStandingChild_def Let_def intro: written_related created_id split: sum.split prod.split option.split)

lemma childPrior_store:
  "fst (childPrior rt cfg pck s c oc) = s \<or>
   (\<exists>p w. fst (childPrior rt cfg pck s c oc) = fst (inspect rt s cfg pck p (ownedBy KStanding w) AClaim))"
  by (auto simp: childPrior_def standingParentProblem_def split: option.split prod.split sum.split) (metis fst_conv)+

locale record_change =
  fixes R :: "approval \<Rightarrow> approval \<Rightarrow> bool"
  assumes reads: "derive r t = r \<or> R r (derive r t)"
    and revokes: "active r \<Longrightarrow> R r (revokedAs r reason t)"
    and after_reading: "R (derive r t) n \<Longrightarrow> R r n"
    and after_revoking: "active r \<Longrightarrow> R (revokedAs r reason t) n \<Longrightarrow> R r n"
    and stamping: "R r (stamped n u) = R r n"
    and names: "R r n \<Longrightarrow> r_approvalId n = r_approvalId r"
begin

lemma acting:
  assumes "d = derive r t" "oc = classifyV2 d act live t'" "c = (if oc_revokes oc \<and> acting then firstOf (oc_record oc) d else d)"
  shows "c = r \<or> R r c" "R c n \<Longrightarrow> R r n" "r_approvalId c = r_approvalId r"
proof -
  have "(c = r \<or> R r c) \<and> (R c n \<longrightarrow> R r n)"
  proof (cases "oc_revokes oc \<and> acting")
    case True
    then have v: "oc_revokes oc" by simp
    obtain reason where a: "active d" "oc_record oc = Some (revokedAs d reason t')" by (rule classify_revokes [OF assms(2) v])
    have e: "d = r" using derive_same [of r t] a(1) assms(1) by blast
    have "c = revokedAs r reason t'" unfolding assms(3) if_P [OF True] a(2) e by (simp add: firstOf_def)
    then show ?thesis using a(1) revokes after_revoking unfolding e by blast
  next
    case False
    show ?thesis unfolding assms(3) if_not_P [OF False] assms(1) using reads after_reading by blast
  qed
  then show "c = r \<or> R r c" "R c n \<Longrightarrow> R r n" by blast+
  then show "r_approvalId c = r_approvalId r" using names by blast
qed

lemma settled:
  assumes "st_files st (r_approvalId r) = Some (V2File r)" "c = r \<or> R r c"
  shows "related R st (settle st r c u) j"
  using assms names [of r c] by (auto simp: settle_def related_def putRecord_def stamping)

lemma inspect_as:
  assumes "findRecord rt st cfg (ck_read ck) p ax = Inr (V2 r)"
  obtains c where "c = r \<or> R r c" "fst (inspect rt st cfg ck p ax act) = settle st r c (ck_write ck)" "r_approvalId r = p"
    "st_files st p = Some (V2File r)"
proof -
  note fd = findRecord_V2 [OF assms]
  have p: "r_approvalId r = p" using fd(2) valid_iff [of rt r p] by simp
  obtain d oc c where d: "d = derive r (ck_derive ck)" and oc: "oc = classifyV2 d act (gateFor cfg (V2 d)) (ck_classify ck)"
    and c: "c = (if oc_revokes oc \<and> (act \<noteq> AInspect \<and> act \<noteq> AWait \<or> writtenAtALook oc) then firstOf (oc_record oc) d else d)"
    by blast
  have "fst (inspect rt st cfg ck p ax act) = settle st r c (ck_write ck)"
    by (auto simp: inspect_def assms derivedForm_def approvalOutcome_def Let_def d oc c)
  then show ?thesis using that acting(1) [OF d oc c] fd(1) p by blast
qed

lemma inspect_V2:
  "findRecord rt st cfg (ck_read ck) p ax = Inr found \<Longrightarrow> \<nexists>r. found = V2 r \<Longrightarrow> fst (inspect rt st cfg ck p ax act) = st"
  by (cases found) (auto simp: inspect_def derivedForm_def Let_def)

lemma inspected: "related R st (fst (inspect rt st cfg ck p ax act)) j"
proof (cases "\<exists>r. findRecord rt st cfg (ck_read ck) p ax = Inr (V2 r)")
  case True
  then obtain r where "findRecord rt st cfg (ck_read ck) p ax = Inr (V2 r)" by blast
  then show ?thesis by (rule inspect_as [where act = act]) (simp add: settled)
next
  case False
  then show ?thesis using inspect_V2 [of rt st cfg ck p ax]
    by (cases "findRecord rt st cfg (ck_read ck) p ax") (auto simp: inspect_def)
qed

lemma inspect_other: "p \<noteq> j \<Longrightarrow> st_files (fst (inspect rt st cfg ck p ax act)) j = st_files st j"
proof (cases "\<exists>r. findRecord rt st cfg (ck_read ck) p ax = Inr (V2 r)")
  case True
  assume n: "p \<noteq> j"
  from True obtain r where "findRecord rt st cfg (ck_read ck) p ax = Inr (V2 r)" by blast
  then show ?thesis by (rule inspect_as [where act = act]) (use n names in \<open>auto simp: settle_def putRecord_def\<close>)
next
  case False
  then show ?thesis using inspect_V2 [of rt st cfg ck p ax]
    by (cases "findRecord rt st cfg (ck_read ck) p ax") (auto simp: inspect_def)
qed

lemma transitioned:
  assumes "decides R decide" "quiet R (ax_kind ax) prior"
  shows "related R st (fst (transition rt st cfg ck i ax act token prior decide)) j"
proof (cases "openRecord rt st cfg ck i ax act")
  case (Inl e)
  then show ?thesis by (simp add: transition_def)
next
  case (Inr x)
  obtain r d oc live where x: "x = (r, d, oc, live)" by (cases x)
  note op = openRecord_Inr [OF Inr [unfolded x]]
  have f: "st_files st i = Some (V2File r)" and own: "r_approvalId r = i"
    using findRecord_V2(1,2) [OF op(1)] valid_iff [of rt r i] by auto
  obtain c where c: "c = (if oc_revokes oc \<and> (act \<noteq> AInspect \<and> act \<noteq> AWait) then firstOf (oc_record oc) d else d)" by blast
  have c': "currentRecord act d oc = c" by (simp add: c currentRecord_def)
  note ac = acting [OF op(2,4) c]
  have cid: "r_approvalId c = i" using ac(3) own by simp
  have kind: "r_kind r = r_kind c" unfolding c' [symmetric] using current_fields(2) [OF op(4)] op(2) by simp
  obtain s where s: "s = settle st r c (ck_write ck)" by blast
  have f': "st_files st (r_approvalId r) = Some (V2File r)" using f own by simp
  have rel: "related R st s j" for j unfolding s by (rule settled [OF f' ac(1)])
  have other: "st_files s j = st_files st j" if "j \<noteq> i" for j
    using that cid by (simp add: s settle_def putRecord_def)
  have mine: "\<exists>x. st_files s i = Some (V2File x) \<and> r_kind x = r_kind c"
    using f cid kind by (auto simp: s settle_def putRecord_def)
  obtain s2 seen where p: "prior s c oc = (s2, seen)" by fastforce
  have k: "ax_kind ax = None \<or> ax_kind ax = Some (r_kind c)"
    using matches_kind [OF findRecord_V2(3) [OF op(1)]] kind by simp
  have s2: "st_files s2 i = st_files s i" "\<And>j. related R s s2 j"
    using assms(2) [unfolded quiet_def, rule_format, of s c _ oc] p cid mine k by auto
  have s3: "related R st s2 j" for j
  proof (cases "j = i")
    case True
    show ?thesis using rel [of j] unfolding True related_def s2(1) .
  next
    case False
    show ?thesis using s2(2) [of j] unfolding related_def other [OF False] .
  qed
  have "related R st (fst (conclude s2 c (ck_rewrite ck) (decide c oc live seen))) j"
  proof (cases "decide c oc live seen")
    case (Next n e)
    have still: "oc_error oc = None \<longrightarrow> active c" using classify_no_error [OF op(4)] c by simp
    have m: "R c n" by (rule decidesD [OF assms(1) still Next])
    show ?thesis
      using f names [OF m] cid s3 ac(2) [OF m] by (cases "j = i") (auto simp: conclude_def Next related_def putRecord_def stamping)
  qed (use s3 in \<open>simp_all add: conclude_def\<close>)
  then show ?thesis using p s c' by (simp add: transition_def Inr x Let_def)
qed

lemma plain: "decides R decide \<Longrightarrow> related R st (fst (transition rt st cfg ck i ax act token noPrior decide)) j"
  by (rule transitioned) simp_all

lemma plain_other:
  assumes "decides R decide" "i \<noteq> j"
  shows "st_files (fst (transition rt st cfg ck i ax act token noPrior decide)) j = st_files st j"
proof (cases "openRecord rt st cfg ck i ax act")
  case (Inl e)
  then show ?thesis by (simp add: transition_def)
next
  case (Inr x)
  obtain r d oc live where x: "x = (r, d, oc, live)" by (cases x)
  note op = openRecord_Inr [OF Inr [unfolded x]]
  have own: "r_approvalId r = i" using findRecord_V2(2) [OF op(1)] valid_iff [of rt r i] by simp
  obtain c where c: "c = (if oc_revokes oc \<and> (act \<noteq> AInspect \<and> act \<noteq> AWait) then firstOf (oc_record oc) d else d)" by blast
  have c': "currentRecord act d oc = c" by (simp add: c currentRecord_def)
  have cid: "r_approvalId c = i" using acting(3) [OF op(2,4) c] own by simp
  have s: "st_files (settle st r c (ck_write ck)) j = st_files st j"
    using assms(2) cid by (simp add: settle_def putRecord_def)
  have "st_files (fst (conclude (settle st r c (ck_write ck)) c (ck_rewrite ck) (decide c oc live ()))) j = st_files st j"
  proof (cases "decide c oc live ()")
    case (Next n e)
    have still: "oc_error oc = None \<longrightarrow> active c" using classify_no_error [OF op(4)] c by simp
    have "r_approvalId n = i" using names [OF decidesD [OF assms(1) still Next]] cid by simp
    then show ?thesis using assms(2) s by (simp add: conclude_def Next putRecord_def)
  qed (use s in \<open>simp_all add: conclude_def\<close>)
  then show ?thesis using c' by (simp add: transition_def Inr x Let_def noPrior_def)
qed

lemma childPrior_quiet: "quiet R (Some KSend) (childPrior rt cfg pck)"
proof -
  have unmoved: "fst (inspect rt s cfg pck i (ownedBy KStanding w) AClaim) = s" if "st_files s i = Some (V2File x)" "r_kind x = KSend"
    for s i w x
    using that by (auto simp: inspect_def findRecord_def decodeStored_def matchesExpectation_def kindOf_def ownerOf_def ownedBy_def
        Let_def split: validation.split)
  have r: "st_files (fst (inspect rt s cfg pck p (ownedBy KStanding w) AClaim)) i = st_files s i"
    if "st_files s i = Some (V2File x)" "r_kind x = KSend" for s i p w x
  proof (cases "p = i")
    case False
    then show ?thesis by (rule inspect_other)
  qed (simp add: unmoved [OF that])
  show ?thesis
    unfolding quiet_def
  proof (intro allI impI)
    fix s :: store and c :: approval and oc :: outcome and x :: approval
    assume f: "st_files s (r_approvalId c) = Some (V2File x) \<and> r_kind x = r_kind c \<and>
        (Some KSend = None \<or> Some KSend = Some (r_kind c))"
    then have k: "st_files s (r_approvalId c) = Some (V2File x)" "r_kind x = KSend" by auto
    show "st_files (fst (childPrior rt cfg pck s c oc)) (r_approvalId c) = st_files s (r_approvalId c)
        \<and> (\<forall>j. related R s (fst (childPrior rt cfg pck s c oc)) j)"
      using childPrior_store [of rt cfg pck s c oc] r [OF k] inspected by auto
  qed
qed

text \<open>An operation respects the relation when its decision does.\<close>

lemma claimSend_related:
  assumes "\<And>at. decides R (\<lambda>current oc gate seen. case seen of Inl e \<Rightarrow> Refuse e
     | Inr parentProblem \<Rightarrow> claimSendDecision rt live aborted at parentProblem current oc)"
  shows "related R st (fst (claimSendRecord rt st cfg ck pck i live aborted)) j"
proof -
  have "ax_kind (ownedBy KSend (lsd_inboxId live)) = Some KSend" by (simp add: ownedBy_def)
  then show ?thesis
    unfolding claimSendRecord_def using childPrior_quiet by (intro transitioned [OF assms]) simp
qed

lemma heartbeat_related:
  assumes "\<And>at. decides R (\<lambda>current oc gate (seen::unit). heartbeatDecision at current)"
  shows "related R st (fst (heartbeat rt st cfg ck i token)) j"
proof -
  have "related R st (fst (transition rt st cfg ck i (anyOf KSend) AInspect (Some token) noPrior
        (\<lambda>current oc gate _. heartbeatDecision (ck_decide ck) current))) j"
    by (rule plain [OF assms])
  then show ?thesis by (auto simp: heartbeat_def split: prod.split sum.split)
qed

lemma revoke_related:
  assumes "\<And>at. decides R (\<lambda>current oc gate (seen::unit). revokeDecision reason at current)"
  shows "related R st (fst (revoke rt st cfg ck i reason who ax)) j"
proof -
  have t: "related R st (fst (transition rt st cfg ck i ax ARevoke None noPrior
             (\<lambda>current oc gate _. revokeDecision reason (ck_decide ck) current))) j"
    by (rule plain [OF assms])
  have l: "related R st (fst (revokeLegacy rt st ck i reason)) j" by (rule revokeLegacy_related)
  show ?thesis using t l unfolding revoke_def by (auto split: sum.split stored_approval.split prod.split)
qed

lemma withStanding_related: "related R st (fst (withStanding rt st cfg ck i owner)) j"
proof (cases "openRecord rt st cfg ck i (ownedBy KStanding owner) AClaim")
  case (Inl e)
  then show ?thesis by (simp add: withStanding_def)
next
  case (Inr x)
  obtain r d oc live where x: "x = (r, d, oc, live)" by (cases x)
  note op = openRecord_Inr [OF Inr [unfolded x]]
  have f: "st_files st (r_approvalId r) = Some (V2File r)"
    using findRecord_V2(1,2) [OF op(1)] valid_iff [of rt r i] by simp
  have "related R st (settle st r (if oc_revokes oc \<and> True then firstOf (oc_record oc) d else d) (ck_write ck)) j"
    by (rule settled [OF f acting(1) [OF op(2) op(4) refl]])
  then show ?thesis by (simp add: withStanding_def Inr x Let_def)
qed

end

section \<open>The life cycle of a record\<close>

text \<open>
  The states a record may be in after one operation on it. A finished record has no next state. A record keeps
  what it was bound to: \<open>wipe\<close> removes the life cycle and leaves the binding.
\<close>

fun nextStates :: "approval_state \<Rightarrow> approval_state set" where
  "nextStates Pending = {Pending, Approved, Sending, Used, Revoked, Expired}"
| "nextStates Approved = {Approved, Sending, Used, Revoked, Expired}"
| "nextStates Sending = {Sending, Unknown, Used, Failed}"
| "nextStates Unknown = {Used, Failed}"
| "nextStates _ = {}"

definition moved :: "approval \<Rightarrow> approval \<Rightarrow> bool" where
  "moved r r' \<longleftrightarrow> wipe r' = wipe r \<and> r_state r' \<in> nextStates (r_state r)"

abbreviation changed :: "store \<Rightarrow> store \<Rightarrow> jstr \<Rightarrow> bool" where
  "changed \<equiv> related moved"

lemma moved_simps:
  "moved r (r\<lparr>r_challengeHash := h\<rparr>) \<longleftrightarrow> r_state r \<in> nextStates (r_state r)"
  "moved r (r\<lparr>r_challengeAttempts := k\<rparr>) \<longleftrightarrow> r_state r \<in> nextStates (r_state r)"
  "moved r (voided r reason at) \<longleftrightarrow> Revoked \<in> nextStates (r_state r)"
  "moved r (revokedAs r reason at) \<longleftrightarrow> Revoked \<in> nextStates (r_state r)"
  "moved r (approvedRecord r kind via gate at) \<longleftrightarrow> Approved \<in> nextStates (r_state r)"
  "moved r (r\<lparr>r_state := s, r_usedAt := x\<rparr>) \<longleftrightarrow> s \<in> nextStates (r_state r)"
  "moved r (r\<lparr>r_state := s, r_sendingAt := x\<rparr>) \<longleftrightarrow> s \<in> nextStates (r_state r)"
  "moved r (r\<lparr>r_sendingHeartbeatAt := x\<rparr>) \<longleftrightarrow> r_state r \<in> nextStates (r_state r)"
  "moved r (r\<lparr>r_narrowed := w\<rparr>) \<longleftrightarrow> r_state r \<in> nextStates (r_state r)"
  "moved r (r\<lparr>r_state := s, r_approvedVia := v, r_approvedAt := x, r_usableUntil := y, r_approvedDigest := g, r_challengeHash := h\<rparr>)
     \<longleftrightarrow> s \<in> nextStates (r_state r)"
  by (auto simp: moved_def voided_def revokedAs_def approvedRecord_def)

lemma wrongAnswer_moves: "r_state c = Pending \<Longrightarrow> wrongAnswer c at = Next n e \<Longrightarrow> moved c n"
  by (auto simp: wrongAnswer_def Let_def moved_def voided_def split: if_splits)

lemma issue_moves: "decides moved (\<lambda>current oc live seen. issueDecision rt challenge current oc)"
  by (rule decidesI) (auto simp: issueDecision_def moved_simps split: option.splits if_splits)

lemma approve_moves: "decides moved (\<lambda>current oc gate seen. approveDecision rt kind via live answer at current oc gate)"
  by (rule decidesI) (auto simp: approveDecision_def moved_simps wrongAnswer_moves split: option.splits if_splits)

lemma approveDisclosure_moves: "decides moved (\<lambda>current oc gate seen. approveDisclosureDecision rt binding answer via at current oc)"
  by (rule decidesI)
    (auto simp: approveDisclosureDecision_def moved_simps wrongAnswer_moves split: option.splits if_splits)

lemma answer_moves: "decides moved (\<lambda>current oc gate seen. answerDecision rt via answer current oc)"
  by (rule decidesI) (auto simp: answerDecision_def moved_def wipe_def split: option.splits if_splits)

lemma claimSend_moves:
  "decides moved (\<lambda>current oc gate seen. case seen of Inl e \<Rightarrow> Refuse e
     | Inr parentProblem \<Rightarrow> claimSendDecision rt live aborted at parentProblem current oc)"
  by (rule decidesI) (auto simp: claimSendDecision_def moved_simps split: option.splits if_splits sum.splits)

lemma claimChange_moves: "decides moved (\<lambda>current oc gate seen. claimChangeDecision rt change pol aborted at says current oc gate)"
  by (rule decidesI) (auto simp: claimChangeDecision_def Let_def moved_simps split: option.splits if_split_asm)

lemma claimDownload_moves: "decides moved (\<lambda>current oc gate seen. claimDownloadDecision rt live aborted at current oc)"
  by (rule decidesI) (auto simp: claimDownloadDecision_def moved_simps split: option.splits if_splits)

lemma claimDisclosure_moves: "decides moved (\<lambda>current oc gate seen. claimDisclosureDecision binding deadline at current oc)"
  by (rule decidesI) (auto simp: claimDisclosureDecision_def moved_simps split: option.splits if_splits)

lemma heartbeat_moves: "decides moved (\<lambda>current oc gate seen. heartbeatDecision at current)"
  by (rule decidesI) (auto simp: heartbeatDecision_def moved_simps split: if_splits)

lemma complete_moves: "decides moved (\<lambda>current oc gate seen. completeDecision result at current oc)"
  by (rule decidesI) (auto simp: completeDecision_def Let_def moved_def split: if_splits send_outcome.splits)

lemma revoke_moves: "decides moved (\<lambda>current oc gate seen. revokeDecision reason at current)"
  by (rule decidesI) (auto simp: revokeDecision_def moved_simps split: if_splits)

lemma narrow_moves: "decides moved (\<lambda>current oc gate seen. narrowDecision wanted current oc)"
  by (rule decidesI) (auto simp: narrowDecision_def moved_simps split: option.splits if_splits sum.splits)

text \<open>Reading a record as it is now, and the revocation the configuration derives.\<close>

lemma moved_expired: "Expired \<in> nextStates (r_state r) \<Longrightarrow> moved r (r\<lparr>r_state := Expired, r_reason := y, r_expiredAt := x\<rparr>)"
  by (simp add: moved_def)

lemma active_next: "active r \<Longrightarrow> Expired \<in> nextStates (r_state r) \<and> Revoked \<in> nextStates (r_state r)"
  by (elim disjE) simp_all

lemma derive_moved: "derive r now = r \<or> moved r (derive r now) \<and> r_state (derive r now) \<in> {Expired, Unknown}"
proof (cases "active r")
  case True
  note e = moved_expired [of r, OF active_next [OF True, THEN conjunct1]]
  show ?thesis
  proof (cases "clockBehind r now")
    case b: True
    show ?thesis unfolding derive_def if_P [OF True] if_P [OF b] using e by simp
  next
    case b: False
    show ?thesis
    proof (cases "given (stampTime (deadlineOf r)) (\<lambda>d. d \<le> now)")
      case d: True
      show ?thesis unfolding derive_def if_P [OF True] if_not_P [OF b] if_P [OF d] using e by simp
    next
      case d: False
      show ?thesis unfolding derive_def if_P [OF True] if_not_P [OF b] if_not_P [OF d] by simp
    qed
  qed
next
  case False
  show ?thesis
  proof (cases "r_state r = Sending \<and> given (leaseStart r) (\<lambda>s. s + SENDING_LEASE_MS \<le> now)")
    case True
    then show ?thesis unfolding derive_def if_not_P [OF False] if_P [OF True] by (simp add: moved_def)
  next
    case no: False
    show ?thesis unfolding derive_def if_not_P [OF False] if_not_P [OF no] by simp
  qed
qed

lemma moved_stamped [simp]: "moved r (stamped r' at) = moved r r'"
  by (simp add: moved_def stamped_def)

lemma moved_id: "moved r r' \<Longrightarrow> r_approvalId r' = r_approvalId r"
  unfolding moved_def using wipe_eqD(7) by blast

interpretation moving: record_change moved
proof
  show "derive r t = r \<or> moved r (derive r t)" for r t using derive_moved [of r t] by blast
  show "moved r (revokedAs r reason t)" if "active r" for r reason t
    using active_next [OF that] by (simp add: moved_simps)
  show "moved r n" if "moved (derive r t) n" for r t n
  proof (cases "derive r t = r")
    case False
    then have c: "moved r (derive r t)" "r_state (derive r t) \<in> {Expired, Unknown}" using derive_moved [of r t] by blast+
    have "r_state n \<in> nextStates (r_state (derive r t))" using that by (simp add: moved_def)
    then have u: "r_state (derive r t) = Unknown" "r_state n \<in> {Used, Failed}" using c(2) by auto
    then have "r_state r = Sending" using c(1) by (cases "r_state r") (simp_all add: moved_def)
    then show ?thesis using u c(1) that by (auto simp: moved_def)
  qed (use that in simp)
  show "moved r n" if "moved (revokedAs r reason t) n" for r reason t n using that by (simp add: moved_def)
qed (simp_all add: moved_id)

lemma perform_changed: "makes op \<noteq> Some j \<Longrightarrow> changed st (perform rt cfg ck op st) j"
  by (cases op) (auto simp: create_def createDisclosure_def createChange_def createStanding_def createDownload_def
      issueChallenge_def issueDisclosureChallenge_def approve_def approveDisclosure_def answerDownload_def
      claimChangeRecord_def claimDownloadRecord_def claimDisclosureRecord_def complete_def narrowStanding_def
      child_related moving.inspected revokeLegacy_related moving.withStanding_related
      moving.claimSend_related [OF claimSend_moves] moving.heartbeat_related [OF heartbeat_moves] moving.revoke_related [OF revoke_moves]
      intro: written_related created_id moving.plain issue_moves approve_moves approveDisclosure_moves answer_moves
        claimChange_moves claimDownload_moves claimDisclosure_moves complete_moves narrow_moves)

section \<open>Who approves\<close>

text \<open>What an operation has to show to approve a record; the others approve none.\<close>

fun allows :: "runtime \<Rightarrow> operation \<Rightarrow> approval \<Rightarrow> bool" where
  "allows rt (OpApprove i kind via live answer) r \<longleftrightarrow>
     given (r_challengeHash r) (challengeMatches rt answer) \<and> ld_draftMessageId live = r_draftMessageId r \<and>
     ld_contentDigest live = r_contentDigest r \<and> (kind = KChange \<longrightarrow> via = Terminal \<or> via = ViaApp) \<and>
     (kind = KStanding \<longrightarrow> via = Terminal)"
| "allows rt (OpApproveDisclosure i b answer via) r \<longleftrightarrow>
     given (r_challengeHash r) (challengeMatches rt answer) \<and> given (r_disclosure r) (\<lambda>d. sameDisclosureBinding d b) \<and>
     (via = Terminal \<or> via = ViaApp)"
| "allows rt (OpAnswer i via answer) r \<longleftrightarrow>
     given (r_download r) (\<lambda>d. downloadDigest rt d = r_contentDigest r)"
| "allows rt op r \<longleftrightarrow> False"

definition approvedBy :: "runtime \<Rightarrow> operation \<Rightarrow> approval \<Rightarrow> approval \<Rightarrow> bool" where
  "approvedBy rt op r r' \<longleftrightarrow>
     r_approvalId r' = r_approvalId r \<and> (r_state r' = Approved \<longrightarrow> r_state r = Approved \<or> allows rt op r)"

lemma allows_derive [simp]: "allows rt op (derive r t) = allows rt op r"
  by (cases op) (simp_all add: derive_def)

interpretation approving: record_change "approvedBy rt op" for rt op
proof
  show "derive r t = r \<or> approvedBy rt op r (derive r t)" for r t
    using derive_moved [of r t] by (auto simp: approvedBy_def)
  show "approvedBy rt op r n" if "approvedBy rt op (derive r t) n" for r t n
    using that derive_moved [of r t] by (auto simp: approvedBy_def)
  show "approvedBy rt op r n" if "approvedBy rt op (revokedAs r reason t) n" for r reason t n
    using that by (cases op) (auto simp: approvedBy_def revokedAs_def)
qed (auto simp: approvedBy_def revokedAs_def stamped_def)

lemma approving_decisions:
  "decides (approvedBy rt op) (\<lambda>current oc live seen. issueDecision rt challenge current oc)"
  "decides (approvedBy rt op) (\<lambda>current oc gate seen. case seen of Inl e \<Rightarrow> Refuse e
     | Inr parentProblem \<Rightarrow> claimSendDecision rt send aborted at parentProblem current oc)"
  "decides (approvedBy rt op) (\<lambda>current oc gate seen. claimChangeDecision rt change pol aborted at says current oc gate)"
  "decides (approvedBy rt op) (\<lambda>current oc gate seen. claimDownloadDecision rt download aborted at current oc)"
  "decides (approvedBy rt op) (\<lambda>current oc gate seen. claimDisclosureDecision binding deadline at current oc)"
  "decides (approvedBy rt op) (\<lambda>current oc gate seen. heartbeatDecision at current)"
  "decides (approvedBy rt op) (\<lambda>current oc gate seen. completeDecision result at current oc)"
  "decides (approvedBy rt op) (\<lambda>current oc gate seen. revokeDecision reason at current)"
  "decides (approvedBy rt op) (\<lambda>current oc gate seen. narrowDecision wanted current oc)"
  by (rule decidesI; auto simp: approvedBy_def issueDecision_def claimSendDecision_def claimChangeDecision_def
      claimDownloadDecision_def claimDisclosureDecision_def heartbeatDecision_def completeDecision_def revokeDecision_def
      narrowDecision_def revokedAs_def voided_def Let_def split: option.splits if_splits sum.splits send_outcome.splits)+

fun approves :: "operation \<Rightarrow> jstr option" where
  "approves (OpApprove i kind via live answer) = Some i"
| "approves (OpApproveDisclosure i b answer via) = Some i"
| "approves (OpAnswer i via answer) = Some i"
| "approves op = None"

lemma approve_approves:
  "decides (approvedBy rt (OpApprove i kind via live answer))
     (\<lambda>current oc gate seen. approveDecision rt kind via live answer at current oc gate)"
  by (rule decidesI) (auto simp: approveDecision_def approvedBy_def wrongAnswer_def voided_def approvedRecord_def Let_def
      split: option.splits if_splits)

lemma approveDisclosure_approves:
  "decides (approvedBy rt (OpApproveDisclosure i b answer via))
     (\<lambda>current oc gate seen. approveDisclosureDecision rt b answer via at current oc)"
  by (rule decidesI) (auto simp: approveDisclosureDecision_def approvedBy_def wrongAnswer_def voided_def revokedAs_def Let_def
      split: option.splits if_splits)

lemma answer_approves:
  "decides (approvedBy rt (OpAnswer i via answer)) (\<lambda>current oc gate seen. answerDecision rt via answer current oc)"
  by (rule decidesI) (auto simp: answerDecision_def approvedBy_def split: option.splits if_splits)

lemma perform_approves: "makes op \<noteq> Some j \<Longrightarrow> related (approvedBy rt op) st (perform rt cfg ck op st) j"
  by (cases op) (auto simp: create_def createDisclosure_def createChange_def createStanding_def createDownload_def
      issueChallenge_def issueDisclosureChallenge_def approve_def approveDisclosure_def answerDownload_def
      claimChangeRecord_def claimDownloadRecord_def claimDisclosureRecord_def complete_def narrowStanding_def
      child_related approving.inspected revokeLegacy_related approving.withStanding_related
      approving.claimSend_related [OF approving_decisions(2)] approving.heartbeat_related [OF approving_decisions(6)]
      approving.revoke_related [OF approving_decisions(8)]
      intro: written_related created_id approving.plain approving_decisions approve_approves approveDisclosure_approves answer_approves)

lemma approved_elsewhere:
  assumes "approves op = Some i" "i \<noteq> j"
  shows "st_files (perform rt cfg ck op st) j = st_files st j"
  using assms by (cases op) (auto simp: approve_def approveDisclosure_def answerDownload_def
      intro!: moving.plain_other approve_moves approveDisclosure_moves answer_moves)

end
