(* ===== verification/ApprovalSamples.thy ===== *)
theory ApprovalSamples
  imports ApprovalMoves
begin

text \<open>
  A mailbox, its configuration, and a send prepared for it, with what the store makes of them: the values the
  theorems are applied to.
\<close>

section \<open>Reading what was written\<close>

lemma findRecord_sound:
  assumes "st_files st i = Some (V2File r)" "r_approvalId r = i" "soundRecord rt r" "approvalIdPattern i" "matchesExpectation (V2 r) ax"
  shows "findRecord rt st cfg now i ax = Inr (V2 r)"
  using assms valid_iff [of rt r i]
  by (simp add: findRecord_def decodeStored_def soundRecord_def validRecord_def)

lemma openRecord_sound:
  assumes "st_files st i = Some (V2File r)" "r_approvalId r = i" "soundRecord rt r" "approvalIdPattern i" "matchesExpectation (V2 r) ax"
    and "d = derive r (ck_derive ck)"
  shows "openRecord rt st cfg ck i ax act = Inr (r, d, classifyV2 d act (gateFor cfg (V2 d)) (ck_classify ck), gateFor cfg (V2 d))"
  using findRecord_sound [OF assms(1-5)] assms(6)
  by (simp add: openRecord_def derivedForm_def approvalOutcome_def Let_def)

section \<open>A mailbox, a clock and a send to evaluate with\<close>

definition sampleId :: jstr where "sampleId = js ''ap_00000000000000000000000001''"
definition sampleInbox :: jstr where "sampleInbox = js ''ibx_0000000000000001''"

definition sampleConfig :: "send_policy \<Rightarrow> config" where
  "sampleConfig pol =
     \<lparr>cf_version = 3,
      cf_inboxes = [(js ''work'', \<lparr>en_id = sampleInbox, en_sendPolicy = Some pol, en_changePolicy = None, en_platform = []\<rparr>)],
      cf_accounts = [], cf_defaultSend = PConfirm, cf_defaultChange = None, cf_sendEpochs = None, cf_standingEpoch = None,
      cf_legacyDrain = False\<rparr>"

definition clockAt :: "int \<Rightarrow> clock" where
  "clockAt t = \<lparr>ck_read = t, ck_derive = t, ck_classify = t, ck_write = t, ck_decide = t, ck_rewrite = t\<rparr>"

definition sampleInput :: send_input where
  "sampleInput =
     \<lparr>in_channel = js ''gmail'', in_inboxId = sampleInbox, in_inboxSub = Some (js ''sub''), in_draftId = js ''d1'',
      in_draftMessageId = js ''m1'', in_contentDigest = replicate 64 97, in_sendEpoch = 0, in_policy = PChat,
      in_requiredPolicy = PChat, in_riskFlags = [],
      in_expect = \<lparr>ex_to = [js ''a@example.com''], ex_cc = [], ex_bcc = [], ex_subject = js ''hello''\<rparr>\<rparr>"

definition sampleSend :: approval where
  "sampleSend = (case createRecord sampleRuntime 1000 sampleId None sampleInput of Inr r \<Rightarrow> r | Inl _ \<Rightarrow> blankApproval [] KSend 0)"

definition noStore :: store where "noStore = \<lparr>st_files = Map.empty, st_claims = Map.empty\<rparr>"

definition sampleStore :: store where "sampleStore = putRecord noStore sampleSend"

definition sampleLive :: live_send where
  "sampleLive =
     \<lparr>lsd_inboxId = sampleInbox, lsd_inboxSub = Some (js ''sub''),
      lsd_draft = \<lparr>ld_draftMessageId = js ''m1'', ld_contentDigest = replicate 64 97\<rparr>,
      lsd_expect = \<lparr>ex_to = [js ''a@example.com''], ex_cc = [], ex_bcc = [], ex_subject = js ''hello''\<rparr>\<rparr>"

lemma clockAt_fields [simp]:
  "ck_read (clockAt t) = t" "ck_derive (clockAt t) = t" "ck_classify (clockAt t) = t" "ck_write (clockAt t) = t"
  "ck_decide (clockAt t) = t" "ck_rewrite (clockAt t) = t" "steady (clockAt t)"
  by (simp_all add: clockAt_def steady_def)

lemma sampleId_ok: "approvalIdPattern sampleId"
  by (simp add: sampleId_def approvalIdPattern_def prefixedId_def js_eval isCrockford_def isNumeral_def)

lemma sampleConfig_ok [simp]: "chatOrConfirm (sampleConfig pol)"
  by (simp add: sampleConfig_def chatOrConfirm_def)

lemma sampleSend_made: "createRecord sampleRuntime 1000 sampleId None sampleInput = Inr sampleSend"
proof -
  have "\<exists>r. createRecord sampleRuntime 1000 sampleId None sampleInput = Inr r"
    by (simp add: createRecord_def sampleInput_def hex64_def isHexDigit_def isKnownChannel_def knownChannels_def
        bound_def bindingDigestOf_def bindingObjectOf_def pending_defs Let_def list_all_iff)
  then show ?thesis by (auto simp: sampleSend_def)
qed

lemma sampleSend_sound: "soundRecord sampleRuntime sampleSend" "r_approvalId sampleSend = sampleId"
  using createRecord_sound [OF sampleSend_made]
  by (simp_all add: preparedOk_def sampleInput_def sampleInbox_def)

lemma sampleSend_fields:
  "r_kind sampleSend = KSend" "r_state sampleSend = Pending" "r_ownerScope sampleSend = SOwner" "r_inboxId sampleSend = sampleInbox"
  "r_route sampleSend = Some RChat" "r_requiredPolicy sampleSend = PChat" "r_policy sampleSend = PChat"
  "r_sendEpoch sampleSend = Some 0"
  "r_createdAt sampleSend = Iso 1000" "r_expiresAt sampleSend = Iso 601000" "r_approvedAt sampleSend = None"
  "r_inboxSub sampleSend = Some (js ''sub'')" "r_draftMessageId sampleSend = js ''m1''" "r_contentDigest sampleSend = replicate 64 97"
  "r_expect sampleSend = lsd_expect sampleLive" "r_standingId sampleSend = None" "r_usableUntil sampleSend = None"
  "r_challengeHash sampleSend = None" "r_challengeAttempts sampleSend = 0" "r_approvedMs sampleSend = Some LIFETIME_approved"
  "r_sendingHeartbeatAt sampleSend = None"
proof -
  obtain d where "(pendingRecord sampleId KSend 1000 LIFETIME_chat None)
             \<lparr>r_channel := js ''gmail'', r_ownerScope := SOwner, r_route := Some RChat,
              r_approvedMs := Some LIFETIME_approved, r_inboxId := sampleInbox, r_inboxSub := Some (js ''sub''),
              r_draftId := js ''d1'', r_draftMessageId := js ''m1'',
              r_contentDigest := replicate 64 97, r_sendEpoch := Some 0,
              r_policy := PChat, r_requiredPolicy := PChat, r_riskFlags := [],
              r_expect := lsd_expect sampleLive, r_bindingDigest := Some d\<rparr> = sampleSend"
    using sampleSend_made
    by (auto simp: createRecord_def sampleInput_def sampleLive_def bound_def result_bind_eq_Inr stricterPolicy_def Let_def
        split: if_splits)
  note s = this [symmetric]
  show "r_kind sampleSend = KSend" "r_state sampleSend = Pending" "r_ownerScope sampleSend = SOwner" "r_inboxId sampleSend = sampleInbox"
    "r_route sampleSend = Some RChat" "r_requiredPolicy sampleSend = PChat" "r_policy sampleSend = PChat"
    "r_sendEpoch sampleSend = Some 0"
    "r_createdAt sampleSend = Iso 1000" "r_expiresAt sampleSend = Iso 601000" "r_approvedAt sampleSend = None"
    "r_inboxSub sampleSend = Some (js ''sub'')" "r_draftMessageId sampleSend = js ''m1''" "r_contentDigest sampleSend = replicate 64 97"
    "r_expect sampleSend = lsd_expect sampleLive" "r_standingId sampleSend = None" "r_usableUntil sampleSend = None"
    "r_challengeHash sampleSend = None" "r_challengeAttempts sampleSend = 0" "r_approvedMs sampleSend = Some LIFETIME_approved"
    "r_sendingHeartbeatAt sampleSend = None"
    by (simp_all add: s pending_defs LIFETIME_chat_def)
qed

lemma sampleStore_file: "st_files sampleStore sampleId = Some (V2File sampleSend)"
  by (simp add: sampleStore_def putRecord_def sampleSend_sound)

lemma noStore_sound [simp]: "soundStore rt noStore"
  by (simp add: soundStore_def noStore_def)

lemma sampleStore_sound [simp]: "soundStore sampleRuntime sampleStore"
  unfolding sampleStore_def by (rule sound_put [OF noStore_sound sampleSend_sound(1)])

lemma sampleSend_derive: "1000 \<le> t \<Longrightarrow> t < 601000 \<Longrightarrow> derive sampleSend t = sampleSend"
  by (simp add: derive_def sampleSend_fields clockBehind_def deadlineOf_def narrowedEnd_def windowOf_def)

lemma sample_gate:
  "gateFor (Some (sampleConfig pol)) (V2 sampleSend) =
     Some \<lparr>lgt_owner = OwnerPresent, lgt_sendPolicy = Some pol, lgt_changePolicy = Some PChat, lgt_sendEpoch = Some 0,
           lgt_standingEpoch = Some 0\<rparr>"
  by (simp add: gateFor_def liveGateOf_def sampleSend_fields ownerEntry_def sampleConfig_def sendEpochOf_def
      standingEpochOf_def defaultChangePolicy_def Let_def)

lemma sample_claim:
  "claimSendRecord sampleRuntime sampleStore (Some (sampleConfig PChat)) (clockAt 2000) (clockAt 2000) sampleId sampleLive False =
     (putRecord sampleStore (stamped (sampleSend\<lparr>r_state := Sending, r_sendingAt := Some (Iso 2000)\<rparr>) 2000),
      Inr (sampleSend\<lparr>r_state := Sending, r_sendingAt := Some (Iso 2000)\<rparr>))"
proof -
  have m: "matchesExpectation (V2 sampleSend) (ownedBy KSend (lsd_inboxId sampleLive))"
    by (simp add: matchesExpectation_def kindOf_def ownerOf_def ownedBy_def sampleSend_fields sampleLive_def)
  have d: "derive sampleSend 2000 = sampleSend" by (rule sampleSend_derive) simp_all
  let ?oc = "classifyV2 sampleSend AClaim (gateFor (Some (sampleConfig PChat)) (V2 sampleSend)) 2000"
  have never: "derivedReason sampleSend AClaim (gateFor (Some (sampleConfig PChat)) (V2 sampleSend)) = None"
    "\<not> neverNow sampleSend (gateFor (Some (sampleConfig PChat)) (V2 sampleSend))"
    unfolding sample_gate
    by (simp_all add: derivedReason_def ownerGone_def neverNow_def sendsAs_def standingBound_def isChild_def sampleSend_fields
        stricterPolicy_def)
  have oc: "oc_error ?oc = None" "oc_claimable ?oc" "\<not> oc_revokes ?oc"
    using never classify_fields [of sampleSend AClaim "gateFor (Some (sampleConfig PChat)) (V2 sampleSend)" 2000]
    by (simp_all add: sampleSend_fields errorOf_def isClaimable_def sample_gate)
  have p: "sendProblem sampleRuntime sampleSend sampleLive = None"
    by (simp add: sendProblem_def accountDiffers_def sampleSend_fields sampleLive_def sameExpectation_def sameList_def)
  show ?thesis
    using openRecord_sound [OF sampleStore_file sampleSend_sound(2,1) sampleId_ok m, of "derive sampleSend 2000" "clockAt 2000"
        "Some (sampleConfig PChat)" AClaim] oc p
    by (simp add: claimSendRecord_def transition_def d currentRecord_def settle_def childPrior_def sampleSend_fields
        claimSendDecision_def conclude_def Let_def)
qed

end
