(* ===== verification/ApprovalClaims.thy ===== *)
theory ApprovalClaims
  imports ApprovalSamples
begin

text \<open>
  What a transition that succeeds was made on (\<open>transition_Inr\<close>): the stored record, valid, as it reads now, its
  classification without an error, and the decision. From it, what the configuration and the record said of a send
  whose claim returned (\<open>claim_permits\<close>).
\<close>

section \<open>What a transition that succeeds was made on\<close>

text \<open>A decision that refuses what was refused, and never leaves the record as it is.\<close>

definition careful :: "(approval \<Rightarrow> outcome \<Rightarrow> live_gate option \<Rightarrow> 'x \<Rightarrow> decision) \<Rightarrow> bool" where
  "careful decide \<longleftrightarrow>
     (\<forall>c oc live seen. decide c oc live seen \<noteq> Unchanged \<and>
        (\<forall>n. oc_error oc \<noteq> None \<longrightarrow> decide c oc live seen \<noteq> Next n None))"

definition openedAs :: "runtime \<Rightarrow> store \<Rightarrow> config option \<Rightarrow> clock \<Rightarrow> jstr \<Rightarrow> approval_expectation \<Rightarrow> approval \<Rightarrow> bool" where
  "openedAs rt st cfg ck i ax r \<longleftrightarrow>
     st_files st i = Some (V2File r) \<and> validateV2 rt r i = Valid \<and> matchesExpectation (V2 r) ax \<and>
     active r \<and> derive r (ck_derive ck) = r"

lemma conclude_Inr:
  assumes "conclude s c at dec = (st', Inr n)"
  shows "dec = Unchanged \<and> n = c \<and> st' = s \<or> dec = Next n None \<and> st' = putRecord s (stamped n at)"
  using assms by (cases dec) (auto simp: conclude_def split: option.splits)

lemma transition_Inr:
  assumes "transition rt st cfg ck i ax act token prior decide = (st', Inr n)" "careful decide"
  obtains r oc s seen where "openedAs rt st cfg ck i ax r" "oc = classifyV2 r act (gateFor cfg (V2 r)) (ck_classify ck)"
    "oc_error oc = None" "given token (\<lambda>t. \<not> holdsClaim st i t) = False" "prior st r oc = (s, seen)"
    "decide r oc (gateFor cfg (V2 r)) seen = Next n None" "st' = putRecord s (stamped n (ck_rewrite ck))"
proof (cases "openRecord rt st cfg ck i ax act")
  case (Inl e)
  then show ?thesis using assms(1) by (simp add: transition_def)
next
  case (Inr x)
  obtain r d oc live where x: "x = (r, d, oc, live)" by (cases x)
  note op = openRecord_Inr [OF Inr [unfolded x]]
  have token: "given token (\<lambda>t. \<not> holdsClaim st i t) = False"
    using assms(1) by (auto simp: transition_def Inr x split: if_splits)
  let ?c = "currentRecord act d oc"
  obtain s seen where p: "prior (settle st r ?c (ck_write ck)) ?c oc = (s, seen)" by fastforce
  have fin: "conclude s ?c (ck_rewrite ck) (decide ?c oc live seen) = (st', Inr n)"
    using assms(1) token by (simp add: transition_def Inr x p Let_def)
  then have dec: "decide ?c oc live seen = Next n None" and st': "st' = putRecord s (stamped n (ck_rewrite ck))"
    using conclude_Inr [OF fin] assms(2) unfolding careful_def by blast+
  then have e: "oc_error oc = None" using assms(2) unfolding careful_def by blast
  have d: "active d" "?c = d" using classify_no_error(1) [OF op(4) e] current_fields(4) [OF op(4) e] by blast+
  then have same: "d = r" using derive_same op(2) by blast
  have c: "?c = r" using d(2) same by simp
  have s: "settle st r ?c (ck_write ck) = st" unfolding c settle_def by simp
  show ?thesis
    by (rule that [of r oc s seen])
      (use findRecord_V2 [OF op(1)] op(2-4) d e token p dec st' s same in \<open>simp_all add: openedAs_def\<close>)
qed

lemma carefulI:
  "(\<And>c oc live seen. decide c oc live seen \<noteq> Unchanged) \<Longrightarrow>
   (\<And>c oc live seen n. oc_error oc \<noteq> None \<Longrightarrow> decide c oc live seen \<noteq> Next n None) \<Longrightarrow> careful decide"
  unfolding careful_def by blast

lemma wrongAnswer_simps [simp]: "wrongAnswer c at \<noteq> Unchanged" "wrongAnswer c at \<noteq> Next n None"
  by (simp_all add: wrongAnswer_def Let_def)

lemma issue_careful: "careful (\<lambda>current oc live seen. issueDecision rt challenge current oc)"
  by (rule carefulI) (auto simp: issueDecision_def split: option.splits)

lemma approve_careful: "careful (\<lambda>current oc gate seen. approveDecision rt kind via live answer at current oc gate)"
  by (rule carefulI) (auto simp: approveDecision_def split: option.splits)

lemma approveDisclosure_careful: "careful (\<lambda>current oc gate seen. approveDisclosureDecision rt binding answer via at current oc)"
  by (rule carefulI) (auto simp: approveDisclosureDecision_def split: option.splits)

lemma answer_careful: "careful (\<lambda>current oc gate seen. answerDecision rt via answer current oc)"
  by (rule carefulI) (auto simp: answerDecision_def split: option.splits)

lemma claimSend_careful:
  "careful (\<lambda>current oc gate seen. case seen of Inl e \<Rightarrow> Refuse e
     | Inr parentProblem \<Rightarrow> claimSendDecision rt live aborted at parentProblem current oc)"
  by (rule carefulI) (auto simp: claimSendDecision_def split: option.splits sum.splits)

lemma claimChange_careful: "careful (\<lambda>current oc gate seen. claimChangeDecision rt change pol aborted at says current oc gate)"
  by (rule carefulI) (auto simp: claimChangeDecision_def Let_def split: option.splits)

lemma claimDownload_careful: "careful (\<lambda>current oc gate seen. claimDownloadDecision rt live aborted at current oc)"
  by (rule carefulI) (auto simp: claimDownloadDecision_def split: option.splits)

lemma claimDisclosure_careful: "careful (\<lambda>current oc gate seen. claimDisclosureDecision binding deadline at current oc)"
  by (rule carefulI) (auto simp: claimDisclosureDecision_def split: option.splits)

lemma thenMark_Inr:
  assumes "thenMark done token = (st', Inr n)"
  obtains s where "done = (s, Inr n)" "st_claims s (r_approvalId n) = None"
    "st' = s\<lparr>st_claims := (st_claims s)(r_approvalId n := Some token)\<rparr>"
  using assms by (auto simp: thenMark_def markClaimed_def split: prod.splits sum.splits option.splits)

section \<open>What an outcome without an error means\<close>

lemma no_error_derived:
  assumes "oc = classifyV2 r act live now" "oc_error oc = None" "r_kind r \<noteq> KDisclosure"
  shows "derivedReason r act live = None" "active r"
    "act \<in> {AApprove, AClaim} \<Longrightarrow> live \<noteq> None \<and> \<not> ownerGone r live \<and> \<not> neverNow r live"
    "oc_claimable oc \<longleftrightarrow> \<not> neverNow r live \<and> given live (isClaimable r)"
proof -
  note f = classify_fields [OF assms(3), of act live now]
  show a: "active r" by (rule classify_no_error(1) [OF assms(1,2)])
  show n: "derivedReason r act live = None"
    using classify_no_error(2) [OF assms(1,2)] f(1) assms(1) by simp
  show "oc_claimable oc \<longleftrightarrow> \<not> neverNow r live \<and> given live (isClaimable r)"
    using f(4) n a assms(1) by simp
  show "act \<in> {AApprove, AClaim} \<Longrightarrow> live \<noteq> None \<and> \<not> ownerGone r live \<and> \<not> neverNow r live"
  proof -
    assume act: "act \<in> {AApprove, AClaim}"
    have e: "errorOf r act (live = None) (active r \<and> \<not> ownerGone r live \<and> neverNow r live \<and> act \<in> {AApprove, AClaim}) = None"
      using f(3) n assms(1,2) by simp
    have "live \<noteq> None" using e act a by (auto simp: errorOf_def split: if_splits)
    moreover have "\<not> ownerGone r live" "\<not> neverNow r live"
      using n a act by (auto simp: derivedReason_def split: if_splits)
    ultimately show ?thesis by blast
  qed
qed

text \<open>The live gate of a record that has an owner, where the owner is there.\<close>

lemma gate_owner:
  assumes "gateFor cfg (V2 r) = Some g" "r_ownerScope r = SOwner" "lgt_owner g \<noteq> OwnerRemoved"
  obtains c e where "cfg = Some c" "ownerEntry c (r_inboxId r) = Some e" "lgt_owner g = OwnerPresent"
    "lgt_sendPolicy g = Some (orDefault (en_sendPolicy e) (cf_defaultSend c))"
    "lgt_sendEpoch g = Some (sendEpochOf c (r_inboxId r))" "lgt_standingEpoch g = Some (standingEpochOf c)"
    "g = liveGateOf c r"
proof -
  obtain c where c: "cfg = Some c" "g = liveGateOf c r"
    using assms(1) by (auto simp: gateFor_def split: option.splits)
  obtain e where e: "ownerEntry c (r_inboxId r) = Some e"
    using assms c by (cases "ownerEntry c (r_inboxId r)") (auto simp: liveGateOf_def Let_def)
  show ?thesis by (rule that [of c e]) (use assms c e in \<open>simp_all add: liveGateOf_def Let_def\<close>)
qed

lemma sound_owner: "staticOk rt r \<Longrightarrow> r_kind r \<noteq> KChange \<Longrightarrow> r_kind r \<noteq> KDisclosure \<Longrightarrow> r_ownerScope r = SOwner"
  by (auto simp: staticOk_def checkIdentity_def Let_def firstFail_None)


section \<open>What each claim that returns was made on\<close>

text \<open>The account, draft, content and expectation a send was prepared for are those it is claimed with.\<close>

definition boundTo :: "runtime \<Rightarrow> approval \<Rightarrow> live_send \<Rightarrow> bool" where
  "boundTo rt r live \<longleftrightarrow>
     r_inboxId r = lsd_inboxId live \<and>
     (given (r_inboxSub r) (\<lambda>s. s \<noteq> []) \<longrightarrow> lsd_inboxSub live = r_inboxSub r) \<and>
     ld_draftMessageId (lsd_draft live) = r_draftMessageId r \<and> ld_contentDigest (lsd_draft live) = r_contentDigest r \<and>
     sameExpectation rt (lsd_expect live) (r_expect r)"

lemma sendProblem_None:
  "sendProblem rt r live = None \<Longrightarrow> r_inboxId r = lsd_inboxId live \<Longrightarrow> boundTo rt r live"
  by (auto simp: sendProblem_def boundTo_def accountDiffers_def split: if_splits)

lemma claimSendRecord_Inr:
  assumes "claimSendRecord rt st cfg ck pck i live aborted = (s', Inr n)"
  obtains r oc s where "openedAs rt st cfg ck i (ownedBy KSend (lsd_inboxId live)) r"
    "oc = classifyV2 r AClaim (gateFor cfg (V2 r)) (ck_classify ck)" "oc_error oc = None" "oc_claimable oc"
    "childPrior rt cfg pck st r oc = (s, Inr None)" "\<not> aborted" "sendProblem rt r live = None"
    "r_state r = Approved \<longrightarrow> r_approvedBindingDigest r = r_bindingDigest r"
    "n = r\<lparr>r_state := Sending, r_sendingAt := Some (Iso (ck_decide ck))\<rparr>" "s' = putRecord s (stamped n (ck_rewrite ck))"
proof (rule transition_Inr [OF assms [unfolded claimSendRecord_def] claimSend_careful])
  fix r oc s seen
  assume o1: "openedAs rt st cfg ck i (ownedBy KSend (lsd_inboxId live)) r" "oc = classifyV2 r AClaim (gateFor cfg (V2 r)) (ck_classify ck)"
    "oc_error oc = None" "childPrior rt cfg pck st r oc = (s, seen)" "s' = putRecord s (stamped n (ck_rewrite ck))"
    and d: "(case seen of Inl e \<Rightarrow> Refuse e
        | Inr parentProblem \<Rightarrow> claimSendDecision rt live aborted (ck_decide ck) parentProblem r oc) = Next n None"
  then obtain pp where pp: "seen = Inr pp" "claimSendDecision rt live aborted (ck_decide ck) pp r oc = Next n None"
    by (cases seen) auto
  then have "pp = None \<and> oc_claimable oc \<and> \<not> aborted \<and> sendProblem rt r live = None \<and>
      (r_state r = Approved \<longrightarrow> r_approvedBindingDigest r = r_bindingDigest r) \<and>
      n = r\<lparr>r_state := Sending, r_sendingAt := Some (Iso (ck_decide ck))\<rparr>"
    using o1(3) by (auto simp: claimSendDecision_def split: option.splits if_splits)
  then show ?thesis using that o1 pp(1) by blast
qed

lemma owned_by:
  assumes "openedAs rt st cfg ck i (ownedBy k owner) r" "k \<noteq> KDisclosure"
  shows "r_kind r = k" "r_inboxId r = owner"
  using assms by (auto simp: openedAs_def matchesExpectation_def kindOf_def ownerOf_def ownedBy_def split: if_splits)

lemma any_of:
  assumes "openedAs rt st cfg ck i (anyOf k) r"
  shows "r_kind r = k"
  using assms by (auto simp: openedAs_def matchesExpectation_def kindOf_def ownerOf_def anyOf_def split: if_splits)

lemma opened_static: "openedAs rt st cfg ck i ax r \<Longrightarrow> staticOk rt r" "openedAs rt st cfg ck i ax r \<Longrightarrow> dynamicOk rt r"
  "openedAs rt st cfg ck i ax r \<Longrightarrow> r_approvalId r = i"
  by (simp_all add: openedAs_def valid_iff)

text \<open>\<open>permits\<close>: what the configuration and the record say of a send that may start.\<close>

definition permits :: "config \<Rightarrow> approval \<Rightarrow> bool" where
  "permits c r \<longleftrightarrow>
     (\<exists>e. ownerEntry c (r_inboxId r) = Some e \<and>
        (let pol = orDefault (en_sendPolicy e) (cf_defaultSend c) in
           pol \<noteq> PNever \<and> r_requiredPolicy r \<noteq> PNever \<and>
           (r_state r = Approved \<and> r_approvedBindingDigest r = r_bindingDigest r
              \<or> r_state r = Pending \<and> r_route r = Some RChat \<and> pol = PChat))) \<and>
     r_sendEpoch r = Some (sendEpochOf c (r_inboxId r))"

lemma stricter_never: "stricterPolicy a b = PNever \<longleftrightarrow> a = PNever \<or> b = PNever"
  by (cases a; cases b) (simp_all add: stricterPolicy_def)

lemma send_epoch_present: "staticOk rt r \<Longrightarrow> r_kind r = KSend \<or> r_kind r = KStanding \<Longrightarrow> \<exists>e \<ge> 0. r_sendEpoch r = Some e"
  by (auto simp: staticOk_def checkIdentity_def Let_def firstFail_None given_iff)

lemma claim_permits:
  assumes "openedAs rt st cfg ck i (ownedBy KSend owner) r" "oc = classifyV2 r AClaim (gateFor cfg (V2 r)) t"
    "oc_error oc = None" "oc_claimable oc" "r_state r = Approved \<longrightarrow> r_approvedBindingDigest r = r_bindingDigest r"
  obtains c where "cfg = Some c" "permits c r"
proof -
  have k: "r_kind r = KSend" using owned_by [OF assms(1)] by simp
  note ne = no_error_derived [OF assms(2,3)]
  from ne(3) k obtain g where g: "gateFor cfg (V2 r) = Some g" by auto
  have scope: "r_ownerScope r = SOwner" using sound_owner [OF opened_static(1) [OF assms(1)]] k by simp
  have "lgt_owner g \<noteq> OwnerRemoved" using ne(3) k g scope by (auto simp: ownerGone_def)
  then obtain c e where c: "cfg = Some c" "ownerEntry c (r_inboxId r) = Some e" "lgt_owner g = OwnerPresent"
    "lgt_sendPolicy g = Some (orDefault (en_sendPolicy e) (cf_defaultSend c))" "lgt_sendEpoch g = Some (sendEpochOf c (r_inboxId r))"
    by (rule gate_owner [OF g scope])
  have never: "\<not> neverNow r (Some g)" using ne(3) k g by auto
  have epoch: "Some (orDefault (r_sendEpoch r) 0) = lgt_sendEpoch g"
    using ne(1,2) k g c(3) never by (auto simp: derivedReason_def sendsAs_def split: if_splits)
  obtain e0 where "r_sendEpoch r = Some e0" using send_epoch_present [OF opened_static(1) [OF assms(1)]] k by blast
  then have ep: "r_sendEpoch r = Some (sendEpochOf c (r_inboxId r))" using epoch c(5) by simp
  have "isClaimable r g" using ne(4) assms(4) g k by simp
  then have "permits c r"
    using ep c never ne(2) k assms(5)
    by (auto simp: permits_def neverNow_def sendsAs_def stricter_never isClaimable_def Let_def)
  then show ?thesis using that c(1) by blast
qed

end
