(* ===== verification/ApprovalLife.thy ===== *)
theory ApprovalLife
  imports ApprovalClaims
begin

text \<open>
  The life of an approval: a claim is granted once, records stay valid, follow the diagram of their states, are final when
  finished, and are approved only by an answer. With it, a send that waits for its code, and its approval.
\<close>


section \<open>A transition on a record that reads as it is stored\<close>

lemma transition_on:
  assumes "st_files st i = Some (V2File r)" "r_approvalId r = i" "soundRecord rt r" "approvalIdPattern i" "matchesExpectation (V2 r) ax"
    and "derive r (ck_derive ck) = r" "oc = classifyV2 r act (gateFor cfg (V2 r)) (ck_classify ck)" "\<not> oc_revokes oc"
    and "token = None \<or> (\<exists>t. token = Some t \<and> holdsClaim st i t)" "prior st r oc = (s, seen)"
  shows "transition rt st cfg ck i ax act token prior decide = conclude s r (ck_rewrite ck) (decide r oc (gateFor cfg (V2 r)) seen)"
proof -
  have c: "currentRecord act r oc = r" using assms(8) by (simp add: currentRecord_def)
  show ?thesis
    using openRecord_sound [OF assms(1-5) assms(6) [symmetric], of cfg act] assms(7,9,10) c
    by (auto simp: transition_def settle_def)
qed

definition issuedSend :: approval where
  "issuedSend = sampleSend\<lparr>r_challengeHash := Some (hashChallenge sampleRuntime (js ''code''))\<rparr>"

definition issuedStore :: store where "issuedStore = putRecord noStore issuedSend"

lemma issuedSend_sound: "soundRecord sampleRuntime issuedSend" "r_approvalId issuedSend = sampleId"
  by (simp_all add: issuedSend_def sampleSend_sound)

lemma issuedStore_file: "st_files issuedStore sampleId = Some (V2File issuedSend)"
  by (simp add: issuedStore_def putRecord_def issuedSend_sound)

lemma issued_derive: "1000 \<le> t \<Longrightarrow> t < 601000 \<Longrightarrow> derive issuedSend t = issuedSend"
  by (simp add: derive_def issuedSend_def sampleSend_fields clockBehind_def deadlineOf_def narrowedEnd_def windowOf_def)

lemma issued_gate: "gateFor cfg (V2 issuedSend) = gateFor cfg (V2 sampleSend)"
  by (simp add: gateFor_def liveGateOf_def issuedSend_def Let_def split: option.splits)

lemma issued_outcome:
  assumes "pol \<noteq> PNever"
  shows "oc_error (classifyV2 issuedSend act (gateFor (Some (sampleConfig pol)) (V2 issuedSend)) t) = None"
    "\<not> oc_revokes (classifyV2 issuedSend act (gateFor (Some (sampleConfig pol)) (V2 issuedSend)) t)"
proof -
  let ?g = "gateFor (Some (sampleConfig pol)) (V2 issuedSend)"
  have n: "\<not> neverNow issuedSend ?g" "\<not> ownerGone issuedSend ?g" "derivedReason issuedSend act ?g = None"
    unfolding issued_gate sample_gate
    using assms by (cases pol; simp add: derivedReason_def ownerGone_def neverNow_def sendsAs_def standingBound_def isChild_def
        issuedSend_def sampleSend_fields stricterPolicy_def)+
  have k: "r_kind issuedSend \<noteq> KDisclosure" by (simp add: issuedSend_def sampleSend_fields)
  have g: "?g \<noteq> None" unfolding issued_gate sample_gate by simp
  show "oc_error (classifyV2 issuedSend act ?g t) = None" "\<not> oc_revokes (classifyV2 issuedSend act ?g t)"
    using n g by (simp_all add: classify_fields [OF k]) (simp add: errorOf_def issuedSend_def sampleSend_fields)
qed

definition sampleDraft :: live_draft where "sampleDraft = lsd_draft sampleLive"

definition approvedSend :: approval where
  "approvedSend = approvedRecord issuedSend KSend Elicitation
     (gateFor (Some (sampleConfig PConfirm)) (V2 issuedSend)) 2000"

lemma sampleSha_some: "rtSha sampleRuntime x \<noteq> []"
  using sha_hexD [OF sha_hex_sample, of x] by (auto simp: hex64_def)

lemma sample_approve:
  "approve sampleRuntime issuedStore (Some (sampleConfig PConfirm)) (clockAt 2000) sampleId KSend Elicitation sampleDraft (js ''code'') =
     (putRecord issuedStore (stamped approvedSend 2000), Inr approvedSend)"
proof -
  have m: "matchesExpectation (V2 issuedSend) (anyOf KSend)"
    by (simp add: matchesExpectation_def kindOf_def ownerOf_def anyOf_def issuedSend_def sampleSend_fields)
  have d: "derive issuedSend (ck_derive (clockAt 2000)) = issuedSend" by (simp add: issued_derive)
  have o: "oc_error (classifyV2 issuedSend AApprove (gateFor (Some (sampleConfig PConfirm)) (V2 issuedSend)) 2000) = None"
    by (rule issued_outcome) simp
  have "approveDecision sampleRuntime KSend Elicitation sampleDraft (js ''code'') 2000 issuedSend
      (classifyV2 issuedSend AApprove (gateFor (Some (sampleConfig PConfirm)) (V2 issuedSend)) 2000)
      (gateFor (Some (sampleConfig PConfirm)) (V2 issuedSend)) = Next approvedSend None"
    using o by (simp add: approveDecision_def approvedSend_def noChallenge_def issuedSend_def sampleSend_fields sampleDraft_def
        sampleLive_def challengeMatches_def hashChallenge_def sampleSha_some)
  then show ?thesis
    unfolding approve_def
    using transition_on [OF issuedStore_file issuedSend_sound(2,1) sampleId_ok m d refl, of AApprove "Some (sampleConfig PConfirm)" None
        noPrior issuedStore "()"] issued_outcome(2) [of PConfirm]
    by (simp add: noPrior_def conclude_def)
qed

section \<open>Claims are granted once\<close>

text \<open>
  C1. Whatever operations run, in whatever order and interleaved with the markers other claims make, and whatever
  is written over the record files, no approval's claim is granted twice.
\<close>

theorem claim_granted_once:
  assumes "reachable rt s"
  shows "distinct (sy_granted s)"
  using reachable_grantedOnce [OF assms] by (simp add: grantedOnce_def)

definition sampleToken :: jstr where "sampleToken = js ''token''"

definition sampleClaim :: operation where
  "sampleClaim = OpClaimSend sampleId sampleLive False sampleToken (clockAt 2000)"

definition claimedStore :: store where
  "claimedStore = putRecord sampleStore (stamped (sampleSend\<lparr>r_state := Sending, r_sendingAt := Some (Iso 2000)\<rparr>) 2000)"

lemma sample_claims:
  "claims sampleRuntime (Some (sampleConfig PChat)) (clockAt 2000) sampleClaim sampleStore = Some (sampleId, Some sampleToken)"
  "perform sampleRuntime (Some (sampleConfig PChat)) (clockAt 2000) sampleClaim sampleStore = claimedStore"
  by (simp_all add: sampleClaim_def sample_claim sampleSend_sound claimedStore_def)

definition claimedSystem :: system where
  "claimedSystem =
     \<lparr>sy_store = claimedStore\<lparr>st_claims := [sampleId \<mapsto> Some sampleToken]\<rparr>, sy_waiting = [], sy_granted = [sampleId]\<rparr>"

lemma sample_reachable: "reachable sampleRuntime claimedSystem"
proof -
  have a: "reachable sampleRuntime \<lparr>sy_store = sampleStore, sy_waiting = [], sy_granted = []\<rparr>" by (rule start)
  have "step sampleRuntime \<lparr>sy_store = sampleStore, sy_waiting = [], sy_granted = []\<rparr>
      \<lparr>sy_store = claimedStore, sy_waiting = [(sampleId, Some sampleToken)], sy_granted = []\<rparr>"
    using operated [of sampleRuntime "\<lparr>sy_store = sampleStore, sy_waiting = [], sy_granted = []\<rparr>" "Some (sampleConfig PChat)"
        "clockAt 2000" sampleClaim]
    by (simp add: sample_claims)
  then have b: "reachable sampleRuntime \<lparr>sy_store = claimedStore, sy_waiting = [(sampleId, Some sampleToken)], sy_granted = []\<rparr>"
    by (rule further [OF a])
  have m: "markClaimed claimedStore sampleId (Some sampleToken) =
      (claimedStore\<lparr>st_claims := [sampleId \<mapsto> Some sampleToken]\<rparr>, Inr ())"
    by (simp add: markClaimed_def claimedStore_def sampleStore_def noStore_def putRecord_def)
  have "step sampleRuntime \<lparr>sy_store = claimedStore, sy_waiting = [(sampleId, Some sampleToken)], sy_granted = []\<rparr> claimedSystem"
    using granted [of sampleId "Some sampleToken" "\<lparr>sy_store = claimedStore, sy_waiting = [(sampleId, Some sampleToken)], sy_granted = []\<rparr>"
        "claimedStore\<lparr>st_claims := [sampleId \<mapsto> Some sampleToken]\<rparr>" sampleRuntime] m
    by (simp add: claimedSystem_def)
  then show ?thesis by (rule further [OF b])
qed

theorem claim_granted_once_witness:
  "reachable sampleRuntime claimedSystem \<and> sy_granted claimedSystem = [sampleId] \<and> distinct (sy_granted claimedSystem)"
  using claim_granted_once [OF sample_reachable] sample_reachable by (simp add: claimedSystem_def)

section \<open>Records stay valid\<close>

text \<open>
  C2. Through any run of operations, every record of the store is one the validator accepts, with one exception: a
  disclosure that was waiting when the clock was seen before it was made or approved (\<open>rolledBack\<close>) is expired as
  the code says, and the validator, which has no exemption for that expiry in a disclosure, then calls the record
  corrupt, its times misordered. The run starts from a store where that holds, may read any clock from one operation to
  the next, and meets these conditions (\<open>stepOk\<close>): a digest is 64 hexadecimal digits; change policies are chat or
  confirm; one operation reads one time while it derives, classifies and decides; and each operation is called as
  its callers call it (\<open>opOk\<close>): a record is created for a named owner and by a connection whose id has the form of one,
  a child is not its own parent, an approval or an answer names a way its kind has, and no caller gives the clock's
  reason as its own.
\<close>

theorem operations_keep_records_valid:
  assumes "soundStore rt st" "admits (performStep rt) (stepOk rt) ops st"
    and "st_files (fold (performStep rt) ops st) i = Some (V2File r)"
  shows "validateV2 rt r i = (if rolledBack rt r then Corrupt TimestampMisordered Verified else Valid)"
proof -
  have "soundStore rt (fold (performStep rt) ops st)" by (rule approvals.good_runs [OF assms(1,2)])
  then have r: "r_approvalId r = i" "keptRecord rt r" using assms(3) soundStoreD by blast+
  show ?thesis
  proof (cases "rolledBack rt r")
    case True
    then show ?thesis using rolledBack_corrupt r(1) by auto
  next
    case False
    then have "soundRecord rt r" using r(2) by (simp add: keptRecord_def)
    then show ?thesis using False r(1) by (simp add: valid_iff sound_static sound_dynamic)
  qed
qed

lemma sample_admitted:
  "admits (performStep sampleRuntime) (stepOk sampleRuntime) [(Some (sampleConfig PChat), clockAt 2000, sampleClaim)] sampleStore"
  by (simp add: stepOk_def sampleClaim_def sampleStore_def noStore_def putRecord_def sampleSend_fields)

theorem operations_keep_records_valid_witness:
  "admits (performStep sampleRuntime) (stepOk sampleRuntime) [(Some (sampleConfig PChat), clockAt 2000, sampleClaim)] sampleStore \<and>
   validateV2 sampleRuntime (stamped (sampleSend\<lparr>r_state := Sending, r_sendingAt := Some (Iso 2000)\<rparr>) 2000) sampleId = Valid"
proof -
  let ?r = "stamped (sampleSend\<lparr>r_state := Sending, r_sendingAt := Some (Iso 2000)\<rparr>) 2000"
  have "\<not> rolledBack sampleRuntime ?r"
    using rolledBack_fields [of sampleRuntime ?r] by auto
  then show ?thesis
    using operations_keep_records_valid [OF sampleStore_sound sample_admitted, of sampleId ?r] sample_admitted
    by (simp add: performStep_def sample_claims) (simp add: claimedStore_def putRecord_def sampleSend_sound)
qed

section \<open>The life cycle\<close>

text \<open>
  C3. An operation leaves a record that exists as it is, or moves it to a state its own state allows, with
  everything it was bound to unchanged: its kind, ids, account, content, policy, epochs, lifetimes and digests.
\<close>

theorem records_follow_the_life_cycle:
  assumes "st_files st j = Some (V2File r)" "makes op \<noteq> Some j"
  shows "\<exists>r'. st_files (perform rt cfg ck op st) j = Some (V2File r') \<and>
     (r' = r \<or> (r_state r' \<in> nextStates (r_state r) \<and> wipe r' = wipe r))"
  using perform_changed [OF assms(2), of st rt cfg ck] assms(1) by (auto simp: related_def moved_def)

theorem records_follow_the_life_cycle_witness:
  "st_files sampleStore sampleId = Some (V2File sampleSend) \<and> makes sampleClaim \<noteq> Some sampleId \<and>
   (\<exists>r'. st_files (perform sampleRuntime (Some (sampleConfig PChat)) (clockAt 2000) sampleClaim sampleStore) sampleId = Some (V2File r')
      \<and> r_state r' = Sending \<and> wipe r' = wipe sampleSend)"
proof -
  have m: "makes sampleClaim \<noteq> Some sampleId" by (simp add: sampleClaim_def)
  obtain r' where r': "st_files (perform sampleRuntime (Some (sampleConfig PChat)) (clockAt 2000) sampleClaim sampleStore) sampleId = Some (V2File r')"
    "r' = sampleSend \<or> (r_state r' \<in> nextStates (r_state sampleSend) \<and> wipe r' = wipe sampleSend)"
    using records_follow_the_life_cycle [OF sampleStore_file m] by blast
  have "r' = stamped (sampleSend\<lparr>r_state := Sending, r_sendingAt := Some (Iso 2000)\<rparr>) 2000"
    using r'(1) by (simp add: sample_claims claimedStore_def putRecord_def sampleSend_sound)
  then have "r_state r' = Sending" by simp
  then show ?thesis using r' m sampleStore_file by (auto simp: sampleSend_fields)
qed

text \<open>
  C4. A finished record is final: no run of operations changes a record that is used, failed, revoked or expired,
  unless one makes a new record of the same id.
\<close>

theorem finished_records_are_final:
  assumes "st_files st j = Some (V2File r)" "r_state r \<in> {Used, Failed, Revoked, Expired}"
    and "\<forall>(cfg, ck, op) \<in> set ops. makes op \<noteq> Some j"
  shows "st_files (fold (performStep rt) ops st) j = Some (V2File r)"
  using assms(1,3)
proof (induction ops arbitrary: st)
  case (Cons x xs)
  obtain cfg ck op where x: "x = (cfg, ck, op)" by (cases x)
  have "st_files (perform rt cfg ck op st) j = Some (V2File r)"
    using perform_changed [of op j st rt cfg ck] Cons.prems x assms(2) by (auto simp: related_def moved_def)
  then show ?case using Cons x by (auto simp: performStep_def)
qed simp

definition revokedSend :: approval where
  "revokedSend = sampleSend\<lparr>r_state := Revoked\<rparr>"

theorem finished_records_are_final_witness:
  "st_files (fold (performStep sampleRuntime) [(Some (sampleConfig PChat), clockAt 2000, sampleClaim)] (putRecord noStore revokedSend))
     sampleId = Some (V2File revokedSend)"
  by (rule finished_records_are_final)
    (simp_all add: putRecord_def revokedSend_def sampleSend_sound sampleClaim_def)

text \<open>
  C5. A record becomes approved only by an operation on it that shows what the approval needs: the code that was
  issued for it, with the draft or disclosure it was prepared for and the place it has to be approved at; or, for a
  download, the answer to the question it asks.
\<close>

theorem only_an_answer_approves:
  assumes "st_files st j = Some (V2File r)" "r_state r \<noteq> Approved" "makes op \<noteq> Some j"
    and "st_files (perform rt cfg ck op st) j = Some (V2File r')" "r_state r' = Approved"
  shows "approves op = Some j \<and> allows rt op r"
proof -
  have "allows rt op r"
    using perform_approves [OF assms(3), of rt st cfg ck] assms by (auto simp: related_def approvedBy_def)
  moreover from this have "approves op \<noteq> None" by (cases op) auto
  ultimately show ?thesis using approved_elsewhere [of op _ j rt cfg ck st] assms by auto
qed


definition sampleApproval :: operation where
  "sampleApproval = OpApprove sampleId KSend Elicitation sampleDraft (js ''code'')"

theorem only_an_answer_approves_witness:
  "st_files issuedStore sampleId = Some (V2File issuedSend) \<and> r_state issuedSend \<noteq> Approved \<and>
   st_files (perform sampleRuntime (Some (sampleConfig PConfirm)) (clockAt 2000) sampleApproval issuedStore) sampleId =
     Some (V2File (stamped approvedSend 2000)) \<and> r_state (stamped approvedSend 2000) = Approved \<and>
   allows sampleRuntime sampleApproval issuedSend"
proof -
  have f: "st_files (perform sampleRuntime (Some (sampleConfig PConfirm)) (clockAt 2000) sampleApproval issuedStore) sampleId =
     Some (V2File (stamped approvedSend 2000))"
    by (simp add: sampleApproval_def sample_approve putRecord_def) (simp add: approvedSend_def approvedRecord_def issuedSend_sound)
  have s: "r_state issuedSend \<noteq> Approved" by (simp add: issuedSend_def sampleSend_fields)
  have n: "r_state (stamped approvedSend 2000) = Approved" by (simp add: approvedSend_def approvedRecord_def)
  have m: "makes sampleApproval \<noteq> Some sampleId" by (simp add: sampleApproval_def)
  show ?thesis using only_an_answer_approves [OF issuedStore_file s m f n] issuedStore_file s f n by blast
qed

end
