(* ===== verification/StandingUse.thy ===== *)
theory StandingUse
  imports ApprovalLife
begin

text \<open>
  When a standing approval covers a use of it: what the look at the parent of a child asks (\<open>standingParentProblem\<close>),
  as conditions on the stored record and on the configuration (\<open>inForce\<close>, \<open>covers\<close>), and that they are exact.
\<close>

text \<open>What has to hold of a standing approval while a send is made under it.\<close>

definition covers :: "approval \<Rightarrow> standing_use \<Rightarrow> bool" where
  "covers p use \<longleftrightarrow>
     (\<exists>b f. r_standing p = Some b \<and> effectiveStanding b (r_narrowed p) = Inr f \<and>
        list_ex (\<lambda>c. sc_digest c = su_content use) (sb_contents f) \<and>
        (case sb_places f of ThreadsIAmIn \<Rightarrow> True | Exact ps \<Rightarrow> list_ex (\<lambda>p. pl_id p = su_channel use) ps))"

lemma parentCovers_None:
  assumes "parentCovers child use oc = Inr None"
  obtains p where "oc_error oc = None" "oc_record oc = Some p" "r_state p = Approved" "covers p use"
  using assms
  by (auto simp: parentCovers_def covers_def Let_def split: option.splits sum.splits standing_places.splits if_splits)


lemma inspected_parent:
  assumes "inspect rt st cfg ck i (ownedBy KStanding owner) AClaim = (st', Inr (x, oc))" "oc_error oc = None" "oc_record oc = Some p"
  shows "openedAs rt st cfg ck i (ownedBy KStanding owner) p" "oc = classifyV2 p AClaim (gateFor cfg (V2 p)) (ck_classify ck)"
proof -
  obtain found where f: "findRecord rt st cfg (ck_read ck) i (ownedBy KStanding owner) = Inr found"
    using assms(1) by (cases "findRecord rt st cfg (ck_read ck) i (ownedBy KStanding owner)") (auto simp: inspect_def)
  obtain r where r: "found = V2 r"
    using assms f by (cases found) (auto simp: inspect_def derivedForm_def approvalOutcome_def refusedOutcome_def Let_def)
  obtain d where d: "d = derive r (ck_derive ck)" by blast
  have oc: "oc = classifyV2 d AClaim (gateFor cfg (V2 d)) (ck_classify ck)"
    using assms(1) f r by (auto simp: inspect_def derivedForm_def approvalOutcome_def Let_def d)
  have a: "active d" by (rule classify_no_error(1) [OF oc assms(2)])
  have same: "d = r" using derive_same a d by blast
  have "oc_record oc = Some d"
  proof (cases "r_kind d = KDisclosure")
    case True
    then show ?thesis unfolding oc by (simp add: classifyDisclosure_def)
  next
    case False
    show ?thesis using no_error_derived(1) [OF oc assms(2) False] classify_fields(2) [OF False, of AClaim "gateFor cfg (V2 d)" "ck_classify ck"] oc
      by simp
  qed
  then have p: "p = r" "p = d" using assms(3) same by simp_all
  show "oc = classifyV2 p AClaim (gateFor cfg (V2 p)) (ck_classify ck)" using oc p by simp
  show "openedAs rt st cfg ck i (ownedBy KStanding owner) p"
    using findRecord_V2 [OF f [unfolded r]] a d p unfolding openedAs_def by metis
qed

lemma standing_gate:
  assumes "openedAs rt st cfg ck i ax p" "r_kind p = KStanding" "oc = classifyV2 p AClaim (gateFor cfg (V2 p)) t" "oc_error oc = None"
  shows "\<exists>c. cfg = Some c \<and> r_standingEpoch p = Some (standingEpochOf c) \<and> r_sendEpoch p = Some (sendEpochOf c (r_inboxId p))"
proof -
  have nk: "r_kind p \<noteq> KDisclosure" using assms(2) by simp
  note ne = no_error_derived [OF assms(3,4) nk]
  from ne(3) obtain g where g: "gateFor cfg (V2 p) = Some g" by auto
  have scope: "r_ownerScope p = SOwner" using sound_owner [OF opened_static(1) [OF assms(1)]] assms(2) by simp
  have "lgt_owner g \<noteq> OwnerRemoved" using ne(3) g scope by (auto simp: ownerGone_def)
  then obtain c e where c: "cfg = Some c" "lgt_owner g = OwnerPresent" "lgt_sendEpoch g = Some (sendEpochOf c (r_inboxId p))"
    "lgt_standingEpoch g = Some (standingEpochOf c)"
    by (rule gate_owner [OF g scope])
  have d: "derivedReason p AClaim (Some g) = None" using ne(1) g by simp
  have n: "\<not> neverNow p (Some g)" using ne(3) g by simp
  have o: "\<not> ownerGone p (Some g)" using ne(3) g by simp
  obtain e0 where e0: "r_sendEpoch p = Some e0" using send_epoch_present [OF opened_static(1) [OF assms(1)]] assms(2) by blast
  have "Some e0 = lgt_sendEpoch g" "r_standingEpoch p = lgt_standingEpoch g"
    using d n o ne(2) assms(2) c(2,4) e0
    unfolding derivedReason_def by (auto simp: sendsAs_def standingBound_def split: if_splits)
  then show ?thesis using c e0 by simp
qed

text \<open>
  \<open>inForce\<close>: a standing approval that may be used now. It is approved and in its window, prepared in the epochs of the
  configuration, its account is still there and not set to never, and no person raised the change policy since.
\<close>

definition inForce :: "config \<Rightarrow> int \<Rightarrow> approval \<Rightarrow> bool" where
  "inForce c now p \<longleftrightarrow>
     r_state p = Approved \<and> derive p now = p \<and> r_requiredPolicy p \<noteq> PNever \<and>
     r_sendEpoch p = Some (sendEpochOf c (r_inboxId p)) \<and> r_standingEpoch p = Some (standingEpochOf c) \<and>
     given (ownerEntry c (r_inboxId p)) (\<lambda>e. orDefault (en_sendPolicy e) (cf_defaultSend c) \<noteq> PNever \<and>
       \<not> changePolicyTightened (r_approvedChangePolicy p) (Some (orDefault (en_changePolicy e) (defaultChangePolicy c))))"

lemma standing_no_error:
  assumes "staticOk rt p" "r_kind p = KStanding" "r_state p = Approved"
  shows "oc_error (classifyV2 p AClaim (gateFor (Some c) (V2 p)) t) = None \<longleftrightarrow>
     derivedReason p AClaim (Some (liveGateOf c p)) = None"
proof -
  have nk: "r_kind p \<noteq> KDisclosure" using assms(2) by simp
  show ?thesis
    using classify_fields(3) [OF nk, of AClaim "gateFor (Some c) (V2 p)" t] assms(3)
    by (cases "derivedReason p AClaim (Some (liveGateOf c p))") (simp_all add: gateFor_def errorOf_def)
qed

lemma standing_derived:
  assumes "staticOk rt p" "r_kind p = KStanding" "r_state p = Approved" "derive p now = p"
  shows "derivedReason p AClaim (Some (liveGateOf c p)) = None \<longleftrightarrow> inForce c now p"
proof -
  have scope: "r_ownerScope p = SOwner" using sound_owner [OF assms(1)] assms(2) by simp
  obtain e0 where e0: "r_sendEpoch p = Some e0" using send_epoch_present [OF assms(1)] assms(2) by blast
  show ?thesis
    using assms(2-4) scope e0
    by (cases "ownerEntry c (r_inboxId p)")
      (simp_all add: derivedReason_def inForce_def liveGateOf_def Let_def ownerGone_def neverNow_def sendsAs_def
        standingBound_def stricter_never)
qed

text \<open>The look at an approval that is in force gives the record itself, with no error; and only then.\<close>

lemma inspect_in_force:
  assumes "approvalIdPattern i" "st_files st i = Some (V2File p)" "validateV2 rt p i = Valid" "r_kind p = KStanding"
    "inForce c (ck_derive ck) p"
  obtains oc where "inspect rt st (Some c) ck i (ownedBy KStanding (r_inboxId p)) AClaim = (st, Inr (V2 p, oc))"
    "oc_error oc = None" "oc_record oc = Some p"
proof -
  have s: "staticOk rt p" using assms(3) by (simp add: valid_iff)
  have d: "r_state p = Approved" "derive p (ck_derive ck) = p" using assms(5) by (simp_all add: inForce_def)
  have m: "matchesExpectation (V2 p) (ownedBy KStanding (r_inboxId p))"
    using assms(4) by (simp add: matchesExpectation_def kindOf_def ownerOf_def ownedBy_def)
  have f: "findRecord rt st (Some c) (ck_read ck) i (ownedBy KStanding (r_inboxId p)) = Inr (V2 p)"
    using assms(1-3) m by (simp add: findRecord_def decodeStored_def)
  have nk: "r_kind p \<noteq> KDisclosure" using assms(4) by simp
  obtain oc where oc: "oc = classifyV2 p AClaim (gateFor (Some c) (V2 p)) (ck_classify ck)" by blast
  have n: "derivedReason p AClaim (gateFor (Some c) (V2 p)) = None"
    using standing_derived [OF s assms(4) d] assms(5) by (simp add: gateFor_def)
  have e: "oc_error oc = None" using standing_no_error [OF s assms(4) d(1), of c "ck_classify ck"] n oc by (simp add: gateFor_def)
  have r: "oc_record oc = Some p" "\<not> oc_revokes oc"
    using classify_fields(1,2) [OF nk, of AClaim "gateFor (Some c) (V2 p)" "ck_classify ck"] n oc by simp_all
  have "inspect rt st (Some c) ck i (ownedBy KStanding (r_inboxId p)) AClaim = (st, Inr (V2 p, oc))"
    using r(2) d(2) oc by (simp add: inspect_def f derivedForm_def approvalOutcome_def settle_def Let_def)
  then show ?thesis using that e r(1) by blast
qed

definition useCovered :: "runtime \<Rightarrow> store \<Rightarrow> config \<Rightarrow> clock \<Rightarrow> approval \<Rightarrow> bool" where
  "useCovered rt st c pck r \<longleftrightarrow> r_standingEpoch r = Some (standingEpochOf c) \<and>
     (\<exists>parent use p. r_standingId r = Some parent \<and> r_standingUse r = Some use \<and> approvalIdPattern parent \<and>
        st_files st parent = Some (V2File p) \<and> validateV2 rt p parent = Valid \<and> r_kind p = KStanding \<and>
        r_inboxId p = r_inboxId r \<and> inForce c (ck_derive pck) p \<and> covers p use)"

lemma parent_no_problem:
  assumes "useCovered rt st c pck r"
  shows "snd (standingParentProblem rt st (Some c) pck r) = Inr None"
proof -
  obtain parent use p where u: "r_standingId r = Some parent" "r_standingUse r = Some use" "approvalIdPattern parent"
    "st_files st parent = Some (V2File p)" "validateV2 rt p parent = Valid" "r_kind p = KStanding" "r_inboxId p = r_inboxId r"
    "inForce c (ck_derive pck) p" "covers p use"
    using assms unfolding useCovered_def by blast
  obtain oc where oc: "inspect rt st (Some c) pck parent (ownedBy KStanding (r_inboxId p)) AClaim = (st, Inr (V2 p, oc))"
    "oc_error oc = None" "oc_record oc = Some p"
    by (rule inspect_in_force [OF u(3-6,8)])
  have a: "r_state p = Approved" using u(8) by (simp add: inForce_def)
  obtain b f where b: "r_standing p = Some b" "effectiveStanding b (r_narrowed p) = Inr f"
    "list_ex (\<lambda>c. sc_digest c = su_content use) (sb_contents f)"
    "case sb_places f of ThreadsIAmIn \<Rightarrow> True | Exact ps \<Rightarrow> list_ex (\<lambda>p. pl_id p = su_channel use) ps"
    using u(9) unfolding covers_def by blast
  have "parentCovers r use oc = Inr None"
    using oc(2,3) a b by (cases "sb_places f") (simp_all add: parentCovers_def Let_def)
  then show ?thesis using u(1,2,7) oc(1) by (simp add: standingParentProblem_def)
qed

lemma no_problem_covered:
  assumes "snd (standingParentProblem rt st (Some c) pck r) = Inr None" "r_standingEpoch r = Some (standingEpochOf c)"
  shows "useCovered rt st c pck r"
proof -
  obtain parent use st' x oc where u: "r_standingId r = Some parent" "r_standingUse r = Some use"
    "inspect rt st (Some c) pck parent (ownedBy KStanding (r_inboxId r)) AClaim = (st', Inr (x, oc))" "parentCovers r use oc = Inr None"
    using assms(1) by (auto simp: standingParentProblem_def split: option.splits prod.splits sum.splits)
  obtain p where p: "oc_error oc = None" "oc_record oc = Some p" "r_state p = Approved" "covers p use"
    by (rule parentCovers_None [OF u(4)])
  note ip = inspected_parent [OF u(3) p(1,2)]
  have k: "r_kind p = KStanding" "r_inboxId p = r_inboxId r" using owned_by [OF ip(1)] by simp_all
  have o: "st_files st parent = Some (V2File p)" "validateV2 rt p parent = Valid" "derive p (ck_derive pck) = p"
    using ip(1) by (simp_all add: openedAs_def)
  have s: "staticOk rt p" by (rule opened_static(1) [OF ip(1)])
  have "approvalIdPattern parent"
    by (rule ccontr) (use u(3) in \<open>simp add: inspect_def findRecord_def\<close>)
  moreover have "inForce c (ck_derive pck) p"
    using standing_no_error [OF s k(1) p(3), of c "ck_classify pck"] p(1) unfolding ip(2) standing_derived [OF s k(1) p(3) o(3)] by simp
  ultimately show ?thesis using u(1,2) o(1,2) k p(4) assms(2) unfolding useCovered_def by blast
qed

end
