(* ===== verification/SendEpochs.thy ===== *)
theory SendEpochs
  imports ConfigPolicy
begin

text \<open>
  What the epochs of the configuration promise (\<open>withSendEpochs\<close>, \<open>withStandingEpoch\<close>): over the writes of a store that
  holds whole numbers, an owner's send epoch never falls and rises with every write that turns the owner to never, and
  the standing epoch never falls and rises with every write that tightens a change policy.
\<close>

section \<open>One write\<close>

lemma update_not_Nil [simp]: "AList.update k v xs \<noteq> []"
  by (cases xs) auto

lemma fold_update_Nil:
  "fold (\<lambda>(i, e). AList.update i e) xs es = [] \<longleftrightarrow> xs = [] \<and> es = []"
  "fold (\<lambda>(i, e) es. AList.update i (max (epochOr0 es i) e) es) xs es' = [] \<longleftrightarrow> xs = [] \<and> es' = []"
  "fold (\<lambda>i. AList.update i (f i)) ids es = [] \<longleftrightarrow> ids = [] \<and> es = []"
proof -
  have g: "fold f xs es = [] \<longleftrightarrow> xs = [] \<and> es = []" if "\<And>x es. f x es \<noteq> []" for f and xs :: "'b list" and es :: "'a list"
    using that by (induction xs arbitrary: es) simp_all
  show "fold (\<lambda>(i, e). AList.update i e) xs es = [] \<longleftrightarrow> xs = [] \<and> es = []"
    "fold (\<lambda>(i, e) es. AList.update i (max (epochOr0 es i) e) es) xs es' = [] \<longleftrightarrow> xs = [] \<and> es' = []"
    "fold (\<lambda>i. AList.update i (f i)) ids es = [] \<longleftrightarrow> ids = [] \<and> es = []"
    by (rule g; simp split: prod.split)+
qed

lemma owedEpochs_Nil:
  "owedEpochs was now = [] \<longleftrightarrow>
     orDefault (cf_sendEpochs was) [] = [] \<and> orDefault (cf_sendEpochs now) [] = [] \<and> fencedOwners was now = []"
  by (auto simp: owedEpochs_def Let_def fold_update_Nil)

definition heldEpochs :: "config \<Rightarrow> (jstr \<times> int) list" where
  "heldEpochs c = orDefault (cf_sendEpochs c) []"

text \<open>What the schema of the configuration has: one epoch for an owner, a whole number of 0 or more.\<close>

definition epochsOk :: "config \<Rightarrow> bool" where
  "epochsOk c \<longleftrightarrow> cf_version c = 3 \<and> distinct (map fst (heldEpochs c)) \<and> (\<forall>(i, e) \<in> set (heldEpochs c). 0 \<le> e)"

lemma sendEpochOf_held: "epochsOk c \<Longrightarrow> sendEpochOf c i = epochOr0 (heldEpochs c) i"
  by (auto simp: sendEpochOf_def epochOr0_def epochsOk_def heldEpochs_def split: option.splits dest: map_of_SomeD)

lemma written_epochs:
  assumes "withSendEpochs was now = Inr kept" "cf_version was = 3" "cf_version now = 3"
  shows "heldEpochs kept = owedEpochs was now" "cf_version kept = 3"
    "kept = now \<or> kept = now\<lparr>cf_sendEpochs := Some (owedEpochs was now)\<rparr>"
proof -
  have "owedEpochs was now = [] \<and> kept = now \<or> kept = now\<lparr>cf_sendEpochs := Some (owedEpochs was now)\<rparr>"
    using assms by (auto simp: withSendEpochs_def Let_def split: if_splits)
  then show "heldEpochs kept = owedEpochs was now" "cf_version kept = 3"
    "kept = now \<or> kept = now\<lparr>cf_sendEpochs := Some (owedEpochs was now)\<rparr>"
    using assms(3) owedEpochs_Nil [of was now] by (auto simp: heldEpochs_def)
qed

lemma owed_value:
  assumes "distinct (map fst (heldEpochs was))"
  shows "epochOr0 (heldEpochs was) i \<le> epochOr0 (owedEpochs was now) i"
    "i \<in> set (fencedOwners was now) \<Longrightarrow> epochOr0 (owedEpochs was now) i = epochOr0 (heldEpochs was) i + 1"
proof -
  let ?kept = "fold (\<lambda>(i, e). AList.update i e) (heldEpochs was) []"
  let ?raised = "fold (\<lambda>(i, e) es. AList.update i (max (epochOr0 es i) e) es) (heldEpochs now) ?kept"
  have o: "epochOr0 (owedEpochs was now) i =
      (if i \<in> set (fencedOwners was now) then epochOr0 (heldEpochs was) i + 1 else epochOr0 ?raised i)"
    by (simp add: owedEpochs_def heldEpochs_def Let_def fold_bump)
  have "epochOr0 (heldEpochs was) i \<le> epochOr0 ?raised i"
    using fold_max_ge [of ?kept i] epochOr0_kept [OF assms] by simp
  then show "epochOr0 (heldEpochs was) i \<le> epochOr0 (owedEpochs was now) i"
    "i \<in> set (fencedOwners was now) \<Longrightarrow> epochOr0 (owedEpochs was now) i = epochOr0 (heldEpochs was) i + 1"
    using o by auto
qed

lemma update_distinct: "distinct (map fst xs) \<Longrightarrow> distinct (map fst (AList.update k v xs))"
  by (rule distinct_update)

lemma owed_distinct: "distinct (map fst (owedEpochs was now))"
proof -
  have g: "distinct (map fst (fold f xs es))" if "\<And>x es. distinct (map fst es) \<Longrightarrow> distinct (map fst (f x es))" "distinct (map fst es)"
    for f and xs :: "'b list" and es :: "(jstr \<times> int) list"
    using that(2) by (induction xs arbitrary: es) (simp_all add: that(1))
  show ?thesis unfolding owedEpochs_def Let_def by (intro g) (auto intro: update_distinct split: prod.split)
qed

lemma write_keeps_epochs:
  assumes "withSendEpochs was now = Inr kept" "epochsOk was" "cf_version now = 3"
  shows "epochsOk kept" "sendEpochOf was i \<le> sendEpochOf kept i"
    "i \<in> set (fencedOwners was now) \<Longrightarrow> sendEpochOf kept i = sendEpochOf was i + 1"
proof -
  have was: "cf_version was = 3" "distinct (map fst (heldEpochs was))" using assms(2) by (simp_all add: epochsOk_def)
  note w = written_epochs [OF assms(1) was(1) assms(3)]
  have "0 \<le> epochOr0 (heldEpochs was) j" for j
    using assms(2) by (auto simp: epochOr0_def epochsOk_def orDefault_def split: option.split dest: map_of_SomeD)
  then have nonneg: "0 \<le> epochOr0 (heldEpochs kept) j" for j
    using owed_value(1) [OF was(2), of j now] w(1) order_trans by metis
  have d: "distinct (map fst (heldEpochs kept))" using owed_distinct w(1) by simp
  have "0 \<le> e" if "(j, e) \<in> set (heldEpochs kept)" for j e
    using nonneg [of j] d that by (simp add: epochOr0_def)
  then show ok: "epochsOk kept" using d w(2) by (auto simp: epochsOk_def)
  show "sendEpochOf was i \<le> sendEpochOf kept i"
    "i \<in> set (fencedOwners was now) \<Longrightarrow> sendEpochOf kept i = sendEpochOf was i + 1"
    using owed_value [OF was(2), of i now] w(1) sendEpochOf_held [OF ok] sendEpochOf_held [OF assms(2)] by simp_all
qed

section \<open>Every write that follows\<close>

text \<open>\<open>writes c xs\<close>: the configuration after each write of \<open>xs\<close> that is allowed; one that is refused leaves it.\<close>

definition configWrite :: "config \<Rightarrow> config \<Rightarrow> config" where
  "configWrite was now = (case withSendEpochs was now of Inl _ \<Rightarrow> was | Inr kept \<Rightarrow> withStandingEpoch was kept)"

definition configWrites :: "config list \<Rightarrow> config \<Rightarrow> config" where
  "configWrites nows c = foldl configWrite c nows"

lemma withStandingEpoch_send [simp]:
  "cf_sendEpochs (withStandingEpoch was now) = cf_sendEpochs now" "cf_version (withStandingEpoch was now) = cf_version now"
  by (simp_all add: withStandingEpoch_def Let_def)

lemma standing_keeps_send [simp]:
  "epochsOk (withStandingEpoch was now) = epochsOk now" "sendEpochOf (withStandingEpoch was now) i = sendEpochOf now i"
  by (simp_all add: epochsOk_def heldEpochs_def sendEpochOf_def)

lemma configWrite_epochs:
  assumes "epochsOk was" "cf_version now = 3"
  shows "epochsOk (configWrite was now) \<and> sendEpochOf was i \<le> sendEpochOf (configWrite was now) i"
  using write_keeps_epochs [OF _ assms] assms(1) by (simp add: configWrite_def split: sum.split)

lemma configWrites_epochs:
  "epochsOk c \<Longrightarrow> (\<forall>now \<in> set nows. cf_version now = 3) \<Longrightarrow>
     epochsOk (configWrites nows c) \<and> sendEpochOf c i \<le> sendEpochOf (configWrites nows c) i"
proof (induction nows arbitrary: c)
  case (Cons now nows)
  have "epochsOk (configWrite c now)" "sendEpochOf c i \<le> sendEpochOf (configWrite c now) i"
    using configWrite_epochs [of c now i] Cons.prems by simp_all
  then show ?case using Cons.IH [of "configWrite c now"] Cons.prems(2) by (auto simp: configWrites_def)
qed (simp add: configWrites_def)

text \<open>Epochs through one write, and through the writes after it.\<close>

lemma fenced_forever:
  assumes "epochsOk was" "withSendEpochs was now = Inr kept" "\<forall>c \<in> set (now # nows). cf_version c = 3"
    and "owner \<in> set (fencedOwners was now)"
  shows "sendEpochOf was owner < sendEpochOf (configWrites (now # nows) was) owner"
proof -
  have v: "cf_version now = 3" using assms(3) by simp
  note w = write_keeps_epochs [OF assms(2,1) v]
  have c: "configWrite was now = withStandingEpoch was kept" using assms(2) by (simp add: configWrite_def)
  have "sendEpochOf (configWrite was now) owner \<le> sendEpochOf (configWrites nows (configWrite was now)) owner"
    using configWrites_epochs [of "configWrite was now" nows owner] assms(3) w(1) c by simp
  then show ?thesis using w(3) [OF assms(4)] c by (simp add: configWrites_def)
qed

section \<open>Promises\<close>

text \<open>
  C11. No write of the configuration lowers an owner's send epoch, whatever epochs its own copy holds, and a write
  that turns an owner from another policy to never raises the owner's by one.
\<close>

theorem send_epochs_never_fall:
  assumes "epochsOk was" "cf_version now = 3" "withSendEpochs was now = Inr kept"
  shows "epochsOk kept \<and> sendEpochOf was owner \<le> sendEpochOf kept owner \<and>
     (owner \<in> set (fencedOwners was now) \<longrightarrow> sendEpochOf kept owner = sendEpochOf was owner + 1)"
  using write_keeps_epochs [OF assms(3,1,2)] by blast

definition chatConfig :: "send_policy \<Rightarrow> (jstr \<times> int) list option \<Rightarrow> config" where
  "chatConfig pol epochs =
     \<lparr>cf_version = 3, cf_inboxes = [(js ''work'', \<lparr>en_id = js ''ibx_1'', en_sendPolicy = Some pol, en_changePolicy = None, en_platform = []\<rparr>)],
      cf_accounts = [], cf_defaultSend = PConfirm, cf_defaultChange = None, cf_sendEpochs = epochs, cf_standingEpoch = None,
      cf_legacyDrain = False\<rparr>"

lemma chatConfig_ok [simp]: "epochsOk (chatConfig pol None)" "epochsOk (chatConfig pol (Some [(i, 4)]))" "cf_version (chatConfig pol es) = 3"
  by (simp_all add: epochsOk_def heldEpochs_def chatConfig_def)

lemma chatConfig_fenced:
  "js ''ibx_1'' \<in> set (fencedOwners (chatConfig PChat a) (chatConfig PNever b))"
  by (simp add: fencedOwners_def sendPoliciesById_def policiesById_def chatConfig_def)

lemma chatConfig_write: "\<exists>kept. withSendEpochs (chatConfig PChat a) (chatConfig PNever b) = Inr kept"
  by (simp add: withSendEpochs_def Let_def chatConfig_def)

theorem send_epochs_never_fall_witness:
  "\<exists>kept. withSendEpochs (chatConfig PChat (Some [(js ''ibx_1'', 4)])) (chatConfig PNever None) = Inr kept \<and>
     sendEpochOf kept (js ''ibx_1'') = 5"
proof -
  obtain kept where k: "withSendEpochs (chatConfig PChat (Some [(js ''ibx_1'', 4)])) (chatConfig PNever None) = Inr kept"
    using chatConfig_write by blast
  have "sendEpochOf kept (js ''ibx_1'') = sendEpochOf (chatConfig PChat (Some [(js ''ibx_1'', 4)])) (js ''ibx_1'') + 1"
    using send_epochs_never_fall [OF chatConfig_ok(2,3) k] chatConfig_fenced by blast
  then show ?thesis using k by (auto simp: sendEpochOf_def chatConfig_def)
qed

text \<open>
  The standing epoch after a write is the higher of the two, and one more when the write turns a change policy
  from chat to confirm: it never falls, and no standing approval outlives a tightening.
\<close>

lemma standing_epoch_of_a_write:
  assumes "cf_version was = 3" "cf_version now = 3"
  shows "standingEpochOf (withStandingEpoch was now) =
     max (standingEpochOf was) (standingEpochOf now) + (if tightensAChangePolicy was now then 1 else 0)"
proof -
  have n: "0 \<le> standingEpochOf c" for c by (simp add: standingEpochOf_def split: option.split)
  show ?thesis using assms n [of was] n [of now]
    by (auto simp: withStandingEpoch_def Let_def standingEpochOf_def [of "now\<lparr>cf_standingEpoch := _\<rparr>"])
qed



theorem standing_epoch_of_a_write_witness:
  "standingEpochOf (withStandingEpoch (chatConfig PChat None) ((chatConfig PChat None)\<lparr>cf_defaultChange := Some PConfirm\<rparr>)) = 1"
proof -
  have "tightensAChangePolicy (chatConfig PChat None) ((chatConfig PChat None)\<lparr>cf_defaultChange := Some PConfirm\<rparr>)"
    by (simp add: tightensAChangePolicy_def defaultChangePolicy_def chatConfig_def)
  moreover have "standingEpochOf (chatConfig PChat None) = 0"
    "standingEpochOf ((chatConfig PChat None)\<lparr>cf_defaultChange := Some PConfirm\<rparr>) = 0"
    by (simp_all add: standingEpochOf_def chatConfig_def)
  ultimately show ?thesis
    using standing_epoch_of_a_write [of "chatConfig PChat None" "(chatConfig PChat None)\<lparr>cf_defaultChange := Some PConfirm\<rparr>"] by simp
qed

end
