(* ===== verification/ApprovalSends.thy ===== *)
theory ApprovalSends
  imports StandingUse SendEpochs
begin

text \<open>
  What a send needs to start, exactly, and what refuses it: the policy never, the epochs that turning sending off
  leaves behind, and the window that passed.
\<close>


section \<open>What a send that starts was allowed by\<close>

lemma send_claimed:
  assumes "claimForSend rt st cfg ck pck i live aborted token = (st', Inr n)"
  obtains r c where "st_files st i = Some (V2File r)" "validateV2 rt r i = Valid" "r_kind r = KSend"
    "derive r (ck_derive ck) = r" "active r" "cfg = Some c" "permits c r" "boundTo rt r live" "\<not> aborted"
    "n = r\<lparr>r_state := Sending, r_sendingAt := Some (Iso (ck_decide ck))\<rparr>"
    "st_files st' i = Some (V2File (stamped n (ck_rewrite ck)))"
    "st_claims st i = None" "st_claims st' = (st_claims st)(i := Some (Some token))"
proof -
  obtain s1 where m: "claimSendRecord rt st cfg ck pck i live aborted = (s1, Inr n)" "st_claims s1 (r_approvalId n) = None"
    "st' = s1\<lparr>st_claims := (st_claims s1)(r_approvalId n := Some (Some token))\<rparr>"
    using assms unfolding claimForSend_def by (rule thenMark_Inr)
  show ?thesis
  proof (rule claimSendRecord_Inr [OF m(1)])
    fix r oc s
    assume a: "openedAs rt st cfg ck i (ownedBy KSend (lsd_inboxId live)) r"
      "oc = classifyV2 r AClaim (gateFor cfg (V2 r)) (ck_classify ck)" "oc_error oc = None" "oc_claimable oc"
      "childPrior rt cfg pck st r oc = (s, Inr None)" "\<not> aborted" "sendProblem rt r live = None"
      "r_state r = Approved \<longrightarrow> r_approvedBindingDigest r = r_bindingDigest r"
      "n = r\<lparr>r_state := Sending, r_sendingAt := Some (Iso (ck_decide ck))\<rparr>" "s1 = putRecord s (stamped n (ck_rewrite ck))"
    obtain c where c: "cfg = Some c" "permits c r" by (rule claim_permits [OF a(1-4,8)])
    have own: "r_approvalId n = i" using opened_static(3) [OF a(1)] a(9) by simp
    have claims: "st_claims s1 = st_claims st" using childPrior_claims [of rt cfg pck st r oc] a(5,10) by simp
    have stored: "st_files st' i = Some (V2File (stamped n (ck_rewrite ck)))" using m(3) a(10) own by (simp add: putRecord_def)
    have marker: "st_claims st i = None" "st_claims st' = (st_claims st)(i := Some (Some token))" using m(2,3) own claims by simp_all
    note k = owned_by [OF a(1)]
    have opened: "st_files st i = Some (V2File r)" "validateV2 rt r i = Valid" "active r" "derive r (ck_derive ck) = r"
      using a(1) unfolding openedAs_def by blast+
    show ?thesis
      by (rule that [OF opened(1,2) _ opened(4,3) c _ a(6,9) stored marker]) (use k sendProblem_None [OF a(7)] in simp_all)
  qed
qed

text \<open>
  C6. A claim for a send returns only for a stored record the validator accepts, in its window, made for the
  account, draft, content, recipients and subject it is claimed with; while the owner is there, its send policy is not
  never, its send epoch is the one the record was made in; and after the record was approved as it is bound, or, on
  the chat route, while the policy is still chat. It leaves the record sending, and the claim's marker where none was.
\<close>

theorem send_claim_conditions:
  assumes "claimForSend rt st cfg ck pck i live aborted token = (st', Inr n)"
  shows "\<exists>r c. st_files st i = Some (V2File r) \<and> validateV2 rt r i = Valid \<and> r_kind r = KSend \<and>
     derive r (ck_derive ck) = r \<and> cfg = Some c \<and> permits c r \<and> boundTo rt r live \<and> \<not> aborted \<and>
     n = r\<lparr>r_state := Sending, r_sendingAt := Some (Iso (ck_decide ck))\<rparr> \<and>
     st_files st' i = Some (V2File (stamped n (ck_rewrite ck))) \<and>
     st_claims st i = None \<and> st_claims st' = (st_claims st)(i := Some (Some token))"
  by (rule send_claimed [OF assms]) blast

lemma sample_claimForSend:
  "claimForSend sampleRuntime sampleStore (Some (sampleConfig PChat)) (clockAt 2000) (clockAt 2000) sampleId sampleLive False sampleToken =
     (claimedStore\<lparr>st_claims := [sampleId \<mapsto> Some sampleToken]\<rparr>, Inr (sampleSend\<lparr>r_state := Sending, r_sendingAt := Some (Iso 2000)\<rparr>))"
  unfolding claimForSend_def sample_claim
  by (simp add: thenMark_def markClaimed_def claimedStore_def sampleStore_def noStore_def putRecord_def sampleSend_sound)

theorem send_claim_conditions_witness:
  "snd (claimForSend sampleRuntime sampleStore (Some (sampleConfig PChat)) (clockAt 2000) (clockAt 2000) sampleId sampleLive False sampleToken)
     = Inr (sampleSend\<lparr>r_state := Sending, r_sendingAt := Some (Iso 2000)\<rparr>) \<and>
   (\<exists>r. st_files sampleStore sampleId = Some (V2File r) \<and> permits (sampleConfig PChat) r \<and> boundTo sampleRuntime r sampleLive)"
  using send_claim_conditions [OF sample_claimForSend] by (auto simp: sample_claimForSend)

lemma boundTo_iff: "sendProblem rt r live = None \<and> r_inboxId r = lsd_inboxId live \<longleftrightarrow> boundTo rt r live"
  by (auto simp: sendProblem_def boundTo_def accountDiffers_def given_iff)

text \<open>The gate of a send the configuration permits, and the outcome it gives.\<close>

lemma permitted_outcome:
  assumes "soundRecord rt r" "r_kind r = KSend" "isChild r \<longrightarrow> r_standingEpoch r = Some (standingEpochOf c)" "permits c r" "oc = classifyV2 r AClaim (gateFor (Some c) (V2 r)) t"
  shows "oc_error oc = None" "\<not> oc_revokes oc" "oc_claimable oc"
proof -
  have scope: "r_ownerScope r = SOwner" using sound_owner [OF sound_static [OF assms(1)]] assms(2) by simp
  obtain e where e: "ownerEntry c (r_inboxId r) = Some e" using assms(4) by (auto simp: permits_def)
  obtain g where g: "gateFor (Some c) (V2 r) = Some g" "lgt_owner g = OwnerPresent"
    "lgt_sendPolicy g = Some (orDefault (en_sendPolicy e) (cf_defaultSend c))" "lgt_sendEpoch g = Some (sendEpochOf c (r_inboxId r))"
    "lgt_standingEpoch g = Some (standingEpochOf c)"
    using scope e by (simp add: gateFor_def liveGateOf_def Let_def)
  have pol: "orDefault (en_sendPolicy e) (cf_defaultSend c) \<noteq> PNever" "r_requiredPolicy r \<noteq> PNever" "r_sendEpoch r = Some (sendEpochOf c (r_inboxId r))"
    "active r" "r_state r = Approved \<or> r_route r = Some RChat \<and> orDefault (en_sendPolicy e) (cf_defaultSend c) = PChat"
    using assms(4) e by (auto simp: permits_def Let_def)
  have n: "\<not> neverNow r (Some g)" "\<not> ownerGone r (Some g)"
    using pol g by (simp_all add: neverNow_def stricter_never ownerGone_def)
  have d: "derivedReason r AClaim (Some g) = None"
    using n g pol assms(2,3) by (simp add: derivedReason_def standingBound_def)
  have k: "r_kind r \<noteq> KDisclosure" using assms(2) by simp
  note f = classify_fields [OF k, of AClaim "Some g" t]
  show "oc_error oc = None" "\<not> oc_revokes oc"
    using f d n pol(4) g(1) assms(5) by (auto simp: errorOf_def)
  show "oc_claimable oc"
    using f d n pol g assms(2,5) by (auto simp: isClaimable_def)
qed

lemma claim_succeeds:
  assumes "st_files st i = Some (V2File r)" "r_approvalId r = i" "soundRecord rt r" "approvalIdPattern i" "r_kind r = KSend"
    and "isChild r \<longrightarrow> useCovered rt st c pck r" "derive r (ck_derive ck) = r" "permits c r" "boundTo rt r live" "st_claims st i = None"
  shows "snd (claimForSend rt st (Some c) ck pck i live False token) =
    Inr (r\<lparr>r_state := Sending, r_sendingAt := Some (Iso (ck_decide ck))\<rparr>)"
proof -
  obtain oc where oc: "oc = classifyV2 r AClaim (gateFor (Some c) (V2 r)) (ck_classify ck)" by blast
  have "isChild r \<longrightarrow> r_standingEpoch r = Some (standingEpochOf c)" using assms(6) by (simp add: useCovered_def)
  note o = permitted_outcome [OF assms(3,5) this assms(8) oc]
  have own: "r_inboxId r = lsd_inboxId live" "sendProblem rt r live = None" using assms(9) boundTo_iff by blast+
  have m: "matchesExpectation (V2 r) (ownedBy KSend (lsd_inboxId live))"
    using own(1) assms(5) by (simp add: matchesExpectation_def kindOf_def ownerOf_def ownedBy_def)
  have "r_route r = Some RStanding \<longleftrightarrow> isChild r" using assms(5) by (simp add: isChild_def)
  then have "snd (childPrior rt (Some c) pck st r oc) = Inr None"
    using assms(6) parent_no_problem by (simp add: childPrior_def)
  then obtain s where prior: "childPrior rt (Some c) pck st r oc = (s, Inr None)"
    by (cases "childPrior rt (Some c) pck st r oc") simp
  have marks: "st_claims s = st_claims st"
    using childPrior_claims [of rt "Some c" pck st r oc] prior by simp
  have a: "r_state r = Approved \<longrightarrow> r_approvedBindingDigest r = r_bindingDigest r"
    using assms(8) by (auto simp: permits_def Let_def)
  obtain n where n: "n = r\<lparr>r_state := Sending, r_sendingAt := Some (Iso (ck_decide ck))\<rparr>" by blast
  have "claimSendDecision rt live False (ck_decide ck) None r oc = Next n None"
    using o own(2) a n by (simp add: claimSendDecision_def)
  then have rec: "claimSendRecord rt st (Some c) ck pck i live False = (putRecord s (stamped n (ck_rewrite ck)), Inr n)"
    unfolding claimSendRecord_def
    using transition_on [OF assms(1-4) m assms(7) oc o(2), of None "childPrior rt (Some c) pck" s "Inr None"] prior
    by (simp add: conclude_def)
  have "r_approvalId n = i" using assms(2) n by simp
  then show ?thesis using rec assms(10) n marks by (simp add: claimForSend_def thenMark_def markClaimed_def putRecord_def)
qed

text \<open>A child's claim that returned: its standing approval covered it.\<close>

lemma child_covered:
  assumes "claimForSend rt st (Some c) ck pck i live aborted token = (st', Inr n)" "st_files st i = Some (V2File r)" "isChild r"
  shows "useCovered rt st c pck r"
proof -
  obtain s1 where m: "claimSendRecord rt st (Some c) ck pck i live aborted = (s1, Inr n)"
    using assms(1) unfolding claimForSend_def by (rule thenMark_Inr)
  show ?thesis
  proof (rule claimSendRecord_Inr [OF m])
    fix r' oc s
    assume a: "openedAs rt st (Some c) ck i (ownedBy KSend (lsd_inboxId live)) r'"
      "oc = classifyV2 r' AClaim (gateFor (Some c) (V2 r')) (ck_classify ck)" "oc_error oc = None" "oc_claimable oc"
      "childPrior rt (Some c) pck st r' oc = (s, Inr None)" "r_state r' = Approved \<longrightarrow> r_approvedBindingDigest r' = r_bindingDigest r'"
    have r': "r' = r" using a(1) assms(2) by (simp add: openedAs_def)
    have k: "r_kind r = KSend" using assms(3) by (simp add: isChild_def)
    obtain c0 where "permits c0 r" using claim_permits [OF a(1-4,6)] r' by metis
    then have st: "r_state r = Approved" using assms(3) by (auto simp: permits_def isChild_def Let_def)
    have parent: "snd (standingParentProblem rt st (Some c) pck r) = Inr None"
      using a(3,5) st assms(3) r' by (simp add: childPrior_def isChild_def)
    have nk: "r_kind r' \<noteq> KDisclosure" using k r' by simp
    note ne = no_error_derived [OF a(2,3) nk]
    from ne(3) obtain g where g: "gateFor (Some c) (V2 r) = Some g" using r' by auto
    have scope: "r_ownerScope r = SOwner" using sound_owner [OF opened_static(1) [OF a(1)]] k r' by simp
    have "lgt_owner g \<noteq> OwnerRemoved" using ne(3) g scope r' by (auto simp: ownerGone_def)
    then have epoch: "lgt_standingEpoch g = Some (standingEpochOf c)" "lgt_owner g = OwnerPresent"
      by (auto elim!: gate_owner [OF g scope])
    have "r_standingEpoch r = lgt_standingEpoch g"
      using ne(1,2,3) g epoch assms(3) r' unfolding derivedReason_def
      by (auto simp: sendsAs_def standingBound_def split: if_splits)
    then show ?thesis using no_problem_covered [OF parent] epoch by simp
  qed
qed

text \<open>
  C7. The conditions are exact: for a valid stored send the claim returns if and only if the record is active and in
  its window, the configuration permits it, it is bound to what it is claimed with, the caller has not given up meanwhile
  (\<open>aborted\<close>), nobody claimed it before, and, where it is a use of a standing approval, that approval covers it now
  (\<open>useCovered\<close>): the record it names is a valid standing approval of the same account, in force under the
  configuration (\<open>inForce\<close>), and holds its content and place after every narrowing (\<open>covers\<close>).
\<close>

theorem send_claim_exactly:
  assumes "st_files st i = Some (V2File r)" "r_approvalId r = i" "soundRecord rt r" "approvalIdPattern i" "r_kind r = KSend"
  shows "(\<exists>n. snd (claimForSend rt st (Some c) ck pck i live aborted token) = Inr n) \<longleftrightarrow>
     derive r (ck_derive ck) = r \<and> permits c r \<and> boundTo rt r live \<and> (isChild r \<longrightarrow> useCovered rt st c pck r)
     \<and> \<not> aborted \<and> st_claims st i = None"
proof
  assume "\<exists>n. snd (claimForSend rt st (Some c) ck pck i live aborted token) = Inr n"
  then obtain st' n where cl: "claimForSend rt st (Some c) ck pck i live aborted token = (st', Inr n)"
    by (cases "claimForSend rt st (Some c) ck pck i live aborted token") auto
  then have "derive r (ck_derive ck) = r \<and> permits c r \<and> boundTo rt r live \<and> \<not> aborted \<and> st_claims st i = None"
    by (rule send_claimed) (use assms(1) in auto)
  then show "derive r (ck_derive ck) = r \<and> permits c r \<and> boundTo rt r live \<and> (isChild r \<longrightarrow> useCovered rt st c pck r)
     \<and> \<not> aborted \<and> st_claims st i = None"
    using child_covered [OF cl assms(1)] by blast
next
  assume a: "derive r (ck_derive ck) = r \<and> permits c r \<and> boundTo rt r live \<and> (isChild r \<longrightarrow> useCovered rt st c pck r)
     \<and> \<not> aborted \<and> st_claims st i = None"
  then show "\<exists>n. snd (claimForSend rt st (Some c) ck pck i live aborted token) = Inr n"
    using claim_succeeds [OF assms, of c pck ck live token] by auto
qed

lemma sample_permits: "permits (sampleConfig PChat) sampleSend"
  by (simp add: permits_def sampleSend_fields sampleConfig_def ownerEntry_def sendEpochOf_def)

lemma sample_bound: "boundTo rt sampleSend sampleLive"
  by (simp add: boundTo_def sampleSend_fields sampleLive_def sameExpectation_def sameList_def)

lemma sample_not_child: "\<not> isChild sampleSend"
  by (simp add: isChild_def sampleSend_fields)

theorem send_claim_exactly_witness:
  "(\<exists>n. snd (claimForSend sampleRuntime sampleStore (Some (sampleConfig PChat)) (clockAt 3000) (clockAt 3000) sampleId sampleLive
      False sampleToken) = Inr n) \<and> \<not> isChild sampleSend"
proof -
  have k: "r_kind sampleSend = KSend" by (simp add: sampleSend_fields)
  have "derive sampleSend (ck_derive (clockAt 3000)) = sampleSend" by (simp add: sampleSend_derive)
  moreover have "st_claims sampleStore sampleId = None" by (simp add: sampleStore_def noStore_def)
  ultimately show ?thesis
    using send_claim_exactly [OF sampleStore_file sampleSend_sound(2,1) sampleId_ok k] sample_permits sample_bound
      sample_not_child by blast
qed

text \<open>
  C8. Where the send policy is confirm, or a record was prepared on another route than chat, no send starts without
  an approval: the record is approved, with the way it was approved, for the content it is bound to.
\<close>

theorem confirmed_before_sending:
  assumes "snd (claimForSend rt st (Some c) ck pck i live aborted token) = Inr n" "st_files st i = Some (V2File r)"
    and "ownerEntry c (r_inboxId r) = Some e"
    and "orDefault (en_sendPolicy e) (cf_defaultSend c) = PConfirm \<or> r_route r \<noteq> Some RChat"
  shows "r_state r = Approved \<and> r_approvedVia r \<noteq> None \<and> r_approvedAt r \<noteq> None \<and> r_approvedBindingDigest r = r_bindingDigest r"
proof -
  obtain st' where "claimForSend rt st (Some c) ck pck i live aborted token = (st', Inr n)" using assms(1) by (cases "claimForSend rt st (Some c) ck pck i live aborted token") simp
  then obtain c' where r: "validateV2 rt r i = Valid" "r_kind r = KSend" "active r" "permits c r"
    by (rule send_claimed) (use assms(2) in auto)
  then have a: "r_state r = Approved" "r_approvedBindingDigest r = r_bindingDigest r"
    using assms(3,4) by (auto simp: permits_def Let_def)
  have dyn: "dynamicOk rt r" using r(1) by (simp add: valid_iff)
  have "staticOk rt r" using r(1) by (simp add: valid_iff)
  then have b: "r_bindingDigest r \<noteq> None" by (auto simp: staticOk_def)
  have "checkEvidence rt r = None" using dyn r(2) by (simp add: dynamicOk_def)
  then have "r_approvedVia r \<noteq> None \<and> r_approvedAt r \<noteq> None"
    using r(2) a b by (auto simp: checkEvidence_def Let_def orElse_None firstFail_None present_def split: if_splits)
  then show ?thesis using a by blast
qed


definition approvedStore :: store where
  "approvedStore = putRecord noStore approvedSend"

lemma approvedSend_fields:
  "r_approvalId approvedSend = sampleId" "r_kind approvedSend = KSend" "r_state approvedSend = Approved" "r_route approvedSend = Some RChat"
  "r_approvedBindingDigest approvedSend = r_bindingDigest approvedSend" "r_approvedAt approvedSend = Some (Iso 2000)"
  "r_usableUntil approvedSend = Some (Iso 86402000)" "r_createdAt approvedSend = Iso 1000" "r_inboxId approvedSend = sampleInbox"
  "r_requiredPolicy approvedSend = PChat" "r_sendEpoch approvedSend = Some 0" "r_inboxSub approvedSend = r_inboxSub sampleSend"
  "r_draftMessageId approvedSend = r_draftMessageId sampleSend" "r_contentDigest approvedSend = r_contentDigest sampleSend"
  "r_expect approvedSend = r_expect sampleSend"
  by (simp_all add: approvedSend_def approvedRecord_def issuedSend_def sampleSend_fields sampleSend_sound LIFETIME_approved_def)


lemma sample_gate_values:
  "gateFor (Some (sampleConfig pol)) (V2 issuedSend) = Some \<lparr>lgt_owner = OwnerPresent, lgt_sendPolicy = Some pol,
     lgt_changePolicy = Some PChat, lgt_sendEpoch = Some 0, lgt_standingEpoch = Some 0\<rparr>"
  unfolding issued_gate by (rule sample_gate)

lemma approvedSend_sound: "soundRecord sampleRuntime approvedSend"
proof -
  have p: "r_state issuedSend = Pending" "r_kind issuedSend = KSend" by (simp_all add: issuedSend_def sampleSend_fields)
  have "inWindow issuedSend 2000"
    using derive_inWindow [OF issuedSend_sound(1), of 2000] p by (simp add: issued_derive)
  then show ?thesis
    using sound_approved [OF issuedSend_sound(1) p(1), of 2000 Elicitation "gateFor (Some (sampleConfig PConfirm)) (V2 issuedSend)"] p(2)
    by (simp add: approvedSend_def sample_gate_values)
qed

lemma approvedStore_file: "st_files approvedStore sampleId = Some (V2File approvedSend)"
  by (simp add: approvedStore_def putRecord_def approvedSend_fields)

lemma approved_derive: "2000 \<le> t \<Longrightarrow> t < 86402000 \<Longrightarrow> derive approvedSend t = approvedSend"
  by (simp add: derive_def approvedSend_fields clockBehind_def deadlineOf_def narrowedEnd_def windowOf_def timeOf_def firstOf_def)

lemma approved_permits: "permits (sampleConfig PConfirm) approvedSend"
  by (simp add: permits_def approvedSend_fields sampleConfig_def ownerEntry_def sendEpochOf_def)

lemma approved_bound: "boundTo sampleRuntime approvedSend sampleLive"
  using sample_bound [of sampleRuntime] unfolding boundTo_def approvedSend_fields sampleSend_fields(4) .

lemma approved_claim:
  "snd (claimForSend sampleRuntime approvedStore (Some (sampleConfig PConfirm)) (clockAt 3000) (clockAt 3000) sampleId sampleLive False
     sampleToken) = Inr (approvedSend\<lparr>r_state := Sending, r_sendingAt := Some (Iso 3000)\<rparr>)"
  using claim_succeeds [OF approvedStore_file approvedSend_fields(1) approvedSend_sound sampleId_ok approvedSend_fields(2) _ _ approved_permits
      approved_bound, of "clockAt 3000" "clockAt 3000" sampleToken] approved_derive [of 3000]
  by (simp add: isChild_def approvedSend_fields approvedStore_def noStore_def)

theorem confirmed_before_sending_witness:
  "(\<exists>n. snd (claimForSend sampleRuntime approvedStore (Some (sampleConfig PConfirm)) (clockAt 3000) (clockAt 3000) sampleId sampleLive
     False sampleToken) = Inr n) \<and> r_state approvedSend = Approved \<and> r_approvedVia approvedSend \<noteq> None"
proof -
  have e: "ownerEntry (sampleConfig PConfirm) (r_inboxId approvedSend) =
      Some \<lparr>en_id = sampleInbox, en_sendPolicy = Some PConfirm, en_changePolicy = None, en_platform = []\<rparr>"
    by (simp add: ownerEntry_def sampleConfig_def approvedSend_fields)
  show ?thesis using confirmed_before_sending [OF approved_claim approvedStore_file e] approved_claim by auto
qed

section \<open>What refuses\<close>

text \<open>A transition refused by what the record is now classified as: the refusal, and the revocation it writes.\<close>

lemma transition_refused:
  assumes "st_files st i = Some (V2File r)" "r_approvalId r = i" "soundRecord rt r" "approvalIdPattern i" "matchesExpectation (V2 r) ax"
    and "d = derive r (ck_derive ck)" "oc = classifyV2 d act (gateFor cfg (V2 d)) (ck_classify ck)" "oc_error oc = Some e"
    and "\<And>c live seen. decide c oc live seen = Refuse e"
  shows "transition rt st cfg ck i ax act None noPrior decide = (settle st r (currentRecord act d oc) (ck_write ck), Inl e)"
  using openRecord_sound [OF assms(1-6), of cfg act] assms(7,9)
  by (simp add: transition_def noPrior_def conclude_def Let_def)

lemma claim_refused:
  assumes "st_files st i = Some (V2File r)" "r_approvalId r = i" "soundRecord rt r" "approvalIdPattern i" "r_kind r = KSend"
    "r_inboxId r = lsd_inboxId live"
    and "d = derive r (ck_derive ck)" "oc = classifyV2 d AClaim (gateFor cfg (V2 d)) (ck_classify ck)" "oc_error oc = Some e"
  shows "claimForSend rt st cfg ck pck i live aborted token = (settle st r (currentRecord AClaim d oc) (ck_write ck), Inl e)"
proof -
  have m: "matchesExpectation (V2 r) (ownedBy KSend (lsd_inboxId live))"
    using assms(5,6) by (simp add: matchesExpectation_def kindOf_def ownerOf_def ownedBy_def)
  show ?thesis
    using openRecord_sound [OF assms(1-4) m assms(7), of cfg AClaim] assms(8,9)
    by (simp add: claimForSend_def claimSendRecord_def transition_def childPrior_def claimSendDecision_def conclude_def
        thenMark_def Let_def)
qed

text \<open>A send that is read in its window and whose owner's policy is never.\<close>

lemma refused_reason:
  assumes "r_kind d \<noteq> KDisclosure" "oc = classifyV2 d act live t" "derivedReason d act live = Some reason"
  shows "currentRecord AClaim d oc = revokedAs d reason t" "oc_error oc = Some (if \<not> ownerGone d live \<and> neverNow d live \<and> act \<in> {AApprove, AClaim} then POLICY_NEVER else APPROVAL_VOID)"
proof -
  note f = classify_fields [OF assms(1), of act live t]
  have a: "active d" using derivedReason_Some(1) [OF assms(3)] .
  show "currentRecord AClaim d oc = revokedAs d reason t" using f assms(2,3) by (simp add: currentRecord_def firstOf_def)
  show "oc_error oc = Some (if \<not> ownerGone d live \<and> neverNow d live \<and> act \<in> {AApprove, AClaim} then POLICY_NEVER else APPROVAL_VOID)"
    using f assms(2,3) a by (auto simp: errorOf_def)
qed

text \<open>
  C9. Where sending is off, a use revokes: a claim for a pending or approved send whose owner's policy is never is
  refused as such, and the record is revoked, so that it cannot be used after sending is allowed again.
\<close>

theorem never_refuses_and_revokes:
  assumes "st_files st i = Some (V2File r)" "r_approvalId r = i" "soundRecord rt r" "approvalIdPattern i" "r_kind r = KSend"
    "r_inboxId r = lsd_inboxId live" "active r" "derive r (ck_derive ck) = r"
    and "ownerEntry c (r_inboxId r) = Some e" "orDefault (en_sendPolicy e) (cf_defaultSend c) = PNever"
  shows "snd (claimForSend rt st (Some c) ck pck i live aborted token) = Inl POLICY_NEVER \<and>
    (\<exists>r'. st_files (fst (claimForSend rt st (Some c) ck pck i live aborted token)) i = Some (V2File r') \<and> r_state r' = Revoked)"
proof -
  have scope: "r_ownerScope r = SOwner" using sound_owner [OF sound_static [OF assms(3)]] assms(5) by simp
  obtain g where g: "gateFor (Some c) (V2 r) = Some g" "lgt_owner g = OwnerPresent" "lgt_sendPolicy g = Some PNever"
    using scope assms(9,10) by (simp add: gateFor_def liveGateOf_def Let_def)
  have n: "neverNow r (Some g)" "\<not> ownerGone r (Some g)"
    using g assms(5) by (simp_all add: neverNow_def sendsAs_def stricter_never ownerGone_def)
  then have d: "derivedReason r AClaim (Some g) = Some (neverReason r (Some g))"
    using assms(7) by (simp add: derivedReason_def)
  obtain oc where oc: "oc = classifyV2 r AClaim (gateFor (Some c) (V2 r)) (ck_classify ck)" by blast
  have k: "r_kind r \<noteq> KDisclosure" using assms(5) by simp
  note rr = refused_reason [OF k oc [unfolded g(1)] d]
  have "claimForSend rt st (Some c) ck pck i live aborted token =
      (settle st r (currentRecord AClaim r oc) (ck_write ck), Inl POLICY_NEVER)"
    by (rule claim_refused [OF assms(1-6) assms(8) [symmetric] oc]) (use rr(2) n in simp)
  then show ?thesis
    using rr(1) assms(2,7) by (auto simp: settle_def putRecord_def revokedAs_def stamped_def)
qed

theorem never_refuses_and_revokes_witness:
  "snd (claimForSend sampleRuntime approvedStore (Some (sampleConfig PNever)) (clockAt 3000) (clockAt 3000) sampleId sampleLive False
     sampleToken) = Inl POLICY_NEVER"
proof -
  have "ownerEntry (sampleConfig PNever) (r_inboxId approvedSend) =
      Some \<lparr>en_id = sampleInbox, en_sendPolicy = Some PNever, en_changePolicy = None, en_platform = []\<rparr>"
    by (simp add: ownerEntry_def sampleConfig_def approvedSend_fields)
  then show ?thesis
    using never_refuses_and_revokes [OF approvedStore_file approvedSend_fields(1) approvedSend_sound sampleId_ok approvedSend_fields(2),
        of sampleLive "clockAt 3000" "sampleConfig PNever"] approved_derive [of 3000]
    by (simp add: approvedSend_fields sampleLive_def)
qed

text \<open>
  C10. Turning sending off ends what was prepared, for good: a record made before the write that turned its owner to
  never is refused under every later configuration, even where the policy was put back to chat, because that write
  raised the owner's send epoch and no later one lowers it.
\<close>

theorem turned_off_stays_off:
  assumes "epochsOk was" "withSendEpochs was now = Inr kept" "\<forall>c \<in> set (now # nows). cf_version c = 3"
    and "owner \<in> set (fencedOwners was now)"
    and "st_files st i = Some (V2File r)" "r_inboxId r = owner" "r_sendEpoch r = Some e" "e \<le> sendEpochOf was owner"
  shows "\<nexists>n. snd (claimForSend rt st (Some (configWrites (now # nows) was)) ck pck i live aborted token) = Inr n"
proof
  let ?c = "configWrites (now # nows) was"
  assume "\<exists>n. snd (claimForSend rt st (Some ?c) ck pck i live aborted token) = Inr n"
  then obtain st' n where "claimForSend rt st (Some ?c) ck pck i live aborted token = (st', Inr n)"
    by (cases "claimForSend rt st (Some ?c) ck pck i live aborted token") auto
  then have "permits ?c r" by (rule send_claimed) (use assms(5) in auto)
  then have "e = sendEpochOf ?c owner" using assms(6,7) by (simp add: permits_def)
  then show False using fenced_forever [OF assms(1-4)] assms(8) by simp
qed

lemma sampleConfig_epochs: "epochsOk (sampleConfig pol)" "cf_version (sampleConfig pol) = 3" "sendEpochOf (sampleConfig pol) i = 0"
  by (simp_all add: epochsOk_def heldEpochs_def sampleConfig_def sendEpochOf_def)

lemma sample_fenced:
  "sampleInbox \<in> set (fencedOwners (sampleConfig PChat) (sampleConfig PNever))"
  "\<exists>kept. withSendEpochs (sampleConfig PChat) (sampleConfig PNever) = Inr kept"
  by (simp_all add: fencedOwners_def sendPoliciesById_def policiesById_def withSendEpochs_def Let_def sampleConfig_def)

theorem turned_off_stays_off_witness:
  "(\<exists>n. snd (claimForSend sampleRuntime sampleStore (Some (sampleConfig PChat)) (clockAt 2000) (clockAt 2000) sampleId sampleLive False
      sampleToken) = Inr n) \<and>
   (\<nexists>n. snd (claimForSend sampleRuntime sampleStore (Some (configWrites [sampleConfig PNever, sampleConfig PChat] (sampleConfig PChat)))
      (clockAt 2000) (clockAt 2000) sampleId sampleLive False sampleToken) = Inr n)"
proof -
  obtain kept where "withSendEpochs (sampleConfig PChat) (sampleConfig PNever) = Inr kept" using sample_fenced(2) by blast
  then show ?thesis
    using turned_off_stays_off [OF sampleConfig_epochs(1) _ _ sample_fenced(1) sampleStore_file, of kept "[sampleConfig PChat]" 0]
      sampleConfig_epochs(2,3) by (simp add: sample_claimForSend sampleSend_fields)
qed

lemma expired_outcome:
  assumes "r_state d = Expired"
  shows "oc_error (classifyV2 d act live t) = Some APPROVAL_EXPIRED" "currentRecord act d (classifyV2 d act live t) = d"
    "derivedReason d act live = None"
proof -
  show n: "derivedReason d act live = None" using assms by (simp add: derivedReason_def)
  show "oc_error (classifyV2 d act live t) = Some APPROVAL_EXPIRED"
    using assms classify_fields(3) [of d act live t] n by (cases "r_kind d = KDisclosure") (simp_all add: classifyDisclosure_def errorOf_def)
  show "currentRecord act d (classifyV2 d act live t) = d"
    using assms classify_fields(1) [of d act live t] n by (cases "r_kind d = KDisclosure") (simp_all add: classifyDisclosure_def currentRecord_def)
qed

text \<open>
  C12. A window that passed, or a clock that went back, refuses: every use of a pending or approved record read at or
  after its deadline, or before it was made, gets the expiry, and the record is left expired.
\<close>

theorem expired_sends_are_refused:
  assumes "st_files st i = Some (V2File r)" "r_approvalId r = i" "soundRecord rt r" "approvalIdPattern i" "r_kind r = KSend"
    "r_inboxId r = lsd_inboxId live" "active r"
    and "clockBehind r (ck_derive ck) \<or> given (stampTime (deadlineOf r)) (\<lambda>d. d \<le> ck_derive ck)"
  shows "snd (claimForSend rt st cfg ck pck i live aborted token) = Inl APPROVAL_EXPIRED \<and>
    (\<exists>r'. st_files (fst (claimForSend rt st cfg ck pck i live aborted token)) i = Some (V2File r') \<and> r_state r' = Expired)"
proof -
  obtain d where d: "d = derive r (ck_derive ck)" by blast
  have s: "r_state d = Expired" using assms(8) unfolding d derive_def if_P [OF assms(7)] by (cases "clockBehind r (ck_derive ck)") simp_all
  obtain oc where oc: "oc = classifyV2 d AClaim (gateFor cfg (V2 d)) (ck_classify ck)" by blast
  have e: "oc_error oc = Some APPROVAL_EXPIRED" "currentRecord AClaim d oc = d" unfolding oc by (rule expired_outcome [OF s])+
  have "claimForSend rt st cfg ck pck i live aborted token = (settle st r (currentRecord AClaim d oc) (ck_write ck), Inl APPROVAL_EXPIRED)"
    by (rule claim_refused [OF assms(1-6) d oc e(1)])
  moreover have "r_approvalId d = i" using assms(2) d by simp
  ultimately show ?thesis using e(2) s assms(7) by (auto simp: settle_def putRecord_def)
qed

theorem expired_sends_are_refused_witness:
  "snd (claimForSend sampleRuntime approvedStore (Some (sampleConfig PConfirm)) (clockAt 86402000) (clockAt 86402000) sampleId sampleLive
     False sampleToken) = Inl APPROVAL_EXPIRED"
proof -
  have "given (stampTime (deadlineOf approvedSend)) (\<lambda>d. d \<le> ck_derive (clockAt 86402000))"
    by (simp add: deadlineOf_def narrowedEnd_def windowOf_def approvedSend_fields firstOf_def)
  then show ?thesis
    using expired_sends_are_refused [OF approvedStore_file approvedSend_fields(1) approvedSend_sound sampleId_ok approvedSend_fields(2),
        of sampleLive "clockAt 86402000"] by (simp add: approvedSend_fields sampleLive_def)
qed

end
