(* ===== verification/ApprovalCodes.thy ===== *)
theory ApprovalCodes
  imports ApprovalSends
begin

text \<open>
  Guessing the code of a pending send: three wrong answers revoke it.
\<close>


section \<open>Guessing a code\<close>

text \<open>The configuration lets the record be approved: its owner is there, sending is on, and its epoch is current.\<close>

definition approvable :: "config \<Rightarrow> approval \<Rightarrow> bool" where
  "approvable c r \<longleftrightarrow>
     (\<exists>e. ownerEntry c (r_inboxId r) = Some e \<and> orDefault (en_sendPolicy e) (cf_defaultSend c) \<noteq> PNever) \<and>
     r_requiredPolicy r \<noteq> PNever \<and> r_sendEpoch r = Some (sendEpochOf c (r_inboxId r))"

lemma approvable_outcome:
  assumes "soundRecord rt r" "r_kind r = KSend" "\<not> isChild r" "approvable c r" "active r" "oc = classifyV2 r act (gateFor (Some c) (V2 r)) t"
  shows "oc_error oc = None" "\<not> oc_revokes oc"
proof -
  have scope: "r_ownerScope r = SOwner" using sound_owner [OF sound_static [OF assms(1)]] assms(2) by simp
  obtain e where e: "ownerEntry c (r_inboxId r) = Some e" "orDefault (en_sendPolicy e) (cf_defaultSend c) \<noteq> PNever"
    using assms(4) by (auto simp: approvable_def)
  obtain g where g: "gateFor (Some c) (V2 r) = Some g" "lgt_owner g = OwnerPresent"
    "lgt_sendPolicy g = Some (orDefault (en_sendPolicy e) (cf_defaultSend c))" "lgt_sendEpoch g = Some (sendEpochOf c (r_inboxId r))"
    using scope e by (simp add: gateFor_def liveGateOf_def Let_def)
  have n: "\<not> neverNow r (Some g)" "\<not> ownerGone r (Some g)"
    using assms(4) e g by (simp_all add: neverNow_def stricter_never ownerGone_def approvable_def)
  have d: "derivedReason r act (Some g) = None"
    using n g assms(2,3,4) by (simp add: derivedReason_def standingBound_def approvable_def)
  have k: "r_kind r \<noteq> KDisclosure" using assms(2) by simp
  show "oc_error oc = None" "\<not> oc_revokes oc"
    using classify_fields [OF k, of act "Some g" t] d n g(1) assms(5,6) by (auto simp: errorOf_def)
qed

text \<open>A code that does not match, given for a pending send and the draft it was prepared for.\<close>

definition guessable :: "runtime \<Rightarrow> config \<Rightarrow> live_draft \<Rightarrow> jstr \<Rightarrow> approval \<Rightarrow> bool" where
  "guessable rt c live h r \<longleftrightarrow>
     soundRecord rt r \<and> r_kind r = KSend \<and> \<not> isChild r \<and> approvable c r \<and> r_state r = Pending \<and> r_challengeHash r = Some h \<and> h \<noteq> [] \<and>
     ld_draftMessageId live = r_draftMessageId r \<and> ld_contentDigest live = r_contentDigest r"

lemma wrong_guess:
  assumes "st_files st i = Some (V2File r)" "r_approvalId r = i" "approvalIdPattern i" "guessable rt c live h r"
    and "derive r (ck_derive ck) = r" "via \<noteq> ViaApp" "\<not> challengeMatches rt answer h"
  shows "approve rt st (Some c) ck i KSend via live answer =
    conclude st r (ck_rewrite ck) (wrongAnswer r (ck_decide ck))"
proof -
  have g: "soundRecord rt r" "r_kind r = KSend" "\<not> isChild r" "approvable c r" "r_state r = Pending"
    using assms(4) by (simp_all add: guessable_def)
  have m: "matchesExpectation (V2 r) (anyOf KSend)"
    using g(2) by (simp add: matchesExpectation_def kindOf_def ownerOf_def anyOf_def)
  obtain oc where oc: "oc = classifyV2 r AApprove (gateFor (Some c) (V2 r)) (ck_classify ck)" by blast
  have o: "oc_error oc = None" "\<not> oc_revokes oc" using approvable_outcome [OF g(1-4) _ oc] g(5) by simp_all
  have "approveDecision rt KSend via live answer (ck_decide ck) r oc gate = wrongAnswer r (ck_decide ck)" for gate
    using assms(4,7) o(1) by (simp add: approveDecision_def guessable_def noChallenge_def)
  then show ?thesis
    unfolding approve_def using assms(6)
      transition_on [OF assms(1,2) g(1) assms(3) m assms(5) oc o(2), of None noPrior st "()"]
    by (simp add: noPrior_def)
qed

fun guesses :: "runtime \<Rightarrow> config \<Rightarrow> jstr \<Rightarrow> via \<Rightarrow> live_draft \<Rightarrow> (clock \<times> jstr) list \<Rightarrow> store \<Rightarrow> store" where
  "guesses rt c i via live [] st = st"
| "guesses rt c i via live ((ck, answer) # rest) st =
     guesses rt c i via live rest (fst (approve rt st (Some c) ck i KSend via live answer))"

lemma guesses_revoked:
  assumes "st_files st i = Some (V2File r)" "r_state r = Revoked"
  shows "st_files (guesses rt c i via live gs st) i = Some (V2File r)"
  using assms(1)
proof (induction gs arbitrary: st)
  case (Cons g gs)
  obtain ck answer where g: "g = (ck, answer)" by (cases g)
  have "changed st (fst (approve rt st (Some c) ck i KSend via live answer)) i"
    using approve_moves by (auto simp: approve_def intro!: moving.plain)
  then have "st_files (fst (approve rt st (Some c) ck i KSend via live answer)) i = Some (V2File r)"
    using Cons.prems assms(2) by (auto simp: related_def moved_def)
  then show ?case using Cons.IH g by simp
qed simp

lemma attempts_derive:
  assumes "r_state r = Pending" "derive r t = r"
  shows "derive (stamped (r\<lparr>r_challengeAttempts := n\<rparr>) u) t = stamped (r\<lparr>r_challengeAttempts := n\<rparr>) u"
proof -
  let ?r = "stamped (r\<lparr>r_challengeAttempts := n\<rparr>) u"
  have c: "clockBehind ?r t = clockBehind r t" by (simp add: clockBehind_def stamped_def)
  have "windowOf ?r = windowOf r" by (simp add: windowOf_def stamped_def)
  moreover have "narrowedEnd ?r = narrowedEnd r"
    using assms(1) unfolding narrowedEnd_def by (simp add: stamped_def)
  ultimately have d: "deadlineOf ?r = deadlineOf r" by (simp only: deadlineOf_def)
  have "active (derive r t)" unfolding assms(2) using assms(1) by simp
  then have "active (derive ?r t)" unfolding derive_active c d using assms(1) by simp
  then show ?thesis by (rule derive_same)
qed

lemma attempts_guessable:
  "guessable rt c live h r \<Longrightarrow> guessable rt c live h (stamped (r\<lparr>r_challengeAttempts := n\<rparr>) u)"
  using sound_attempts [of rt r n] by (simp add: guessable_def approvable_def isChild_def) (simp add: stamped_def)

lemma guesses_void:
  assumes "st_files st i = Some (V2File r)" "r_approvalId r = i" "approvalIdPattern i" "guessable rt c live h r" "via \<noteq> ViaApp"
    and "\<forall>(ck, answer) \<in> set gs. derive r (ck_derive ck) = r \<and> \<not> challengeMatches rt answer h"
    and "3 \<le> r_challengeAttempts r + int (length gs)" "gs \<noteq> []"
  shows "\<exists>r'. st_files (guesses rt c i via live gs st) i = Some (V2File r') \<and> r_state r' = Revoked"
  using assms
proof (induction gs arbitrary: st r)
  case (Cons g gs)
  obtain ck answer where g: "g = (ck, answer)" by (cases g)
  have now: "derive r (ck_derive ck) = r" "\<not> challengeMatches rt answer h" using Cons.prems(6) g by auto
  note w = wrong_guess [OF Cons.prems(1-4) now(1) Cons.prems(5) now(2)]
  obtain st' where st': "st' = fst (approve rt st (Some c) ck i KSend via live answer)" by blast
  show ?case
  proof (cases "3 \<le> r_challengeAttempts r + 1")
    case True
    then have "\<exists>r'. st_files st' i = Some (V2File r') \<and> r_state r' = Revoked"
      using w Cons.prems(2) by (simp add: st' wrongAnswer_def MAX_CHALLENGE_ATTEMPTS_def conclude_def putRecord_def voided_def)
    then obtain r' where "st_files st' i = Some (V2File r')" "r_state r' = Revoked" by blast
    then have "st_files (guesses rt c i via live gs st') i = Some (V2File r')" by (rule guesses_revoked)
    then show ?thesis using g st' \<open>r_state r' = Revoked\<close> by simp
  next
    case False
    let ?r = "stamped (r\<lparr>r_challengeAttempts := r_challengeAttempts r + 1\<rparr>) (ck_rewrite ck)"
    have f: "st_files st' i = Some (V2File ?r)"
      using w False Cons.prems(2) by (simp add: st' wrongAnswer_def MAX_CHALLENGE_ATTEMPTS_def conclude_def putRecord_def Let_def)
    have n: "r_challengeAttempts ?r = r_challengeAttempts r + 1" by (simp add: stamped_def)
    have left: "gs \<noteq> []" using False Cons.prems(7) by auto
    have others: "\<forall>(ck, answer) \<in> set gs. derive ?r (ck_derive ck) = ?r \<and> \<not> challengeMatches rt answer h"
      using Cons.prems(4,6) by (auto intro!: attempts_derive simp: guessable_def)
    have "\<exists>r'. st_files (guesses rt c i via live gs st') i = Some (V2File r') \<and> r_state r' = Revoked"
      by (rule Cons.IH [OF f _ Cons.prems(3) attempts_guessable [OF Cons.prems(4)] Cons.prems(5) others])
        (use Cons.prems(2,7) n left in simp_all)
    then show ?thesis using g st' by simp
  qed
qed simp

text \<open>
  C13. A code can be guessed three times: with three wrong answers given for a pending send, at any times in its
  window and by any way, the record is revoked, whatever further answers follow.
\<close>

theorem three_wrong_codes_void:
  assumes "st_files st i = Some (V2File r)" "r_approvalId r = i" "approvalIdPattern i" "guessable rt c live h r" "via \<noteq> ViaApp"
    and "0 \<le> r_challengeAttempts r" "3 \<le> length wrong"
    and "\<forall>(ck, answer) \<in> set wrong. derive r (ck_derive ck) = r \<and> \<not> challengeMatches rt answer h"
  shows "\<exists>r'. st_files (guesses rt c i via live (wrong @ later) st) i = Some (V2File r') \<and> r_state r' = Revoked"
proof -
  have app: "guesses rt c i via live (xs @ ys) s = guesses rt c i via live ys (guesses rt c i via live xs s)" for xs ys s
    by (induction xs arbitrary: s) auto
  obtain r' where r': "st_files (guesses rt c i via live wrong st) i = Some (V2File r')" "r_state r' = Revoked"
    using guesses_void [OF assms(1-5,8)] assms(6,7) by fastforce
  then show ?thesis using guesses_revoked [OF r'] by (auto simp: app)
qed

lemma sample_guessable:
  "guessable sampleRuntime (sampleConfig PConfirm) sampleDraft (hashChallenge sampleRuntime (js ''code'')) issuedSend"
proof -
  have "approvable (sampleConfig PConfirm) issuedSend"
    by (simp add: approvable_def issuedSend_def sampleSend_fields sampleConfig_def ownerEntry_def sendEpochOf_def)
  moreover have "\<not> isChild issuedSend" by (simp add: issuedSend_def isChild_def sampleSend_fields)
  moreover have "hashChallenge sampleRuntime (js ''code'') \<noteq> []" by (simp add: hashChallenge_def sampleSha_some)
  ultimately show ?thesis
    using issuedSend_sound(1)
    by (simp add: guessable_def) (simp add: issuedSend_def sampleSend_fields sampleDraft_def sampleLive_def)
qed

lemma hexBytes_digits:
  "hexBytes (digits64 (Suc (Suc k)) n) = (16 * (n mod 10) + n div 10 mod 10) # hexBytes (digits64 k (n div 10 div 10))"
proof -
  have d: "hexDigitValue (48 + k) = Some k" if "k < 10" for k using that by (simp add: hexDigitValue_def)
  show ?thesis by (simp add: d)
qed

lemma hexBytes_sha: "\<exists>rest. hexBytes (digits64 64 n) = (16 * (n mod 10) + n div 10 mod 10) # rest"
  using hexBytes_digits [of 62 n] by (simp del: hexBytes.simps digits64.simps)

lemma sample_wrong_code: "\<not> challengeMatches sampleRuntime (js ''x'') (hashChallenge sampleRuntime (js ''code''))"
proof -
  have u: "rtUpper sampleRuntime (trim (js ''x'')) = js ''X''" "rtUpper sampleRuntime (trim (js ''code'')) = js ''CODE''"
    by (simp_all add: sampleRuntime_def js_eval trim_def trimEnd_def isSpace_def asciiUpper_def)
  have c: "checksum (js ''X'') = 305" "checksum (js ''CODE'') = 8538740"
    by (simp_all add: js_eval checksum_def)
  obtain a where a: "hexBytes (digits64 64 305) = 80 # a" using hexBytes_sha [of 305] by auto
  obtain b where b: "hexBytes (digits64 64 8538740) = 4 # b" using hexBytes_sha [of 8538740] by auto
  have "hexBytes (rtSha sampleRuntime (js ''X'')) \<noteq> hexBytes (rtSha sampleRuntime (js ''CODE''))"
    unfolding sampleRuntime_def runtime.select_convs c a b by simp
  then show ?thesis unfolding challengeMatches_def hashChallenge_def u .
qed

theorem three_wrong_codes_void_witness:
  "\<exists>r'. st_files (guesses sampleRuntime (sampleConfig PConfirm) sampleId Elicitation sampleDraft
     [(clockAt 2000, js ''x''), (clockAt 3000, js ''x''), (clockAt 4000, js ''x''), (clockAt 5000, js ''code'')] issuedStore) sampleId
     = Some (V2File r') \<and> r_state r' = Revoked"
  using three_wrong_codes_void [OF issuedStore_file issuedSend_sound(2) sampleId_ok sample_guessable,
      of Elicitation "[(clockAt 2000, js ''x''), (clockAt 3000, js ''x''), (clockAt 4000, js ''x'')]" "[(clockAt 5000, js ''code'')]"]
    sample_wrong_code
  by (simp add: issued_derive) (simp add: issuedSend_def sampleSend_fields)

end
