(* ===== verification/ApprovalOutcomes.thy ===== *)
theory ApprovalOutcomes
  imports ApprovalCodes
begin

text \<open>
  What the other claims were made on, who records the outcome of a send, when a standing approval covers a use of it, and
  what is told of another owner's record.
\<close>


section \<open>The outcome of a send\<close>

lemma not_held:
  assumes "st_claims st i \<noteq> Some (Some token)"
  shows "\<exists>e. transition rt st cfg ck i ax act (Some token) prior decide = (st, Inl e)"
  using assms by (cases "openRecord rt st cfg ck i ax act") (auto simp: transition_def holdsClaim_def)

text \<open>
  C14. Only the claim of a send renews its lease and records its outcome: with a token that is not the one in its
  marker, a heartbeat, a fence and a completion are refused and leave the store as it was.
\<close>

theorem only_the_claim_completes:
  assumes "st_claims st i \<noteq> Some (Some token)"
  shows "(\<exists>e. complete rt st cfg ck i token result = (st, Inl e)) \<and> (\<exists>e. heartbeat rt st cfg ck i token = (st, Inl e)) \<and>
     (\<exists>e. fence rt st cfg ck i token = (st, Inl e))"
proof -
  have h: "\<exists>e. heartbeat rt st cfg ck i token = (st, Inl e)"
    using not_held [OF assms, of rt cfg ck "anyOf KSend" AInspect noPrior "\<lambda>current oc gate _. heartbeatDecision (ck_decide ck) current"]
    by (auto simp: heartbeat_def)
  moreover have "\<exists>e. complete rt st cfg ck i token result = (st, Inl e)"
    using not_held [OF assms, of rt cfg ck "anyOf KSend" AClaim noPrior "\<lambda>current oc gate _. completeDecision result (ck_decide ck) current oc"]
    by (auto simp: complete_def)
  ultimately show ?thesis by (simp add: fence_def)
qed

theorem only_the_claim_completes_witness:
  "(\<exists>e. complete sampleRuntime claimedStore None (clockAt 3000) sampleId sampleToken (SentAs (js ''m'')) = (claimedStore, Inl e))"
proof -
  have "st_claims claimedStore sampleId \<noteq> Some (Some sampleToken)"
    by (simp add: claimedStore_def sampleStore_def noStore_def)
  then show ?thesis using only_the_claim_completes by blast
qed

lemma sending_current:
  assumes "r_state d = Sending \<or> r_state d = Unknown"
  shows "currentRecord act d (classifyV2 d act live t) = d"
proof (cases "r_kind d = KDisclosure")
  case True
  then show ?thesis by (simp add: currentRecord_def classifyDisclosure_def)
next
  case False
  have "\<not> active d" using assms by (elim disjE) simp_all
  then have "derivedReason d act live = None" using derivedReason_Some(1) [of d act live] by (cases "derivedReason d act live") blast+
  then show ?thesis using classify_fields(1) [OF False, of act live t] by (simp add: currentRecord_def)
qed

lemma sending_derive:
  assumes "r_state r = Sending \<or> r_state r = Unknown"
  shows "r_state (derive r t) = Sending \<or> r_state (derive r t) = Unknown" "leaseStart (derive r t) = leaseStart r"
proof -
  have na: "\<not> active r" using assms by (cases "r_state r") simp_all
  have same: "leaseStart (r\<lparr>r_state := Unknown, r_reason := Some STALE_LEASE_REASON\<rparr>) = leaseStart r"
    by (simp add: leaseStart_def cong: option.case_cong)
  have "(r_state (derive r t) = Sending \<or> r_state (derive r t) = Unknown) \<and> leaseStart (derive r t) = leaseStart r"
  proof (cases "r_state r = Sending \<and> given (leaseStart r) (\<lambda>s. s + SENDING_LEASE_MS \<le> t)")
    case True
    show ?thesis unfolding derive_def if_not_P [OF na] if_P [OF True] using same by simp
  next
    case False
    show ?thesis unfolding derive_def if_not_P [OF na] if_not_P [OF False] using assms by simp
  qed
  then show "r_state (derive r t) = Sending \<or> r_state (derive r t) = Unknown" "leaseStart (derive r t) = leaseStart r" by blast+
qed

definition outcomeOf :: "send_outcome \<Rightarrow> int \<Rightarrow> approval \<Rightarrow> bool" where
  "outcomeOf result at n \<longleftrightarrow> (case result of
      SentAs m \<Rightarrow> r_state n = Used \<and> r_sentMessageId n = Some m \<and> r_usedAt n = Some (Iso at) \<and> r_sentAt n = Some (Iso at) \<and> r_reason n = None
    | FailedWith why \<Rightarrow> r_state n = Failed \<and> r_reason n = Some why \<and> r_failedAt n = Some (Iso at))"

lemma outcome_recorded:
  assumes "st_files st i = Some (V2File r)" "r_approvalId r = i" "soundRecord rt r" "approvalIdPattern i" "r_kind r = KSend"
    and "r_state r = Sending \<or> r_state r = Unknown" "st_claims st i = Some (Some token)" "result \<noteq> SentAs []"
  obtains n where "complete rt st cfg ck i token result =
      (putRecord (settle st r (derive r (ck_derive ck)) (ck_write ck)) (stamped n (ck_rewrite ck)), Inr n)"
    "outcomeOf result (case leaseStart r of Some floor \<Rightarrow> max (ck_decide ck) floor | None \<Rightarrow> ck_decide ck) n" "r_approvalId n = i"
proof -
  obtain d where d: "d = derive r (ck_derive ck)" by blast
  obtain oc where oc: "oc = classifyV2 d AClaim (gateFor cfg (V2 d)) (ck_classify ck)" by blast
  note s = sending_derive [OF assms(6), of "ck_derive ck", folded d]
  have c: "currentRecord AClaim d oc = d" unfolding oc by (rule sending_current [OF s(1)])
  have m: "matchesExpectation (V2 r) (anyOf KSend)"
    using assms(5) by (simp add: matchesExpectation_def kindOf_def ownerOf_def anyOf_def)
  have ns: "\<not> (r_state d \<noteq> Sending \<and> r_state d \<noteq> Unknown)" using s(1) by blast
  have "\<exists>n. completeDecision result (ck_decide ck) d oc = Next n None"
    unfolding completeDecision_def if_not_P [OF ns] by (cases result) (simp_all add: Let_def)
  then obtain n where n: "completeDecision result (ck_decide ck) d oc = Next n None" by blast
  have n': "outcomeOf result (case leaseStart r of Some floor \<Rightarrow> max (ck_decide ck) floor | None \<Rightarrow> ck_decide ck) n" "r_approvalId n = r_approvalId d"
    using n unfolding completeDecision_def if_not_P [OF ns] outcomeOf_def s(2) by (cases result; auto simp: Let_def)+
  have "complete rt st cfg ck i token result = (putRecord (settle st r d (ck_write ck)) (stamped n (ck_rewrite ck)), Inr n)"
    using openRecord_sound [OF assms(1-4) m d, of cfg AClaim] assms(7,8) c n oc
    by (simp add: complete_def transition_def holdsClaim_def noPrior_def conclude_def Let_def)
  then show ?thesis using that n' d assms(2) by simp
qed

text \<open>
  C15. The claim can always record what came of its send: while the record is sending, or its lease has passed, the
  token in the marker makes it used, with the id of the message, or failed, with the reason, at a time no earlier than
  its last heartbeat; under any configuration and at any time.
\<close>

theorem outcome_is_recorded:
  assumes "st_files st i = Some (V2File r)" "r_approvalId r = i" "soundRecord rt r" "approvalIdPattern i" "r_kind r = KSend"
    and "r_state r = Sending \<or> r_state r = Unknown" "st_claims st i = Some (Some token)" "result \<noteq> SentAs []"
  shows "\<exists>n. snd (complete rt st cfg ck i token result) = Inr n \<and>
     st_files (fst (complete rt st cfg ck i token result)) i = Some (V2File (stamped n (ck_rewrite ck))) \<and>
     outcomeOf result (case leaseStart r of Some floor \<Rightarrow> max (ck_decide ck) floor | None \<Rightarrow> ck_decide ck) n"
  by (rule outcome_recorded [OF assms, of cfg ck]) (auto simp: putRecord_def)

definition sentSend :: approval where
  "sentSend = sampleSend\<lparr>r_state := Sending, r_sendingAt := Some (Iso 2000)\<rparr>"

definition sendingStore :: store where
  "sendingStore = (putRecord noStore sentSend)\<lparr>st_claims := [sampleId \<mapsto> Some sampleToken]\<rparr>"

lemma sentSend_sound: "soundRecord sampleRuntime sentSend" "r_approvalId sentSend = sampleId"
proof -
  have w: "inWindow sampleSend 2000"
    using derive_inWindow [OF sampleSend_sound(1), of 2000] by (simp add: sampleSend_derive sampleSend_fields)
  show "soundRecord sampleRuntime sentSend"
    unfolding sentSend_def by (rule sound_sending [OF sampleSend_sound(1) _ w]) (simp_all add: sampleSend_fields)
  show "r_approvalId sentSend = sampleId" by (simp add: sentSend_def sampleSend_sound)
qed

lemma sendingStore_file: "st_files sendingStore sampleId = Some (V2File sentSend)" "st_claims sendingStore sampleId = Some (Some sampleToken)"
  by (simp_all add: sendingStore_def putRecord_def sentSend_sound)

theorem outcome_is_recorded_witness:
  "\<exists>n. snd (complete sampleRuntime sendingStore None (clockAt 900000) sampleId sampleToken (SentAs (js ''m9''))) = Inr n \<and>
     outcomeOf (SentAs (js ''m9'')) 900000 n"
proof -
  have l: "leaseStart sentSend = Some 2000" 
  proof -
    have "r_sendingHeartbeatAt sentSend = None" "r_sendingAt sentSend = Some (Iso 2000)" by (simp_all add: sentSend_def sampleSend_fields)
    then show ?thesis by (simp add: leaseStart_def timeOf_def)
  qed
  have k: "r_kind sentSend = KSend" "r_state sentSend = Sending \<or> r_state sentSend = Unknown" by (simp_all add: sentSend_def sampleSend_fields)
  show ?thesis
    using outcome_is_recorded [OF sendingStore_file(1) sentSend_sound(2,1) sampleId_ok k sendingStore_file(2),
        of "SentAs (js ''m9'')" None "clockAt 900000"] l by auto
qed

section \<open>Changes, downloads and disclosures\<close>

text \<open>
  C16. A change runs only as it was prepared: its claim returns for a record of a change with that digest, active and
  in its window; and where the strictest of the caller's policy, the configuration's and the one it was prepared under
  is confirm, only approved at a terminal or in the desktop application.
\<close>

theorem change_claim_conditions:
  assumes "snd (claimForChange rt st cfg ck i change pol aborted says) = Inr n"
  shows "\<exists>r g. st_files st i = Some (V2File r) \<and> validateV2 rt r i = Valid \<and> r_kind r = KChange \<and> active r \<and>
     derive r (ck_derive ck) = r \<and> changeDigest rt change = r_contentDigest r \<and> gateFor cfg (V2 r) = Some g \<and> \<not> aborted \<and>
     (stricterPolicy (stricterPolicy pol (orDefault (lgt_changePolicy g) PConfirm)) (r_requiredPolicy r) \<noteq> PChat \<longrightarrow>
        r_state r = Approved \<and> (r_approvedVia r = Some Terminal \<or> r_approvedVia r = Some ViaApp)) \<and>
     n = r\<lparr>r_state := Used, r_usedAt := Some (Iso (ck_decide ck))\<rparr>"
proof -
  obtain st' where "claimForChange rt st cfg ck i change pol aborted says = (st', Inr n)"
    using assms by (cases "claimForChange rt st cfg ck i change pol aborted says") simp
  then obtain s1 where c: "claimChangeRecord rt st cfg ck i change pol aborted says = (s1, Inr n)"
    unfolding claimForChange_def by (rule thenMark_Inr)
  show ?thesis
  proof (rule transition_Inr [OF c [unfolded claimChangeRecord_def] claimChange_careful])
    fix r oc s and seen :: unit
    assume o1: "openedAs rt st cfg ck i (anyOf KChange) r" "oc = classifyV2 r AClaim (gateFor cfg (V2 r)) (ck_classify ck)" "oc_error oc = None"
      and d: "claimChangeDecision rt change pol aborted (ck_decide ck) says r oc (gateFor cfg (V2 r)) = Next n None"
    note k = any_of [OF o1(1)]
    obtain g where g: "gateFor cfg (V2 r) = Some g" using no_error_derived(3) [OF o1(2,3)] k by auto
    have dec: "changeDigest rt change = r_contentDigest r" "\<not> aborted"
      "stricterPolicy (stricterPolicy pol (orDefault (lgt_changePolicy g) PConfirm)) (r_requiredPolicy r) \<noteq> PChat \<longrightarrow>
        r_state r = Approved \<and> (r_approvedVia r = Some Terminal \<or> r_approvedVia r = Some ViaApp)"
      "n = r\<lparr>r_state := Used, r_usedAt := Some (Iso (ck_decide ck))\<rparr>"
      using d o1(3) g by (auto simp: claimChangeDecision_def Let_def split: if_splits)
    show ?thesis using o1(1) k g dec unfolding openedAs_def by blast
  qed
qed


text \<open>
  C17. A download is saved only as the person or the policy allowed: its claim returns for a record of that download,
  active and in its window, with an answer, or, unanswered, while it was prepared under chat and the change policy is
  chat now.
\<close>

theorem download_claim_conditions:
  assumes "snd (claimForDownload rt st cfg ck i live aborted) = Inr n"
  shows "\<exists>r g. st_files st i = Some (V2File r) \<and> validateV2 rt r i = Valid \<and> r_kind r = KDownload \<and>
     derive r (ck_derive ck) = r \<and> downloadDigest rt live = r_contentDigest r \<and> gateFor cfg (V2 r) = Some g \<and> \<not> aborted \<and>
     (r_state r = Approved \<or> r_state r = Pending \<and> r_requiredPolicy r = PChat \<and> lgt_changePolicy g = Some PChat) \<and>
     n = r\<lparr>r_state := Used, r_usedAt := Some (Iso (ck_decide ck))\<rparr>"
proof -
  obtain st' where "claimForDownload rt st cfg ck i live aborted = (st', Inr n)"
    using assms by (cases "claimForDownload rt st cfg ck i live aborted") simp
  then obtain s1 where c: "claimDownloadRecord rt st cfg ck i live aborted = (s1, Inr n)"
    unfolding claimForDownload_def by (rule thenMark_Inr)
  show ?thesis
  proof (rule transition_Inr [OF c [unfolded claimDownloadRecord_def] claimDownload_careful])
    fix r oc s and seen :: unit
    assume o1: "openedAs rt st cfg ck i (anyOf KDownload) r" "oc = classifyV2 r AClaim (gateFor cfg (V2 r)) (ck_classify ck)" "oc_error oc = None"
      and d: "claimDownloadDecision rt live aborted (ck_decide ck) r oc = Next n None"
    note k = any_of [OF o1(1)]
    have nk: "r_kind r \<noteq> KDisclosure" using k by simp
    obtain g where g: "gateFor cfg (V2 r) = Some g" using no_error_derived(3) [OF o1(2,3)] k by auto
    have dec: "downloadDigest rt live = r_contentDigest r" "\<not> aborted" "oc_claimable oc"
      "n = r\<lparr>r_state := Used, r_usedAt := Some (Iso (ck_decide ck))\<rparr>"
      using d o1(3) by (auto simp: claimDownloadDecision_def split: if_splits)
    have "isClaimable r g" using no_error_derived(4) [OF o1(2,3) nk] dec(3) g by simp
    then have "r_state r = Approved \<or> r_state r = Pending \<and> r_requiredPolicy r = PChat \<and> lgt_changePolicy g = Some PChat"
      using k by (simp add: isClaimable_def downloadClaimable_def)
    then show ?thesis using o1(1) k g dec(1,2,4) unfolding openedAs_def by blast
  qed
qed

text \<open>
  C18. Content leaves under a disclosure only with the approval of a person for exactly that disclosure, before its
  caller's deadline: the claim returns for an approved record, in its window, whose binding is the one it is claimed with.
\<close>

theorem disclosure_claim_conditions:
  assumes "snd (claimForDisclosure rt st cfg ck i binding deadline) = Inr n"
  shows "\<exists>r b. st_files st i = Some (V2File r) \<and> validateV2 rt r i = Valid \<and> r_kind r = KDisclosure \<and> r_state r = Approved \<and>
     derive r (ck_derive ck) = r \<and> r_disclosure r = Some b \<and> sameDisclosureBinding b binding \<and> r_approvedDigest r = Some (dc_digest b) \<and>
     (\<forall>d. deadline = Some d \<longrightarrow> ck_decide ck < d) \<and>
     n = r\<lparr>r_state := Used, r_usedAt := Some (Iso (ck_decide ck))\<rparr>"
proof -
  obtain st' where "claimForDisclosure rt st cfg ck i binding deadline = (st', Inr n)"
    using assms by (cases "claimForDisclosure rt st cfg ck i binding deadline") simp
  then obtain s1 where c: "claimDisclosureRecord rt st cfg ck i binding deadline = (s1, Inr n)"
    unfolding claimForDisclosure_def by (rule thenMark_Inr)
  then have c': "transition rt st cfg ck i (anyOf KDisclosure) AClaim None noPrior
        (\<lambda>current oc gate _. claimDisclosureDecision binding deadline (ck_decide ck) current oc) = (s1, Inr n)"
    by (auto simp: claimDisclosureRecord_def split: if_splits)
  show ?thesis
  proof (rule transition_Inr [OF c' claimDisclosure_careful])
    fix r oc s and seen :: unit
    assume o1: "openedAs rt st cfg ck i (anyOf KDisclosure) r" "oc_error oc = None"
      and d: "claimDisclosureDecision binding deadline (ck_decide ck) r oc = Next n None"
    note k = any_of [OF o1(1)]
    have "r_state r = Approved" "\<forall>d. deadline = Some d \<longrightarrow> ck_decide ck < d"
      "given (r_disclosure r) (\<lambda>b. sameDisclosureBinding b binding \<and> r_approvedDigest r = Some (dc_digest b))"
      "n = r\<lparr>r_state := Used, r_usedAt := Some (Iso (ck_decide ck))\<rparr>"
      using d o1(2) by (auto simp: claimDisclosureDecision_def split: if_splits)
    then show ?thesis using o1(1) k unfolding openedAs_def given_iff by blast
  qed
qed

section \<open>Standing approvals in use\<close>

text \<open>
  C19. A send made under a standing approval starts only while that approval covers it: the record it names is read
  again, valid, of the same account, approved, in its window and in the standing epoch of the configuration, and what
  is in force of it, after every narrowing, holds the content and the place of the use.
\<close>

theorem standing_use_only_while_covered:
  assumes "snd (claimForSend rt st cfg ck pck i live aborted token) = Inr n" "st_files st i = Some (V2File r)" "isChild r"
  shows "\<exists>parent use p c. r_standingId r = Some parent \<and> r_standingUse r = Some use \<and> st_files st parent = Some (V2File p) \<and>
     validateV2 rt p parent = Valid \<and> r_kind p = KStanding \<and> r_inboxId p = r_inboxId r \<and> r_state p = Approved \<and>
     derive p (ck_derive pck) = p \<and> cfg = Some c \<and> r_standingEpoch p = Some (standingEpochOf c) \<and> covers p use"
proof -
  obtain st' where cl: "claimForSend rt st cfg ck pck i live aborted token = (st', Inr n)"
    using assms(1) by (cases "claimForSend rt st cfg ck pck i live aborted token") simp
  then obtain s1 where m: "claimSendRecord rt st cfg ck pck i live aborted = (s1, Inr n)"
    unfolding claimForSend_def by (rule thenMark_Inr)
  show ?thesis
  proof (rule claimSendRecord_Inr [OF m])
    fix r' oc s
    assume a: "openedAs rt st cfg ck i (ownedBy KSend (lsd_inboxId live)) r'"
      "oc = classifyV2 r' AClaim (gateFor cfg (V2 r')) (ck_classify ck)" "oc_error oc = None" "oc_claimable oc"
      "childPrior rt cfg pck st r' oc = (s, Inr None)" "r_state r' = Approved \<longrightarrow> r_approvedBindingDigest r' = r_bindingDigest r'"
    have r': "r' = r" using a(1) assms(2) by (simp add: openedAs_def)
    obtain c0 where "permits c0 r" using claim_permits [OF a(1-4,6)] r' by metis
    then have st: "r_state r = Approved" using assms(3) by (auto simp: permits_def isChild_def Let_def)
    have "standingParentProblem rt st cfg pck r = (s, Inr None)"
      using a(3,5) st assms(3) r' by (simp add: childPrior_def isChild_def)
    then obtain parent use x oc2 where u: "r_standingId r = Some parent" "r_standingUse r = Some use"
      "inspect rt st cfg pck parent (ownedBy KStanding (r_inboxId r)) AClaim = (s, Inr (x, oc2))" "parentCovers r use oc2 = Inr None"
      by (auto simp: standingParentProblem_def split: option.splits prod.splits sum.splits)
    obtain p where p: "oc_error oc2 = None" "oc_record oc2 = Some p" "r_state p = Approved" "covers p use"
      by (rule parentCovers_None [OF u(4)])
    note ip = inspected_parent [OF u(3) p(1,2)]
    have k: "r_kind p = KStanding" "r_inboxId p = r_inboxId r" using owned_by [OF ip(1)] by simp_all
    obtain c where c: "cfg = Some c" "r_standingEpoch p = Some (standingEpochOf c)"
      using standing_gate [OF ip(1) k(1) ip(2) p(1)] by blast
    show ?thesis using u(1,2) ip(1) k p(3,4) c unfolding openedAs_def by blast
  qed
qed

text \<open>
  Nobody learns of a record that is not theirs: an action on an id that has no record, and one on a record of
  another owner or kind, give the same answer, and change nothing.
\<close>

lemma another_owners_record_is_not_found:
  assumes "approvalIdPattern i"
    and "st_files st i = None \<or> (\<exists>f. st_files st i = Some f \<and> \<not> matchesExpectation (decodeStored rt i f cfg (ck_read ck)) (ownedBy kind owner))"
  shows "transition rt st cfg ck i (ownedBy kind owner) act token prior decide = (st, Inl NOT_FOUND) \<and>
     inspect rt st cfg ck i (ownedBy kind owner) act = (st, Inl NOT_FOUND) \<and>
     revoke rt st cfg ck i reason who (ownedBy kind owner) = (st, Inl NOT_FOUND)"
proof -
  have "findRecord rt st cfg (ck_read ck) i (ownedBy kind owner) = Inl NOT_FOUND"
    using assms by (auto simp: findRecord_def)
  then show ?thesis by (simp add: transition_def openRecord_def inspect_def revoke_def)
qed

theorem another_owners_record_is_not_found_witness:
  "inspect sampleRuntime sampleStore None (clockAt 2000) sampleId (ownedBy KSend (js ''ibx_other'')) AInspect = (sampleStore, Inl NOT_FOUND)"
proof -
  have v: "decodeStored sampleRuntime sampleId (V2File sampleSend) None 2000 = V2 sampleSend"
    using sampleSend_sound valid_iff [of sampleRuntime sampleSend sampleId]
    by (simp add: decodeStored_def sound_static sound_dynamic)
  have "\<not> matchesExpectation (V2 sampleSend) (ownedBy KSend (js ''ibx_other''))"
    by (simp add: matchesExpectation_def kindOf_def ownerOf_def ownedBy_def sampleSend_fields sampleInbox_def)
  then have "\<exists>f. st_files sampleStore sampleId = Some f \<and>
      \<not> matchesExpectation (decodeStored sampleRuntime sampleId f None (ck_read (clockAt 2000))) (ownedBy KSend (js ''ibx_other''))"
    using sampleStore_file v by simp
  then show ?thesis
    by (rule another_owners_record_is_not_found [OF sampleId_ok disjI2, THEN conjunct2, THEN conjunct1])
qed

end
