(* ===== verification/ApprovalExamples.thy ===== *)
theory ApprovalExamples
  imports ApprovalOutcomes
begin

text \<open>
  Records of each kind as the store makes and approves them (a change, a download, a disclosure, a standing approval and
  a send under it), their claims evaluated, and the properties of those claims applied to them.
\<close>


section \<open>A change, a download and a disclosure to evaluate with\<close>

definition made :: "error_code + approval \<Rightarrow> approval" where
  "made x = (case x of Inr r \<Rightarrow> r | Inl _ \<Rightarrow> blankApproval [] KSend 0)"

text \<open>A claim that writes: what it was made on decides, and no marker stands in its way.\<close>

lemma marked_after:
  assumes "st_files st i = Some (V2File r)" "r_approvalId r = i" "soundRecord rt r" "approvalIdPattern i" "matchesExpectation (V2 r) ax"
    and "derive r (ck_derive ck) = r" "oc = classifyV2 r act (gateFor cfg (V2 r)) (ck_classify ck)" "\<not> oc_revokes oc"
    and "decide r oc (gateFor cfg (V2 r)) () = Next n None" "r_approvalId n = i" "st_claims st i = None"
  shows "snd (thenMark (transition rt st cfg ck i ax act None noPrior decide) token) = Inr n"
  using transition_on [OF assms(1-8), of None noPrior st "()" decide] assms(9-11)
  by (simp add: noPrior_def conclude_def thenMark_def markClaimed_def)

lemma unowned_outcome:
  assumes "r_kind r = KChange" "r_ownerScope r \<noteq> SOwner" "active r" "gateFor cfg (V2 r) = Some g" "oc = classifyV2 r act (Some g) t"
  shows "oc_error oc = None" "\<not> oc_revokes oc"
proof -
  have k: "r_kind r \<noteq> KDisclosure" "\<not> sendsAs r" "\<not> standingBound r" using assms(1) by (simp_all add: sendsAs_def standingBound_def isChild_def)
  have o: "\<not> ownerGone r (Some g)" "\<not> neverNow r (Some g)" using assms(2) k by (simp_all add: ownerGone_def neverNow_def)
  have d: "derivedReason r act (Some g) = None" using o k assms(1) by (simp add: derivedReason_def)
  show "oc_error oc = None" "\<not> oc_revokes oc"
    using classify_fields [OF k(1), of act "Some g" t] d o assms(3,5) by (auto simp: errorOf_def)
qed

section \<open>A change\<close>

definition sampleChange :: change_binding where
  "sampleChange = \<lparr>ch_summary = js ''allow'', ch_target = None, ch_loosened = [], ch_settings = Some [], ch_effects = [],
     ch_doneAtOnce = None\<rparr>"

definition changeMade :: "error_code + approval" where
  "changeMade = changeRecord sampleRuntime 1000 sampleId None (js ''core'') sampleChange PConfirm"

definition pendingChange :: approval where "pendingChange = made changeMade"

lemma pendingChange_base:
  "\<exists>d. pendingChange = (pendingRecord sampleId KChange 1000 LIFETIME_confirm None)
     \<lparr>r_channel := js ''core'', r_ownerScope := SGlobal, r_route := Some RConfirm, r_approvedMs := Some LIFETIME_approved,
      r_inboxId := [], r_draftId := js ''change'', r_draftMessageId := changeDigest sampleRuntime sampleChange,
      r_contentDigest := changeDigest sampleRuntime sampleChange, r_policy := PConfirm, r_requiredPolicy := PConfirm,
      r_expect := no_expectation (js ''allow''), r_change := Some sampleChange, r_bindingDigest := Some d\<rparr>"
  "changeMade = Inr pendingChange"
  unfolding pendingChange_def changeMade_def changeRecord_def Let_def
  by (simp_all add: sampleChange_def orEmpty_def isKnownChannel_def knownChannels_def bound_def bindingDigestOf_def bindingObjectOf_def
      pending_defs made_def)

lemma pendingChange_fields:
  "r_approvalId pendingChange = sampleId" "r_kind pendingChange = KChange" "r_state pendingChange = Pending" "r_ownerScope pendingChange = SGlobal"
  "r_contentDigest pendingChange = changeDigest sampleRuntime sampleChange" "r_requiredPolicy pendingChange = PConfirm"
  "r_createdAt pendingChange = Iso 1000" "r_expiresAt pendingChange = Iso 1801000" "r_approvedMs pendingChange = Some LIFETIME_approved"
  "r_change pendingChange = Some sampleChange" "r_approvedAt pendingChange = None"
proof -
  obtain d where p: "pendingChange = (pendingRecord sampleId KChange 1000 LIFETIME_confirm None)
     \<lparr>r_channel := js ''core'', r_ownerScope := SGlobal, r_route := Some RConfirm, r_approvedMs := Some LIFETIME_approved,
      r_inboxId := [], r_draftId := js ''change'', r_draftMessageId := changeDigest sampleRuntime sampleChange,
      r_contentDigest := changeDigest sampleRuntime sampleChange, r_policy := PConfirm, r_requiredPolicy := PConfirm,
      r_expect := no_expectation (js ''allow''), r_change := Some sampleChange, r_bindingDigest := Some d\<rparr>"
    using pendingChange_base(1) by blast
  show "r_approvalId pendingChange = sampleId" "r_kind pendingChange = KChange" "r_state pendingChange = Pending" "r_ownerScope pendingChange = SGlobal"
    "r_contentDigest pendingChange = changeDigest sampleRuntime sampleChange" "r_requiredPolicy pendingChange = PConfirm"
    "r_createdAt pendingChange = Iso 1000" "r_expiresAt pendingChange = Iso 1801000" "r_approvedMs pendingChange = Some LIFETIME_approved"
    "r_change pendingChange = Some sampleChange" "r_approvedAt pendingChange = None"
    by (simp_all add: p pending_defs LIFETIME_confirm_def)
qed

definition approvedChange :: approval where
  "approvedChange = approvedRecord pendingChange KChange Terminal None 2000"

lemma approvedChange_fields:
  "r_approvalId approvedChange = sampleId" "r_kind approvedChange = KChange" "r_state approvedChange = Approved"
  "r_ownerScope approvedChange = SGlobal" "r_contentDigest approvedChange = changeDigest sampleRuntime sampleChange"
  "r_approvedVia approvedChange = Some Terminal" "r_approvedAt approvedChange = Some (Iso 2000)"
  "r_usableUntil approvedChange = Some (Iso 86402000)" "r_createdAt approvedChange = Iso 1000" "r_change approvedChange = Some sampleChange"
  by (simp_all add: approvedChange_def approvedRecord_def pendingChange_fields LIFETIME_approved_def)

lemma pendingChange_sound: "soundRecord sampleRuntime pendingChange"
  using changeRecord_sound [OF pendingChange_base(2) [unfolded changeMade_def]] by (simp add: preparedOk_def)

lemma approvedChange_sound: "soundRecord sampleRuntime approvedChange"
proof -
  have "derive pendingChange 2000 = pendingChange"
    by (simp add: derive_def pendingChange_fields clockBehind_def deadlineOf_def narrowedEnd_def windowOf_def)
  then have "inWindow pendingChange 2000"
    using derive_inWindow [OF pendingChange_sound, of 2000] pendingChange_fields(3) by simp
  then show ?thesis
    using sound_approved [OF pendingChange_sound pendingChange_fields(3), of 2000 Terminal None] pendingChange_fields(2)
    by (simp add: approvedChange_def)
qed

lemma change_claimed:
  "snd (claimForChange sampleRuntime (putRecord noStore approvedChange) (Some (sampleConfig PConfirm)) (clockAt 3000) sampleId sampleChange
     PConfirm False (\<lambda>_. [])) = Inr (approvedChange\<lparr>r_state := Used, r_usedAt := Some (Iso 3000)\<rparr>)"
proof -
  have f: "st_files (putRecord noStore approvedChange) sampleId = Some (V2File approvedChange)"
    by (simp add: putRecord_def approvedChange_fields)
  have m: "matchesExpectation (V2 approvedChange) (anyOf KChange)"
    by (simp add: matchesExpectation_def kindOf_def ownerOf_def anyOf_def approvedChange_fields)
  have d: "derive approvedChange (ck_derive (clockAt 3000)) = approvedChange"
    by (simp add: derive_def approvedChange_fields clockBehind_def deadlineOf_def narrowedEnd_def windowOf_def timeOf_def firstOf_def)
  obtain g where g: "gateFor (Some (sampleConfig PConfirm)) (V2 approvedChange) = Some g" by (simp add: gateFor_def)
  have a: "active approvedChange" by (simp add: approvedChange_fields)
  have sc: "r_ownerScope approvedChange \<noteq> SOwner" by (simp add: approvedChange_fields)
  note o1 = unowned_outcome [OF approvedChange_fields(2) sc a g refl, of AClaim 3000]
  show ?thesis
    unfolding claimForChange_def claimChangeRecord_def
  proof (rule marked_after [OF f approvedChange_fields(1) approvedChange_sound sampleId_ok m d refl])
    show "\<not> oc_revokes (classifyV2 approvedChange AClaim (gateFor (Some (sampleConfig PConfirm)) (V2 approvedChange)) (ck_classify (clockAt 3000)))"
      unfolding g using o1(2) by simp
    show "claimChangeDecision sampleRuntime sampleChange PConfirm False (ck_decide (clockAt 3000)) (\<lambda>_. []) approvedChange
        (classifyV2 approvedChange AClaim (gateFor (Some (sampleConfig PConfirm)) (V2 approvedChange)) (ck_classify (clockAt 3000)))
        (gateFor (Some (sampleConfig PConfirm)) (V2 approvedChange)) =
      Next (approvedChange\<lparr>r_state := Used, r_usedAt := Some (Iso 3000)\<rparr>) None"
      unfolding g using o1(1) by (simp add: claimChangeDecision_def approvedChange_fields)
  qed (simp_all add: approvedChange_fields noStore_def putRecord_def)
qed

theorem change_claim_conditions_witness:
  "\<exists>r. st_files (putRecord noStore approvedChange) sampleId = Some (V2File r) \<and> r_state r = Approved \<and> r_approvedVia r = Some Terminal"
  using change_claim_conditions [OF change_claimed] by (auto simp: putRecord_def approvedChange_fields)


section \<open>A download\<close>

definition sampleDownload :: download_binding where
  "sampleDownload = \<lparr>dl_summary = js ''save'', dl_targetKind = TInbox, dl_targetName = js ''work'', dl_targetId = sampleInbox,
     dl_operation = js ''get'', dl_request = JNull, dl_files = [js ''a''], dl_names = [js ''a''], dl_downloads = js ''d'',
     dl_current = js ''c'', dl_listing = None, dl_answer = None\<rparr>"

definition downloadMade :: "error_code + approval" where
  "downloadMade = downloadRecord sampleRuntime 1000 sampleId None (js ''gmail'') sampleDownload PChat"

definition pendingDownload :: approval where "pendingDownload = made downloadMade"

lemma pendingDownload_base:
  "\<exists>d. pendingDownload = (pendingRecord sampleId KDownload 1000 LIFETIME_download None)
     \<lparr>r_channel := js ''gmail'', r_ownerScope := SOwner, r_inboxId := sampleInbox, r_draftId := js ''download'',
      r_draftMessageId := downloadDigest sampleRuntime sampleDownload, r_contentDigest := downloadDigest sampleRuntime sampleDownload,
      r_policy := PChat, r_requiredPolicy := PChat, r_expect := no_expectation (js ''save''), r_download := Some sampleDownload,
      r_bindingDigest := Some d\<rparr>"
  "downloadMade = Inr pendingDownload"
  unfolding pendingDownload_def downloadMade_def downloadRecord_def Let_def
  by (simp_all add: sampleDownload_def isKnownChannel_def knownChannels_def bound_def bindingDigestOf_def bindingObjectOf_def
      pending_defs made_def)

lemma pendingDownload_fields:
  "r_approvalId pendingDownload = sampleId" "r_kind pendingDownload = KDownload" "r_state pendingDownload = Pending"
  "r_ownerScope pendingDownload = SOwner" "r_contentDigest pendingDownload = downloadDigest sampleRuntime sampleDownload"
  "r_requiredPolicy pendingDownload = PChat" "r_createdAt pendingDownload = Iso 1000" "r_expiresAt pendingDownload = Iso 1801000"
  "r_download pendingDownload = Some sampleDownload" "r_approvedAt pendingDownload = None" "r_inboxId pendingDownload = sampleInbox"
proof -
  obtain d where p: "pendingDownload = (pendingRecord sampleId KDownload 1000 LIFETIME_download None)
     \<lparr>r_channel := js ''gmail'', r_ownerScope := SOwner, r_inboxId := sampleInbox, r_draftId := js ''download'',
      r_draftMessageId := downloadDigest sampleRuntime sampleDownload, r_contentDigest := downloadDigest sampleRuntime sampleDownload,
      r_policy := PChat, r_requiredPolicy := PChat, r_expect := no_expectation (js ''save''), r_download := Some sampleDownload,
      r_bindingDigest := Some d\<rparr>"
    using pendingDownload_base(1) by blast
  show "r_approvalId pendingDownload = sampleId" "r_kind pendingDownload = KDownload" "r_state pendingDownload = Pending"
    "r_ownerScope pendingDownload = SOwner" "r_contentDigest pendingDownload = downloadDigest sampleRuntime sampleDownload"
    "r_requiredPolicy pendingDownload = PChat" "r_createdAt pendingDownload = Iso 1000" "r_expiresAt pendingDownload = Iso 1801000"
    "r_download pendingDownload = Some sampleDownload" "r_approvedAt pendingDownload = None" "r_inboxId pendingDownload = sampleInbox"
    by (simp_all add: p pending_defs LIFETIME_download_def)
qed

lemma pendingDownload_sound: "soundRecord sampleRuntime pendingDownload"
  using downloadRecord_sound [OF pendingDownload_base(2) [unfolded downloadMade_def]]
  by (simp add: preparedOk_def sampleDownload_def sampleInbox_def)

lemma download_claimed:
  "snd (claimForDownload sampleRuntime (putRecord noStore pendingDownload) (Some (sampleConfig PConfirm)) (clockAt 3000) sampleId sampleDownload
     False) = Inr (pendingDownload\<lparr>r_state := Used, r_usedAt := Some (Iso 3000)\<rparr>)"
proof -
  have f: "st_files (putRecord noStore pendingDownload) sampleId = Some (V2File pendingDownload)"
    by (simp add: putRecord_def pendingDownload_fields)
  have m: "matchesExpectation (V2 pendingDownload) (anyOf KDownload)"
    by (simp add: matchesExpectation_def kindOf_def ownerOf_def anyOf_def pendingDownload_fields)
  have d: "derive pendingDownload (ck_derive (clockAt 3000)) = pendingDownload"
    by (simp add: derive_def pendingDownload_fields clockBehind_def deadlineOf_def narrowedEnd_def windowOf_def)
  obtain g where g: "gateFor (Some (sampleConfig PConfirm)) (V2 pendingDownload) = Some g" "lgt_owner g = OwnerPresent" "lgt_changePolicy g = Some PChat"
    by (simp add: gateFor_def liveGateOf_def pendingDownload_fields ownerEntry_def sampleConfig_def defaultChangePolicy_def Let_def)
  have k: "r_kind pendingDownload \<noteq> KDisclosure" by (simp add: pendingDownload_fields)
  have n: "derivedReason pendingDownload AClaim (Some g) = None" "\<not> neverNow pendingDownload (Some g)" "\<not> ownerGone pendingDownload (Some g)"
    by (simp_all add: derivedReason_def ownerGone_def neverNow_def sendsAs_def standingBound_def isChild_def pendingDownload_fields g)
  let ?oc = "classifyV2 pendingDownload AClaim (Some g) 3000"
  have o1: "oc_error ?oc = None" "\<not> oc_revokes ?oc" "oc_claimable ?oc"
    using classify_fields [OF k, of AClaim "Some g" 3000] n
    by (simp_all add: errorOf_def pendingDownload_fields isClaimable_def downloadClaimable_def g)
  show ?thesis
    unfolding claimForDownload_def claimDownloadRecord_def
  proof (rule marked_after [OF f pendingDownload_fields(1) pendingDownload_sound sampleId_ok m d refl])
    show "\<not> oc_revokes (classifyV2 pendingDownload AClaim (gateFor (Some (sampleConfig PConfirm)) (V2 pendingDownload)) (ck_classify (clockAt 3000)))"
      unfolding g(1) using o1(2) by simp
    show "claimDownloadDecision sampleRuntime sampleDownload False (ck_decide (clockAt 3000)) pendingDownload
        (classifyV2 pendingDownload AClaim (gateFor (Some (sampleConfig PConfirm)) (V2 pendingDownload)) (ck_classify (clockAt 3000))) =
      Next (pendingDownload\<lparr>r_state := Used, r_usedAt := Some (Iso 3000)\<rparr>) None"
      unfolding g(1) using o1 by (simp add: claimDownloadDecision_def pendingDownload_fields)
  qed (simp_all add: pendingDownload_fields noStore_def putRecord_def)
qed

theorem download_claim_conditions_witness:
  "\<exists>r. st_files (putRecord noStore pendingDownload) sampleId = Some (V2File r) \<and> r_kind r = KDownload \<and> r_state r = Pending \<and> r_requiredPolicy r = PChat"
  using download_claim_conditions [OF download_claimed] by (auto simp: putRecord_def pendingDownload_fields)

section \<open>A disclosure\<close>

definition sampleDisclosure :: disclosure_binding where
  "sampleDisclosure = \<lparr>dc_digest = replicate 64 97, dc_intent = js ''i'', dc_kind = AkSubscription,
     dc_versions = [\<lparr>dv_kind = VkSubscriber, dv_id = js ''s'', dv_version = 1\<rparr>]\<rparr>"

lemma sampleDisclosure_ok: "canonicalDisclosureBinding sampleDisclosure = Inr sampleDisclosure"
  by (simp add: canonicalDisclosureBinding_def sampleDisclosure_def hex64_def isHexDigit_def list_all_iff MAX_SAFE_INTEGER_def
      activationVersionsOk_def onlyKind_def)

definition disclosureMade :: "error_code + approval" where
  "disclosureMade = disclosureRecord sampleRuntime 1000 sampleId None sampleDisclosure"

definition pendingDisclosure :: approval where "pendingDisclosure = made disclosureMade"

lemma pendingDisclosure_base:
  "\<exists>d. pendingDisclosure = (pendingRecord sampleId KDisclosure 1000 LIFETIME_confirm None)
     \<lparr>r_approvedMs := Some LIFETIME_approved, r_disclosure := Some sampleDisclosure, r_bindingDigest := Some d\<rparr>"
  "disclosureMade = Inr pendingDisclosure"
  unfolding pendingDisclosure_def disclosureMade_def disclosureRecord_def
  by (simp_all add: sampleDisclosure_ok bound_def bindingDigestOf_def bindingObjectOf_def pending_defs made_def)

definition approvedDisclosure :: approval where
  "approvedDisclosure = pendingDisclosure\<lparr>r_state := Approved, r_approvedVia := Some Terminal, r_approvedAt := Some (Iso 2000),
     r_usableUntil := Some (Iso (2000 + LIFETIME_approved)), r_approvedDigest := map_option dc_digest (r_disclosure pendingDisclosure),
     r_challengeHash := None\<rparr>"

lemma pendingDisclosure_fields:
  "r_approvalId pendingDisclosure = sampleId" "r_kind pendingDisclosure = KDisclosure" "r_state pendingDisclosure = Pending"
  "r_createdAt pendingDisclosure = Iso 1000" "r_expiresAt pendingDisclosure = Iso 1801000" "r_approvedAt pendingDisclosure = None"
  "r_disclosure pendingDisclosure = Some sampleDisclosure"
proof -
  obtain d where p: "pendingDisclosure = (pendingRecord sampleId KDisclosure 1000 LIFETIME_confirm None)
     \<lparr>r_approvedMs := Some LIFETIME_approved, r_disclosure := Some sampleDisclosure, r_bindingDigest := Some d\<rparr>"
    using pendingDisclosure_base(1) by blast
  show "r_approvalId pendingDisclosure = sampleId" "r_kind pendingDisclosure = KDisclosure" "r_state pendingDisclosure = Pending"
    "r_createdAt pendingDisclosure = Iso 1000" "r_expiresAt pendingDisclosure = Iso 1801000" "r_approvedAt pendingDisclosure = None"
    "r_disclosure pendingDisclosure = Some sampleDisclosure"
    by (simp_all add: p pending_defs LIFETIME_confirm_def)
qed

lemma pendingDisclosure_sound: "soundRecord sampleRuntime pendingDisclosure"
  using disclosureRecord_sound [OF pendingDisclosure_base(2) [unfolded disclosureMade_def]] by (simp add: preparedOk_def)

lemma approvedDisclosure_sound: "soundRecord sampleRuntime approvedDisclosure"
proof -
  note s = pendingDisclosure_sound
  have "derive pendingDisclosure 2000 = pendingDisclosure"
    by (simp add: derive_def pendingDisclosure_fields clockBehind_def deadlineOf_def narrowedEnd_def windowOf_def)
  then have "inWindow pendingDisclosure 2000"
    using derive_inWindow [OF s, of 2000] pendingDisclosure_fields(3) by simp
  then show ?thesis
    unfolding approvedDisclosure_def by (rule sound_disclosure_approved [OF s pendingDisclosure_fields(3) _ pendingDisclosure_fields(2)]) simp
qed

text \<open>A look at a waiting disclosure half a second before it was made writes a record that no later read accepts.\<close>

lemma disclosure_rolled_back:
  defines "r \<equiv> derive pendingDisclosure 500"
  shows "rolledBack sampleRuntime r"
    "fst (inspect sampleRuntime (putRecord noStore pendingDisclosure) None (clockAt 500) sampleId (anyOf KDisclosure) AInspect) =
       putRecord (putRecord noStore pendingDisclosure) (stamped r 500)"
    "validateV2 sampleRuntime (stamped r 500) sampleId = Corrupt TimestampMisordered Verified"
proof -
  have b: "active pendingDisclosure" "clockBehind pendingDisclosure 500"
    by (simp_all add: pendingDisclosure_fields clockBehind_def)
  show rb: "rolledBack sampleRuntime r"
    using b pendingDisclosure_sound pendingDisclosure_fields(2) unfolding rolledBack_def r_def by blast
  have e: "r_state r = Expired" "r_kind r = KDisclosure" using rolledBack_fields [OF rb] by simp_all
  have m: "matchesExpectation (V2 pendingDisclosure) (anyOf KDisclosure)"
    by (simp add: matchesExpectation_def kindOf_def anyOf_def pendingDisclosure_fields)
  have f: "findRecord sampleRuntime (putRecord noStore pendingDisclosure) None 500 sampleId (anyOf KDisclosure) =
      Inr (V2 pendingDisclosure)"
    by (rule findRecord_sound [OF _ pendingDisclosure_fields(1) pendingDisclosure_sound sampleId_ok m])
      (simp add: putRecord_def pendingDisclosure_fields)
  show "fst (inspect sampleRuntime (putRecord noStore pendingDisclosure) None (clockAt 500) sampleId (anyOf KDisclosure) AInspect) =
      putRecord (putRecord noStore pendingDisclosure) (stamped r 500)"
    using e unfolding r_def
    by (simp add: inspect_def f derivedForm_def approvalOutcome_def classifyV2_def classifyDisclosure_def Let_def settle_def
        pendingDisclosure_fields)
  have "rolledBack sampleRuntime (stamped r 500)"
    by (rule rolledBack_stamped [OF rb])
  moreover have "r_approvalId (stamped r 500) = sampleId"
    by (simp add: r_def pendingDisclosure_fields)
  ultimately show "validateV2 sampleRuntime (stamped r 500) sampleId = Corrupt TimestampMisordered Verified"
    using rolledBack_corrupt by metis
qed

lemma disclosure_claimed:
  "snd (claimForDisclosure sampleRuntime (putRecord noStore approvedDisclosure) None (clockAt 3000) sampleId sampleDisclosure (Some 9000)) =
     Inr (approvedDisclosure\<lparr>r_state := Used, r_usedAt := Some (Iso 3000)\<rparr>)"
proof -
  have fs: "r_approvalId approvedDisclosure = sampleId" "r_kind approvedDisclosure = KDisclosure" "r_state approvedDisclosure = Approved"
    "r_disclosure approvedDisclosure = Some sampleDisclosure" "r_approvedDigest approvedDisclosure = Some (dc_digest sampleDisclosure)"
    "r_createdAt approvedDisclosure = Iso 1000" "r_approvedAt approvedDisclosure = Some (Iso 2000)"
    "r_usableUntil approvedDisclosure = Some (Iso 86402000)"
    by (simp_all add: approvedDisclosure_def pendingDisclosure_fields LIFETIME_approved_def)
  have f: "st_files (putRecord noStore approvedDisclosure) sampleId = Some (V2File approvedDisclosure)"
    by (simp add: putRecord_def fs)
  have m: "matchesExpectation (V2 approvedDisclosure) (anyOf KDisclosure)"
    by (simp add: matchesExpectation_def kindOf_def anyOf_def fs)
  have d: "derive approvedDisclosure (ck_derive (clockAt 3000)) = approvedDisclosure"
    by (simp add: derive_def fs clockBehind_def deadlineOf_def narrowedEnd_def windowOf_def timeOf_def firstOf_def)
  have same: "sameDisclosureBinding sampleDisclosure sampleDisclosure"
    by (simp add: sameDisclosureBinding_def sampleDisclosure_ok)
  have c: "claimForDisclosure sampleRuntime (putRecord noStore approvedDisclosure) None (clockAt 3000) sampleId sampleDisclosure (Some 9000) =
      thenMark (transition sampleRuntime (putRecord noStore approvedDisclosure) None (clockAt 3000) sampleId (anyOf KDisclosure) AClaim None noPrior
        (\<lambda>current oc gate _. claimDisclosureDecision sampleDisclosure (Some 9000) (ck_decide (clockAt 3000)) current oc)) None"
    by (simp add: claimForDisclosure_def claimDisclosureRecord_def MAX_SAFE_INTEGER_def)
  show ?thesis
    unfolding c
    by (rule marked_after [OF f fs(1) approvedDisclosure_sound sampleId_ok m d refl])
      (simp_all add: fs classifyDisclosure_def claimDisclosureDecision_def same noStore_def putRecord_def)
qed

theorem disclosure_claim_conditions_witness:
  "\<exists>r. st_files (putRecord noStore approvedDisclosure) sampleId = Some (V2File r) \<and> r_kind r = KDisclosure \<and> r_state r = Approved"
  using disclosure_claim_conditions [OF disclosure_claimed] by blast


section \<open>A standing approval and a use of it\<close>

definition parentId :: jstr where "parentId = js ''ap_00000000000000000000000002''"
definition sampleAccount :: jstr where "sampleAccount = js ''acc_0000000000000001''"

definition standingMade :: "error_code + approval" where
  "standingMade = standingRecord sampleRuntime 1000 parentId None sampleStanding (js ''sub'') 0 0"

definition pendingStanding :: approval where "pendingStanding = made standingMade"

lemma parentId_ok: "approvalIdPattern parentId" "parentId \<noteq> sampleId"
  by (simp_all add: parentId_def sampleId_def approvalIdPattern_def prefixedId_def js_eval isCrockford_def isNumeral_def)

lemma pendingStanding_base:
  "\<exists>d g. pendingStanding = (pendingRecord parentId KStanding 1000 LIFETIME_confirm None)
     \<lparr>r_channel := js ''slack'', r_ownerScope := SOwner, r_route := Some RConfirm,
      r_approvedMs := Some (sl_expiresDays (sb_limits sampleStanding) * STANDING_DAY_MS), r_inboxId := sampleAccount,
      r_inboxSub := Some (js ''sub''), r_draftId := js ''standing'', r_draftMessageId := g, r_contentDigest := g,
      r_sendEpoch := Some 0, r_standingEpoch := Some 0, r_policy := PConfirm, r_requiredPolicy := PConfirm,
      r_expect := no_expectation (sb_summary sampleStanding), r_standing := Some sampleStanding, r_bindingDigest := Some d\<rparr>"
  "standingMade = Inr pendingStanding"
proof -
  have a: "sb_targetId sampleStanding = sampleAccount" by (simp add: sampleStanding_def sampleAccount_def)
  show "\<exists>d g. pendingStanding = (pendingRecord parentId KStanding 1000 LIFETIME_confirm None)
     \<lparr>r_channel := js ''slack'', r_ownerScope := SOwner, r_route := Some RConfirm,
      r_approvedMs := Some (sl_expiresDays (sb_limits sampleStanding) * STANDING_DAY_MS), r_inboxId := sampleAccount,
      r_inboxSub := Some (js ''sub''), r_draftId := js ''standing'', r_draftMessageId := g, r_contentDigest := g,
      r_sendEpoch := Some 0, r_standingEpoch := Some 0, r_policy := PConfirm, r_requiredPolicy := PConfirm,
      r_expect := no_expectation (sb_summary sampleStanding), r_standing := Some sampleStanding, r_bindingDigest := Some d\<rparr>"
    "standingMade = Inr pendingStanding"
    unfolding pendingStanding_def standingMade_def standingRecord_def Let_def canonicalStandingBinding_def a
    by (simp_all add: sampleStanding_ok requireEpochs_def MAX_SAFE_INTEGER_def isKnownChannel_def knownChannels_def bound_def
        bindingDigestOf_def bindingObjectOf_def pending_defs made_def js_eval a) 
qed

lemma pendingStanding_sound: "soundRecord sampleRuntime pendingStanding"
  using standingRecord_sound [OF pendingStanding_base(2) [unfolded standingMade_def]] by (simp add: preparedOk_def)

lemma pendingStanding_fields:
  "r_approvalId pendingStanding = parentId" "r_kind pendingStanding = KStanding" "r_state pendingStanding = Pending"
  "r_ownerScope pendingStanding = SOwner" "r_inboxId pendingStanding = sampleAccount" "r_sendEpoch pendingStanding = Some 0"
  "r_standingEpoch pendingStanding = Some 0" "r_requiredPolicy pendingStanding = PConfirm" "r_createdAt pendingStanding = Iso 1000"
  "r_expiresAt pendingStanding = Iso 1801000" "r_approvedAt pendingStanding = None" "r_standing pendingStanding = Some sampleStanding"
  "r_narrowed pendingStanding = None" "r_approvedMs pendingStanding = Some (sl_expiresDays (sb_limits sampleStanding) * STANDING_DAY_MS)"
proof -
  obtain d g where p: "pendingStanding = (pendingRecord parentId KStanding 1000 LIFETIME_confirm None)
     \<lparr>r_channel := js ''slack'', r_ownerScope := SOwner, r_route := Some RConfirm,
      r_approvedMs := Some (sl_expiresDays (sb_limits sampleStanding) * STANDING_DAY_MS), r_inboxId := sampleAccount,
      r_inboxSub := Some (js ''sub''), r_draftId := js ''standing'', r_draftMessageId := g, r_contentDigest := g,
      r_sendEpoch := Some 0, r_standingEpoch := Some 0, r_policy := PConfirm, r_requiredPolicy := PConfirm,
      r_expect := no_expectation (sb_summary sampleStanding), r_standing := Some sampleStanding, r_bindingDigest := Some d\<rparr>"
    using pendingStanding_base(1) by blast
  show "r_approvalId pendingStanding = parentId" "r_kind pendingStanding = KStanding" "r_state pendingStanding = Pending"
    "r_ownerScope pendingStanding = SOwner" "r_inboxId pendingStanding = sampleAccount" "r_sendEpoch pendingStanding = Some 0"
    "r_standingEpoch pendingStanding = Some 0" "r_requiredPolicy pendingStanding = PConfirm" "r_createdAt pendingStanding = Iso 1000"
    "r_expiresAt pendingStanding = Iso 1801000" "r_approvedAt pendingStanding = None" "r_standing pendingStanding = Some sampleStanding"
    "r_narrowed pendingStanding = None" "r_approvedMs pendingStanding = Some (sl_expiresDays (sb_limits sampleStanding) * STANDING_DAY_MS)"
    by (simp_all add: p pending_defs LIFETIME_confirm_def)
qed

definition accountConfig :: config where
  "accountConfig =
     \<lparr>cf_version = 3, cf_inboxes = [], cf_accounts = [(js ''work'', \<lparr>en_id = sampleAccount, en_sendPolicy = Some PConfirm,
        en_changePolicy = None, en_platform = js ''slack''\<rparr>)], cf_defaultSend = PConfirm, cf_defaultChange = None, cf_sendEpochs = None,
      cf_standingEpoch = None, cf_legacyDrain = False\<rparr>"

definition accountGate :: live_gate where
  "accountGate = \<lparr>lgt_owner = OwnerPresent, lgt_sendPolicy = Some PConfirm, lgt_changePolicy = Some PChat, lgt_sendEpoch = Some 0,
     lgt_standingEpoch = Some 0\<rparr>"

lemma account_gate:
  "r_ownerScope r = SOwner \<Longrightarrow> r_inboxId r = sampleAccount \<Longrightarrow> r_kind r \<noteq> KChange \<Longrightarrow> gateFor (Some accountConfig) (V2 r) = Some accountGate"
  by (cases "r_kind r") (simp_all add: gateFor_def liveGateOf_def accountConfig_def accountGate_def ownerEntry_def sendEpochOf_def
      standingEpochOf_def defaultChangePolicy_def Let_def)

definition approvedStanding :: approval where
  "approvedStanding = approvedRecord pendingStanding KStanding Terminal (Some accountGate) 2000"

lemma approvedStanding_sound: "soundRecord sampleRuntime approvedStanding"
proof -
  have "derive pendingStanding 2000 = pendingStanding"
    by (simp add: derive_def pendingStanding_fields clockBehind_def deadlineOf_def narrowedEnd_def windowOf_def)
  then have "inWindow pendingStanding 2000"
    using derive_inWindow [OF pendingStanding_sound, of 2000] pendingStanding_fields(3) by simp
  then show ?thesis
    using sound_approved [OF pendingStanding_sound pendingStanding_fields(3), of 2000 Terminal "Some accountGate"] pendingStanding_fields(2)
    by (simp add: approvedStanding_def accountGate_def)
qed

lemma sample_days: "sl_expiresDays (sb_limits sampleStanding) = 7"
  by (simp add: sampleStanding_def limitsBy_def)

lemma approvedStanding_fields:
  "r_approvalId approvedStanding = parentId" "r_kind approvedStanding = KStanding" "r_state approvedStanding = Approved"
  "r_ownerScope approvedStanding = SOwner" "r_inboxId approvedStanding = sampleAccount" "r_sendEpoch approvedStanding = Some 0"
  "r_standingEpoch approvedStanding = Some 0" "r_requiredPolicy approvedStanding = PConfirm" "r_createdAt approvedStanding = Iso 1000"
  "r_approvedAt approvedStanding = Some (Iso 2000)" "r_usableUntil approvedStanding = Some (Iso 604802000)"
  "r_standing approvedStanding = Some sampleStanding" "r_narrowed approvedStanding = None" "r_approvedChangePolicy approvedStanding = Some PChat"
  by (simp_all add: approvedStanding_def approvedRecord_def pendingStanding_fields accountGate_def sample_days STANDING_DAY_MS_def)

definition sampleUse :: standing_use where
  "sampleUse = \<lparr>su_channel = js ''C0A'', su_thread = js ''t'', su_content = standingContentDigest sampleRuntime ActReaction (js ''eyes'')\<rparr>"

definition childGiven :: child_input where
  "childGiven = \<lparr>cn_standingId = parentId, cn_standingEpoch = 0, cn_inboxId = sampleAccount, cn_inboxSub = js ''sub'', cn_draftId = js ''d1'',
     cn_draftMessageId = js ''m1'', cn_contentDigest = replicate 64 97, cn_sendEpoch = 0, cn_riskFlags = [],
     cn_expect = lsd_expect sampleLive, cn_use = sampleUse\<rparr>"

definition childMade :: "error_code + approval" where
  "childMade = childRecord sampleRuntime 3000 sampleId None (Some accountGate) childGiven"

definition sampleChild :: approval where "sampleChild = made childMade"

lemma sampleChild_base:
  "\<exists>d. sampleChild = (pendingRecord sampleId KSend 3000 LIFETIME_standingChild None)
     \<lparr>r_channel := js ''slack'', r_ownerScope := SOwner, r_route := Some RStanding, r_approvedMs := Some LIFETIME_standingChild,
      r_inboxId := sampleAccount, r_inboxSub := Some (js ''sub''), r_draftId := js ''d1'', r_draftMessageId := js ''m1'',
      r_contentDigest := replicate 64 97, r_sendEpoch := Some 0, r_standingEpoch := Some 0, r_standingId := Some parentId,
      r_standingUse := Some sampleUse, r_policy := PConfirm, r_requiredPolicy := PConfirm, r_riskFlags := [],
      r_expect := lsd_expect sampleLive, r_state := Approved, r_approvedVia := Some ViaStanding, r_approvedAt := Some (Iso 3000),
      r_usableUntil := Some (Iso (3000 + LIFETIME_standingChild)), r_bindingDigest := Some d, r_approvedBindingDigest := Some d\<rparr>"
  "childMade = Inr sampleChild"
  unfolding sampleChild_def childMade_def childRecord_def
  by (simp_all add: childGiven_def isKnownChannel_def knownChannels_def bound_def bindingDigestOf_def bindingObjectOf_def pending_defs made_def
      accountGate_def)

lemma sampleChild_fields:
  "r_approvalId sampleChild = sampleId" "r_kind sampleChild = KSend" "r_state sampleChild = Approved" "r_ownerScope sampleChild = SOwner"
  "r_inboxId sampleChild = sampleAccount" "r_route sampleChild = Some RStanding" "r_sendEpoch sampleChild = Some 0"
  "r_standingEpoch sampleChild = Some 0" "r_standingId sampleChild = Some parentId" "r_standingUse sampleChild = Some sampleUse"
  "r_requiredPolicy sampleChild = PConfirm" "r_approvedBindingDigest sampleChild = r_bindingDigest sampleChild"
  "r_createdAt sampleChild = Iso 3000" "r_approvedAt sampleChild = Some (Iso 3000)" "r_usableUntil sampleChild = Some (Iso 123000)"
  "r_inboxSub sampleChild = Some (js ''sub'')" "r_draftMessageId sampleChild = js ''m1''" "r_contentDigest sampleChild = replicate 64 97"
  "r_expect sampleChild = lsd_expect sampleLive"
proof -
  obtain d where p: "sampleChild = (pendingRecord sampleId KSend 3000 LIFETIME_standingChild None)
     \<lparr>r_channel := js ''slack'', r_ownerScope := SOwner, r_route := Some RStanding, r_approvedMs := Some LIFETIME_standingChild,
      r_inboxId := sampleAccount, r_inboxSub := Some (js ''sub''), r_draftId := js ''d1'', r_draftMessageId := js ''m1'',
      r_contentDigest := replicate 64 97, r_sendEpoch := Some 0, r_standingEpoch := Some 0, r_standingId := Some parentId,
      r_standingUse := Some sampleUse, r_policy := PConfirm, r_requiredPolicy := PConfirm, r_riskFlags := [],
      r_expect := lsd_expect sampleLive, r_state := Approved, r_approvedVia := Some ViaStanding, r_approvedAt := Some (Iso 3000),
      r_usableUntil := Some (Iso (3000 + LIFETIME_standingChild)), r_bindingDigest := Some d, r_approvedBindingDigest := Some d\<rparr>"
    using sampleChild_base(1) by blast
  show "r_approvalId sampleChild = sampleId" "r_kind sampleChild = KSend" "r_state sampleChild = Approved" "r_ownerScope sampleChild = SOwner"
    "r_inboxId sampleChild = sampleAccount" "r_route sampleChild = Some RStanding" "r_sendEpoch sampleChild = Some 0"
    "r_standingEpoch sampleChild = Some 0" "r_standingId sampleChild = Some parentId" "r_standingUse sampleChild = Some sampleUse"
    "r_requiredPolicy sampleChild = PConfirm" "r_approvedBindingDigest sampleChild = r_bindingDigest sampleChild"
    "r_createdAt sampleChild = Iso 3000" "r_approvedAt sampleChild = Some (Iso 3000)" "r_usableUntil sampleChild = Some (Iso 123000)"
    "r_inboxSub sampleChild = Some (js ''sub'')" "r_draftMessageId sampleChild = js ''m1''" "r_contentDigest sampleChild = replicate 64 97"
    "r_expect sampleChild = lsd_expect sampleLive"
    by (simp_all add: p pending_defs LIFETIME_standingChild_def)
qed

lemma sampleChild_sound: "soundRecord sampleRuntime sampleChild"
proof -
  have u: "standingUseProblem sampleUse = None"
    using sha_hexD [OF sha_hex_sample] by (simp add: standingUseProblem_def sampleUse_def standingContentDigest_def)
  show ?thesis
    using childRecord_sound [OF sampleChild_base(2) [unfolded childMade_def]] parentId_ok u
    by (simp add: preparedOk_def childGiven_def hex64_def isHexDigit_def list_all_iff requireEpochs_def MAX_SAFE_INTEGER_def sampleAccount_def)
qed

definition familyStore :: store where
  "familyStore = putRecord (putRecord noStore approvedStanding) sampleChild"

lemma familyStore_files:
  "st_files familyStore sampleId = Some (V2File sampleChild)" "st_files familyStore parentId = Some (V2File approvedStanding)"
  "st_claims familyStore sampleId = None"
  using parentId_ok(2) by (simp_all add: familyStore_def putRecord_def sampleChild_fields approvedStanding_fields noStore_def)

lemma approvedStanding_derive: "derive approvedStanding 4000 = approvedStanding"
proof -
  have n: "narrowedEnd approvedStanding = Some 604802000"
    by (simp add: narrowedEnd_def approvedStanding_fields timeOf_def standingDays_def sample_days STANDING_DAY_MS_def)
  show ?thesis
    by (simp add: derive_def deadlineOf_def n windowOf_def clockBehind_def approvedStanding_fields firstOf_def timeOf_def)
qed

lemma parent_outcome:
  "oc_error (classifyV2 approvedStanding AClaim (Some accountGate) 4000) = None"
  "\<not> oc_revokes (classifyV2 approvedStanding AClaim (Some accountGate) 4000)"
  "oc_record (classifyV2 approvedStanding AClaim (Some accountGate) 4000) = Some approvedStanding"
proof -
  have k: "r_kind approvedStanding \<noteq> KDisclosure" by (simp add: approvedStanding_fields)
  have n: "derivedReason approvedStanding AClaim (Some accountGate) = None"
    by (simp add: derivedReason_def ownerGone_def neverNow_def sendsAs_def standingBound_def approvedStanding_fields accountGate_def
        stricterPolicy_def changePolicyTightened_def)
  show "oc_error (classifyV2 approvedStanding AClaim (Some accountGate) 4000) = None"
    "\<not> oc_revokes (classifyV2 approvedStanding AClaim (Some accountGate) 4000)"
    "oc_record (classifyV2 approvedStanding AClaim (Some accountGate) 4000) = Some approvedStanding"
    using classify_fields [OF k, of AClaim "Some accountGate" 4000] n by (simp_all add: errorOf_def approvedStanding_fields)
qed

lemma parent_inspected:
  "inspect sampleRuntime familyStore (Some accountConfig) (clockAt 4000) parentId (ownedBy KStanding sampleAccount) AClaim =
     (familyStore, Inr (V2 approvedStanding, classifyV2 approvedStanding AClaim (Some accountGate) 4000))"
proof -
  have m: "matchesExpectation (V2 approvedStanding) (ownedBy KStanding sampleAccount)"
    by (simp add: matchesExpectation_def kindOf_def ownerOf_def ownedBy_def approvedStanding_fields)
  have f: "findRecord sampleRuntime familyStore (Some accountConfig) 4000 parentId (ownedBy KStanding sampleAccount) = Inr (V2 approvedStanding)"
    by (rule findRecord_sound [OF familyStore_files(2) approvedStanding_fields(1) approvedStanding_sound parentId_ok(1) m])
  have g: "gateFor (Some accountConfig) (V2 approvedStanding) = Some accountGate"
    by (rule account_gate) (simp_all add: approvedStanding_fields)
  show ?thesis
    using parent_outcome by (simp add: inspect_def f derivedForm_def approvedStanding_derive g approvalOutcome_def settle_def Let_def)
qed

lemma parent_covers:
  "parentCovers sampleChild sampleUse (classifyV2 approvedStanding AClaim (Some accountGate) 4000) = Inr None"
  using parent_outcome
  by (simp add: parentCovers_def approvedStanding_fields effectiveStanding_def Let_def)
    (simp add: sampleStanding_def sampleUse_def contentOf_def samplePlace_def)

definition childLive :: live_send where
  "childLive = sampleLive\<lparr>lsd_inboxId := sampleAccount\<rparr>"

lemma child_claimed:
  "snd (claimForSend sampleRuntime familyStore (Some accountConfig) (clockAt 4000) (clockAt 4000) sampleId childLive False sampleToken) =
     Inr (sampleChild\<lparr>r_state := Sending, r_sendingAt := Some (Iso 4000)\<rparr>)"
proof -
  have d: "derive sampleChild (ck_derive (clockAt 4000)) = sampleChild"
    by (simp add: derive_def deadlineOf_def narrowedEnd_def windowOf_def clockBehind_def sampleChild_fields firstOf_def timeOf_def)
  have m: "matchesExpectation (V2 sampleChild) (ownedBy KSend (lsd_inboxId childLive))"
    by (simp add: matchesExpectation_def kindOf_def ownerOf_def ownedBy_def sampleChild_fields childLive_def)
  have g: "gateFor (Some accountConfig) (V2 sampleChild) = Some accountGate"
    by (rule account_gate) (simp_all add: sampleChild_fields)
  let ?oc = "classifyV2 sampleChild AClaim (Some accountGate) 4000"
  have k: "r_kind sampleChild \<noteq> KDisclosure" by (simp add: sampleChild_fields)
  have n: "derivedReason sampleChild AClaim (Some accountGate) = None" "\<not> neverNow sampleChild (Some accountGate)"
    by (simp_all add: derivedReason_def ownerGone_def neverNow_def sendsAs_def standingBound_def isChild_def sampleChild_fields accountGate_def
        stricterPolicy_def)
  have o1: "oc_error ?oc = None" "\<not> oc_revokes ?oc" "oc_claimable ?oc"
    using classify_fields [OF k, of AClaim "Some accountGate" 4000] n
    by (simp_all add: errorOf_def sampleChild_fields isClaimable_def)
  have prior: "childPrior sampleRuntime (Some accountConfig) (clockAt 4000) familyStore sampleChild ?oc = (familyStore, Inr None)"
    using o1(1) parent_inspected parent_covers
    by (simp add: childPrior_def standingParentProblem_def sampleChild_fields)
  have p: "sendProblem sampleRuntime sampleChild childLive = None"
    by (simp add: sendProblem_def accountDiffers_def sampleChild_fields childLive_def sampleLive_def sameExpectation_def sameList_def)
  let ?n = "sampleChild\<lparr>r_state := Sending, r_sendingAt := Some (Iso 4000)\<rparr>"
  have "claimSendDecision sampleRuntime childLive False 4000 None sampleChild ?oc = Next ?n None"
    using o1 p by (simp add: claimSendDecision_def sampleChild_fields)
  then have "claimSendRecord sampleRuntime familyStore (Some accountConfig) (clockAt 4000) (clockAt 4000) sampleId childLive False =
      (putRecord familyStore (stamped ?n 4000), Inr ?n)"
    unfolding claimSendRecord_def
    using transition_on [OF familyStore_files(1) sampleChild_fields(1) sampleChild_sound sampleId_ok m d refl, of AClaim "Some accountConfig" None
        "childPrior sampleRuntime (Some accountConfig) (clockAt 4000)" familyStore "Inr None"] prior o1(2)
    by (simp add: g conclude_def)
  then show ?thesis
    using familyStore_files(3) by (simp add: claimForSend_def thenMark_def markClaimed_def sampleChild_fields)
qed

theorem standing_use_only_while_covered_witness:
  "\<exists>use p. r_standingUse sampleChild = Some use \<and> st_files familyStore parentId = Some (V2File p) \<and> r_state p = Approved \<and> covers p use"
proof -
  have c: "isChild sampleChild" by (simp add: isChild_def sampleChild_fields)
  show ?thesis
    using standing_use_only_while_covered [OF child_claimed familyStore_files(1) c] by (auto simp: sampleChild_fields)
qed

end
