(* ===== verification/IsoTime.thy ===== *)
theory IsoTime
  imports Json Patterns "HOL-Library.Code_Target_Nat" "HOL-Library.Code_Target_Int"
begin

text \<open>
  Times as texts: what \<open>Date.prototype.toISOString\<close> writes and what \<open>Date.parse\<close> reads of a text of that form, as
  ECMAScript defines them (sections 21.4.1 and 21.4.4.36). A moment is a whole number of milliseconds since 1970.

  A month is 1 to 12 and a day 1 to 31; a day past the end of its month is counted on into the next, as \<open>MakeDay\<close>
  does. \<open>24:00:00.000\<close> is the end of a day. Years are those of four digits, \<open>moment\<close> the moments in them.
\<close>

section \<open>Days\<close>

definition isLeapYear :: "nat \<Rightarrow> bool" where
  "isLeapYear y \<longleftrightarrow> y mod 4 = 0 \<and> (y mod 100 \<noteq> 0 \<or> y mod 400 = 0)"

text \<open>The days before the first of January of a year, from that of the year 0.\<close>

definition daysBeforeYear :: "nat \<Rightarrow> nat" where
  "daysBeforeYear y = 365 * y + (y + 3) div 4 + (y + 399) div 400 - (y + 99) div 100"

definition monthLengths :: "nat \<Rightarrow> nat list" where
  "monthLengths y = [31, if isLeapYear y then 29 else 28, 31, 30, 31, 30, 31, 31, 30, 31, 30, 31]"

definition daysBeforeMonth :: "nat \<Rightarrow> nat \<Rightarrow> nat" where
  "daysBeforeMonth y m = sum_list (take (m - 1) (monthLengths y))"

text \<open>The day 1970-01-01.\<close>

definition EPOCH_DAY :: nat where "EPOCH_DAY = 719528"

definition MS_PER_DAY :: nat where "MS_PER_DAY = 86400000"

text \<open>The year of a day: the last one that does not start after it, from one that surely does not.\<close>

function yearFrom :: "nat \<Rightarrow> nat \<Rightarrow> nat" where
  "yearFrom d y = (if d < daysBeforeYear (y + 1) then y else yearFrom d (y + 1))"
  by pat_completeness auto
termination
  by (relation "measure (\<lambda>(d, y). d + 1 - y)") (auto simp: daysBeforeYear_def)

declare yearFrom.simps [simp del]

definition yearOf :: "nat \<Rightarrow> nat" where
  "yearOf d = yearFrom d (d div 366)"

fun monthFrom :: "nat list \<Rightarrow> nat \<Rightarrow> nat \<Rightarrow> nat \<times> nat" where
  "monthFrom (l # ls) m d = (if d < l then (m, d + 1) else monthFrom ls (m + 1) (d - l))"
| "monthFrom [] m d = (m, d + 1)"

section \<open>Texts\<close>

fun padded :: "nat \<Rightarrow> nat \<Rightarrow> jstr" where
  "padded 0 n = []"
| "padded (Suc k) n = padded k (n div 10) @ [48 + n mod 10]"

definition toISOString :: "int \<Rightarrow> jstr" where
  "toISOString t =
     (let ms = nat (t + int EPOCH_DAY * int MS_PER_DAY);
          d = ms div MS_PER_DAY; r = ms mod MS_PER_DAY;
          y = yearOf d;
          (m, day) = monthFrom (monthLengths y) 1 (d - daysBeforeYear y)
      in padded 4 y @ [45] @ padded 2 m @ [45] @ padded 2 day @ [84]
         @ padded 2 (r div 3600000) @ [58] @ padded 2 (r div 60000 mod 60) @ [58]
         @ padded 2 (r div 1000 mod 60) @ [46] @ padded 3 (r mod 1000) @ [90])"

text \<open>\<open>/^\d{4}-\d{2}-\d{2}T\d{2}:\d{2}:\d{2}\.\d{3}Z$/\<close>, 0 standing for a digit.\<close>

definition isoForm :: "nat list" where
  "isoForm = [0,0,0,0, 45, 0,0, 45, 0,0, 84, 0,0, 58, 0,0, 58, 0,0, 46, 0,0,0, 90]"

definition ISO_TIME :: "jstr \<Rightarrow> bool" where
  "ISO_TIME s = list_all2 (\<lambda>f u. if f = 0 then isNumeral u else u = f) isoForm s"

definition fieldAt :: "nat \<Rightarrow> nat \<Rightarrow> jstr \<Rightarrow> nat" where
  "fieldAt a n s = numberOf (take n (drop a s))"

text \<open>\<open>Date.parse\<close> of a text that has the form.\<close>

definition dateParse :: "jstr \<Rightarrow> int option" where
  "dateParse s =
     (let y = fieldAt 0 4 s; m = fieldAt 5 2 s; d = fieldAt 8 2 s;
          h = fieldAt 11 2 s; n = fieldAt 14 2 s; sec = fieldAt 17 2 s; f = fieldAt 20 3 s
      in if 1 \<le> m \<and> m \<le> 12 \<and> 1 \<le> d \<and> d \<le> 31 \<and> n \<le> 59 \<and> sec \<le> 59
            \<and> (h \<le> 23 \<or> h = 24 \<and> n = 0 \<and> sec = 0 \<and> f = 0)
         then Some (int ((daysBeforeYear y + daysBeforeMonth y m + d - 1) * MS_PER_DAY
                + h * 3600000 + n * 60000 + sec * 1000 + f)
              - int EPOCH_DAY * int MS_PER_DAY)
         else None)"

definition moment :: "int \<Rightarrow> bool" where
  "moment t \<longleftrightarrow> - 62167219200000 \<le> t \<and> t < 253402300800000"

section \<open>What is written reads back\<close>

lemma length_padded [simp]: "length (padded k n) = k"
  by (induction k arbitrary: n) simp_all

lemma padded_numerals: "u \<in> set (padded k n) \<Longrightarrow> isNumeral u"
  by (induction k arbitrary: n) (auto simp: isNumeral_def)

lemma numberOf_padded: "n < 10 ^ k \<Longrightarrow> numberOf (padded k n) = n"
proof (induction k arbitrary: n)
  case (Suc k)
  then have "n div 10 < 10 ^ k"
    by (simp add: less_mult_imp_div_less)
  with Suc.IH [of "n div 10"] show ?case
    by (simp add: numberOf_def)
qed (simp add: numberOf_def)

lemma list_all2_padded:
  assumes "list_all2 (\<lambda>f u. if f = 0 then isNumeral u else u = f) fs s"
  shows "list_all2 (\<lambda>f u. if f = 0 then isNumeral u else u = f) (replicate k 0 @ fs) (padded k n @ s)"
proof (rule list_all2_appendI [OF _ assms])
  show "list_all2 (\<lambda>f u. if f = 0 then isNumeral u else u = f) (replicate k 0) (padded k n)"
    by (rule list_all2_all_nthI) (auto intro: padded_numerals [OF nth_mem])
qed

lemma div_le_of_hundred: "(y + 99) div 100 \<le> (y :: nat)"
proof -
  have "(y + 99) div 100 < Suc y"
    by (rule less_mult_imp_div_less) simp
  then show ?thesis
    by simp
qed

lemma daysBeforeYear_step: "daysBeforeYear (y + 1) = daysBeforeYear y + (if isLeapYear y then 366 else 365)"
proof -
  have days: "daysBeforeYear z = a + b + 365 * z - c"
    if "a = (z + 3) div 4" "b = (z + 399) div 400" "c = (z + 99) div 100" for a b c z
    unfolding that daysBeforeYear_def by (simp only: add.commute add.left_commute)
  have carry: "(y + 1 + m) div Suc m = (y + m) div Suc m + (if y mod Suc m = 0 then 1 else 0)" for m
    using div_Suc [of "y + m" "Suc m"] mod_add_self2 [of y "Suc m"] by simp
  obtain a b c where old: "a = (y + 3) div 4" "b = (y + 399) div 400" "c = (y + 99) div 100"
    by blast
  have new: "a + (if y mod 4 = 0 then 1 else 0) = (y + 1 + 3) div 4"
    "b + (if y mod 400 = 0 then 1 else 0) = (y + 1 + 399) div 400"
    "c + (if y mod 100 = 0 then 1 else 0) = (y + 1 + 99) div 100"
    using carry [of 3] carry [of 399] carry [of 99] by (simp_all add: old)
  have "c \<le> y"
    unfolding old by (rule div_le_of_hundred)
  moreover have "y mod 100 = 0" if "y mod 400 = 0"
    using that mod_mod_cancel [of 100 400 y] by simp
  moreover have "y mod 4 = 0" if "y mod 100 = 0"
    using that mod_mod_cancel [of 4 100 y] by simp
  ultimately show ?thesis
    unfolding days [OF old] days [OF new] isLeapYear_def by auto
qed

lemma daysBeforeYear_mono: "y \<le> z \<Longrightarrow> daysBeforeYear y \<le> daysBeforeYear z"
  by (induction rule: inc_induct) (use daysBeforeYear_step in \<open>auto intro: order_trans\<close>)

lemma yearFrom_bounds:
  assumes "daysBeforeYear y \<le> d"
  shows "daysBeforeYear (yearFrom d y) \<le> d \<and> d < daysBeforeYear (yearFrom d y + 1)"
  using assms
proof (induction d y rule: yearFrom.induct)
  case (1 d y)
  then show ?case
    by (subst (1 2) yearFrom.simps) auto
qed

lemma yearOf_bounds: "daysBeforeYear (yearOf d) \<le> d" "d < daysBeforeYear (yearOf d + 1)"
proof -
  have "daysBeforeYear y \<le> 366 * y" for y
    by (induction y) (use daysBeforeYear_step in \<open>auto simp: daysBeforeYear_def [of 0]\<close>)
  from this [of "d div 366"] have "daysBeforeYear (d div 366) \<le> d"
    by (rule order_trans) simp
  then show "daysBeforeYear (yearOf d) \<le> d" "d < daysBeforeYear (yearOf d + 1)"
    using yearFrom_bounds unfolding yearOf_def by blast+
qed

lemma monthFrom_sum:
  assumes "d < sum_list ls" "monthFrom ls m d = (m', day)"
  shows "\<exists>k < length ls. m' = m + k \<and> sum_list (take k ls) + day = d + 1 \<and> 1 \<le> day \<and> day \<le> ls ! k"
  using assms
proof (induction ls arbitrary: m d)
  case (Cons l ls)
  show ?case
  proof (cases "d < l")
    case True
    with Cons.prems show ?thesis
      by (intro exI [of _ 0]) auto
  next
    case False
    with Cons.prems have "d - l < sum_list ls" "monthFrom ls (m + 1) (d - l) = (m', day)"
      by auto
    from Cons.IH [OF this] obtain k where "k < length ls" "m' = m + 1 + k"
        "sum_list (take k ls) + day = d - l + 1" "1 \<le> day" "day \<le> ls ! k"
      by blast
    with False show ?thesis
      by (intro exI [of _ "k + 1"]) auto
  qed
qed simp

lemma monthLengths_sum: "sum_list (monthLengths y) = (if isLeapYear y then 366 else 365)"
  by (simp add: monthLengths_def)

lemma length_monthLengths [simp]: "length (monthLengths y) = 12"
  by (simp add: monthLengths_def)

lemma monthLengths_bound: "k < 12 \<Longrightarrow> monthLengths y ! k \<le> 31"
proof -
  assume "k < 12"
  moreover have "\<forall>l \<in> set (monthLengths y). l \<le> 31"
    by (simp add: monthLengths_def)
  ultimately show ?thesis
    by simp
qed

text \<open>The parts of a moment, and that they are its parts.\<close>

lemma day_parts:
  assumes "(m, day) = monthFrom (monthLengths (yearOf d)) 1 (d - daysBeforeYear (yearOf d))"
  shows "1 \<le> m" "m \<le> 12" "1 \<le> day" "day \<le> 31"
    "daysBeforeYear (yearOf d) + daysBeforeMonth (yearOf d) m + day - 1 = d"
proof -
  let ?y = "yearOf d"
  have "d - daysBeforeYear ?y < sum_list (monthLengths ?y)"
    using yearOf_bounds [of d] daysBeforeYear_step [of ?y] by (simp add: monthLengths_sum)
  from monthFrom_sum [OF this assms [symmetric]] obtain k where k: "k < 12" "m = 1 + k"
      "sum_list (take k (monthLengths ?y)) + day = d - daysBeforeYear ?y + 1" "1 \<le> day" "day \<le> monthLengths ?y ! k"
    by auto
  then show "1 \<le> m" "m \<le> 12" "1 \<le> day" "day \<le> 31"
    using monthLengths_bound [of k ?y] by auto
  show "daysBeforeYear ?y + daysBeforeMonth ?y m + day - 1 = d"
    using k yearOf_bounds(1) [of d] by (simp add: daysBeforeMonth_def)
qed

lemma yearOf_four_digits:
  assumes "d < 3652425"
  shows "yearOf d < 10000"
proof (rule ccontr)
  assume "\<not> yearOf d < 10000"
  then have "daysBeforeYear 10000 \<le> daysBeforeYear (yearOf d)"
    by (intro daysBeforeYear_mono) simp
  then show False
    using yearOf_bounds(1) [of d] assms by (simp add: daysBeforeYear_def)
qed

lemma time_parts:
  fixes r :: nat
  assumes "r < 86400000"
  shows "r div 3600000 \<le> 23" "r div 60000 mod 60 \<le> 59" "r div 1000 mod 60 \<le> 59"
    "r div 3600000 * 3600000 + r div 60000 mod 60 * 60000 + r div 1000 mod 60 * 1000 + r mod 1000 = r"
proof -
  show "r div 3600000 \<le> 23"
    using assms by (simp add: less_mult_imp_div_less flip: less_Suc_eq_le)
  show "r div 60000 mod 60 \<le> 59" "r div 1000 mod 60 \<le> 59"
    by (simp_all flip: less_Suc_eq_le)
  define a b where "a = r div 1000" and "b = a div 60"
  have "r div 60000 = b" "r div 3600000 = b div 60"
    by (simp_all add: a_def b_def flip: div_mult2_eq)
  moreover have "r = a * 1000 + r mod 1000" "a = b * 60 + a mod 60" "b = b div 60 * 60 + b mod 60"
    by (simp_all add: a_def b_def)
  ultimately show "r div 3600000 * 3600000 + r div 60000 mod 60 * 60000 + r div 1000 mod 60 * 1000 + r mod 1000 = r"
    by (simp only: \<open>r div 60000 = b\<close> \<open>r div 3600000 = b div 60\<close> a_def [symmetric])
qed

lemma fields_of_text:
  assumes "m < 100" "d < 100" "h < 100" "n < 100" "sec < 100" "f < 1000"
    and s: "s = padded 4 y @ [45] @ padded 2 m @ [45] @ padded 2 d @ [84] @ padded 2 h @ [58] @ padded 2 n @ [58]
      @ padded 2 sec @ [46] @ padded 3 f @ [90]"
  shows "y < 10000 \<Longrightarrow> fieldAt 0 4 s = y" "fieldAt 5 2 s = m" "fieldAt 8 2 s = d" "fieldAt 11 2 s = h" "fieldAt 14 2 s = n"
    "fieldAt 17 2 s = sec" "fieldAt 20 3 s = f"
  using assms(1-6) unfolding fieldAt_def s
  by (simp_all add: numberOf_padded del: padded.simps)

lemma toISOString_form: "ISO_TIME (toISOString t)"
proof -
  have last: "list_all2 (\<lambda>f u. if f = 0 then isNumeral u else u = f) [90] [90]"
    by simp
  have sep: "list_all2 (\<lambda>f u. if f = 0 then isNumeral u else u = f) (c # fs) (c # s)"
    if "c \<noteq> 0" "list_all2 (\<lambda>f u. if f = 0 then isNumeral u else u = f) fs s" for c fs s
    using that by simp
  have form: "isoForm = replicate 4 0 @ 45 # replicate 2 0 @ 45 # replicate 2 0 @ 84 # replicate 2 0 @ 58
      # replicate 2 0 @ 58 # replicate 2 0 @ 46 # replicate 3 0 @ [90]"
    by (simp add: isoForm_def numeral_eq_Suc)
  show ?thesis
    unfolding ISO_TIME_def form toISOString_def Let_def split_def append_Cons append_Nil
    by (intro list_all2_padded sep last) simp_all
qed

text \<open>The fields of what is written, and what they name.\<close>

lemma toISOString_fields:
  fixes t :: int
  defines "s \<equiv> toISOString t"
  defines "ms \<equiv> nat (t + int EPOCH_DAY * int MS_PER_DAY)"
  shows "\<exists>y m d h n sec f. (y < 10000 \<longrightarrow> fieldAt 0 4 s = y) \<and> fieldAt 5 2 s = m \<and> fieldAt 8 2 s = d
    \<and> fieldAt 11 2 s = h \<and> fieldAt 14 2 s = n \<and> fieldAt 17 2 s = sec \<and> fieldAt 20 3 s = f
    \<and> 1 \<le> m \<and> m \<le> 12 \<and> 1 \<le> d \<and> d \<le> 31 \<and> h \<le> 23 \<and> n \<le> 59 \<and> sec \<le> 59 \<and> y = yearOf (ms div MS_PER_DAY)
    \<and> (daysBeforeYear y + daysBeforeMonth y m + d - 1) * MS_PER_DAY + h * 3600000 + n * 60000 + sec * 1000 + f = ms"
proof -
  define d where "d = ms div MS_PER_DAY"
  define r where "r = ms mod MS_PER_DAY"
  define y where "y = yearOf d"
  obtain m day where md: "(m, day) = monthFrom (monthLengths y) 1 (d - daysBeforeYear y)"
    by (metis surj_pair)
  have r: "r < 86400000"
    by (simp add: r_def MS_PER_DAY_def)
  note parts = day_parts [OF md [unfolded y_def], folded y_def]
  note time = time_parts [OF r]
  let ?h = "r div 3600000" and ?n = "r div 60000 mod 60" and ?s = "r div 1000 mod 60" and ?f = "r mod 1000"
  have written: "s = padded 4 y @ [45] @ padded 2 m @ [45] @ padded 2 day @ [84] @ padded 2 ?h @ [58] @ padded 2 ?n @ [58]
      @ padded 2 ?s @ [46] @ padded 3 ?f @ [90]"
    unfolding s_def toISOString_def ms_def [symmetric] unfolding Let_def
    by (simp only: md [symmetric] split_conv flip: d_def r_def y_def)
  have small: "m < 100" "day < 100" "?h < 100" "?n < 100" "?s < 100" "?f < 1000"
    using parts(2,4) time(1-3) by simp_all
  have "d * MS_PER_DAY + ?h * 3600000 + ?n * 60000 + ?s * 1000 + ?f = ms"
    using time(4) div_mult_mod_eq [of ms MS_PER_DAY] unfolding d_def [symmetric] r_def [symmetric] by linarith
  then have total: "(daysBeforeYear y + daysBeforeMonth y m + day - 1) * MS_PER_DAY + ?h * 3600000 + ?n * 60000
      + ?s * 1000 + ?f = ms"
    by (simp only: parts(5))
  note f = fields_of_text [OF small written]
  have first: "y < 10000 \<longrightarrow> fieldAt 0 4 s = y"
    using f(1) by blast
  have y: "y = yearOf (ms div MS_PER_DAY)"
    by (simp only: y_def d_def)
  show ?thesis
    by (intro exI conjI) (fact first, (fact f(2-7) parts(1-4) time(1-3) y total)+)
qed

lemma dateParse_toISOString:
  assumes "moment t"
  shows "dateParse (toISOString t) = Some t"
proof -
  let ?ms = "nat (t + int EPOCH_DAY * int MS_PER_DAY)"
  obtain y m d h n sec f where fields: "y < 10000 \<longrightarrow> fieldAt 0 4 (toISOString t) = y" "fieldAt 5 2 (toISOString t) = m"
      "fieldAt 8 2 (toISOString t) = d" "fieldAt 11 2 (toISOString t) = h" "fieldAt 14 2 (toISOString t) = n"
      "fieldAt 17 2 (toISOString t) = sec" "fieldAt 20 3 (toISOString t) = f"
      "1 \<le> m" "m \<le> 12" "1 \<le> d" "d \<le> 31" "h \<le> 23" "n \<le> 59" "sec \<le> 59" "y = yearOf (?ms div MS_PER_DAY)"
      "(daysBeforeYear y + daysBeforeMonth y m + d - 1) * MS_PER_DAY + h * 3600000 + n * 60000 + sec * 1000 + f = ?ms"
    using toISOString_fields [of t] by auto
  have ms: "int ?ms = t + int EPOCH_DAY * int MS_PER_DAY"
    using assms by (simp add: moment_def EPOCH_DAY_def MS_PER_DAY_def)
  then have "int ?ms < int (3652425 * 86400000)"
    using assms by (simp add: moment_def EPOCH_DAY_def MS_PER_DAY_def)
  then have "?ms < 3652425 * 86400000"
    by (simp only: of_nat_less_iff)
  then have "?ms div MS_PER_DAY < 3652425"
    by (simp add: MS_PER_DAY_def less_mult_imp_div_less)
  then have "y < 10000"
    using yearOf_four_digits fields(15) by simp
  then have "dateParse (toISOString t) = Some (int ?ms - int EPOCH_DAY * int MS_PER_DAY)"
    unfolding dateParse_def fields(2-7) using fields(1,8-14) unfolding fields(16) [symmetric] by simp
  then show ?thesis
    unfolding ms by simp
qed

lemma dateParse_written [simp]: "\<exists>u. dateParse (toISOString t) = Some u"
proof -
  obtain m d h n sec where "fieldAt 5 2 (toISOString t) = m" "fieldAt 8 2 (toISOString t) = d"
      "fieldAt 11 2 (toISOString t) = h" "fieldAt 14 2 (toISOString t) = n" "fieldAt 17 2 (toISOString t) = sec"
      "1 \<le> m" "m \<le> 12" "1 \<le> d" "d \<le> 31" "h \<le> 23" "n \<le> 59" "sec \<le> 59"
    using toISOString_fields [of t] by auto
  then show ?thesis
    unfolding dateParse_def Let_def by simp
qed

lemma toISOString_inject: "moment t \<Longrightarrow> moment u \<Longrightarrow> toISOString t = toISOString u \<longleftrightarrow> t = u"
  by (metis dateParse_toISOString option.inject)

lemma toISOString_example: "toISOString 1729936800123 = js ''2024-10-26T10:00:00.123Z''"
  by code_simp

end
