(* ===== verification/SendLedger.thy ===== *)
theory SendLedger
  imports IsoTime Errors "HOL-Library.AList" "HOL-Library.List_Lexorder"
begin

text \<open>
  The send ledger (\<open>packages/core/src/ledger.ts\<close>): one file of lines per inbox, from which the caps on sends are
  counted. A file is its lines; one that is not JSON is skipped. An operation holds the lock of its file, so it is one
  step, but it reads the clock up to three times: the times are arguments, in the order of the reads.
\<close>

section \<open>The ledger\<close>

datatype ledger_line = NotJson | ReserveLine jstr jstr | ReleaseLine jstr jstr

type_synonym ledger_files = "jstr \<Rightarrow> ledger_line list"

record caps =
  cp_perHour :: nat
  cp_perDay :: nat

record cap_status =
  cs_hour :: nat
  cs_day :: nat
  cs_resetAt :: "jstr option"

datatype ledger_error = NotAnInbox | RateCapped cap_status

fun ledgerErrorCode :: "ledger_error \<Rightarrow> error_code" where
  "ledgerErrorCode (RateCapped _) = RATE_CAPPED"
| "ledgerErrorCode NotAnInbox = UNEXPECTED"

definition HOUR :: int where "HOUR = 60 * 60 * 1000"
definition DAY :: int where "DAY = 24 * HOUR"

definition inboxPattern :: "jstr \<Rightarrow> bool" where
  "inboxPattern = prefixedId (js ''ibx_'') (\<lambda>u. isUpper u \<or> isNumeral u) 16"

text \<open>\<open>new Date(at).getTime() > since\<close>: false of a text that is no time.\<close>

definition laterThan :: "int \<Rightarrow> jstr \<Rightarrow> bool" where
  "laterThan since at' = (case dateParse at' of None \<Rightarrow> False | Some t \<Rightarrow> since < t)"

fun reservedWith :: "(jstr \<times> jstr) list \<Rightarrow> ledger_line \<Rightarrow> (jstr \<times> jstr) list" where
  "reservedWith m NotJson = m"
| "reservedWith m (ReserveLine at' approvalId) = AList.update approvalId at' m"
| "reservedWith m (ReleaseLine at' approvalId) = AList.delete approvalId m"

definition reservedIn :: "ledger_line list \<Rightarrow> (jstr \<times> jstr) list" where
  "reservedIn ls = foldl reservedWith [] ls"

definition activeOf :: "int \<Rightarrow> ledger_line list \<Rightarrow> jstr list" where
  "activeOf now ls = sort (filter (laterThan (now - DAY)) (map snd (reservedIn ls)))"

text \<open>The first of some times, a while later. The first of none, and an empty text, is no time.\<close>

definition firstAfter :: "int \<Rightarrow> jstr list \<Rightarrow> jstr option" where
  "firstAfter wait stamps =
     (case stamps of [] \<Rightarrow> None | at' # _ \<Rightarrow> map_option (\<lambda>t. toISOString (t + wait)) (dateParse at'))"

definition statusOf :: "int \<Rightarrow> jstr list \<Rightarrow> caps \<Rightarrow> cap_status" where
  "statusOf now active caps =
     (let hourTimes = filter (laterThan (now - HOUR)) active; hour = length hourTimes; day = length active
      in \<lparr>cs_hour = hour, cs_day = day,
          cs_resetAt = (if hour \<ge> cp_perHour caps \<and> hourTimes \<noteq> [] then firstAfter HOUR hourTimes
                        else if day \<ge> cp_perDay caps \<and> active \<noteq> [] then firstAfter DAY active else None)\<rparr>)"

definition ledgerStatus :: "int \<Rightarrow> int \<Rightarrow> jstr \<Rightarrow> caps \<Rightarrow> ledger_files \<Rightarrow> ledger_error + cap_status" where
  "ledgerStatus now1 now2 inboxId caps files =
     (if \<not> inboxPattern inboxId then Inl NotAnInbox else Inr (statusOf now2 (activeOf now1 (files inboxId)) caps))"

definition reserve :: "int \<times> int \<times> int \<Rightarrow> jstr \<Rightarrow> jstr \<Rightarrow> caps \<Rightarrow> ledger_files \<Rightarrow> ledger_files \<times> (ledger_error + cap_status)" where
  "reserve clock inboxId approvalId caps files =
     (case clock of (now1, now2, now3) \<Rightarrow>
        (case ledgerStatus now1 now2 inboxId caps files of
           Inl e \<Rightarrow> (files, Inl e)
         | Inr status \<Rightarrow>
             if cs_hour status \<ge> cp_perHour caps \<or> cs_day status \<ge> cp_perDay caps then (files, Inl (RateCapped status))
             else (files(inboxId := files inboxId @ [ReserveLine (toISOString now3) approvalId]),
                   Inr \<lparr>cs_hour = cs_hour status + 1, cs_day = cs_day status + 1, cs_resetAt = None\<rparr>)))"

definition release :: "int \<Rightarrow> jstr \<Rightarrow> jstr \<Rightarrow> ledger_files \<Rightarrow> ledger_files \<times> (ledger_error + unit)" where
  "release now inboxId approvalId files =
     (if \<not> inboxPattern inboxId then (files, Inl NotAnInbox)
      else (files(inboxId := files inboxId @ [ReleaseLine (toISOString now) approvalId]), Inr ()))"

section \<open>Counting\<close>

lemma laterThan_mono: "since \<le> since' \<Longrightarrow> laterThan since' at' \<Longrightarrow> laterThan since at'"
  by (auto simp: laterThan_def split: option.splits)

definition countAfter :: "int \<Rightarrow> (jstr \<times> jstr) list \<Rightarrow> nat" where
  "countAfter since m = length (filter (laterThan since) (map snd m))"

lemma countAfter_mono: "since \<le> since' \<Longrightarrow> countAfter since' m \<le> countAfter since m"
  using laterThan_mono [of since since'] by (induction m) (auto simp: countAfter_def)

lemma countAfter_update: "countAfter since (AList.update k v m) \<le> Suc (countAfter since m)"
  by (induction m) (auto simp: countAfter_def)

lemma countAfter_delete: "countAfter since (AList.delete k m) \<le> countAfter since m"
  by (induction m) (auto simp: countAfter_def AList.delete_eq)

lemma day_count: "length (activeOf now ls) = countAfter (now - DAY) (reservedIn ls)"
  by (simp add: activeOf_def countAfter_def)

lemma hour_count:
  assumes "now1 \<le> now2"
  shows "length (filter (laterThan (now2 - HOUR)) (activeOf now1 ls)) = countAfter (now2 - HOUR) (reservedIn ls)"
proof -
  have "laterThan (now2 - HOUR) at' \<Longrightarrow> laterThan (now1 - DAY) at'" for at'
    using assms laterThan_mono [of "now1 - DAY" "now2 - HOUR"] by (simp add: HOUR_def DAY_def)
  then have "filter (\<lambda>x. laterThan (now1 - DAY) x \<and> laterThan (now2 - HOUR) x) xs = filter (laterThan (now2 - HOUR)) xs" for xs
    by (intro filter_cong) auto
  then show ?thesis
    by (simp add: activeOf_def countAfter_def filter_sort conj_commute)
qed

lemma reservedIn_append [simp]: "reservedIn (ls @ [l]) = reservedWith (reservedIn ls) l"
  by (simp add: reservedIn_def)

text \<open>No more reservations in the last hour and day than the caps, at any time from \<open>t\<close> on.\<close>

definition within :: "nat \<Rightarrow> nat \<Rightarrow> int \<Rightarrow> ledger_line list \<Rightarrow> bool" where
  "within perHour perDay t ls \<longleftrightarrow> (\<forall>now \<ge> t. countAfter (now - HOUR) (reservedIn ls) \<le> perHour
     \<and> countAfter (now - DAY) (reservedIn ls) \<le> perDay)"

lemma within_later: "within h d t ls \<Longrightarrow> t \<le> u \<Longrightarrow> within h d u ls"
  by (simp add: within_def)

lemma within_release: "within h d t ls \<Longrightarrow> within h d t (ls @ [ReleaseLine at' k])"
  by (auto simp: within_def intro: order_trans [OF countAfter_delete])

lemma within_reserve:
  assumes "countAfter (u - HOUR) (reservedIn ls) < h" "countAfter (u' - DAY) (reservedIn ls) < d" "u \<le> t" "u' \<le> t"
  shows "within h d t (ls @ [ReserveLine at' k])"
proof -
  have "countAfter (now - HOUR) (AList.update k at' (reservedIn ls)) \<le> h
      \<and> countAfter (now - DAY) (AList.update k at' (reservedIn ls)) \<le> d" if "t \<le> now" for now
    using that assms countAfter_mono [of "u - HOUR" "now - HOUR" "reservedIn ls"]
      countAfter_mono [of "u' - DAY" "now - DAY" "reservedIn ls"]
      countAfter_update [of "now - HOUR" k at' "reservedIn ls"] countAfter_update [of "now - DAY" k at' "reservedIn ls"]
    by linarith
  then show ?thesis
    by (simp add: within_def)
qed

section \<open>Runs\<close>

datatype ledger_act = Reserving "int \<times> int \<times> int" jstr jstr caps | Releasing int jstr jstr

fun runLedger :: "ledger_act list \<Rightarrow> ledger_files \<Rightarrow> ledger_files" where
  "runLedger [] files = files"
| "runLedger (Reserving clock inboxId approvalId caps # run) files =
     runLedger run (fst (reserve clock inboxId approvalId caps files))"
| "runLedger (Releasing now inboxId approvalId # run) files = runLedger run (fst (release now inboxId approvalId files))"

text \<open>A run under one clock, that does not go back, and with caps of at most \<open>h\<close> an hour and \<open>d\<close> a day.\<close>

fun clocked :: "nat \<Rightarrow> nat \<Rightarrow> int \<Rightarrow> ledger_act list \<Rightarrow> int \<Rightarrow> bool" where
  "clocked h d t [] end' = (t \<le> end')"
| "clocked h d t (Reserving (now1, now2, now3) _ _ caps # run) end' =
     (t \<le> now1 \<and> now1 \<le> now2 \<and> now2 \<le> now3 \<and> cp_perHour caps \<le> h \<and> cp_perDay caps \<le> d \<and> clocked h d now3 run end')"
| "clocked h d t (Releasing now _ _ # run) end' = (t \<le> now \<and> clocked h d now run end')"

lemma reserve_within:
  assumes "\<forall>inbox. within h d t (files inbox)" "t \<le> now1" "now1 \<le> now2" "now2 \<le> now3"
    "cp_perHour caps \<le> h" "cp_perDay caps \<le> d"
  shows "within h d now3 (fst (reserve (now1, now2, now3) inboxId approvalId caps files) inbox)"
proof (cases "inbox = inboxId \<and> inboxPattern inboxId
    \<and> \<not> (cs_hour (statusOf now2 (activeOf now1 (files inboxId)) caps) \<ge> cp_perHour caps
        \<or> cs_day (statusOf now2 (activeOf now1 (files inboxId)) caps) \<ge> cp_perDay caps)")
  case True
  then have "countAfter (now2 - HOUR) (reservedIn (files inboxId)) < h" "countAfter (now1 - DAY) (reservedIn (files inboxId)) < d"
    using assms(3,5,6) by (simp_all add: statusOf_def Let_def hour_count day_count)
  then show ?thesis
    using True assms(3,4) within_reserve by (simp add: reserve_def ledgerStatus_def)
next
  case False
  then have "fst (reserve (now1, now2, now3) inboxId approvalId caps files) inbox = files inbox"
    by (auto simp: reserve_def ledgerStatus_def)
  then show ?thesis
    using assms(1-4) by (simp add: within_later [of h d t])
qed

lemma runLedger_within:
  "clocked h d t run end' \<Longrightarrow> \<forall>inbox. within h d t (files inbox) \<Longrightarrow> within h d end' (runLedger run files inbox)"
proof (induction h d t run end' arbitrary: files rule: clocked.induct)
  case (1 h d t end')
  then show ?case
    by (simp add: within_later [of h d t])
next
  case (2 h d t now1 now2 now3 inboxId approvalId caps run end')
  then have "\<forall>inbox. within h d now3 (fst (reserve (now1, now2, now3) inboxId approvalId caps files) inbox)"
    using reserve_within [OF 2(3)] by simp
  then show ?case
    using 2 by simp
next
  case (3 h d t now inboxId approvalId run end')
  then have "\<forall>inbox. within h d now (fst (release now inboxId approvalId files) inbox)"
    using within_later [of h d t _ now] within_release by (simp add: release_def)
  then show ?case
    using 3 by simp
qed

section \<open>Properties\<close>

text \<open>C27.
  However many processes reserve and release sends of however many inboxes, whatever approvals they name, the status of
  an inbox never counts more than the caps an hour and a day, under one clock that does not go back.
\<close>

theorem sends_stay_within_caps:
  assumes "clocked h d t run now1" "now1 \<le> now2"
    "ledgerStatus now1 now2 inboxId caps (runLedger run (\<lambda>_. [])) = Inr status"
  shows "cs_hour status \<le> h \<and> cs_day status \<le> d"
proof -
  have "\<forall>inbox. within h d t ((\<lambda>_. []) inbox)"
    by (simp add: within_def reservedIn_def countAfter_def)
  from runLedger_within [OF assms(1) this] have "within h d now1 (runLedger run (\<lambda>_. []) inboxId)" .
  then show ?thesis
    using assms(2,3)
    by (auto simp: ledgerStatus_def statusOf_def Let_def hour_count day_count within_def split: if_splits)
qed

definition sampleInbox :: jstr where
  "sampleInbox = js ''ibx_0123456789ABCDEF''"

definition oneSend :: caps where
  "oneSend = \<lparr>cp_perHour = 1, cp_perDay = 1\<rparr>"

definition sampleReserve :: "int \<Rightarrow> jstr \<Rightarrow> ledger_files \<Rightarrow> ledger_files \<times> (ledger_error + cap_status)" where
  "sampleReserve now approvalId = reserve (now, now, now) sampleInbox approvalId oneSend"

theorem sends_stay_within_caps_witness:
  "let run = [Reserving (1729936800123, 1729936800124, 1729936800125) sampleInbox (js ''ap_1'') oneSend,
      Reserving (1729936800200, 1729936800200, 1729936800200) sampleInbox (js ''ap_2'') oneSend]
   in \<forall>status. ledgerStatus 1729936800200 1729936800200 sampleInbox oneSend (runLedger run (\<lambda>_. [])) = Inr status
      \<longrightarrow> cs_hour status \<le> 1 \<and> cs_day status \<le> 1"
proof -
  let ?run = "[Reserving (1729936800123, 1729936800124, 1729936800125) sampleInbox (js ''ap_1'') oneSend,
      Reserving (1729936800200, 1729936800200, 1729936800200) sampleInbox (js ''ap_2'') oneSend]"
  have "clocked 1 1 1729936800123 ?run 1729936800200"
    by (simp add: oneSend_def)
  from sends_stay_within_caps [OF this order_refl] show ?thesis
    unfolding Let_def by blast
qed

text \<open>
  With both caps reached, the time given for the next slot is the hour's, at which the day's cap still refuses.
\<close>

lemma next_slot_is_too_early:
  "let files = fst (sampleReserve 1729936800123 (js ''ap_1'') (\<lambda>_. []))
   in (\<exists>status. snd (sampleReserve 1729936800200 (js ''ap_2'') files) = Inl (RateCapped status)
        \<and> cs_resetAt status = Some (toISOString 1729940400123))
    \<and> (\<exists>status. snd (sampleReserve 1729940400123 (js ''ap_2'') files) = Inl (RateCapped status))"
proof -
  have inbox: "inboxPattern sampleInbox"
    by code_simp
  have later: "laterThan since (toISOString t) \<longleftrightarrow> since < t" if "moment t" for since t
    using dateParse_toISOString [OF that] by (simp add: laterThan_def)
  have parsed: "dateParse (toISOString 1729936800123) = Some 1729936800123"
    by (rule dateParse_toISOString) (simp add: moment_def)
  show ?thesis
    by (simp add: Let_def sampleReserve_def reserve_def ledgerStatus_def inbox statusOf_def activeOf_def reservedIn_def later
        moment_def firstAfter_def parsed oneSend_def HOUR_def DAY_def)
qed

end
