(* ===== verification/TakeSessions.thy ===== *)
theory TakeSessions
  imports TakeRecords Errors
begin

text \<open>
  Who is who in \<open>packages/core/src/takes.ts\<close>: which session a caller is, whether it is the one that holds a take, what
  an agent may see of one, and why it may not act.
\<close>

section \<open>Callers\<close>

text \<open>\<open>TakeCaller\<close>: a session, an agent's shell that is none, or the person (\<open>null\<close>).\<close>

datatype take_caller = CallerSession take_holder | Unmatched jstr | PersonCaller

fun isUnmatched :: "take_caller \<Rightarrow> bool" where
  "isUnmatched (Unmatched _) = True"
| "isUnmatched _ = False"

fun sessionOf :: "take_caller \<Rightarrow> take_holder option" where
  "sessionOf (CallerSession h) = Some h"
| "sessionOf _ = None"

fun isPerson :: "held option \<Rightarrow> bool" where
  "isPerson (Some ThePerson) = True"
| "isPerson _ = False"

definition sameSession :: "take_holder \<Rightarrow> take_holder \<Rightarrow> bool" where
  "sameSession holder caller =
     (case (th_sessionId holder, th_sessionId caller) of
        (Some a, Some b) \<Rightarrow> a = b
      | _ \<Rightarrow> if th_process holder = th_process caller then True
             else th_grouped holder \<and> th_grouped caller \<and> th_key holder = th_key caller)"

definition offeredTo :: "take_window \<Rightarrow> take_holder \<Rightarrow> bool" where
  "offeredTo window caller =
     (case (tw_sessionId window, th_sessionId caller) of
        (Some a, Some b) \<Rightarrow> a = b
      | _ \<Rightarrow> tw_key window \<noteq> None \<and> th_grouped caller \<and> tw_key window = Some (th_key caller))"

definition holdsIt :: "take_record \<Rightarrow> take_caller \<Rightarrow> bool" where
  "holdsIt record' caller =
     (case (sessionOf caller, tr_holder record') of
        (Some session, Some (Session holder)) \<Rightarrow> sameSession holder session
      | _ \<Rightarrow> False)"

text \<open>The members of \<open>ActivitySession\<close> that a take uses.\<close>

record activity_session =
  as_key :: jstr
  as_grouped :: bool
  as_process :: jstr
  as_parent :: "activity_parent option"
  as_folder :: "jstr option"
  as_client :: "client_info option"

definition holderOfSession :: "activity_session \<Rightarrow> jstr option \<Rightarrow> take_holder" where
  "holderOfSession session sessionId =
     \<lparr>th_key = as_key session, th_grouped = as_grouped session, th_process = as_process session,
      th_sessionId = sessionId, th_parent = as_parent session, th_folder = as_folder session,
      th_client = as_client session\<rparr>"

type_synonym environment = "jstr \<Rightarrow> jstr option"

definition claudeCodeSessionId :: "runtime \<Rightarrow> environment \<Rightarrow> jstr option" where
  "claudeCodeSessionId rt env =
     (case env (js ''CLAUDE_CODE_SESSION_ID'') of
        None \<Rightarrow> None
      | Some raw \<Rightarrow> let sessionId = rtLower rt (trim raw)
                    in if isClaudeCodeSessionId sessionId then Some sessionId else None)"

definition AGENT_MARKERS :: "jstr list" where
  "AGENT_MARKERS = map js [''CLAUDECODE'', ''CLAUDE_CODE_ENTRYPOINT'', ''CODEX_SANDBOX'', ''CODEX_HOME'',
     ''CURSOR_AGENT'', ''GEMINI_CLI'', ''AGENT_COMMS_AGENT'']"

definition agentMarker :: "environment \<Rightarrow> jstr option" where
  "agentMarker env = find (\<lambda>name. env name \<noteq> None \<and> env name \<noteq> Some []) AGENT_MARKERS"

definition MCP_SERVER_MARKER :: jstr where
  "MCP_SERVER_MARKER = js ''AGENTCOMMS_MCP_SERVER''"

definition mcpServerOf :: "environment \<Rightarrow> jstr option" where
  "mcpServerOf env =
     (case env MCP_SERVER_MARKER of None \<Rightarrow> None | Some marker \<Rightarrow> if marker = [] then None else Some marker)"

text \<open>\<open>takerIdentity\<close>, from the activity session of the process: \<open>cli\<close> says that the surface is the command line.\<close>

definition takerIdentity :: "runtime \<Rightarrow> bool \<Rightarrow> environment \<Rightarrow> activity_session \<Rightarrow> take_caller" where
  "takerIdentity rt cli env session =
     (let sessionId = claudeCodeSessionId rt env
      in if cli \<and> \<not> as_grouped session \<and> sessionId = None
         then (case agentMarker env of
                 Some marker \<Rightarrow> Unmatched marker
               | None \<Rightarrow> if mcpServerOf env = None then PersonCaller else Unmatched MCP_SERVER_MARKER)
         else let caller = holderOfSession session sessionId
              in CallerSession (if cli \<and> \<not> as_grouped session then caller\<lparr>th_parent := None\<rparr> else caller))"

text \<open>\<open>a ?? b\<close>.\<close>

definition orElse :: "'a option \<Rightarrow> 'a option \<Rightarrow> 'a option" where
  "orElse a b = (case a of None \<Rightarrow> b | Some x \<Rightarrow> Some x)"

fun refreshedHolder :: "held option \<Rightarrow> take_holder \<Rightarrow> take_holder" where
  "refreshedHolder (Some (Session held)) caller =
     (let keepKey = (th_grouped held \<and> \<not> th_grouped caller)
      in \<lparr>th_key = (if keepKey then th_key held else th_key caller),
          th_grouped = (if keepKey then th_grouped held else th_grouped caller),
          th_process = (if keepKey then th_process held else th_process caller),
          th_sessionId = orElse (th_sessionId caller) (th_sessionId held),
          th_parent = orElse (th_parent caller) (th_parent held),
          th_folder = orElse (th_folder caller) (th_folder held),
          th_client = orElse (th_client caller) (th_client held)\<rparr>)"
| "refreshedHolder _ caller = caller"

section \<open>What a record says to a caller\<close>

datatype taken_by = ByYou | ByAnotherSession | ByPersonHimself

text \<open>\<open>TakenView\<close>: of an offer, whether it is to you and until when. A member that is \<open>undefined\<close> is \<open>None\<close>.\<close>

record taken_view =
  tv_state :: take_state
  tv_by :: "taken_by option"
  tv_since :: "jstr option"
  tv_leaseUntil :: "jstr option option"
  tv_offered :: "(bool \<times> jstr option) option"
  tv_handedBack :: "hand_back_reason list"

definition leaseUntilOf :: "take_record \<Rightarrow> jstr option" where
  "leaseUntilOf r =
     (if tr_state r \<noteq> TTaken \<or> tr_lastActAt r = None \<or> isPerson (tr_holder r) then None
      else if tr_pins r \<noteq> [] then None
      else (case tr_lastActAt r of
              None \<Rightarrow> None
            | Some act \<Rightarrow> map_option (\<lambda>t. toISOString (t + TAKE_LEASE_MS)) (dateParse act)))"

text \<open>The history after the last line that took or kept the message.\<close>

fun sinceTaken :: "take_line list \<Rightarrow> take_line list" where
  "sinceTaken [] = []"
| "sinceTaken (l # ls) =
     (if list_ex (\<lambda>m. tl_kind m = LTaken \<or> tl_kind m = LKept) (l # ls)
      then sinceTaken ls else l # ls)"

definition handedBackOf :: "take_record \<Rightarrow> hand_back_reason list" where
  "handedBackOf r =
     firstOnes (List.map_filter (\<lambda>l. if tl_kind l = LHandedBack then tl_reason l else None) (sinceTaken (tr_history r)))"

definition takenViewOf :: "take_record option \<Rightarrow> take_caller \<Rightarrow> taken_view option" where
  "takenViewOf r' caller =
     (case r' of
        None \<Rightarrow> None
      | Some r \<Rightarrow>
          let back = handedBackOf r;
              view = \<lparr>tv_state = tr_state r, tv_by = None, tv_since = None, tv_leaseUntil = None, tv_offered = None,
                      tv_handedBack = back\<rparr>
          in case tr_state r of
               TOpen \<Rightarrow> if back \<noteq> [] then Some view else None
             | TOffered \<Rightarrow>
                 (case tr_offer r of
                    None \<Rightarrow> None
                  | Some offer \<Rightarrow>
                      let mine = (case sessionOf caller of None \<Rightarrow> False | Some session \<Rightarrow> offeredTo (to_window offer) session)
                      in Some (view\<lparr>tv_offered := Some (mine, to_until offer)\<rparr>))
             | _ \<Rightarrow>
                 let by' = (if isPerson (tr_holder r) then ByPersonHimself
                            else if holdsIt r caller then ByYou else ByAnotherSession)
                 in Some (view\<lparr>tv_by := Some by', tv_since := tr_takenAt r,
                    tv_leaseUntil := (if by' = ByYou \<and> tr_state r = TTaken then Some (leaseUntilOf r) else None)\<rparr>))"

section \<open>Refusals\<close>

datatype elsewhere_reason = ReasonHeld | ReasonOffered "jstr option" | ReasonDone | ReasonPerson

text \<open>What the operations throw, as far as a caller can tell: the code and the reason.\<close>

datatype take_error =
    TakenElsewhere elsewhere_reason
  | NotTaken
  | NoSession
  | TakeUsage
  | NothingToRelease
  | NotReadBack

fun takeErrorCode :: "take_error \<Rightarrow> error_code" where
  "takeErrorCode (TakenElsewhere _) = TAKEN_ELSEWHERE"
| "takeErrorCode NotTaken = TAKE_REQUIRED"
| "takeErrorCode NoSession = TAKE_REQUIRED"
| "takeErrorCode TakeUsage = USAGE"
| "takeErrorCode NothingToRelease = NOT_FOUND"
| "takeErrorCode NotReadBack = UNEXPECTED"

fun requiredOf :: "take_caller \<Rightarrow> take_error" where
  "requiredOf (Unmatched _) = NoSession"
| "requiredOf _ = NotTaken"

definition elsewhere :: "take_record \<Rightarrow> take_caller \<Rightarrow> elsewhere_reason option" where
  "elsewhere r caller =
     (case tr_state r of
        TOpen \<Rightarrow> None
      | TOffered \<Rightarrow>
          (case tr_offer r of
             None \<Rightarrow> None
           | Some offer \<Rightarrow>
               (case sessionOf caller of
                  Some session \<Rightarrow> if offeredTo (to_window offer) session then None else Some (ReasonOffered (to_until offer))
                | None \<Rightarrow> Some (ReasonOffered (to_until offer))))
      | _ \<Rightarrow>
          if isPerson (tr_holder r) then Some ReasonPerson
          else if holdsIt r caller then None
          else Some (if tr_state r = TDone then ReasonDone else ReasonHeld))"

section \<open>Lemmas\<close>

lemma sameSession_refl [simp]: "sameSession h h"
  by (simp add: sameSession_def split: option.split)

lemma sameSession_sym: "sameSession h c \<longleftrightarrow> sameSession c h"
  by (auto simp: sameSession_def split: option.splits)

text \<open>A session that renews its take still holds it, and whoever was refused by the take before is refused after.\<close>

lemma refreshed_same: "sameSession h c \<Longrightarrow> sameSession (refreshedHolder (Some (Session h)) c) c"
  by (auto simp: sameSession_def Let_def orElse_def split: option.splits if_splits)

lemma elsewhere_taken:
  assumes "tr_state r = TTaken" "tr_holder r = Some (Session h)"
  shows "elsewhere r (CallerSession c) = (if sameSession h c then None else Some ReasonHeld)"
    "elsewhere r (Unmatched m) = Some ReasonHeld"
  using assms by (simp_all add: elsewhere_def holdsIt_def)

end
