(* ===== verification/TakeStore.thy ===== *)
theory TakeStore
  imports TakeSessions "HOL-Library.AList"
begin

text \<open>
  The store of takes (\<open>TakeStore\<close> of \<open>packages/core/src/takes.ts\<close>). A file is found by its account and its name, the
  SHA-256 of the message key; the folder is an association list, as \<open>readdir\<close> lists it. One operation holds the lock
  of its file from its first read to its write, so it is one step. It reads the clock once.

  What the store is given (\<open>TakeStoreOptions\<close>) is \<open>take_env\<close>: whether an approval still waits, how a process is
  looked at, how long a delivery's offer waits. A look-up that fails is \<open>None\<close>.
\<close>

section \<open>The folder\<close>

datatype take_file = TakeJson json | TakeUnreadable

type_synonym take_files = "((jstr \<times> jstr) \<times> take_file) list"

record take_ref =
  rf_channel :: take_channel
  rf_accountId :: jstr
  rf_id :: jstr

record take_env =
  te_now :: int
  te_pinLive :: "(jstr \<Rightarrow> bool option) option"
  te_windows :: bool
  te_running :: "int \<Rightarrow> bool"
  te_probe :: "int \<Rightarrow> jstr option"
  te_offerWait :: "jstr \<Rightarrow> int option"
  te_accountIds :: "jstr list option"

definition takeMessageKey :: "take_ref \<Rightarrow> jstr" where
  "takeMessageKey ref = channelWord (rf_channel ref) @ [58] @ rf_accountId ref @ [58] @ rf_id ref"

definition checkedTakeRef :: "take_ref \<Rightarrow> take_error + take_ref" where
  "checkedTakeRef ref =
     (if \<not> takeAccountId (rf_accountId ref) then Inl TakeUsage
      else if \<not> takeIdPattern (rf_id ref) then Inl TakeUsage
      else Inr ref)"

definition takePath :: "runtime \<Rightarrow> take_ref \<Rightarrow> take_error + (jstr \<times> jstr)" where
  "takePath rt ref = result_bind (checkedTakeRef ref)
     (\<lambda>checked. Inr (rf_accountId checked, rtSha rt (takeMessageKey checked) @ js ''.json''))"

datatype found = NoFile | NotReadable | Found take_record

definition readTake :: "take_files \<Rightarrow> jstr \<times> jstr \<Rightarrow> found" where
  "readTake files path =
     (case map_of files path of
        None \<Rightarrow> NoFile
      | Some TakeUnreadable \<Rightarrow> NotReadable
      | Some (TakeJson v) \<Rightarrow> (case takeRecordOf v of None \<Rightarrow> NotReadable | Some r \<Rightarrow> Found r))"

definition writeTake :: "take_files \<Rightarrow> jstr \<times> jstr \<Rightarrow> take_record \<Rightarrow> take_error + take_files" where
  "writeTake files path r =
     (case takeRecordOf (takeJson r) of
        None \<Rightarrow> Inl NotReadBack
      | Some kept \<Rightarrow> Inr (AList.update path (TakeJson (takeJson kept)) files))"

section \<open>Lapses\<close>

text \<open>A test of the moment a text names, false where it names none, as a comparison with \<open>NaN\<close> is.\<close>

definition whenParsed :: "jstr \<Rightarrow> (int \<Rightarrow> bool) \<Rightarrow> bool" where
  "whenParsed s P = (case dateParse s of None \<Rightarrow> False | Some t \<Rightarrow> P t)"

definition retained :: "take_env \<Rightarrow> take_record \<Rightarrow> bool" where
  "retained env r = whenParsed (tr_updatedAt r) (\<lambda>t. t + TAKE_RETENTION_DAYS * DAY_MS > te_now env)"

definition offerWaitIn :: "take_env \<Rightarrow> jstr \<Rightarrow> int" where
  "offerWaitIn env accountId =
     (case te_offerWait env accountId of
        None \<Rightarrow> TAKE_OFFER_WAIT_MS
      | Some wait \<Rightarrow> if wait > 0 then wait else TAKE_OFFER_WAIT_MS)"

definition offerMadeAt :: "take_record \<Rightarrow> jstr" where
  "offerMadeAt r =
     (case find (\<lambda>l. tl_kind l = LOffered) (rev (tr_history r)) of None \<Rightarrow> tr_updatedAt r | Some l \<Rightarrow> tl_at l)"

definition offerWaitsUntil :: "take_record \<Rightarrow> int \<Rightarrow> jstr option" where
  "offerWaitsUntil r waitMs =
     (if tr_state r \<noteq> TOffered then None
      else case tr_offer r of
             None \<Rightarrow> None
           | Some offer \<Rightarrow>
               if to_until offer \<noteq> None \<or> to_by offer = GivenByPerson then None
               else let wait = (if waitMs > 0 then waitMs else TAKE_OFFER_WAIT_MS)
                    in map_option (\<lambda>made. toISOString (made + wait)) (dateParse (offerMadeAt r)))"

datatype parent_state = ParentAlive | ParentGone | ParentUnknown

definition parentState :: "take_env \<Rightarrow> activity_parent \<Rightarrow> parent_state" where
  "parentState env parent =
     (if te_windows env then ParentUnknown
      else if \<not> te_running env (ap_pid parent) then ParentGone
      else case te_probe env (ap_pid parent) of
             None \<Rightarrow> ParentUnknown
           | Some startedAt \<Rightarrow> if startedAt = ap_startedAt parent then ParentAlive else ParentGone)"

definition serviceLine :: "jstr \<Rightarrow> take_line_kind \<Rightarrow> jstr option \<Rightarrow> take_line" where
  "serviceLine at' kind windowKey =
     \<lparr>tl_at = at', tl_kind = kind, tl_by = ByService, tl_windowKey = windowKey, tl_window = None, tl_terminal = None,
      tl_reason = None, tl_note = None, tl_ack = None\<rparr>"

text \<open>\<open>...windowLine(holder)\<close>.\<close>

definition withWindowLine :: "take_holder \<Rightarrow> take_line \<Rightarrow> take_line" where
  "withWindowLine holder l =
     l\<lparr>tl_windowKey := Some (th_key holder),
       tl_window := Some \<lparr>lw_sessionId = th_sessionId holder, lw_folder = th_folder holder, lw_client = th_client holder\<rparr>\<rparr>"

definition withLine :: "take_record \<Rightarrow> take_line \<Rightarrow> take_line list" where
  "withLine r line = newest MAX_TAKE_HISTORY (tr_history r @ [line])"

definition blank :: "take_message \<Rightarrow> jstr \<Rightarrow> take_record" where
  "blank message at' =
     \<lparr>tr_message = message, tr_state = TOpen, tr_holder = None, tr_offer = None, tr_takenAt = None, tr_lastActAt = None,
      tr_pins = [], tr_history = [], tr_updatedAt = at'\<rparr>"

definition opened :: "take_record \<Rightarrow> take_line \<Rightarrow> jstr \<Rightarrow> take_record" where
  "opened r line at' =
     r\<lparr>tr_state := TOpen, tr_holder := None, tr_offer := None, tr_takenAt := None, tr_lastActAt := None, tr_pins := [],
       tr_history := withLine r line, tr_updatedAt := at'\<rparr>"

definition livePins :: "take_env \<Rightarrow> jstr list \<Rightarrow> jstr list" where
  "livePins env pins =
     (case te_pinLive env of
        None \<Rightarrow> pins
      | Some live \<Rightarrow> filter (\<lambda>pin. live pin \<noteq> Some False) pins)"

text \<open>An offer, and a session's take: the record as it now stands, and whether that is a change.\<close>

definition settleOffer :: "take_env \<Rightarrow> take_record \<Rightarrow> take_offer \<Rightarrow> take_record \<times> bool" where
  "settleOffer env r offer =
     (let now = te_now env;
          lapsed = (\<lambda>t. (opened r (serviceLine t LExpired (tw_key (to_window offer))) (toISOString now), True))
      in case to_until offer of
           Some until \<Rightarrow> if whenParsed until (\<lambda>t. t \<le> now) then lapsed until else (r, False)
         | None \<Rightarrow>
             (case offerWaitsUntil r (offerWaitIn env (tm_accountId (tr_message r))) of
                None \<Rightarrow> (r, False)
              | Some waits \<Rightarrow> if whenParsed waits (\<lambda>t. t > now) then (r, False) else lapsed waits))"

definition leaseOver :: "take_env \<Rightarrow> take_record \<Rightarrow> jstr \<Rightarrow> bool" where
  "leaseOver env r lastActAt \<longleftrightarrow>
     livePins env (tr_pins r) = [] \<and> whenParsed lastActAt (\<lambda>t. t + TAKE_LEASE_MS \<le> te_now env)"

definition parentGone :: "take_env \<Rightarrow> take_holder \<Rightarrow> bool" where
  "parentGone env holder = (case th_parent holder of None \<Rightarrow> False | Some p \<Rightarrow> parentState env p = ParentGone)"

definition leaseEnd :: "jstr \<Rightarrow> jstr" where
  "leaseEnd lastActAt =
     (case dateParse lastActAt of None \<Rightarrow> lastActAt | Some t \<Rightarrow> toISOString (t + TAKE_LEASE_MS))"

definition settleTake :: "take_env \<Rightarrow> bool \<Rightarrow> take_record \<Rightarrow> take_holder \<Rightarrow> jstr \<Rightarrow> take_record \<times> bool" where
  "settleTake env probing r holder lastActAt =
     (let at' = toISOString (te_now env); pins = livePins env (tr_pins r)
      in if leaseOver env r lastActAt
         then (opened r (withWindowLine holder (serviceLine (leaseEnd lastActAt) LExpired None)) at', True)
         else if probing \<and> parentGone env holder
         then (opened r (withWindowLine holder (serviceLine at' LEnded None)) at', True)
         else if length pins \<noteq> length (tr_pins r) then (r\<lparr>tr_pins := pins, tr_updatedAt := at'\<rparr>, True)
         else (r, False))"

text \<open>\<open>#settle\<close>. A session's take that was read has its last act; a person's has no lapse, nor has what is done.\<close>

definition settleRecord :: "take_env \<Rightarrow> bool \<Rightarrow> take_record \<Rightarrow> take_record \<times> bool" where
  "settleRecord env probing r =
     (case (tr_state r, tr_offer r, tr_holder r, tr_lastActAt r) of
        (TOffered, Some offer, _, _) \<Rightarrow> settleOffer env r offer
      | (TTaken, _, Some (Session holder), Some lastActAt) \<Rightarrow> settleTake env probing r holder lastActAt
      | _ \<Rightarrow> (r, False))"

section \<open>One locked change\<close>

text \<open>What \<open>decide\<close> returns to be written: the record it was given, or another.\<close>

datatype take_next = KeepIt | WriteIt take_record

definition refMessage :: "take_ref \<Rightarrow> jstr option \<Rightarrow> take_message" where
  "refMessage ref thread =
     \<lparr>tm_channel = rf_channel ref, tm_accountId = rf_accountId ref, tm_id = rf_id ref, tm_thread = thread,
      tm_rfc822Id = None\<rparr>"

definition messageRef :: "take_message \<Rightarrow> take_ref" where
  "messageRef m = \<lparr>rf_channel = tm_channel m, rf_accountId = tm_accountId m, rf_id = tm_id m\<rparr>"

text \<open>The record \<open>decide\<close> is given, and whether settling has changed it.\<close>

definition currentOf :: "take_env \<Rightarrow> bool \<Rightarrow> bool \<Rightarrow> take_ref \<Rightarrow> jstr option \<Rightarrow> found
    \<Rightarrow> take_error + take_record option \<times> bool" where
  "currentOf env probe replace ref thread found =
     (let at' = toISOString (te_now env)
      in case found of
           NoFile \<Rightarrow> Inr (None, False)
         | NotReadable \<Rightarrow>
             if \<not> replace then Inl (TakenElsewhere ReasonHeld)
             else Inr (Some ((blank (refMessage ref thread) at')\<lparr>tr_state := TTaken, tr_holder := Some ThePerson,
                               tr_takenAt := Some at', tr_lastActAt := Some at'\<rparr>), True)
         | Found r \<Rightarrow>
             if \<not> retained env r then Inr (None, False)
             else let (settled, changed) = settleRecord env probe r in Inr (Some settled, changed))"

text \<open>
  \<open>#update\<close>: the files after it, and what it returns or throws. Where \<open>decide\<close> throws, what settling found is still
  written; where it keeps the record, too.
\<close>

definition updateTake :: "runtime \<Rightarrow> take_env \<Rightarrow> take_ref \<Rightarrow> jstr option \<Rightarrow> bool \<Rightarrow> bool
    \<Rightarrow> (take_record option \<Rightarrow> jstr \<Rightarrow> take_error + take_next \<times> 'a) \<Rightarrow> take_files
    \<Rightarrow> take_files \<times> (take_error + 'a)" where
  "updateTake rt env ref thread probe replace decide files =
     (case takePath rt ref of
        Inl e \<Rightarrow> (files, Inl e)
      | Inr path \<Rightarrow>
          (case currentOf env probe replace ref thread (readTake files path) of
             Inl e \<Rightarrow> (files, Inl e)
           | Inr (current, changed) \<Rightarrow>
               let settledOnly = (case current of
                     Some r \<Rightarrow> if changed then writeTake files path r else Inr files
                   | None \<Rightarrow> Inr files)
               in case decide current (toISOString (te_now env)) of
                    Inl e \<Rightarrow> (case settledOnly of Inl e' \<Rightarrow> (files, Inl e') | Inr files' \<Rightarrow> (files', Inl e))
                  | Inr (KeepIt, result) \<Rightarrow>
                      (case settledOnly of Inl e' \<Rightarrow> (files, Inl e') | Inr files' \<Rightarrow> (files', Inr result))
                  | Inr (WriteIt r, result) \<Rightarrow>
                      (case writeTake files path r of Inl e' \<Rightarrow> (files, Inl e') | Inr files' \<Rightarrow> (files', Inr result))))"

end
