(* ===== verification/TakeActs.thy ===== *)
theory TakeActs
  imports TakeStore
begin

text \<open>
  The operations of \<open>TakeStore\<close> in \<open>packages/core/src/takes.ts\<close>: a session's acts, the person's, and the event
  service's. Each is what it decides of the record it finds, inside \<open>updateTake\<close>.
\<close>

section \<open>A session's acts\<close>

record take_outcome =
  tc_record :: take_record
  tc_view :: "taken_view option"
  tc_changed :: bool

definition outcomeFor :: "take_caller \<Rightarrow> bool \<Rightarrow> take_record \<Rightarrow> take_outcome" where
  "outcomeFor caller changed r =
     \<lparr>tc_record = r, tc_view = takenViewOf (Some r) caller, tc_changed = changed\<rparr>"

definition windowSays :: "jstr \<Rightarrow> take_line_kind \<Rightarrow> take_holder \<Rightarrow> take_line" where
  "windowSays at' kind caller = withWindowLine caller ((serviceLine at' kind None)\<lparr>tl_by := ByWindow\<rparr>)"

text \<open>A renewal by the holder, and a take of a message nobody has.\<close>

definition renewedBy :: "take_holder \<Rightarrow> jstr \<Rightarrow> take_record \<Rightarrow> take_record" where
  "renewedBy caller at' r =
     r\<lparr>tr_holder := Some (Session (refreshedHolder (tr_holder r) caller)), tr_lastActAt := Some at', tr_updatedAt := at'\<rparr>"

definition takenBy :: "take_message \<Rightarrow> take_holder \<Rightarrow> jstr \<Rightarrow> take_record \<Rightarrow> take_record" where
  "takenBy checked caller at' r =
     r\<lparr>tr_message := (tr_message r)\<lparr>tm_thread := orElse (tm_thread checked) (tm_thread (tr_message r)),
         tm_rfc822Id := orElse (tm_rfc822Id checked) (tm_rfc822Id (tr_message r))\<rparr>,
       tr_state := TTaken, tr_holder := Some (Session caller), tr_offer := None, tr_takenAt := Some at',
       tr_lastActAt := Some at', tr_pins := [], tr_history := withLine r (windowSays at' LTaken caller),
       tr_updatedAt := at'\<rparr>"

definition orBlank :: "take_message \<Rightarrow> jstr \<Rightarrow> take_record option \<Rightarrow> take_record" where
  "orBlank checked at' current = (case current of None \<Rightarrow> blank checked at' | Some r \<Rightarrow> r)"

definition takeDecision :: "take_message \<Rightarrow> take_holder \<Rightarrow> take_record option \<Rightarrow> jstr
    \<Rightarrow> take_error + take_next \<times> take_outcome" where
  "takeDecision checked caller current at' =
     (let r = orBlank checked at' current
      in case elsewhere r (CallerSession caller) of
           Some reason \<Rightarrow> Inl (TakenElsewhere reason)
         | None \<Rightarrow>
             let renewing = (tr_state r = TTaken \<and> holdsIt r (CallerSession caller));
                 next' = (if renewing then renewedBy caller at' r else takenBy checked caller at' r)
             in Inr (WriteIt next', outcomeFor (CallerSession caller) (\<not> renewing) next'))"

definition takeMessage :: "runtime \<Rightarrow> take_env \<Rightarrow> take_message \<Rightarrow> take_holder \<Rightarrow> take_files
    \<Rightarrow> take_files \<times> (take_error + take_outcome)" where
  "takeMessage rt env message caller =
     updateTake rt env (messageRef message) (tm_thread message) True False (takeDecision message caller)"

definition checkedNote :: "jstr option \<Rightarrow> take_error + jstr option" where
  "checkedNote note =
     (case note of
        None \<Rightarrow> Inr None
      | Some text' \<Rightarrow>
          let trimmed = trim text'
          in if trimmed = [] then Inr None
             else if length (chars trimmed) > MAX_TAKE_NOTE_CHARS then Inl TakeUsage
             else Inr (Some trimmed))"

definition handBackDecision :: "take_holder \<Rightarrow> hand_back_reason \<Rightarrow> jstr option \<Rightarrow> take_record option \<Rightarrow> jstr
    \<Rightarrow> take_error + take_next \<times> take_outcome" where
  "handBackDecision caller reason kept current at' =
     (case current of
        None \<Rightarrow> Inl NotTaken
      | Some r \<Rightarrow>
          if tr_state r = TOpen then Inl NotTaken
          else case elsewhere r (CallerSession caller) of
            Some why \<Rightarrow> Inl (TakenElsewhere why)
          | None \<Rightarrow>
              if tr_state r = TDone then Inl (TakenElsewhere ReasonDone)
              else let next' = opened r ((windowSays at' LHandedBack caller)\<lparr>tl_reason := Some reason, tl_note := kept\<rparr>) at'
                   in Inr (WriteIt next', outcomeFor (CallerSession caller) True next'))"

definition handBack :: "runtime \<Rightarrow> take_env \<Rightarrow> take_ref \<Rightarrow> take_holder \<Rightarrow> hand_back_reason \<Rightarrow> jstr option
    \<Rightarrow> take_files \<Rightarrow> take_files \<times> (take_error + take_outcome)" where
  "handBack rt env ref caller reason note files =
     (case checkedNote note of
        Inl e \<Rightarrow> (files, Inl e)
      | Inr kept \<Rightarrow> updateTake rt env ref None True False (handBackDecision caller reason kept) files)"

definition doneBy :: "take_holder \<Rightarrow> jstr option \<Rightarrow> jstr \<Rightarrow> take_record \<Rightarrow> take_record" where
  "doneBy caller kept at' r =
     r\<lparr>tr_state := TDone, tr_lastActAt := Some at', tr_pins := [],
       tr_history := withLine r ((windowSays at' LDone caller)\<lparr>tl_note := kept\<rparr>), tr_updatedAt := at'\<rparr>"

definition finishDecision :: "take_holder \<Rightarrow> jstr option \<Rightarrow> take_record option \<Rightarrow> jstr
    \<Rightarrow> take_error + take_next \<times> take_outcome" where
  "finishDecision caller kept current at' =
     (case current of
        None \<Rightarrow> Inl NotTaken
      | Some r \<Rightarrow>
          if tr_state r = TOpen then Inl NotTaken
          else if tr_state r = TOffered
          then (case tr_offer r of
                  None \<Rightarrow> Inl NotTaken
                | Some offer \<Rightarrow> if offeredTo (to_window offer) caller then Inl NotTaken
                                else Inl (TakenElsewhere (ReasonOffered (to_until offer))))
          else case elsewhere r (CallerSession caller) of
            Some why \<Rightarrow> Inl (TakenElsewhere why)
          | None \<Rightarrow>
              if tr_state r = TDone then Inr (KeepIt, outcomeFor (CallerSession caller) False r)
              else Inr (WriteIt (doneBy caller kept at' r), outcomeFor (CallerSession caller) True (doneBy caller kept at' r)))"

definition finishTake :: "runtime \<Rightarrow> take_env \<Rightarrow> take_ref \<Rightarrow> take_holder \<Rightarrow> jstr option \<Rightarrow> take_files
    \<Rightarrow> take_files \<times> (take_error + take_outcome)" where
  "finishTake rt env ref caller note files =
     (case checkedNote note of
        Inl e \<Rightarrow> (files, Inl e)
      | Inr kept \<Rightarrow> updateTake rt env ref None True False (finishDecision caller kept) files)"

definition pinned :: "jstr option \<Rightarrow> take_record \<Rightarrow> take_record" where
  "pinned pin r =
     r\<lparr>tr_pins := (case pin of None \<Rightarrow> tr_pins r
        | Some p \<Rightarrow> if p \<in> set (tr_pins r) then tr_pins r else tr_pins r @ [p])\<rparr>"

text \<open>\<open>gate\<close> returns whether the caller holds the message; its line is words.\<close>

definition gateDecision :: "take_caller \<Rightarrow> bool \<Rightarrow> jstr option \<Rightarrow> take_record option \<Rightarrow> jstr
    \<Rightarrow> take_error + take_next \<times> bool" where
  "gateDecision caller required pin current at' =
     (case current of
        None \<Rightarrow> if required then Inl (requiredOf caller) else Inr (KeepIt, False)
      | Some r \<Rightarrow>
          if tr_state r = TOpen then (if required then Inl (requiredOf caller) else Inr (KeepIt, False))
          else if tr_state r = TOffered
          then (case elsewhere r caller of
                  Some why \<Rightarrow> Inl (TakenElsewhere why)
                | None \<Rightarrow> if required then Inl NotTaken else Inr (KeepIt, False))
          else case elsewhere r caller of
            Some why \<Rightarrow> Inl (TakenElsewhere why)
          | None \<Rightarrow>
              (case sessionOf caller of
                 None \<Rightarrow> Inl (TakenElsewhere ReasonHeld)
               | Some session \<Rightarrow>
                   if tr_state r = TDone then Inr (KeepIt, True)
                   else Inr (WriteIt (renewedBy session at' (pinned pin r)), True)))"

definition gate :: "runtime \<Rightarrow> take_env \<Rightarrow> take_ref \<Rightarrow> take_caller \<Rightarrow> bool \<Rightarrow> jstr option \<Rightarrow> take_files
    \<Rightarrow> take_files \<times> (take_error + bool)" where
  "gate rt env ref caller required approvalId files =
     (if caller = PersonCaller then (files, Inr False)
      else case takePath rt ref of
        Inl e \<Rightarrow> (files, Inl e)
      | Inr path \<Rightarrow>
          if readTake files path = NoFile then (files, if required then Inl (requiredOf caller) else Inr False)
          else let pin = (case approvalId of None \<Rightarrow> None | Some a \<Rightarrow> if takeApprovalId a then Some a else None)
               in updateTake rt env ref None True False (gateDecision caller required pin) files)"

definition refuseDecision :: "take_caller \<Rightarrow> take_record option \<Rightarrow> jstr \<Rightarrow> take_error + take_next \<times> unit" where
  "refuseDecision caller current at' =
     (case current of
        None \<Rightarrow> Inr (KeepIt, ())
      | Some r \<Rightarrow> (case elsewhere r caller of Some why \<Rightarrow> Inl (TakenElsewhere why) | None \<Rightarrow> Inr (KeepIt, ())))"

fun refuseHeldElsewhere :: "runtime \<Rightarrow> take_env \<Rightarrow> take_ref list \<Rightarrow> take_caller \<Rightarrow> take_files
    \<Rightarrow> take_files \<times> (take_error + unit)" where
  "refuseHeldElsewhere rt env [] caller files = (files, Inr ())"
| "refuseHeldElsewhere rt env (ref # refs) caller files =
     (if caller = PersonCaller then (files, Inr ())
      else case takePath rt ref of
        Inl e \<Rightarrow> (files, Inl e)
      | Inr path \<Rightarrow>
          (case readTake files path of
             NoFile \<Rightarrow> refuseHeldElsewhere rt env refs caller files
           | NotReadable \<Rightarrow> (files, Inl (TakenElsewhere ReasonHeld))
           | Found r \<Rightarrow>
               if \<not> retained env r \<or> elsewhere (fst (settleRecord env False r)) caller = None
               then refuseHeldElsewhere rt env refs caller files
               else (case updateTake rt env ref None True False (refuseDecision caller) files of
                       (files', Inl e) \<Rightarrow> (files', Inl e)
                     | (files', Inr _) \<Rightarrow> refuseHeldElsewhere rt env refs caller files')))"

section \<open>Reading\<close>

text \<open>\<open>read\<close>: the record settled on its lease alone.\<close>

definition readSettled :: "runtime \<Rightarrow> take_env \<Rightarrow> take_ref \<Rightarrow> take_files \<Rightarrow> take_error + found" where
  "readSettled rt env ref files = result_bind (takePath rt ref)
     (\<lambda>path. Inr (case readTake files path of
        Found r \<Rightarrow> if retained env r then Found (fst (settleRecord env False r)) else NoFile
      | other \<Rightarrow> other))"

definition heldByAnother :: "taken_view option" where
  "heldByAnother = Some \<lparr>tv_state = TTaken, tv_by = Some ByAnotherSession, tv_since = None, tv_leaseUntil = None,
     tv_offered = None, tv_handedBack = []\<rparr>"

definition viewOf :: "runtime \<Rightarrow> take_env \<Rightarrow> take_caller \<Rightarrow> take_files \<Rightarrow> take_ref \<Rightarrow> taken_view option" where
  "viewOf rt env caller files ref =
     (case readSettled rt env ref files of
        Inl _ \<Rightarrow> takenViewOf None caller
      | Inr NoFile \<Rightarrow> takenViewOf None caller
      | Inr NotReadable \<Rightarrow> heldByAnother
      | Inr (Found r) \<Rightarrow> takenViewOf (Some r) caller)"

text \<open>The map \<open>views\<close> returns: each id once, where it is first.\<close>

fun viewsFrom :: "runtime \<Rightarrow> take_env \<Rightarrow> take_caller \<Rightarrow> take_files \<Rightarrow> take_ref list
    \<Rightarrow> (jstr \<times> taken_view option) list \<Rightarrow> (jstr \<times> taken_view option) list" where
  "viewsFrom rt env caller files [] views = views"
| "viewsFrom rt env caller files (ref # refs) views =
     viewsFrom rt env caller files refs
       (if rf_id ref \<in> fst ` set views then views else views @ [(rf_id ref, viewOf rt env caller files ref)])"

definition takeViews :: "runtime \<Rightarrow> take_env \<Rightarrow> take_ref list \<Rightarrow> take_caller \<Rightarrow> take_files
    \<Rightarrow> (jstr \<times> taken_view option) list" where
  "takeViews rt env refs caller files = viewsFrom rt env caller files refs []"

datatype listed_take = ListedRecord take_record | ListedUnreadable jstr jstr

text \<open>\<open>RECORD_FILE\<close>: \<open>/^[0-9a-f]{64}\.json$/\<close>.\<close>

definition recordFile :: "jstr \<Rightarrow> bool" where
  "recordFile s \<longleftrightarrow> length s = 69 \<and> hex64 (take 64 s) \<and> drop 64 s = js ''.json''"

text \<open>The record files of one account, in name order.\<close>

definition accountFiles :: "take_files \<Rightarrow> jstr \<Rightarrow> jstr list" where
  "accountFiles files account =
     sort (filter recordFile (map snd (filter (\<lambda>p. fst p = account) (map fst files))))"

definition listFile :: "take_env \<Rightarrow> take_files \<Rightarrow> jstr \<Rightarrow> jstr \<Rightarrow> listed_take list" where
  "listFile env files account file =
     (case readTake files (account, file) of
        NoFile \<Rightarrow> []
      | NotReadable \<Rightarrow> [ListedUnreadable account file]
      | Found r \<Rightarrow> if retained env r then [ListedRecord (fst (settleRecord env False r))] else [])"

definition takeAccounts :: "take_files \<Rightarrow> jstr list" where
  "takeAccounts files = sort (remdups (filter takeAccountId (map (fst \<circ> fst) files)))"

definition listTakes :: "take_env \<Rightarrow> jstr option \<Rightarrow> take_files \<Rightarrow> listed_take list" where
  "listTakes env only files =
     (let accounts = (case only of None \<Rightarrow> takeAccounts files | Some a \<Rightarrow> [a])
      in concat (map (\<lambda>account. concat (map (listFile env files account) (accountFiles files account)))
           (filter takeAccountId accounts)))"

fun listedRecords :: "listed_take list \<Rightarrow> take_record list" where
  "listedRecords [] = []"
| "listedRecords (ListedRecord r # ls) = r # listedRecords ls"
| "listedRecords (ListedUnreadable _ _ # ls) = listedRecords ls"

text \<open>
  \<open>mine\<close>, newest first: \<open>localeCompare\<close> is the order of the collation keys \<open>collate\<close> gives, and \<open>sort\<close> is stable.
\<close>

definition mineOf :: "take_holder \<Rightarrow> take_record \<Rightarrow> bool" where
  "mineOf session r =
     (if tr_state r = TOffered
      then (case tr_offer r of None \<Rightarrow> False | Some offer \<Rightarrow> offeredTo (to_window offer) session)
      else holdsIt r (CallerSession session))"

definition mine :: "(jstr \<Rightarrow> nat list) \<Rightarrow> take_env \<Rightarrow> take_channel \<Rightarrow> jstr \<Rightarrow> take_caller \<Rightarrow> take_files
    \<Rightarrow> (jstr \<times> taken_view option) list" where
  "mine collate env channel accountId caller files =
     (case sessionOf caller of
        None \<Rightarrow> []
      | Some session \<Rightarrow>
          let own' = filter (mineOf session)
                (filter (\<lambda>r. tm_channel (tr_message r) = channel) (listedRecords (listTakes env (Some accountId) files)));
              sorted = rev (sort_key (\<lambda>r. collate (tr_updatedAt r)) (rev own'))
          in map (\<lambda>r. (tm_id (tr_message r), takenViewOf (Some r) caller)) sorted)"

definition recordsIn :: "jstr \<Rightarrow> take_files \<Rightarrow> bool" where
  "recordsIn accountId files = (takeAccountId accountId \<and> accountFiles files accountId \<noteq> [])"

definition findAllByRfc822 :: "(jstr \<Rightarrow> nat list) \<Rightarrow> take_env \<Rightarrow> take_channel \<Rightarrow> jstr \<Rightarrow> jstr \<Rightarrow> take_files
    \<Rightarrow> take_message list" where
  "findAllByRfc822 collate env channel accountId rfc822Id files =
     (case rfc822IdOf (Some (JStr rfc822Id)) of
        None \<Rightarrow> []
      | Some wanted \<Rightarrow>
          sort_key (\<lambda>m. collate (tm_id m))
            (filter (\<lambda>m. tm_channel m = channel \<and> tm_rfc822Id m = Some wanted)
              (map tr_message (listedRecords (listTakes env (Some accountId) files)))))"

text \<open>\<open>threadHolder\<close>: who took this conversation.\<close>

record thread_holder =
  thr_sessionId :: jstr
  thr_state :: take_state
  thr_at :: jstr
  thr_folder :: "jstr option"

definition threadCandidate :: "take_channel \<Rightarrow> jstr \<Rightarrow> jstr \<Rightarrow> take_ref \<Rightarrow> take_record \<Rightarrow> thread_holder option" where
  "threadCandidate channel accountId thread except' r =
     (let message = tr_message r
      in if tm_channel message \<noteq> channel \<or> tm_accountId message \<noteq> accountId then None
         else if tm_thread message \<noteq> Some thread \<and> tm_id message \<noteq> thread then None
         else if takeMessageKey (messageRef message) = takeMessageKey except' then None
         else if tr_state r \<noteq> TTaken \<and> tr_state r \<noteq> TDone then None
         else case tr_holder r of
                Some (Session held) \<Rightarrow>
                  (case th_sessionId held of
                     Some sessionId \<Rightarrow>
                       if th_grouped held \<and> isClaudeCodeSessionId sessionId
                       then Some \<lparr>thr_sessionId = sessionId, thr_state = tr_state r,
                                  thr_at = (case tr_takenAt r of None \<Rightarrow> tr_updatedAt r | Some t \<Rightarrow> t),
                                  thr_folder = th_folder held\<rparr>
                       else None
                   | None \<Rightarrow> None)
              | _ \<Rightarrow> None)"

text \<open>\<open>Date.parse(a) > Date.parse(b)\<close>.\<close>

definition laterText :: "jstr \<Rightarrow> jstr \<Rightarrow> bool" where
  "laterText a b = whenParsed a (\<lambda>t. whenParsed b (\<lambda>u. t > u))"

definition newestHolder :: "thread_holder option \<Rightarrow> thread_holder \<Rightarrow> thread_holder option" where
  "newestHolder newest' c =
     (case newest' of None \<Rightarrow> Some c | Some b \<Rightarrow> if laterText (thr_at c) (thr_at b) then Some c else Some b)"

definition threadHolder :: "take_env \<Rightarrow> take_channel \<Rightarrow> jstr \<Rightarrow> jstr \<Rightarrow> take_ref \<Rightarrow> take_files \<Rightarrow> thread_holder option" where
  "threadHolder env channel accountId thread except' files =
     (if thread = [] then None
      else foldl newestHolder None
             (List.map_filter (threadCandidate channel accountId thread except')
               (listedRecords (listTakes env (Some accountId) files))))"

section \<open>The person's acts\<close>

definition personSays :: "jstr \<Rightarrow> take_line_kind \<Rightarrow> jstr option \<Rightarrow> take_terminal \<Rightarrow> take_line" where
  "personSays at' kind windowKey terminal =
     (serviceLine at' kind windowKey)\<lparr>tl_by := ByThePersonLine, tl_terminal := Some terminal\<rparr>"

definition releaseDecision :: "take_terminal \<Rightarrow> take_record option \<Rightarrow> jstr
    \<Rightarrow> take_error + take_next \<times> (take_record option \<times> bool)" where
  "releaseDecision terminal current at' =
     (case current of
        None \<Rightarrow> Inl NothingToRelease
      | Some r \<Rightarrow>
          if tr_state r = TOpen then Inr (KeepIt, (Some r, False))
          else let windowKey = (case tr_holder r of
                     Some (Session h) \<Rightarrow> Some (th_key h)
                   | _ \<Rightarrow> (case tr_offer r of None \<Rightarrow> None | Some offer \<Rightarrow> tw_key (to_window offer)));
                   next' = opened r (personSays at' LReleased windowKey terminal) at'
               in Inr (WriteIt next', (Some next', True)))"

definition releaseTake :: "runtime \<Rightarrow> take_env \<Rightarrow> take_ref \<Rightarrow> take_terminal \<Rightarrow> take_files
    \<Rightarrow> take_files \<times> (take_error + take_record option \<times> bool)" where
  "releaseTake rt env ref terminal = updateTake rt env ref None False True (releaseDecision terminal)"

definition offeredRecord :: "take_record \<Rightarrow> take_offer \<Rightarrow> take_line \<Rightarrow> jstr \<Rightarrow> take_record" where
  "offeredRecord r offer line at' =
     r\<lparr>tr_state := TOffered, tr_holder := None, tr_offer := Some offer, tr_takenAt := None, tr_lastActAt := None,
       tr_pins := [], tr_history := withLine r line, tr_updatedAt := at'\<rparr>"

definition onWindow :: "take_window \<Rightarrow> take_line \<Rightarrow> take_line" where
  "onWindow w l =
     l\<lparr>tl_window := Some \<lparr>lw_sessionId = tw_sessionId w, lw_folder = tw_folder w, lw_client = tw_client w\<rparr>\<rparr>"

definition withoutMessageId :: "take_message \<Rightarrow> take_message" where
  "withoutMessageId message = message\<lparr>tm_rfc822Id := None\<rparr>"

definition giveDecision :: "int \<Rightarrow> take_message \<Rightarrow> take_window \<Rightarrow> take_terminal \<Rightarrow> take_record option \<Rightarrow> jstr
    \<Rightarrow> take_error + take_next \<times> (take_record \<times> bool)" where
  "giveDecision now checked window terminal current at' =
     (let r = orBlank checked at' current;
          offer = \<lparr>to_window = window, to_until = Some (toISOString (now + TAKE_OFFER_MS)), to_by = GivenByPerson\<rparr>;
          next' = offeredRecord r offer (onWindow window (personSays at' LGiven (tw_key window) terminal)) at'
      in Inr (WriteIt next', (next', True)))"

definition giveTake :: "runtime \<Rightarrow> take_env \<Rightarrow> take_message \<Rightarrow> take_window \<Rightarrow> take_terminal \<Rightarrow> take_files
    \<Rightarrow> take_files \<times> (take_error + take_record \<times> bool)" where
  "giveTake rt env message window terminal =
     updateTake rt env (messageRef message) (tm_thread message) False True
       (giveDecision (te_now env) (withoutMessageId message) window terminal)"

definition keptBy :: "take_terminal \<Rightarrow> jstr \<Rightarrow> take_record \<Rightarrow> take_record" where
  "keptBy terminal at' r =
     r\<lparr>tr_state := TTaken, tr_holder := Some ThePerson, tr_offer := None, tr_takenAt := Some at', tr_lastActAt := Some at',
       tr_pins := [], tr_history := withLine r (personSays at' LKept None terminal), tr_updatedAt := at'\<rparr>"

definition keepDecision :: "take_message \<Rightarrow> take_terminal \<Rightarrow> take_record option \<Rightarrow> jstr
    \<Rightarrow> take_error + take_next \<times> (take_record \<times> bool)" where
  "keepDecision checked terminal current at' =
     (let r = orBlank checked at' current
      in if tr_state r = TTaken \<and> isPerson (tr_holder r) then Inr (KeepIt, (r, False))
         else Inr (WriteIt (keptBy terminal at' r), (keptBy terminal at' r, True)))"

definition keepTake :: "runtime \<Rightarrow> take_env \<Rightarrow> take_message \<Rightarrow> take_terminal \<Rightarrow> take_files
    \<Rightarrow> take_files \<times> (take_error + take_record \<times> bool)" where
  "keepTake rt env message terminal =
     updateTake rt env (messageRef message) (tm_thread message) False True
       (keepDecision (withoutMessageId message) terminal)"

section \<open>The event service's acts\<close>

definition checkedWindow :: "take_window \<Rightarrow> take_error + take_window" where
  "checkedWindow window =
     (case takeWindowOf (Some (windowJson window)) of None \<Rightarrow> Inl TakeUsage | Some kept \<Rightarrow> Inr kept)"

text \<open>\<open>OFFER_RULE\<close>: \<open>/^[^\p{Cc}]{1,100}$/u\<close>.\<close>

definition isCc :: "nat \<Rightarrow> bool" where
  "isCc u \<longleftrightarrow> u < 32 \<or> (127 \<le> u \<and> u \<le> 159)"

definition offerRule :: "jstr \<Rightarrow> bool" where
  "offerRule s \<longleftrightarrow> 1 \<le> length (chars s) \<and> length (chars s) \<le> 100 \<and> list_all (\<lambda>u. \<not> isCc u) s"

definition checkedSource :: "jstr \<Rightarrow> jstr \<Rightarrow> take_error + offer_by" where
  "checkedSource rule delivery =
     (if \<not> offerRule rule then Inl TakeUsage
      else if length delivery > MAX_WORD \<or> \<not> takeIdPattern delivery then Inl TakeUsage
      else Inr (OfferedByRule rule delivery))"

definition offeredBy :: "take_offer \<Rightarrow> jstr \<Rightarrow> take_record \<Rightarrow> take_record" where
  "offeredBy offer at' r =
     offeredRecord r offer (onWindow (to_window offer) (serviceLine at' LOffered (tw_key (to_window offer)))) at'"

definition offerDecision :: "take_message \<Rightarrow> take_offer \<Rightarrow> take_record option \<Rightarrow> jstr
    \<Rightarrow> take_error + take_next \<times> (take_record option \<times> bool)" where
  "offerDecision checked offer current at' =
     (case current of
        Some r \<Rightarrow>
          if tr_state r \<noteq> TOpen then Inr (KeepIt, (Some r, False))
          else Inr (WriteIt (offeredBy offer at' r), (Some (offeredBy offer at' r), True))
      | None \<Rightarrow> Inr (WriteIt (offeredBy offer at' (blank checked at')), (Some (offeredBy offer at' (blank checked at')), True)))"

text \<open>The service's acts leave a message someone else has as it is: \<open>TAKEN_ELSEWHERE\<close> is an answer, not an error.\<close>

definition leftAsItIs :: "take_files \<times> (take_error + take_record option \<times> bool)
    \<Rightarrow> take_files \<times> (take_error + take_record option \<times> bool)" where
  "leftAsItIs result =
     (case result of (files, Inl (TakenElsewhere _)) \<Rightarrow> (files, Inr (None, False)) | _ \<Rightarrow> result)"

definition offerTake :: "runtime \<Rightarrow> take_env \<Rightarrow> take_message \<Rightarrow> take_window \<Rightarrow> jstr \<Rightarrow> jstr \<Rightarrow> jstr option \<Rightarrow> take_files
    \<Rightarrow> take_files \<times> (take_error + take_record option \<times> bool)" where
  "offerTake rt env message window rule delivery until files =
     (case checkedTakeRef (messageRef message) of
        Inl e \<Rightarrow> (files, Inl e)
      | Inr ref \<Rightarrow>
          let checked = refMessage ref (case tm_thread message of None \<Rightarrow> None | Some t \<Rightarrow> idOf (Some (JStr t)))
          in case (checkedWindow window, checkedSource rule delivery) of
               (Inl e, _) \<Rightarrow> (files, Inl e)
             | (_, Inl e) \<Rightarrow> (files, Inl e)
             | (Inr to, Inr by') \<Rightarrow>
                 if until \<noteq> None \<and> takeTimeOf (map_option JStr until) = None then (files, Inl TakeUsage)
                 else leftAsItIs (updateTake rt env ref (tm_thread checked) True False
                        (offerDecision checked \<lparr>to_window = to, to_until = until, to_by = by'\<rparr>) files))"

text \<open>Whether an offer is the waiting one \<open>delivery\<close> made.\<close>

definition waitingOfferOf :: "take_record option \<Rightarrow> jstr \<Rightarrow> take_offer option" where
  "waitingOfferOf current delivery =
     (case current of
        None \<Rightarrow> None
      | Some r \<Rightarrow>
          if tr_state r \<noteq> TOffered then None
          else case tr_offer r of
                 None \<Rightarrow> None
               | Some offer \<Rightarrow>
                   (case to_by offer of
                      GivenByPerson \<Rightarrow> None
                    | OfferedByRule _ d \<Rightarrow> if d \<noteq> delivery \<or> to_until offer \<noteq> None then None else Some offer))"

definition waitingDecision :: "jstr \<Rightarrow> (take_record \<Rightarrow> take_offer \<Rightarrow> jstr \<Rightarrow> take_record) \<Rightarrow> take_record option \<Rightarrow> jstr
    \<Rightarrow> take_error + take_next \<times> (take_record option \<times> bool)" where
  "waitingDecision delivery change current at' =
     (case (current, waitingOfferOf current delivery) of
        (Some r, Some offer) \<Rightarrow> let next' = change r offer at' in Inr (WriteIt next', (Some next', True))
      | _ \<Rightarrow> Inr (KeepIt, (current, False)))"

definition onWaitingOffer :: "runtime \<Rightarrow> take_env \<Rightarrow> take_ref \<Rightarrow> jstr \<Rightarrow> (take_record \<Rightarrow> take_offer \<Rightarrow> jstr \<Rightarrow> take_record)
    \<Rightarrow> take_files \<Rightarrow> take_files \<times> (take_error + take_record option \<times> bool)" where
  "onWaitingOffer rt env ref delivery change files =
     (case takePath rt ref of
        Inl e \<Rightarrow> (files, Inl e)
      | Inr path \<Rightarrow>
          if readTake files path = NoFile then (files, Inr (None, False))
          else leftAsItIs (updateTake rt env ref None False False (waitingDecision delivery change) files))"

definition handOffer :: "runtime \<Rightarrow> take_env \<Rightarrow> take_ref \<Rightarrow> jstr \<Rightarrow> jstr \<Rightarrow> take_files
    \<Rightarrow> take_files \<times> (take_error + take_record option \<times> bool)" where
  "handOffer rt env ref delivery until files =
     (if takeTimeOf (Some (JStr until)) = None then (files, Inl TakeUsage)
      else onWaitingOffer rt env ref delivery
             (\<lambda>current offer at'. current\<lparr>tr_offer := Some (offer\<lparr>to_until := Some until\<rparr>), tr_updatedAt := at'\<rparr>) files)"

definition lapseOffer :: "runtime \<Rightarrow> take_env \<Rightarrow> take_ref \<Rightarrow> jstr \<Rightarrow> take_files
    \<Rightarrow> take_files \<times> (take_error + take_record option \<times> bool)" where
  "lapseOffer rt env ref delivery =
     onWaitingOffer rt env ref delivery
       (\<lambda>current offer at'. opened current (serviceLine at' LExpired (tw_key (to_window offer))) at')"

text \<open>
  \<open>lapse\<close>: the sweep. A parent is looked at once per sweep, which the environment's one answer for it stands for. It
  returns how many takes ended and how many takes and offers expired.
\<close>

definition lapseFile :: "take_env \<Rightarrow> jstr \<times> jstr \<Rightarrow> take_files \<times> nat \<times> nat \<Rightarrow> take_files \<times> nat \<times> nat" where
  "lapseFile env path state =
     (case state of (files, ended, expired) \<Rightarrow>
        (case readTake files path of
           Found r \<Rightarrow>
             if \<not> retained env r then state
             else if \<not> ((tr_state r = TTaken \<and> tr_holder r \<noteq> None \<and> \<not> isPerson (tr_holder r)) \<or> tr_state r = TOffered)
             then state
             else let (settled, changed) = settleRecord env True r
                  in if \<not> changed then state
                     else (case writeTake files path settled of
                             Inl _ \<Rightarrow> state
                           | Inr files' \<Rightarrow>
                               if tr_state r = TOpen \<or> tr_state settled \<noteq> TOpen \<or> tr_history settled = [] then (files', ended, expired)
                               else if tl_kind (last (tr_history settled)) = LEnded then (files', ended + 1, expired)
                               else if tl_kind (last (tr_history settled)) = LExpired then (files', ended, expired + 1)
                               else (files', ended, expired))
         | _ \<Rightarrow> state))"

definition lapseTakes :: "take_env \<Rightarrow> take_files \<Rightarrow> take_files \<times> nat \<times> nat" where
  "lapseTakes env files =
     fold (lapseFile env)
       (concat (map (\<lambda>account. map (Pair account) (accountFiles files account)) (takeAccounts files)))
       (files, 0, 0)"

text \<open>
  \<open>prune\<close>: the folders of the accounts not connected go, then the files past their retention; the time of a file that
  cannot be read is \<open>mtime\<close>. It returns the count and the accounts.
\<close>

definition pastRetention :: "take_env \<Rightarrow> (jstr \<times> jstr \<Rightarrow> int option) \<Rightarrow> take_files \<Rightarrow> jstr \<times> jstr \<Rightarrow> bool" where
  "pastRetention env mtime files path =
     (let cutoff = te_now env - TAKE_RETENTION_DAYS * DAY_MS;
          changed = (case readTake files path of
             NoFile \<Rightarrow> None | NotReadable \<Rightarrow> mtime path | Found r \<Rightarrow> dateParse (tr_updatedAt r))
      in case changed of None \<Rightarrow> False | Some t \<Rightarrow> t \<le> cutoff)"

definition pruneFile :: "take_env \<Rightarrow> (jstr \<times> jstr \<Rightarrow> int option) \<Rightarrow> jstr \<times> jstr \<Rightarrow> take_files \<times> nat \<Rightarrow> take_files \<times> nat" where
  "pruneFile env mtime path state =
     (case state of (files, count) \<Rightarrow>
        if pastRetention env mtime files path then (AList.delete path files, count + 1) else state)"

definition pruneAccount :: "take_env \<Rightarrow> (jstr \<times> jstr \<Rightarrow> int option) \<Rightarrow> jstr \<Rightarrow> take_files \<times> nat \<times> jstr list
    \<Rightarrow> take_files \<times> nat \<times> jstr list" where
  "pruneAccount env mtime account state =
     (case state of (files, count, removed) \<Rightarrow>
        if (case te_accountIds env of None \<Rightarrow> False | Some held \<Rightarrow> account \<notin> set held)
        then (filter (\<lambda>e. fst (fst e) \<noteq> account) files, count, removed @ [account])
        else let (files', count') = fold (pruneFile env mtime) (map (Pair account) (accountFiles files account)) (files, count)
             in (files', count', removed))"

definition pruneTakes :: "take_env \<Rightarrow> (jstr \<times> jstr \<Rightarrow> int option) \<Rightarrow> take_files \<Rightarrow> take_files \<times> nat \<times> jstr list" where
  "pruneTakes env mtime files = fold (pruneAccount env mtime) (takeAccounts files) (files, 0, [])"

end
