(* ===== verification/TakeReadBack.thy ===== *)
theory TakeReadBack
  imports TakeRecords
begin

text \<open>
  Take records read back: what any reader of \<open>TakeRecords\<close> returns is well formed, and a well formed value that is
  written is read as itself. So a record that was read once is not changed by any further reading or writing.
\<close>

section \<open>Members\<close>

lemma own_iff: "own raw = Some v \<longleftrightarrow> raw = Some v \<and> (\<exists>es. v = JObj es)"
  by (cases raw rule: own.cases) auto

lemma field_Nil [simp]: "field k (Some (JObj [])) = None"
  by (simp add: field_def)

lemma field_absent: "js k \<notin> set (map fst es) \<Longrightarrow> field k (Some (JObj es)) = None"
proof (induction es)
  case (Cons e es)
  then show ?case
    by (cases e; cases "snd e") (auto simp: field_def)
qed (simp add: field_def)

lemma field_Cons [simp]:
  "k \<noteq> k' \<Longrightarrow> field k (Some (JObj ((js k', v) # es))) = field k (Some (JObj es))"
  "js k \<notin> set (map fst es) \<Longrightarrow> field k (Some (JObj ((js k, v) # es))) = v"
  using field_absent [of k es] by (cases v; simp add: field_def)+

lemma field_other [simp]:
  "field k None = None" "field k (Some JNull) = None" "field k (Some (JBool b)) = None" "field k (Some (JNum n)) = None"
  "field k (Some (JStr s)) = None" "field k (Some (JArr vs)) = None"
  by (simp_all add: field_def)

lemma orJNull_simps [simp]: "orJNull f None = Some JNull" "orJNull f (Some x) = Some (f x)"
  by (simp_all add: orJNull_def)

lemma orJNull_not_None [simp]: "orJNull f v \<noteq> None"
  by (simp add: orJNull_def)

lemma stringWith_Some: "stringWith P raw = Some s \<longleftrightarrow> raw = Some (JStr s) \<and> P s"
  by (cases "(P, raw)" rule: stringWith.cases) auto

lemma stringWith_written [simp]:
  "stringWith P (orJNull JStr v) = (case v of None \<Rightarrow> None | Some s \<Rightarrow> if P s then Some s else None)"
  by (cases v) simp_all

lemma words_read_back [simp]:
  "wordOf channelWord TAKE_CHANNELS (Some (JStr (channelWord c))) = Some c"
  "wordOf stateWord TAKE_STATES (Some (JStr (stateWord s))) = Some s"
  "wordOf reasonWord HAND_BACK_REASONS (Some (JStr (reasonWord r))) = Some r"
  "wordOf kindWord TAKE_LINE_KINDS (Some (JStr (kindWord k))) = Some k"
  "wordOf byWord [ByWindow, ByThePersonLine, ByService] (Some (JStr (byWord b))) = Some b"
  "wordOf outcomeWord [AckSent, AckFailed, AckUnknown, AckNotMade] (Some (JStr (outcomeWord out))) = Some out"
proof -
  show "wordOf channelWord TAKE_CHANNELS (Some (JStr (channelWord c))) = Some c"
    by (cases c) (simp_all add: TAKE_CHANNELS_def)
  show "wordOf stateWord TAKE_STATES (Some (JStr (stateWord s))) = Some s"
    by (cases s) (simp_all add: TAKE_STATES_def)
  show "wordOf reasonWord HAND_BACK_REASONS (Some (JStr (reasonWord r))) = Some r"
    by (cases r) (simp_all add: HAND_BACK_REASONS_def)
  show "wordOf kindWord TAKE_LINE_KINDS (Some (JStr (kindWord k))) = Some k"
    by (cases k) (simp_all add: TAKE_LINE_KINDS_def)
  show "wordOf byWord [ByWindow, ByThePersonLine, ByService] (Some (JStr (byWord b))) = Some b"
    by (cases b) simp_all
  show "wordOf outcomeWord [AckSent, AckFailed, AckUnknown, AckNotMade] (Some (JStr (outcomeWord out))) = Some out"
    by (cases out) simp_all
qed

declare wordOf.simps [simp del]

lemma word_option [simp]:
  "wordOf reasonWord HAND_BACK_REASONS (map_option (\<lambda>r. JStr (reasonWord r)) v) = v"
  by (cases v) (simp_all add: wordOf.simps(2))

section \<open>Cutting\<close>

lemma concat_chars [simp]: "concat (chars s) = s"
  by (induction s rule: chars.induct) auto

lemma chars_width: "c \<in> set (chars s) \<Longrightarrow> 1 \<le> length c \<and> length c \<le> 2"
  by (induction s rule: chars.induct) (auto split: if_splits)

lemma chars_eq_Nil [simp]: "chars s = [] \<longleftrightarrow> s = []"
  by (cases s rule: chars.cases) auto

text \<open>The characters of what is kept are the first ones.\<close>

lemma chars_prefix: "chars (concat (take n (chars s))) = take n (chars s)"
proof (induction s arbitrary: n rule: chars.induct)
  case (2 u)
  then show ?case by (cases n) simp_all
next
  case (3 u v s)
  show ?case
  proof (cases n)
    case (Suc m)
    show ?thesis
    proof (cases "isHigh u \<and> isLow v")
      case True
      with 3(1) Suc show ?thesis by simp
    next
      case False
      note IH = 3(2) [OF False, of m]
      show ?thesis
      proof (cases "take m (chars (v # s)) = []")
        case True
        with Suc False show ?thesis by simp
      next
        case rest: False
        have "\<exists>t. concat (take m (chars (v # s))) = v # t"
          using rest by (cases m; cases s) auto
        then obtain t where t: "concat (take m (chars (v # s))) = v # t"
          by blast
        with Suc False IH show ?thesis by (simp only: chars.simps take_Suc_Cons if_False concat.simps append_Cons append_Nil)
      qed
    qed
  qed simp
qed simp

lemma length_concat_bound: "(\<And>c. c \<in> set cs \<Longrightarrow> length c \<le> 2) \<Longrightarrow> length (concat cs) \<le> 2 * length cs"
proof (induction cs)
  case (Cons c cs)
  then have "length c \<le> 2" "length (concat cs) \<le> 2 * length cs"
    by simp_all
  then show ?case by simp
qed simp

lemma cutText_short: "length s \<le> n * 2 \<Longrightarrow> length (chars s) \<le> n \<Longrightarrow> cutText s n = s"
  by (simp add: cutText_def)

lemma cutText_idem [simp]: "cutText (cutText s n) n = cutText s n"
proof -
  let ?cs = "chars (if length s > n * 2 then take (n * 2) s else s)"
  show ?thesis
  proof (cases "length ?cs \<le> n")
    case True
    then have "cutText s n = s"
      by (simp only: cutText_def Let_def if_True)
    then show ?thesis by simp
  next
    case False
    then have cut: "cutText s n = concat (take n ?cs)"
      by (simp only: cutText_def Let_def if_False)
    have "length (concat (take n ?cs)) \<le> 2 * length (take n ?cs)"
      by (rule length_concat_bound) (use chars_width in_set_takeD in fast)
    then have "length (concat (take n ?cs)) \<le> n * 2"
      by simp
    moreover have "length (chars (concat (take n ?cs))) \<le> n"
      unfolding chars_prefix by simp
    ultimately show ?thesis
      unfolding cut by (rule cutText_short)
  qed
qed

definition fits :: "nat \<Rightarrow> jstr \<Rightarrow> bool" where
  "fits n s \<longleftrightarrow> cutText s n = s"

lemma cut_Some: "cut raw n = Some s \<Longrightarrow> fits n s"
  by (cases "(raw, n)" rule: cut.cases) (auto simp: fits_def)

lemma cut_written [simp]:
  "fits n s \<Longrightarrow> cut (Some (JStr s)) n = Some s"
  "pred_option (fits n) v \<Longrightarrow> cut (orJNull JStr v) n = v"
  "pred_option (fits n) v \<Longrightarrow> cut (map_option JStr v) n = v"
  by (cases v; simp add: fits_def)+

lemma cutText_fits [simp]: "fits n s \<Longrightarrow> cutText s n = s"
  by (simp add: fits_def)

declare cut.simps(1) [simp del] ancestorsOf.simps(1) [simp del] pinsOf.simps(1) [simp del] historyOf.simps(1) [simp del]

section \<open>Well formed values\<close>

definition clientOk :: "client_info \<Rightarrow> bool" where
  "clientOk c \<longleftrightarrow> fits MAX_WORD (ci_name c) \<and> ci_name c \<noteq> [] \<and> pred_option (fits MAX_VERSION) (ci_version c)"

definition parentOk :: "activity_parent \<Rightarrow> bool" where
  "parentOk p \<longleftrightarrow> 0 < ap_pid p \<and> fits MAX_VERSION (ap_startedAt p) \<and> fits MAX_WORD (ap_name p)"

definition holderOk :: "take_holder \<Rightarrow> bool" where
  "holderOk h \<longleftrightarrow> isSessionKey (th_key h) \<and> takeProcessId (th_process h)
     \<and> pred_option isClaudeCodeSessionId (th_sessionId h) \<and> pred_option parentOk (th_parent h)
     \<and> pred_option (fits MAX_FOLDER) (th_folder h) \<and> pred_option clientOk (th_client h)"

fun heldOk :: "held \<Rightarrow> bool" where
  "heldOk (Session h) = holderOk h"
| "heldOk ThePerson = True"

definition windowOk :: "take_window \<Rightarrow> bool" where
  "windowOk w \<longleftrightarrow> (tw_sessionId w \<noteq> None \<or> tw_key w \<noteq> None) \<and> pred_option isClaudeCodeSessionId (tw_sessionId w)
     \<and> pred_option isSessionKey (tw_key w) \<and> pred_option parentOk (tw_parent w)
     \<and> pred_option (fits MAX_FOLDER) (tw_folder w) \<and> pred_option clientOk (tw_client w)"

fun offerByOk :: "offer_by \<Rightarrow> bool" where
  "offerByOk (OfferedByRule rule delivery) = (fits MAX_WORD rule \<and> fits MAX_WORD delivery)"
| "offerByOk GivenByPerson = True"

definition offerOk :: "take_offer \<Rightarrow> bool" where
  "offerOk f \<longleftrightarrow> windowOk (to_window f) \<and> pred_option isTime (to_until f) \<and> offerByOk (to_by f)"

definition lineWindowOk :: "line_window \<Rightarrow> bool" where
  "lineWindowOk w \<longleftrightarrow> pred_option isClaudeCodeSessionId (lw_sessionId w)
     \<and> pred_option (fits MAX_FOLDER) (lw_folder w) \<and> pred_option clientOk (lw_client w)"

definition terminalOk :: "take_terminal \<Rightarrow> bool" where
  "terminalOk t \<longleftrightarrow> pred_option (fits MAX_FOLDER) (tt_folder t) \<and> length (tt_ancestors t) \<le> MAX_ANCESTORS
     \<and> list_all (fits MAX_WORD) (tt_ancestors t)"

definition lineOk :: "take_line \<Rightarrow> bool" where
  "lineOk l \<longleftrightarrow> isTime (tl_at l) \<and> pred_option isSessionKey (tl_windowKey l)
     \<and> pred_option lineWindowOk (tl_window l) \<and> pred_option terminalOk (tl_terminal l)
     \<and> pred_option (\<lambda>note. fits MAX_TAKE_NOTE_CHARS note \<and> note \<noteq> []) (tl_note l)
     \<and> pred_option (\<lambda>a. pred_option (fits MAX_WORD) (ta_why a)) (tl_ack l)"

definition messageIdKept :: "jstr \<Rightarrow> bool" where
  "messageIdKept s \<longleftrightarrow> rfc822IdOf (Some (JStr s)) = Some s"

definition messageOk :: "take_message \<Rightarrow> bool" where
  "messageOk m \<longleftrightarrow> takeAccountId (tm_accountId m) \<and> takeIdPattern (tm_id m)
     \<and> pred_option takeIdPattern (tm_thread m) \<and> pred_option messageIdKept (tm_rfc822Id m)"

text \<open>A record as a reader returns it: each member is there exactly in the states that have it.\<close>

definition recordOk :: "take_record \<Rightarrow> bool" where
  "recordOk r \<longleftrightarrow> messageOk (tr_message r)
     \<and> stateMeans (tr_state r) (tr_holder r) (tr_offer r) (tr_lastActAt r)
     \<and> pred_option heldOk (tr_holder r) \<and> pred_option offerOk (tr_offer r)
     \<and> pred_option isTime (tr_takenAt r) \<and> pred_option isTime (tr_lastActAt r)
     \<and> distinct (tr_pins r) \<and> list_all takeApprovalId (tr_pins r)
     \<and> list_all lineOk (tr_history r) \<and> length (tr_history r) \<le> MAX_TAKE_HISTORY \<and> isTime (tr_updatedAt r)
     \<and> (tr_state r = TOpen \<or> tr_state r = TOffered \<longrightarrow> tr_holder r = None \<and> tr_takenAt r = None \<and> tr_lastActAt r = None)
     \<and> (tr_state r \<noteq> TOffered \<longrightarrow> tr_offer r = None) \<and> (tr_state r \<noteq> TTaken \<longrightarrow> tr_pins r = [])"

section \<open>What is read is well formed\<close>

lemma pred_option_stringWith [simp]: "pred_option P (stringWith P raw)"
  by (cases "(P, raw)" rule: stringWith.cases) auto

lemma pred_option_cut [simp]: "pred_option (fits n) (cut raw n)"
  by (cases "cut raw n") (auto dest: cut_Some)

lemma folderOf_ok [simp]: "pred_option (fits MAX_FOLDER) (folderOf raw)"
  by (simp add: folderOf_def)

lemma clientOf_ok [simp]: "pred_option clientOk (clientOf raw)"
  by (auto simp: clientOf_def clientOk_def dest: cut_Some split: option.split)

lemma parentOf_ok [simp]: "pred_option parentOk (parentOf raw)"
  by (auto simp: parentOf_def parentOk_def dest: cut_Some split: option.split json.split)

lemma holderOf_ok: "pred_option holderOk (holderOf raw)"
  by (auto simp: holderOf_def holderOk_def stringWith_Some split: option.split json.split)

lemma heldOf_ok: "heldOf raw = Some h \<Longrightarrow> pred_option heldOk h"
  using holderOf_ok [of raw] by (auto simp: heldOf_def split: if_splits)

lemma takeWindowOf_ok: "pred_option windowOk (takeWindowOf raw)"
  by (simp add: takeWindowOf_def windowOk_def Let_def)

lemma takeTimeOf_ok: "pred_option isTime (takeTimeOf raw)"
  by (simp add: takeTimeOf_def)

lemma nullOrTime_ok: "nullOrTime raw = Some t \<Longrightarrow> pred_option isTime t"
  using takeTimeOf_ok [of raw] by (auto simp: nullOrTime_def split: if_splits)

lemma offerByOf_ok: "pred_option offerByOk (offerByOf raw)"
  by (auto simp: offerByOf_def dest: cut_Some split: option.split)

lemma offerOf_ok: "offerOf raw = Some f \<Longrightarrow> pred_option offerOk f"
  using takeWindowOf_ok [of "field ''to'' raw"] offerByOf_ok [of "field ''by'' raw"] nullOrTime_ok [of "field ''until'' raw"]
  by (auto simp: offerOf_def offerOk_def split: if_splits option.splits)

lemma lineWindowOf_ok [simp]: "pred_option lineWindowOk (lineWindowOf raw)"
  by (simp add: lineWindowOf_def lineWindowOk_def)

lemma map_filter_bound: "length (List.map_filter f xs) \<le> length xs"
  by (induction xs) (simp_all add: List.map_filter_simps split: option.split)

lemma map_filter_all: "(\<And>x y. f x = Some y \<Longrightarrow> P y) \<Longrightarrow> list_all P (List.map_filter f xs)"
  by (induction xs) (simp_all add: List.map_filter_simps split: option.split)

lemma ancestorsOf_ok: "length (ancestorsOf raw) \<le> MAX_ANCESTORS \<and> list_all (fits MAX_WORD) (ancestorsOf raw)"
proof (cases raw rule: ancestorsOf.cases)
  case (1 names)
  have "length (ancestorsOf raw) \<le> length (take MAX_ANCESTORS names)"
    unfolding 1 ancestorsOf.simps by (rule map_filter_bound)
  then show ?thesis
    unfolding 1 ancestorsOf.simps by (auto intro!: map_filter_all dest: cut_Some)
qed simp_all

lemma terminalOf_ok [simp]: "pred_option terminalOk (terminalOf raw)"
  using ancestorsOf_ok by (simp add: terminalOf_def terminalOk_def)

lemma noteOf_ok [simp]: "pred_option (\<lambda>note. fits MAX_TAKE_NOTE_CHARS note \<and> note \<noteq> []) (noteOf raw)"
  by (auto simp: noteOf_def dest: cut_Some split: option.split)

lemma ackOf_ok [simp]: "pred_option (\<lambda>a. pred_option (fits MAX_WORD) (ta_why a)) (ackOf raw)"
  by (cases "wordOf outcomeWord [AckSent, AckFailed, AckUnknown, AckNotMade] (field ''outcome'' raw)")
    (simp_all add: ackOf_def)

lemma lineOf_ok: "lineOf v = Some l \<Longrightarrow> lineOk l"
  using takeTimeOf_ok [of "field ''at'' (Some v)"] by (auto simp: lineOf_def lineOk_def Let_def split: option.splits)

lemma RFC822_ID_units:
  assumes "RFC822_ID s"
  shows "s \<noteq> [] \<and> (\<forall>u \<in> set s. \<not> isSpace u \<and> u \<noteq> 60 \<and> u \<noteq> 62)"
proof -
  let ?local = "takeWhile (\<lambda>u. u \<noteq> 64) s"
  have parts: "length ?local < length s" "list_all isMessageIdUnit ?local" "list_all isMessageIdHost (drop (length ?local + 1) s)"
    using assms by (simp_all add: RFC822_ID_def Let_def)
  have "s ! length ?local = 64"
    using nth_length_takeWhile [OF parts(1)] by simp
  then have "s = ?local @ 64 # drop (length ?local + 1) s"
    using id_take_nth_drop [OF parts(1)] takeWhile_eq_take [of "\<lambda>u. u \<noteq> 64" s] by (simp only: Suc_eq_plus1)
  then have "u \<in> set ?local \<or> u = 64 \<or> u \<in> set (drop (length ?local + 1) s)" if "u \<in> set s" for u
    using that by (metis Un_iff set_append set_ConsD)
  then have "isMessageIdUnit u \<or> u = 64 \<or> isMessageIdHost u" if "u \<in> set s" for u
    using that parts(2,3) unfolding list_all_iff by blast
  moreover have "\<not> isSpace u \<and> u \<noteq> 60 \<and> u \<noteq> 62" if "isMessageIdUnit u \<or> u = 64 \<or> isMessageIdHost u" for u
    using that by (auto simp: isMessageIdUnit_def isMessageIdHost_def isSpace_def isLetter_def isUpper_def isLower_def
        isNumeral_def js_eval)
  ultimately show ?thesis
    using parts(1) by fastforce
qed

lemma trim_plain: "s \<noteq> [] \<Longrightarrow> \<forall>u \<in> set s. \<not> isSpace u \<Longrightarrow> trim s = s"
proof -
  assume s: "s \<noteq> []" "\<forall>u \<in> set s. \<not> isSpace u"
  then have "dropWhile isSpace s = s" "dropWhile isSpace (rev s) = rev s"
    by (auto simp: dropWhile_eq_self_iff hd_rev)
  then show "trim s = s"
    by (simp add: trim_def trimEnd_def)
qed

lemma bareId_kept: "RFC822_ID s \<Longrightarrow> messageIdKept s"
  using RFC822_ID_units [of s] by (simp add: messageIdKept_def trim_plain bareId_def Let_def)

lemma rfc822IdOf_ok [simp]: "pred_option messageIdKept (rfc822IdOf raw)"
  by (cases raw rule: rfc822IdOf.cases) (simp_all add: Let_def bareId_kept)

lemma messageOf_ok: "pred_option messageOk (messageOf raw)"
  by (auto simp: messageOf_def messageOk_def idOf_def stringWith_Some split: option.split)

lemma firstOnes_set [simp]: "set (firstOnes xs) = set xs"
  by (induction xs) auto

lemma firstOnes_distinct [simp]: "distinct (firstOnes xs)"
  by (induction xs) auto

lemma firstOnes_id: "distinct xs \<Longrightarrow> firstOnes xs = xs"
  by (induction xs) (auto intro: filter_True)

lemma pinsOf_ok: "distinct (pinsOf raw) \<and> list_all takeApprovalId (pinsOf raw)"
proof (cases raw rule: pinsOf.cases)
  case (1 pins)
  have "list_all takeApprovalId (List.map_filter (\<lambda>pin. stringWith takeApprovalId (Some pin)) pins)"
    by (rule map_filter_all) (simp add: stringWith_Some)
  then show ?thesis
    by (simp add: 1 list_all_iff pinsOf.simps(1))
qed simp_all

lemma newest_length: "length (newest n xs) \<le> n"
  by (simp add: newest_def)

lemma newest_short: "length xs \<le> n \<Longrightarrow> newest n xs = xs"
  by (simp add: newest_def)

lemma newest_all: "list_all P xs \<Longrightarrow> list_all P (newest n xs)"
  unfolding newest_def list_all_iff by (blast dest: in_set_dropD)

lemma historyOf_ok: "list_all lineOk (historyOf raw)"
  by (cases raw rule: historyOf.cases) (simp_all add: map_filter_all lineOf_ok historyOf.simps(1))

lemma takeRecordOf_ok:
  assumes "takeRecordOf v = Some r"
  shows "recordOk r"
  using assms messageOf_ok [of "field ''message'' (Some v)"] heldOf_ok [of "orNull (field ''holder'' (Some v))"]
    offerOf_ok [of "orNull (field ''offer'' (Some v))"] takeTimeOf_ok [of "field ''updatedAt'' (Some v)"]
    nullOrTime_ok [of "orNull (field ''takenAt'' (Some v))"] nullOrTime_ok [of "orNull (field ''lastActAt'' (Some v))"]
    pinsOf_ok [of "field ''pins'' (Some v)"] newest_length [of MAX_TAKE_HISTORY "historyOf (field ''history'' (Some v))"]
    newest_all [OF historyOf_ok, of MAX_TAKE_HISTORY "field ''history'' (Some v)"]
  by (auto simp: takeRecordOf_def Let_def recordOk_def stateMeans_def split: if_splits option.splits)

section \<open>What is well formed reads back\<close>

lemma client_reads_back [simp]:
  "clientOk c \<Longrightarrow> clientOf (Some (clientJson c)) = Some c"
  "pred_option clientOk v \<Longrightarrow> clientOf (orJNull clientJson v) = v"
  by (cases v; simp add: clientOf_def clientOk_def clientJson_def)+

lemma parent_reads_back [simp]:
  "parentOk p \<Longrightarrow> parentOf (Some (parentJson p)) = Some p"
  "pred_option parentOk v \<Longrightarrow> parentOf (orJNull parentJson v) = v"
  by (cases v; simp add: parentOf_def parentOk_def parentJson_def)+

lemma holder_reads_back [simp]: "holderOk h \<Longrightarrow> holderOf (Some (holderJson h)) = Some h"
  by (cases "th_sessionId h") (simp_all add: holderOf_def holderOk_def holderJson_def folderOf_def)

lemma held_reads_back [simp]: "pred_option heldOk v \<Longrightarrow> heldOf (orJNull heldJson v) = Some v"
proof (cases v)
  case (Some h)
  assume "pred_option heldOk v"
  with Some show ?thesis
    by (cases h) (simp_all add: heldOf_def personJson_def, simp add: holderJson_def)
qed (simp add: heldOf_def)

lemma window_reads_back [simp]: "windowOk w \<Longrightarrow> takeWindowOf (Some (windowJson w)) = Some w"
  by (cases "tw_sessionId w"; cases "tw_key w") (simp_all add: takeWindowOf_def windowOk_def windowJson_def folderOf_def Let_def)

lemma nullOrTime_reads_back [simp]: "pred_option isTime v \<Longrightarrow> nullOrTime (orJNull JStr v) = Some v"
  by (cases v) (simp_all add: nullOrTime_def takeTimeOf_def)

lemma offerBy_reads_back [simp]: "offerByOk b \<Longrightarrow> offerByOf (Some (offerByJson b)) = Some b"
  by (cases b) (simp_all add: offerByOf_def personJson_def)

lemma offer_reads_back [simp]: "pred_option offerOk v \<Longrightarrow> offerOf (orJNull offerJson v) = Some v"
  by (cases v) (simp_all add: offerOf_def offerOk_def offerJson_def)

lemma lineWindow_reads_back [simp]: "pred_option lineWindowOk v \<Longrightarrow> lineWindowOf (map_option lineWindowJson v) = v"
proof (cases v)
  case (Some w)
  assume "pred_option lineWindowOk v"
  with Some show ?thesis
    by (cases "lw_sessionId w") (simp_all add: lineWindowOf_def lineWindowOk_def lineWindowJson_def folderOf_def)
qed (simp add: lineWindowOf_def)

lemma map_filter_read_back: "list_all (\<lambda>x. f (g x) = Some x) xs \<Longrightarrow> List.map_filter f (map g xs) = xs"
  by (induction xs) (simp_all add: List.map_filter_simps)

lemma ancestors_read_back [simp]:
  assumes "length names \<le> MAX_ANCESTORS" "list_all (fits MAX_WORD) names"
  shows "ancestorsOf (Some (JArr (map JStr names))) = names"
proof -
  have "take MAX_ANCESTORS (map JStr names) = map JStr names"
    using assms(1) by simp
  moreover have "List.map_filter (\<lambda>name. cut (Some name) MAX_WORD) (map JStr names) = names"
    using assms(2) by (intro map_filter_read_back) (simp add: list_all_iff)
  ultimately show ?thesis
    by (simp add: ancestorsOf.simps(1))
qed

lemma terminal_reads_back [simp]: "pred_option terminalOk v \<Longrightarrow> terminalOf (map_option terminalJson v) = v"
  by (cases v) (simp_all add: terminalOf_def terminalOk_def terminalJson_def folderOf_def)

lemma ack_reads_back [simp]:
  "pred_option (\<lambda>a. pred_option (fits MAX_WORD) (ta_why a)) v \<Longrightarrow> ackOf (map_option ackJson v) = v"
  by (cases v) (simp_all add: ackOf_def ackJson_def wordOf.simps(2))

lemma note_reads_back [simp]:
  "pred_option (\<lambda>note. fits MAX_TAKE_NOTE_CHARS note \<and> note \<noteq> []) v \<Longrightarrow> noteOf (map_option JStr v) = v"
  by (cases v) (simp_all add: noteOf_def)

lemma line_reads_back [simp]: "lineOk l \<Longrightarrow> lineOf (lineJson l) = Some l"
  by (cases "tl_windowKey l") (simp_all add: lineOf_def lineOk_def lineJson_def takeTimeOf_def Let_def)

lemma message_reads_back [simp]: "messageOk m \<Longrightarrow> messageOf (Some (messageJson m)) = Some m"
  by (cases "tm_thread m"; cases "tm_rfc822Id m")
    (simp_all add: messageOf_def messageOk_def messageJson_def idOf_def messageIdKept_def)

lemma pins_read_back [simp]:
  assumes "distinct pins" "list_all takeApprovalId pins"
  shows "pinsOf (Some (JArr (map JStr pins))) = pins"
proof -
  have "List.map_filter (\<lambda>pin. stringWith takeApprovalId (Some pin)) (map JStr pins) = pins"
    using assms(2) by (intro map_filter_read_back) (simp add: list_all_iff)
  then show ?thesis
    using assms(1) by (simp add: firstOnes_id pinsOf.simps(1))
qed

lemma history_reads_back [simp]: "list_all lineOk ls \<Longrightarrow> historyOf (Some (JArr (map lineJson ls))) = ls"
  by (simp add: list_all_iff map_filter_read_back historyOf.simps(1))

lemma orNull_written [simp]: "orNull (orJNull f v) = orJNull f v"
  by (simp add: orNull_def orJNull_def)

lemma record_reads_back:
  assumes "recordOk r"
  shows "takeRecordOf (takeJson r) = Some r"
proof -
  have "field ''holder'' (Some (takeJson r)) = orJNull heldJson (tr_holder r)"
    "field ''offer'' (Some (takeJson r)) = orJNull offerJson (tr_offer r)"
    "field ''takenAt'' (Some (takeJson r)) = orJNull JStr (tr_takenAt r)"
    "field ''lastActAt'' (Some (takeJson r)) = orJNull JStr (tr_lastActAt r)"
    by (simp_all add: takeJson_def)
  moreover have "field ''v'' (Some (takeJson r)) = Some (JNum 1)"
    "field ''message'' (Some (takeJson r)) = Some (messageJson (tr_message r))"
    "field ''state'' (Some (takeJson r)) = Some (JStr (stateWord (tr_state r)))"
    "field ''pins'' (Some (takeJson r)) = Some (JArr (map JStr (tr_pins r)))"
    "field ''history'' (Some (takeJson r)) = Some (JArr (map lineJson (tr_history r)))"
    "field ''updatedAt'' (Some (takeJson r)) = Some (JStr (tr_updatedAt r))"
    by (simp_all add: takeJson_def)
  moreover have ok: "messageOk (tr_message r)" "pred_option heldOk (tr_holder r)" "pred_option offerOk (tr_offer r)"
    "pred_option isTime (tr_takenAt r)" "pred_option isTime (tr_lastActAt r)" "distinct (tr_pins r)"
    "list_all takeApprovalId (tr_pins r)" "list_all lineOk (tr_history r)" "isTime (tr_updatedAt r)"
    "newest MAX_TAKE_HISTORY (tr_history r) = tr_history r"
    using assms by (simp_all add: recordOk_def newest_short)
  ultimately have "takeRecordOf (takeJson r) =
    (if \<not> stateMeans (tr_state r) (tr_holder r) (tr_offer r) (tr_lastActAt r) then None
     else let kept = (tr_state r = TTaken \<or> tr_state r = TDone)
          in Some \<lparr>tr_message = tr_message r, tr_state = tr_state r, tr_holder = (if kept then tr_holder r else None),
                   tr_offer = (if tr_state r = TOffered then tr_offer r else None),
                   tr_takenAt = (if kept then tr_takenAt r else None),
                   tr_lastActAt = (if kept then tr_lastActAt r else None),
                   tr_pins = (if tr_state r = TTaken then tr_pins r else []),
                   tr_history = tr_history r, tr_updatedAt = tr_updatedAt r\<rparr>)"
    unfolding takeRecordOf_def Let_def by (simp add: takeTimeOf_def)
  then show ?thesis
    using assms unfolding recordOk_def by (cases "tr_state r") (simp_all add: stateMeans_def)
qed

text \<open>C23.
  A take record is a fixed point of its reader: whatever JSON a file holds, what is read of it is written as JSON that
  is read as that same record, so a record is never changed by being read and written again; and only records that can
  be read back are well formed.
\<close>

theorem takes_read_back:
  "(takeRecordOf v = Some r \<longrightarrow> takeRecordOf (takeJson r) = Some r)
   \<and> (recordOk r \<longleftrightarrow> takeRecordOf (takeJson r) = Some r)"
  using record_reads_back takeRecordOf_ok by blast

text \<open>A file with a member no release knows: the record read of it has none, and is read back.\<close>

definition sampleTakeFile :: json where
  "sampleTakeFile = JObj [(js ''v'', Some (JNum 1)), (js ''state'', Some (JStr (js ''taken''))),
     (js ''message'', Some (JObj [(js ''channel'', Some (JStr (js ''slack''))),
        (js ''accountId'', Some (JStr (js ''acc_0123456789ABCDEF''))), (js ''id'', Some (JStr (js ''C0123/1729936800.000100'')))])),
     (js ''holder'', Some (JObj [(js ''key'', Some (JStr (js ''0123456789abcdef''))), (js ''grouped'', Some (JBool True)),
        (js ''process'', Some (JStr (js ''ab12''))), (js ''extra'', Some (JStr (js ''from a later release'')))])),
     (js ''lastActAt'', Some (JStr (js ''2024-10-26T10:00:00.123Z''))),
     (js ''pins'', Some (JArr [JStr (js ''ap_1''), JNum 3, JStr (js ''ap_1'')])),
     (js ''history'', Some (JArr [JNull])), (js ''updatedAt'', Some (JStr (js ''2024-10-26T10:00:00.123Z'')))]"

definition sampleHolder :: take_holder where
  "sampleHolder = \<lparr>th_key = js ''0123456789abcdef'', th_grouped = True, th_process = js ''ab12'', th_sessionId = None,
     th_parent = None, th_folder = None, th_client = None\<rparr>"

definition sampleTake :: take_record where
  "sampleTake = \<lparr>tr_message = \<lparr>tm_channel = OnSlack, tm_accountId = js ''acc_0123456789ABCDEF'',
        tm_id = js ''C0123/1729936800.000100'', tm_thread = None, tm_rfc822Id = None\<rparr>,
     tr_state = TTaken, tr_holder = Some (Session sampleHolder), tr_offer = None, tr_takenAt = None,
     tr_lastActAt = Some (js ''2024-10-26T10:00:00.123Z''), tr_pins = [js ''ap_1''], tr_history = [],
     tr_updatedAt = js ''2024-10-26T10:00:00.123Z''\<rparr>"

lemma sampleTake_read: "takeRecordOf sampleTakeFile = Some sampleTake"
  by code_simp

lemma takes_read_back_witness: "takeRecordOf (takeJson sampleTake) = Some sampleTake"
  using takes_read_back [of sampleTakeFile sampleTake] sampleTake_read by blast

end
