(* ===== verification/TakeCells.thy ===== *)
theory TakeCells
  imports TakeActs TakeReadBack
begin

text \<open>
  The store of takes as cells: each message's file is one cell, and an operation acts on the cell of its message alone.
  \<open>actOn\<close> is an operation on a cell; what an operation decides is the interface \<open>take_decision\<close>, whose contract is that
  it decides well formed records on well formed arguments. Under it the locked change of a file, with its reading,
  rebuilding and writing of JSON, refines the change of a cell, and never fails to be read back.
\<close>

section \<open>Settling keeps records well formed\<close>

lemma isTime_written [simp]: "isTime (toISOString t)"
  using dateParse_written [of t] by (auto simp: isTime_def toISOString_form)

lemma newest_lines: "list_all lineOk (newest n xs) \<longleftrightarrow> list_all lineOk (drop (length xs - n) xs)"
  by (simp add: newest_def)

lemma withLine_ok: "recordOk r \<Longrightarrow> lineOk l \<Longrightarrow> list_all lineOk (withLine r l) \<and> length (withLine r l) \<le> MAX_TAKE_HISTORY"
  unfolding withLine_def using newest_length newest_all [of lineOk "tr_history r @ [l]"] by (auto simp: recordOk_def)

lemma opened_ok: "recordOk r \<Longrightarrow> lineOk l \<Longrightarrow> isTime at' \<Longrightarrow> recordOk (opened r l at')"
  using withLine_ok [of r l] by (auto simp: opened_def recordOk_def stateMeans_def)

lemma blank_ok: "messageOk m \<Longrightarrow> isTime at' \<Longrightarrow> recordOk (blank m at')"
  by (simp add: blank_def recordOk_def stateMeans_def)

lemma serviceLine_ok: "isTime at' \<Longrightarrow> pred_option isSessionKey k \<Longrightarrow> lineOk (serviceLine at' kind k)"
  by (simp add: serviceLine_def lineOk_def)

lemma windowLine_ok: "lineOk l \<Longrightarrow> holderOk h \<Longrightarrow> lineOk (withWindowLine h l)"
  by (simp add: withWindowLine_def lineOk_def holderOk_def lineWindowOk_def)

lemma offer_window_key: "recordOk r \<Longrightarrow> tr_offer r = Some f \<Longrightarrow> pred_option isSessionKey (tw_key (to_window f))"
  by (simp add: recordOk_def offerOk_def windowOk_def)

lemma offer_until: "recordOk r \<Longrightarrow> tr_offer r = Some f \<Longrightarrow> to_until f = Some u \<Longrightarrow> isTime u"
  by (simp add: recordOk_def offerOk_def)

lemma offerWaitsUntil_time: "offerWaitsUntil r w = Some t \<Longrightarrow> isTime t"
  by (auto simp: offerWaitsUntil_def Let_def split: if_splits option.splits)

lemma holder_ok: "recordOk r \<Longrightarrow> tr_holder r = Some (Session h) \<Longrightarrow> holderOk h"
  by (simp add: recordOk_def)

lemma livePins_ok:
  assumes "distinct pins" "list_all takeApprovalId pins"
  shows "distinct (livePins env pins)" "list_all takeApprovalId (livePins env pins)"
  using assms by (auto simp: livePins_def list_all_iff split: option.split)

lemma settleOffer_cases:
  "settleOffer env r offer = (r, False)
   \<or> (\<exists>t. settleOffer env r offer
        = (opened r (serviceLine t LExpired (tw_key (to_window offer))) (toISOString (te_now env)), True)
      \<and> (to_until offer = Some t \<or> offerWaitsUntil r (offerWaitIn env (tm_accountId (tr_message r))) = Some t))"
  by (cases "to_until offer"; cases "offerWaitsUntil r (offerWaitIn env (tm_accountId (tr_message r)))")
    (auto simp: settleOffer_def Let_def)

lemma leaseEnd_time: "isTime a \<Longrightarrow> isTime (leaseEnd a)"
  by (simp add: leaseEnd_def split: option.split)

lemma settleTake_ok:
  assumes "recordOk r" "tr_state r = TTaken" "holderOk h" "isTime a"
  shows "recordOk (fst (settleTake env probing r h a))"
proof -
  have "recordOk (opened r (withWindowLine h (serviceLine t kind None)) at')"
    if "isTime t" "isTime at'" for t kind at'
    using assms that by (intro opened_ok windowLine_ok serviceLine_ok) simp_all
  moreover have "recordOk (r\<lparr>tr_pins := livePins env (tr_pins r), tr_updatedAt := toISOString (te_now env)\<rparr>)"
    using assms(1,2) livePins_ok [of "tr_pins r" env] by (simp add: recordOk_def stateMeans_def)
  ultimately show ?thesis
    using assms(1,4) leaseEnd_time by (simp add: settleTake_def Let_def)
qed

lemma settleOffer_ok:
  assumes "recordOk r" "tr_offer r = Some offer"
  shows "recordOk (fst (settleOffer env r offer))"
proof -
  have "isTime t" if "to_until offer = Some t \<or> offerWaitsUntil r w = Some t" for t w
    using that offer_until [OF assms] offerWaitsUntil_time by blast
  then have "recordOk (opened r (serviceLine t LExpired (tw_key (to_window offer))) (toISOString now))"
    if "to_until offer = Some t \<or> offerWaitsUntil r w = Some t" for t w now
    using that assms offer_window_key by (intro opened_ok serviceLine_ok) (blast intro: isTime_written)+
  note lapsed = this [of _ "offerWaitIn env (tm_accountId (tr_message r))"]
  show ?thesis
    using settleOffer_cases [of env r offer] assms(1) lapsed by (elim disjE exE conjE) simp_all
qed

lemma settle_ok:
  assumes "recordOk r"
  shows "recordOk (fst (settleRecord env probing r))"
proof (cases "tr_state r")
  case TOffered
  then show ?thesis
    using assms settleOffer_ok by (cases "tr_offer r") (simp_all add: settleRecord_def)
next
  case TTaken
  show ?thesis
  proof (cases "\<exists>h a. tr_holder r = Some (Session h) \<and> tr_lastActAt r = Some a")
    case True
    then obtain h a where ha: "tr_holder r = Some (Session h)" "tr_lastActAt r = Some a"
      by blast
    then have "isTime a"
      using assms by (simp add: recordOk_def)
    then show ?thesis
      using settleTake_ok [OF assms TTaken holder_ok [OF assms ha(1)]] ha TTaken by (simp add: settleRecord_def)
  next
    case False
    then have "settleRecord env probing r = (r, False)"
      using TTaken by (auto simp: settleRecord_def split: option.split held.split)
    then show ?thesis
      using assms by simp
  qed
qed (use assms in \<open>simp_all add: settleRecord_def\<close>)

section \<open>Cells\<close>

lemma readTake_ok: "readTake files path = Found r \<Longrightarrow> recordOk r"
  by (auto simp: readTake_def dest: takeRecordOf_ok split: option.splits take_file.splits)

lemma writeTake_ok: "recordOk r \<Longrightarrow> writeTake files path r = Inr (AList.update path (TakeJson (takeJson r)) files)"
  by (simp add: writeTake_def record_reads_back)

lemma readTake_update:
  "recordOk r \<Longrightarrow> readTake (AList.update path (TakeJson (takeJson r)) files) path'
    = (if path' = path then Found r else readTake files path')"
  by (simp add: readTake_def update_conv record_reads_back)

definition actOn :: "take_env \<Rightarrow> bool \<Rightarrow> bool \<Rightarrow> take_ref \<Rightarrow> jstr option
    \<Rightarrow> (take_record option \<Rightarrow> jstr \<Rightarrow> take_error + take_next \<times> 'a) \<Rightarrow> found \<Rightarrow> found \<times> (take_error + 'a)" where
  "actOn env probe replace ref thread decide cell =
     (case currentOf env probe replace ref thread cell of
        Inl e \<Rightarrow> (cell, Inl e)
      | Inr (current, changed) \<Rightarrow>
          let settled = (case current of Some r \<Rightarrow> if changed then Found r else cell | None \<Rightarrow> cell)
          in case decide current (toISOString (te_now env)) of
               Inl e \<Rightarrow> (settled, Inl e)
             | Inr (KeepIt, result) \<Rightarrow> (settled, Inr result)
             | Inr (WriteIt r, result) \<Rightarrow> (Found r, Inr result))"

lemma takePath_ref:
  assumes "takePath rt ref = Inr path"
  shows "takeAccountId (rf_accountId ref)" "takeIdPattern (rf_id ref)"
  using assms by (auto simp: takePath_def checkedTakeRef_def split: if_splits)

lemma currentOf_ok:
  assumes "currentOf env probe replace ref thread cell = Inr (current, changed)" "takePath rt ref = Inr path"
    "pred_option takeIdPattern thread" "\<And>r. cell = Found r \<Longrightarrow> recordOk r"
  shows "pred_option recordOk current"
proof -
  have "messageOk (refMessage ref thread)"
    using takePath_ref [OF assms(2)] assms(3) by (simp add: refMessage_def messageOk_def)
  then have "recordOk ((blank (refMessage ref thread) at')\<lparr>tr_state := TTaken, tr_holder := Some ThePerson,
      tr_takenAt := Some at', tr_lastActAt := Some at'\<rparr>)" if "isTime at'" for at'
    using that by (simp add: blank_def recordOk_def stateMeans_def)
  then show ?thesis
    using assms(1,4) settle_ok [of _ env probe]
    by (auto simp: currentOf_def Let_def split: found.splits if_splits prod.splits) (metis fst_conv)
qed

text \<open>The interface of an operation to the store.\<close>

locale take_decision =
  fixes decide :: "'arg \<Rightarrow> take_record option \<Rightarrow> jstr \<Rightarrow> take_error + take_next \<times> 'a"
    and argsOk :: "'arg \<Rightarrow> bool"
  assumes decides_ok: "argsOk a \<Longrightarrow> pred_option recordOk current \<Longrightarrow> isTime at'
      \<Longrightarrow> decide a current at' = Inr (WriteIt r, result) \<Longrightarrow> recordOk r"
    and decides_only: "decide a current at' \<noteq> Inl NotReadBack"
begin

lemma update_refines:
  assumes "argsOk a" "pred_option takeIdPattern thread" "takePath rt ref = Inr path"
  shows "readTake (fst (updateTake rt env ref thread probe replace (decide a) files)) path'
      = (if path' = path then fst (actOn env probe replace ref thread (decide a) (readTake files path))
         else readTake files path')
    \<and> snd (updateTake rt env ref thread probe replace (decide a) files)
      = snd (actOn env probe replace ref thread (decide a) (readTake files path))"
proof (cases "currentOf env probe replace ref thread (readTake files path)")
  case (Inl e)
  then show ?thesis
    by (simp add: updateTake_def actOn_def assms(3))
next
  case (Inr c)
  obtain current changed where c: "c = (current, changed)"
    by (cases c)
  have ok: "pred_option recordOk current"
    using currentOf_ok [OF Inr [unfolded c] assms(3,2)] readTake_ok by blast
  show ?thesis
  proof (cases "decide a current (toISOString (te_now env))")
    case e: (Inl e)
    then show ?thesis
      using ok by (cases current) (simp_all add: updateTake_def actOn_def assms(3) Inr c Let_def writeTake_ok readTake_update)
  next
    case d: (Inr d)
    obtain next' result where n: "d = (next', result)"
      by (cases d)
    show ?thesis
    proof (cases next')
      case KeepIt
      then show ?thesis
        using ok d n
        by (cases current) (simp_all add: updateTake_def actOn_def assms(3) Inr c Let_def writeTake_ok readTake_update)
    next
      case (WriteIt r)
      have "recordOk r"
        using decides_ok [OF assms(1) ok _ d [unfolded n WriteIt]] by simp
      then show ?thesis
        using d n WriteIt by (simp add: updateTake_def actOn_def assms(3) Inr c Let_def writeTake_ok readTake_update)
    qed
  qed
qed

lemma update_reads_back:
  assumes "argsOk a" "pred_option takeIdPattern thread"
  shows "snd (updateTake rt env ref thread probe replace (decide a) files) \<noteq> Inl NotReadBack"
proof (cases "takePath rt ref")
  case (Inl e)
  then show ?thesis
    by (auto simp: updateTake_def takePath_def checkedTakeRef_def split: if_splits)
next
  case (Inr path)
  have "snd (actOn env probe replace ref thread (decide a) cell) \<noteq> Inl NotReadBack" for cell
    using decides_only [of a]
    by (auto simp: actOn_def currentOf_def Let_def split: sum.splits found.splits prod.splits take_next.splits if_splits)
  then show ?thesis
    using update_refines [OF assms Inr] by simp
qed

lemma update_paths:
  assumes "takePath rt ref = Inr path" "path' \<noteq> path" "argsOk a" "pred_option takeIdPattern thread"
  shows "readTake (fst (updateTake rt env ref thread probe replace (decide a) files)) path' = readTake files path'"
  using update_refines [OF assms(3,4,1)] assms(2) by simp

end

section \<open>What the operations decide\<close>

lemma windowSays_ok: "isTime at' \<Longrightarrow> holderOk h \<Longrightarrow> lineOk (windowSays at' kind h)"
  unfolding windowSays_def by (intro windowLine_ok) (simp_all add: lineOk_def serviceLine_def)

lemma refreshed_ok: "pred_option heldOk held \<Longrightarrow> holderOk c \<Longrightarrow> holderOk (refreshedHolder held c)"
  by (cases "(held, c)" rule: refreshedHolder.cases)
    (auto simp: holderOk_def orElse_def Let_def split: option.split)

lemma elsewhere_None_done: "elsewhere r (CallerSession c) = None \<Longrightarrow> tr_state r = TDone \<or> tr_state r = TTaken
    \<Longrightarrow> \<exists>h. tr_holder r = Some (Session h) \<and> sameSession h c"
  by (auto simp: elsewhere_def holdsIt_def split: if_splits option.splits held.splits)

lemma orBlank_ok: "messageOk m \<Longrightarrow> pred_option recordOk current \<Longrightarrow> isTime at' \<Longrightarrow> recordOk (orBlank m at' current)"
  by (cases current) (simp_all add: orBlank_def blank_ok)

lemma renewedBy_ok:
  assumes "recordOk r" "tr_state r = TTaken" "holderOk caller" "isTime at'"
  shows "recordOk (renewedBy caller at' r)"
proof -
  have "holderOk (refreshedHolder (tr_holder r) caller)"
    using assms by (intro refreshed_ok) (simp_all add: recordOk_def)
  then show ?thesis
    using assms unfolding renewedBy_def recordOk_def by (simp add: stateMeans_def)
qed

text \<open>A record whose state, holder and offer are set anew.\<close>

lemma restated_ok:
  assumes "recordOk r" "messageOk m" "list_all lineOk hs \<and> length hs \<le> MAX_TAKE_HISTORY" "isTime at'" "heldOk h"
  shows "recordOk (r\<lparr>tr_message := m, tr_state := TTaken, tr_holder := Some h, tr_offer := None, tr_takenAt := Some at',
    tr_lastActAt := Some at', tr_pins := [], tr_history := hs, tr_updatedAt := at'\<rparr>)"
  using assms unfolding recordOk_def by (simp add: stateMeans_def)

lemma restated_same:
  assumes "recordOk r" "list_all lineOk hs \<and> length hs \<le> MAX_TAKE_HISTORY" "isTime at'" "heldOk h"
  shows "recordOk (r\<lparr>tr_state := TTaken, tr_holder := Some h, tr_offer := None, tr_takenAt := Some at',
    tr_lastActAt := Some at', tr_pins := [], tr_history := hs, tr_updatedAt := at'\<rparr>)"
  using assms unfolding recordOk_def by (simp add: stateMeans_def)

lemma takenBy_ok:
  assumes "recordOk r" "messageOk checked" "holderOk caller" "isTime at'"
  shows "recordOk (takenBy checked caller at' r)"
proof -
  have "lineOk (windowSays at' LTaken caller)"
    using assms windowSays_ok by blast
  moreover have "messageOk ((tr_message r)\<lparr>tm_thread := orElse (tm_thread checked) (tm_thread (tr_message r)),
      tm_rfc822Id := orElse (tm_rfc822Id checked) (tm_rfc822Id (tr_message r))\<rparr>)"
    using assms(1,2) by (cases "tm_thread checked"; cases "tm_rfc822Id checked") (simp_all add: recordOk_def messageOk_def orElse_def)
  ultimately show ?thesis
    unfolding takenBy_def using assms by (intro restated_ok withLine_ok) simp_all
qed

lemma takeDecision_Inr:
  "takeDecision checked caller current at' = Inr d \<longleftrightarrow>
     (let r = orBlank checked at' current; renewing = (tr_state r = TTaken \<and> holdsIt r (CallerSession caller));
          next' = (if renewing then renewedBy caller at' r else takenBy checked caller at' r)
      in elsewhere r (CallerSession caller) = None \<and> d = (WriteIt next', outcomeFor (CallerSession caller) (\<not> renewing) next'))"
  unfolding takeDecision_def Let_def by (auto split: option.split)

interpretation take_act: take_decision "\<lambda>(checked, caller). takeDecision checked caller"
  "\<lambda>(checked, caller). messageOk checked \<and> holderOk caller"
proof (unfold_locales, goal_cases)
  case (1 a current at' r result)
  then show ?case
    using orBlank_ok renewedBy_ok takenBy_ok
    by (cases a) (auto simp: takeDecision_Inr Let_def split: if_splits)
next
  case (2 a current at')
  show ?case
    by (cases a) (simp add: takeDecision_def Let_def split: option.split)
qed

interpretation hand_back: take_decision "\<lambda>(caller, reason, said). handBackDecision caller reason said"
  "\<lambda>(caller, reason, said). holderOk caller \<and> pred_option (\<lambda>n. fits MAX_TAKE_NOTE_CHARS n \<and> n \<noteq> []) said"
proof (unfold_locales, goal_cases)
  case (1 a current at' r result)
  obtain caller reason said where a: "a = (caller, reason, said)"
    by (cases a)
  have "lineOk ((windowSays at' LHandedBack caller)\<lparr>tl_reason := Some reason, tl_note := said\<rparr>)"
    using 1 a windowSays_ok by (simp add: lineOk_def)
  then show ?case
    using 1 a opened_ok
    by (auto simp: handBackDecision_def Let_def split: option.splits if_splits)
next
  case (2 a current at')
  show ?case
    by (cases a) (simp add: handBackDecision_def Let_def split: option.split)
qed

interpretation finish: take_decision "\<lambda>(caller, said). finishDecision caller said"
  "\<lambda>(caller, said). holderOk caller \<and> pred_option (\<lambda>n. fits MAX_TAKE_NOTE_CHARS n \<and> n \<noteq> []) said"
proof (unfold_locales, goal_cases)
  case (1 a current at' r result)
  obtain caller said where a: "a = (caller, said)"
    by (cases a)
  have line: "lineOk ((windowSays at' LDone caller)\<lparr>tl_note := said\<rparr>)"
    using 1 a windowSays_ok by (simp add: lineOk_def)
  obtain was where was: "current = Some was" "recordOk was" "tr_state was = TTaken" "elsewhere was (CallerSession caller) = None"
      "r = doneBy caller said at' was"
    using 1(2,4) a by (cases current; cases "tr_state (the current)")
      (auto simp: finishDecision_def split: option.splits if_splits)
  then obtain h where "tr_holder was = Some (Session h)"
    using elsewhere_None_done by blast
  then show ?case
    using was(1,2,3) withLine_ok [OF was(2) line] 1(3) unfolding was(5) doneBy_def recordOk_def by (simp add: stateMeans_def)
next
  case (2 a current at')
  show ?case
    by (cases a) (simp add: finishDecision_def Let_def split: option.split)
qed

lemma pinned_ok: "recordOk r \<Longrightarrow> tr_state r = TTaken \<Longrightarrow> pred_option takeApprovalId pin \<Longrightarrow> recordOk (pinned pin r)"
  unfolding pinned_def recordOk_def by (cases pin) (simp_all add: stateMeans_def)

lemma gateDecision_WriteIt:
  assumes "gateDecision caller required pin current at' = Inr (WriteIt r, result)"
  shows "\<exists>was session. current = Some was \<and> sessionOf caller = Some session \<and> tr_state was = TTaken
    \<and> elsewhere was caller = None \<and> r = renewedBy session at' (pinned pin was) \<and> result"
proof -
  obtain was where was: "current = Some was"
    using assms by (cases current) (auto simp: gateDecision_def split: if_splits)
  then show ?thesis
    using assms by (cases "tr_state was"; cases "elsewhere was caller"; cases "sessionOf caller")
      (auto simp: gateDecision_def split: if_splits)
qed

interpretation gate: take_decision "\<lambda>(caller, required, pin). gateDecision caller required pin"
  "\<lambda>(caller, required, pin). pred_option holderOk (sessionOf caller) \<and> pred_option takeApprovalId pin"
proof (unfold_locales, goal_cases)
  case (1 a current at' r result)
  obtain caller required pin where a: "a = (caller, required, pin)"
    by (cases a)
  then obtain was session where w: "current = Some was" "sessionOf caller = Some session" "tr_state was = TTaken"
      "r = renewedBy session at' (pinned pin was)"
    using gateDecision_WriteIt [of caller required pin current at' r result] 1(4) by auto
  moreover have "tr_state (pinned pin was) = TTaken"
    using w by (simp add: pinned_def)
  ultimately show ?case
    using 1(1-3) a pinned_ok renewedBy_ok by auto
next
  case (2 a current at')
  have "requiredOf c \<noteq> NotReadBack" for c
    by (cases c) simp_all
  then show ?case
    by (cases a) (simp add: gateDecision_def Let_def split: option.split)
qed

interpretation refuse: take_decision refuseDecision "\<lambda>_. True"
  by unfold_locales (auto simp: refuseDecision_def split: option.splits)

lemma personSays_ok: "isTime at' \<Longrightarrow> pred_option isSessionKey k \<Longrightarrow> terminalOk t \<Longrightarrow> lineOk (personSays at' kind k t)"
  by (simp add: personSays_def serviceLine_def lineOk_def)

lemma record_keys:
  assumes "recordOk r"
  shows "pred_option isSessionKey (case tr_holder r of
      Some (Session h) \<Rightarrow> Some (th_key h)
    | _ \<Rightarrow> (case tr_offer r of None \<Rightarrow> None | Some offer \<Rightarrow> tw_key (to_window offer)))"
proof -
  have "pred_option isSessionKey (case tr_offer r of None \<Rightarrow> None | Some offer \<Rightarrow> tw_key (to_window offer))"
    using offer_window_key [OF assms] by (cases "tr_offer r") simp_all
  moreover have "isSessionKey (th_key h)" if "tr_holder r = Some (Session h)" for h
    using holder_ok [OF assms that] by (simp add: holderOk_def)
  ultimately show ?thesis
    by (auto split: option.split held.split)
qed

interpretation release: take_decision releaseDecision terminalOk
proof (unfold_locales, goal_cases)
  case (1 terminal current at' r result)
  obtain was where was: "current = Some was" "recordOk was"
    using 1 by (cases current) (auto simp: releaseDecision_def)
  show ?case
    using 1 was opened_ok [OF was(2) personSays_ok [OF 1(3) record_keys [OF was(2)] 1(1)] 1(3)]
    by (auto simp: releaseDecision_def Let_def split: if_splits)
next
  case (2 a current at')
  show ?case
    by (simp add: releaseDecision_def Let_def split: option.split)
qed

lemma offeredRecord_ok:
  assumes "recordOk r" "offerOk offer" "lineOk line" "isTime at'"
  shows "recordOk (offeredRecord r offer line at')"
  using assms withLine_ok [OF assms(1,3)] by (simp add: offeredRecord_def recordOk_def stateMeans_def)

lemma onWindow_ok: "lineOk l \<Longrightarrow> windowOk w \<Longrightarrow> lineOk (onWindow w l)"
  by (simp add: onWindow_def lineOk_def windowOk_def lineWindowOk_def)

interpretation give: take_decision "\<lambda>(now, checked, window, terminal). giveDecision now checked window terminal"
  "\<lambda>(now, checked, window, terminal). messageOk checked \<and> windowOk window \<and> terminalOk terminal"
proof (unfold_locales, goal_cases)
  case (1 a current at' r result)
  obtain now checked window terminal where a: "a = (now, checked, window, terminal)"
    by (cases a)
  have ok: "recordOk (orBlank checked at' current)"
    using 1 a orBlank_ok by simp
  show ?case
    using 1 a
    by (auto simp: giveDecision_def Let_def offerOk_def windowOk_def
        intro!: offeredRecord_ok [OF ok] onWindow_ok personSays_ok)
next
  case (2 a current at')
  show ?case
    by (cases a) (simp add: giveDecision_def Let_def)
qed

interpretation keep: take_decision "\<lambda>(checked, terminal). keepDecision checked terminal"
  "\<lambda>(checked, terminal). messageOk checked \<and> terminalOk terminal"
proof (unfold_locales, goal_cases)
  case (1 a current at' r result)
  obtain checked terminal where a: "a = (checked, terminal)"
    by (cases a)
  have ok: "recordOk (orBlank checked at' current)"
    using 1 a orBlank_ok by simp
  have line: "lineOk (personSays at' LKept None terminal)"
    using 1 a personSays_ok by simp
  have "recordOk (keptBy terminal at' (orBlank checked at' current))"
    unfolding keptBy_def using 1 by (intro restated_same [OF ok withLine_ok [OF ok line]]) simp_all
  then show ?case
    using 1 a by (auto simp: keepDecision_def Let_def split: if_splits)
next
  case (2 a current at')
  show ?case
    by (cases a) (simp add: keepDecision_def Let_def)
qed

interpretation offer: take_decision "\<lambda>(checked, offer). offerDecision checked offer"
  "\<lambda>(checked, offer). messageOk checked \<and> offerOk offer"
proof (unfold_locales, goal_cases)
  case (1 a current at' r result)
  obtain checked offer where a: "a = (checked, offer)"
    by (cases a)
  have "lineOk (onWindow (to_window offer) (serviceLine at' LOffered (tw_key (to_window offer))))"
    using 1 a by (intro onWindow_ok serviceLine_ok) (simp_all add: offerOk_def windowOk_def)
  then show ?case
    using 1 a blank_ok offeredRecord_ok
    by (auto simp: offerDecision_def offeredBy_def split: option.splits if_splits)
next
  case (2 a current at')
  show ?case
    by (cases a) (simp add: offerDecision_def Let_def split: option.split)
qed

text \<open>A change of a waiting offer that keeps records well formed.\<close>

definition changesOk :: "(take_record \<Rightarrow> take_offer \<Rightarrow> jstr \<Rightarrow> take_record) \<Rightarrow> bool" where
  "changesOk change \<longleftrightarrow> (\<forall>r offer at'. recordOk r \<and> tr_state r = TOffered \<and> tr_offer r = Some offer \<and> isTime at'
     \<longrightarrow> recordOk (change r offer at'))"

lemma waitingOfferOf_Some:
  "waitingOfferOf current delivery = Some offer
    \<Longrightarrow> \<exists>r. current = Some r \<and> tr_state r = TOffered \<and> tr_offer r = Some offer"
  by (auto simp: waitingOfferOf_def split: option.splits if_splits offer_by.splits)

interpretation waiting: take_decision "\<lambda>(delivery, change). waitingDecision delivery change" "\<lambda>(delivery, change). changesOk change"
proof (unfold_locales, goal_cases)
  case (1 a current at' r result)
  obtain delivery change where a: "a = (delivery, change)"
    by (cases a)
  show ?case
    using 1 a
    by (auto simp: waitingDecision_def changesOk_def Let_def dest: waitingOfferOf_Some split: option.splits)
next
  case (2 a current at')
  show ?case
    by (cases a) (simp add: waitingDecision_def Let_def split: option.split)
qed

end
