(* ===== verification/TakeRuns.thy ===== *)
theory TakeRuns
  imports TakeCells
begin

text \<open>
  Every operation on the store of takes as one type of acts, runs of them, and what one act leaves of the cell of a
  message: the lemmas the properties of takes stand on.
\<close>

section \<open>Acts\<close>

datatype take_act =
    DoTake take_message take_holder
  | DoHandBack take_ref take_holder hand_back_reason "jstr option"
  | DoFinish take_ref take_holder "jstr option"
  | DoGate take_ref take_caller bool "jstr option"
  | DoRefuse "take_ref list" take_caller
  | DoRelease take_ref take_terminal
  | DoGive take_message take_window take_terminal
  | DoKeep take_message take_terminal
  | DoOffer take_message take_window jstr jstr "jstr option"
  | DoHandOffer take_ref jstr jstr
  | DoLapseOffer take_ref jstr
  | DoLapse
  | DoPrune "jstr \<times> jstr \<Rightarrow> int option"

definition answered :: "take_files \<times> (take_error + 'a) \<Rightarrow> take_files \<times> take_error option" where
  "answered result = (fst result, case snd result of Inl e \<Rightarrow> Some e | Inr _ \<Rightarrow> None)"

fun runAct :: "runtime \<Rightarrow> take_env \<Rightarrow> take_act \<Rightarrow> take_files \<Rightarrow> take_files \<times> take_error option" where
  "runAct rt env (DoTake m c) files = answered (takeMessage rt env m c files)"
| "runAct rt env (DoHandBack ref c reason note) files = answered (handBack rt env ref c reason note files)"
| "runAct rt env (DoFinish ref c note) files = answered (finishTake rt env ref c note files)"
| "runAct rt env (DoGate ref caller required approval) files = answered (gate rt env ref caller required approval files)"
| "runAct rt env (DoRefuse refs caller) files = answered (refuseHeldElsewhere rt env refs caller files)"
| "runAct rt env (DoRelease ref terminal) files = answered (releaseTake rt env ref terminal files)"
| "runAct rt env (DoGive m window terminal) files = answered (giveTake rt env m window terminal files)"
| "runAct rt env (DoKeep m terminal) files = answered (keepTake rt env m terminal files)"
| "runAct rt env (DoOffer m window rule delivery until) files = answered (offerTake rt env m window rule delivery until files)"
| "runAct rt env (DoHandOffer ref delivery until) files = answered (handOffer rt env ref delivery until files)"
| "runAct rt env (DoLapseOffer ref delivery) files = answered (lapseOffer rt env ref delivery files)"
| "runAct rt env DoLapse files = (fst (lapseTakes env files), None)"
| "runAct rt env (DoPrune mtime) files = (fst (pruneTakes env mtime files), None)"

fun runActs :: "runtime \<Rightarrow> (take_env \<times> take_act) list \<Rightarrow> take_files \<Rightarrow> take_files \<times> take_error option list" where
  "runActs rt [] files = (files, [])"
| "runActs rt ((env, act) # run) files =
     (let (files1, answer) = runAct rt env act files; (files2, answers) = runActs rt run files1
      in (files2, answer # answers))"

text \<open>The arguments as the callers pass them: a session as it was worked out, a message as its channel checked it.\<close>

fun actOk :: "take_act \<Rightarrow> bool" where
  "actOk (DoTake m c) = (messageOk m \<and> holderOk c)"
| "actOk (DoHandBack _ c _ _) = holderOk c"
| "actOk (DoFinish _ c _) = holderOk c"
| "actOk (DoGate _ caller _ _) = pred_option holderOk (sessionOf caller)"
| "actOk (DoRelease _ terminal) = terminalOk terminal"
| "actOk (DoGive m window terminal) = (messageOk m \<and> windowOk window \<and> terminalOk terminal)"
| "actOk (DoKeep m terminal) = (messageOk m \<and> terminalOk terminal)"
| "actOk _ = True"

section \<open>What an act leaves of a cell\<close>

lemma settle_unchanged: "settleRecord env probing r = (r', False) \<Longrightarrow> r' = r"
proof -
  assume s: "settleRecord env probing r = (r', False)"
  have "settleTake env probing r h a = (r', False) \<Longrightarrow> r' = r" for h a
    by (auto simp: settleTake_def Let_def split: if_splits)
  moreover have "settleOffer env r f = (r', False) \<Longrightarrow> r' = r" for f
    using settleOffer_cases [of env r f] by auto
  ultimately show "r' = r"
    using s by (auto simp: settleRecord_def split: take_state.splits option.splits held.splits)
qed

text \<open>The operation on the cell of a record within its retention: it decides on the settled record.\<close>

lemma actOn_settled:
  assumes "retained env r"
  shows "actOn env probe replace ref thread decide (Found r) =
    (case decide (Some (fst (settleRecord env probe r))) (toISOString (te_now env)) of
       Inl e \<Rightarrow> (Found (fst (settleRecord env probe r)), Inl e)
     | Inr (KeepIt, result) \<Rightarrow> (Found (fst (settleRecord env probe r)), Inr result)
     | Inr (WriteIt r', result) \<Rightarrow> (Found r', Inr result))"
proof -
  obtain s changed where s: "settleRecord env probe r = (s, changed)"
    by (cases "settleRecord env probe r")
  then have "(if changed then Found s else Found r) = Found s"
    using settle_unchanged by (cases changed) auto
  then show ?thesis
    using assms s by (simp add: actOn_def currentOf_def split: sum.split take_next.split prod.split)
qed

lemma actOn_readable:
  "cell \<noteq> NotReadable \<Longrightarrow> fst (actOn env probe replace ref thread decide cell) \<noteq> NotReadable"
  by (cases cell) (auto simp: actOn_def currentOf_def Let_def split: sum.split take_next.split prod.split option.split)

text \<open>The cells of each operation.\<close>

lemma takePath_usage: "takePath rt ref = Inl e \<Longrightarrow> e = TakeUsage"
  by (auto simp: takePath_def checkedTakeRef_def split: if_splits)

lemma update_no_path:
  "takePath rt ref = Inl e \<Longrightarrow> updateTake rt env ref thread probe replace decide files = (files, Inl TakeUsage)"
  by (simp add: updateTake_def takePath_usage)

lemma messageOk_thread: "messageOk m \<Longrightarrow> pred_option takeIdPattern (tm_thread m)"
  by (simp add: messageOk_def)

lemma without_ok: "messageOk m \<Longrightarrow> messageOk (withoutMessageId m)"
  by (simp add: messageOk_def withoutMessageId_def)

lemma note_fits: "checkedNote note = Inr kept \<Longrightarrow> pred_option (\<lambda>n. fits MAX_TAKE_NOTE_CHARS n \<and> n \<noteq> []) kept"
proof -
  have "length s \<le> 2 * length (chars s)" for s
    using length_concat_bound [of "chars s"] chars_width by fastforce
  then have "fits n s" if "length (chars s) \<le> n" for n s
    using that cutText_short [of s n] unfolding fits_def by (metis le_trans mult.commute mult_le_mono2)
  then show "checkedNote note = Inr kept \<Longrightarrow> pred_option (\<lambda>n. fits MAX_TAKE_NOTE_CHARS n \<and> n \<noteq> []) kept"
    by (auto simp: checkedNote_def Let_def split: option.splits if_splits)
qed

lemmas take_cell = take_act.update_refines [where a = "(m, c)" for m c, simplified]
lemmas hand_back_cell = hand_back.update_refines [where a = "(c, reason, said)" for c reason said, simplified]
lemmas finish_cell = finish.update_refines [where a = "(c, said)" for c said, simplified]
lemmas gate_cell = gate.update_refines [where a = "(caller, required, pin)" for caller required pin, simplified]
lemmas refuse_cell = refuse.update_refines [simplified]
lemmas release_cell = release.update_refines
lemmas give_cell = give.update_refines [where a = "(now, m, window, terminal)" for now m window terminal, simplified]
lemmas keep_cell = keep.update_refines [where a = "(m, terminal)" for m terminal, simplified]
lemmas offer_cell = offer.update_refines [where a = "(m, f)" for m f, simplified]
lemmas waiting_cell = waiting.update_refines [where a = "(delivery, change)" for delivery change, simplified]

section \<open>Readable files stay readable\<close>

definition staysReadable :: "take_files \<Rightarrow> take_files \<Rightarrow> bool" where
  "staysReadable files files' \<longleftrightarrow> (\<forall>path. readTake files path \<noteq> NotReadable \<longrightarrow> readTake files' path \<noteq> NotReadable)"

lemma staysReadable_refl [simp]: "staysReadable files files"
  by (simp add: staysReadable_def)

lemma staysReadable_trans: "staysReadable a b \<Longrightarrow> staysReadable b c \<Longrightarrow> staysReadable a c"
  by (simp add: staysReadable_def)

text \<open>What the property says of one operation: no record is refused at its writing, no file becomes unreadable.\<close>

definition wellWritten :: "take_files \<Rightarrow> take_files \<times> (take_error + 'a) \<Rightarrow> bool" where
  "wellWritten files result \<longleftrightarrow> snd result \<noteq> Inl NotReadBack \<and> staysReadable files (fst result)"

context take_decision
begin

lemma update_well:
  assumes "argsOk a" "pred_option takeIdPattern thread"
  shows "wellWritten files (updateTake rt env ref thread probe replace (decide a) files)"
proof (cases "takePath rt ref")
  case (Inl e)
  then show ?thesis
    by (simp add: wellWritten_def update_no_path)
next
  case (Inr path)
  have "staysReadable files (fst (updateTake rt env ref thread probe replace (decide a) files))"
    unfolding staysReadable_def update_refines [OF assms Inr, THEN conjunct1] by (simp add: actOn_readable)
  then show ?thesis
    using update_reads_back [OF assms] by (simp add: wellWritten_def)
qed

end

lemmas take_well = take_act.update_well [where a = "(m, c)" for m c, simplified]
lemmas hand_back_well = hand_back.update_well [where a = "(c, reason, said)" for c reason said, simplified]
lemmas finish_well = finish.update_well [where a = "(c, said)" for c said, simplified]
lemmas gate_well = gate.update_well [where a = "(caller, required, pin)" for caller required pin, simplified]
lemmas refuse_well = refuse.update_well [simplified]
lemmas release_well = release.update_well
lemmas give_well = give.update_well [where a = "(now, m, window, terminal)" for now m window terminal, simplified]
lemmas keep_well = keep.update_well [where a = "(m, terminal)" for m terminal, simplified]
lemmas offer_well = offer.update_well [where a = "(m, f)" for m f, simplified]
lemmas waiting_well = waiting.update_well [where a = "(delivery, change)" for delivery change, simplified]

lemma wellWritten_left: "wellWritten files result \<Longrightarrow> wellWritten files (leftAsItIs result)"
  by (cases result; cases "snd result") (auto simp: wellWritten_def leftAsItIs_def split: take_error.split)

lemma wellWritten_none [simp]: "wellWritten files (files, Inr x)" "wellWritten files (files, Inl e) \<longleftrightarrow> e \<noteq> NotReadBack"
  by (simp_all add: wellWritten_def)

lemma refuse_all_well: "wellWritten files (refuseHeldElsewhere rt env refs caller files)"
proof (induction rt env refs caller files rule: refuseHeldElsewhere.induct)
  case (2 rt env ref refs caller files)
  note step = refuse_well [of None files rt env ref True False caller, simplified]
  show ?case
  proof (cases "takePath rt ref")
    case (Inr path)
    obtain files' answer where u: "updateTake rt env ref None True False (refuseDecision caller) files = (files', answer)"
      by (cases "updateTake rt env ref None True False (refuseDecision caller) files")
    have again: "staysReadable files (fst (refuseHeldElsewhere rt env refs caller files'))"
      if "wellWritten files' (refuseHeldElsewhere rt env refs caller files')"
      using that step u staysReadable_trans unfolding wellWritten_def by fastforce
    show ?thesis
      using 2 Inr step u again by (auto simp: wellWritten_def split: found.split sum.split)
  qed (auto dest: takePath_usage)
qed simp

end
