(* ===== verification/TakeSafety.thy ===== *)
theory TakeSafety
  imports TakeRuns
begin

text \<open>
  The properties of takes: that every act is written as a record that reads back, who gets a message and what refuses
  the others while it is held, what lapses, and what an agent may see.
\<close>

section \<open>Every act is written\<close>

lemma lapseFile_found:
  assumes "readTake (fst state) path = Found r" "retained env r"
  shows "readTake (fst (lapseFile env path state)) path' =
    (if path' = path \<and> (tr_state r = TTaken \<and> tr_holder r \<noteq> None \<and> \<not> isPerson (tr_holder r) \<or> tr_state r = TOffered)
     then Found (fst (settleRecord env True r)) else readTake (fst state) path')"
proof -
  obtain files ended expired where st: "state = (files, ended, expired)"
    by (cases state)
  obtain s changed where s: "settleRecord env True r = (s, changed)"
    by (cases "settleRecord env True r")
  have ok: "recordOk s"
    using settle_ok [of r env True] readTake_ok [OF assms(1)] s by simp
  show ?thesis
    using assms s settle_unchanged [of env True r s] ok
    by (auto simp: lapseFile_def st writeTake_ok readTake_update)
qed

lemma lapseFile_other:
  assumes "\<And>r. readTake (fst state) path = Found r \<Longrightarrow> \<not> retained env r"
  shows "lapseFile env path state = state"
  using assms by (auto simp: lapseFile_def split: prod.split found.split)

lemma lapseFile_readable: "staysReadable (fst state) (fst (lapseFile env path state))"
proof (cases "\<exists>r. readTake (fst state) path = Found r \<and> retained env r")
  case True
  then show ?thesis
    by (auto simp: staysReadable_def lapseFile_found split: if_splits)
next
  case False
  then show ?thesis
    using lapseFile_other [of state path env] by auto
qed

lemma readTake_delete: "readTake (AList.delete path files) path' = (if path' = path then NoFile else readTake files path')"
  by (simp add: readTake_def delete_conv)

lemma readTake_filter:
  "readTake (filter (\<lambda>e. fst (fst e) \<noteq> account) files) path = (if fst path = account then NoFile else readTake files path)"
proof -
  have "map_of (filter (\<lambda>e. fst (fst e) \<noteq> account) files) path = (if fst path = account then None else map_of files path)"
    by (induction files) auto
  then show ?thesis
    by (simp add: readTake_def)
qed

lemma fold_readable:
  assumes "\<And>x s. staysReadable (fst s) (fst (f x s))"
  shows "staysReadable (fst s) (fst (fold f xs s))"
proof (induction xs arbitrary: s)
  case (Cons x xs)
  then show ?case
    using staysReadable_trans [OF assms Cons.IH] by simp
qed simp

lemma pruneFile_readable: "staysReadable (fst state) (fst (pruneFile env mtime path state))"
  by (cases state) (simp add: pruneFile_def staysReadable_def readTake_delete)

lemma pruneAccount_readable: "staysReadable (fst state) (fst (pruneAccount env mtime account state))"
proof -
  obtain files count removed where st: "state = (files, count, removed)"
    by (cases state)
  have "staysReadable (fst s) (fst (fold (pruneFile env mtime) paths s))" for paths and s :: "take_files \<times> nat"
    by (rule fold_readable) (rule pruneFile_readable)
  from this [of "(files, count)"] show ?thesis
    by (auto simp: pruneAccount_def st staysReadable_def readTake_filter split: prod.split)
      (metis fst_conv)+
qed

lemma lapseTakes_readable: "staysReadable files (fst (lapseTakes env files))"
  using fold_readable [of "lapseFile env" "(files, 0, 0)", OF lapseFile_readable] by (simp add: lapseTakes_def)

lemma pruneTakes_readable: "staysReadable files (fst (pruneTakes env mtime files))"
  using fold_readable [of "pruneAccount env mtime" "(files, 0, [])", OF pruneAccount_readable] by (simp add: pruneTakes_def)

lemma source_ok: "checkedSource rule delivery = Inr by' \<Longrightarrow> offerByOk by'"
proof -
  have "length s \<le> 2 * length (chars s)" for s
    using length_concat_bound [of "chars s"] chars_width by fastforce
  then have few: "fits MAX_WORD s" if "length (chars s) \<le> 100" for s
    using that cutText_short [of s MAX_WORD] unfolding fits_def MAX_WORD_def by (metis le_trans mult.commute mult_le_mono2)
  have "length (chars s) \<le> length s" for s
    by (induction s rule: chars.induct) auto
  then have "fits MAX_WORD s" if "length s \<le> 100" for s
    using that few le_trans by blast
  with few show "checkedSource rule delivery = Inr by' \<Longrightarrow> offerByOk by'"
    by (auto simp: checkedSource_def offerRule_def MAX_WORD_def split: if_splits)
qed

lemma window_ok: "checkedWindow w = Inr w' \<Longrightarrow> windowOk w'"
  using takeWindowOf_ok [of "Some (windowJson w)"] by (auto simp: checkedWindow_def split: option.splits)

text \<open>An offer is refused for its arguments, or is one locked change on well formed ones.\<close>

lemma offerTake_cases:
  "(\<exists>e. offerTake rt env m w rule delivery until files = (files, Inl e) \<and> e \<noteq> NotReadBack)
   \<or> (\<exists>ref thread m' f. messageOk m' \<and> offerOk f \<and> pred_option takeIdPattern thread
        \<and> offerTake rt env m w rule delivery until files
          = leftAsItIs (updateTake rt env ref thread True False (offerDecision m' f) files))"
proof (cases "checkedTakeRef (messageRef m)")
  case (Inl e)
  then have "e \<noteq> NotReadBack"
    by (auto simp: checkedTakeRef_def split: if_splits)
  with Inl show ?thesis
    by (simp add: offerTake_def)
next
  case (Inr ref)
  let ?thread = "case tm_thread m of None \<Rightarrow> None | Some t \<Rightarrow> idOf (Some (JStr t))"
  have thread: "pred_option takeIdPattern ?thread"
    by (simp add: idOf_def split: option.split)
  have message: "messageOk (refMessage ref ?thread)"
    using Inr thread by (auto simp: checkedTakeRef_def refMessage_def messageOk_def split: if_splits)
  show ?thesis
  proof (cases "\<exists>to by'. checkedWindow w = Inr to \<and> checkedSource rule delivery = Inr by'
      \<and> \<not> (until \<noteq> None \<and> takeTimeOf (map_option JStr until) = None)")
    case True
    then obtain to by' where ok: "checkedWindow w = Inr to" "checkedSource rule delivery = Inr by'"
        "\<not> (until \<noteq> None \<and> takeTimeOf (map_option JStr until) = None)"
      by blast
    then have "pred_option isTime until"
      by (cases until) (auto simp: takeTimeOf_def split: if_splits)
    then have "offerOk \<lparr>to_window = to, to_until = until, to_by = by'\<rparr>"
      using window_ok [OF ok(1)] source_ok [OF ok(2)] by (simp add: offerOk_def)
    moreover have "offerTake rt env m w rule delivery until files
        = leftAsItIs (updateTake rt env ref ?thread True False
            (offerDecision (refMessage ref ?thread) \<lparr>to_window = to, to_until = until, to_by = by'\<rparr>) files)"
      unfolding offerTake_def Let_def Inr ok(1,2) using ok(3) by (auto simp: refMessage_def)
    ultimately show ?thesis
      using message thread by blast
  next
    case False
    then show ?thesis
      using Inr
      by (auto simp: offerTake_def Let_def checkedWindow_def checkedSource_def split: sum.splits option.splits if_splits)
  qed
qed

lemma offerTake_well: "wellWritten files (offerTake rt env m w rule delivery until files)"
  using offerTake_cases [of rt env m w rule delivery until files] wellWritten_left [OF offer_well] by fastforce

lemma onWaitingOffer_well:
  assumes "changesOk change"
  shows "wellWritten files (onWaitingOffer rt env ref delivery change files)"
  using wellWritten_left [OF waiting_well [OF assms, of None]]
  by (cases "takePath rt ref") (auto simp: onWaitingOffer_def dest: takePath_usage)

lemma hands_ok: "isTime until \<Longrightarrow>
  changesOk (\<lambda>current offer at'. current\<lparr>tr_offer := Some (offer\<lparr>to_until := Some until\<rparr>), tr_updatedAt := at'\<rparr>)"
  by (auto simp: changesOk_def recordOk_def offerOk_def stateMeans_def)

lemma lapses_ok: "changesOk (\<lambda>current offer at'. opened current (serviceLine at' LExpired (tw_key (to_window offer))) at')"
  unfolding changesOk_def using offer_window_key by (auto intro!: opened_ok serviceLine_ok)

lemma answered_well: "wellWritten files result \<Longrightarrow>
    snd (answered result) \<noteq> Some NotReadBack \<and> staysReadable files (fst (answered result))"
  by (cases "snd result") (auto simp: answered_def wellWritten_def)

lemma gate_well_all: "pred_option holderOk (sessionOf caller) \<Longrightarrow> wellWritten files (gate rt env ref caller required approval files)"
proof -
  assume caller: "pred_option holderOk (sessionOf caller)"
  have "requiredOf caller \<noteq> NotReadBack"
    by (cases caller) simp_all
  moreover have "pred_option takeApprovalId (case approval of None \<Rightarrow> None | Some a \<Rightarrow> if takeApprovalId a then Some a else None)"
    by (simp split: option.split)
  ultimately show ?thesis
    using gate_well [of caller _ None] caller
    by (cases "takePath rt ref") (auto simp: gate_def Let_def dest: takePath_usage)
qed

lemma run_act_well:
  assumes "actOk act"
  shows "snd (runAct rt env act files) \<noteq> Some NotReadBack \<and> staysReadable files (fst (runAct rt env act files))"
proof -
  have note_usage: "checkedNote said = Inl e \<Longrightarrow> e \<noteq> NotReadBack" for said e
    by (auto simp: checkedNote_def Let_def split: option.splits if_splits)
  show ?thesis
  proof (cases act)
    case (DoTake m c)
    then show ?thesis
      using assms take_well [of m c "tm_thread m"] messageOk_thread
      by (simp only: runAct.simps takeMessage_def actOk.simps) (rule answered_well, blast)
  next
    case (DoHandBack ref c reason said)
    then show ?thesis
      using assms hand_back_well [where c = c and thread = None and reason = reason] note_fits [of said] note_usage [of said]
      by (cases "checkedNote said") (auto simp: handBack_def intro!: answered_well [simplified])
  next
    case (DoFinish ref c said)
    then show ?thesis
      using assms finish_well [where c = c and thread = None] note_fits [of said] note_usage [of said]
      by (cases "checkedNote said") (auto simp: finishTake_def intro!: answered_well [simplified])
  next
    case (DoGate ref caller required approval)
    then show ?thesis
      using assms answered_well [OF gate_well_all] by simp
  next
    case (DoRefuse refs caller)
    then show ?thesis
      using answered_well [OF refuse_all_well] by simp
  next
    case (DoRelease ref terminal)
    then show ?thesis
      using assms answered_well [OF release_well [of terminal None]] by (simp add: releaseTake_def)
  next
    case (DoGive m window terminal)
    then show ?thesis
      using assms answered_well [OF give_well [of "withoutMessageId m" window terminal "tm_thread m"]] without_ok messageOk_thread
      by (simp add: giveTake_def)
  next
    case (DoKeep m terminal)
    then show ?thesis
      using assms answered_well [OF keep_well [of "withoutMessageId m" terminal "tm_thread m"]] without_ok messageOk_thread
      by (simp add: keepTake_def)
  next
    case (DoOffer m w rule delivery until)
    then show ?thesis
      using answered_well [OF offerTake_well] by simp
  next
    case (DoHandOffer ref delivery until)
    have "wellWritten files (handOffer rt env ref delivery until files)"
      using onWaitingOffer_well [OF hands_ok] by (simp add: handOffer_def takeTimeOf_def)
    then show ?thesis
      using DoHandOffer answered_well by simp
  next
    case (DoLapseOffer ref delivery)
    then show ?thesis
      using answered_well [OF onWaitingOffer_well [OF lapses_ok]] by (simp add: lapseOffer_def)
  next
    case DoLapse
    then show ?thesis
      using lapseTakes_readable by simp
  next
    case (DoPrune mtime)
    then show ?thesis
      using pruneTakes_readable by simp
  qed
qed

end
