(* ===== verification/TakeHeld.thy ===== *)
theory TakeHeld
  imports TakeSafety
begin

text \<open>
  While a session holds a message: the acts of every other session, of agents' shells and of the event service leave
  the take as it is.
\<close>

section \<open>A held message\<close>

text \<open>\<open>h\<close> holds the message, and last acted on it at \<open>t\<close>; the record was written then or later.\<close>

definition heldFrom :: "take_holder \<Rightarrow> int \<Rightarrow> take_record \<Rightarrow> bool" where
  "heldFrom h t r \<longleftrightarrow> tr_state r = TTaken \<and> tr_holder r = Some (Session h)
     \<and> (\<exists>a. tr_lastActAt r = Some a \<and> dateParse a = Some t) \<and> (\<exists>u. dateParse (tr_updatedAt r) = Some u \<and> t \<le> u)"

text \<open>The same take: but for its pins, some of which may have stopped waiting, and the time of that change.\<close>

definition sameTake :: "take_record \<Rightarrow> take_record \<Rightarrow> bool" where
  "sameTake r r' \<longleftrightarrow> r' = r\<lparr>tr_pins := tr_pins r', tr_updatedAt := tr_updatedAt r'\<rparr> \<and> set (tr_pins r') \<subseteq> set (tr_pins r)"

text \<open>An environment within the lease in which the holder's parent is not seen to be gone.\<close>

definition stillHeld :: "take_env \<Rightarrow> take_holder \<Rightarrow> int \<Rightarrow> bool" where
  "stillHeld env h t \<longleftrightarrow> moment (te_now env) \<and> t \<le> te_now env \<and> te_now env < t + TAKE_LEASE_MS \<and> \<not> parentGone env h"

definition callerIs :: "take_holder \<Rightarrow> take_caller \<Rightarrow> bool" where
  "callerIs h caller = (case sessionOf caller of None \<Rightarrow> False | Some c \<Rightarrow> sameSession h c)"

text \<open>An act that is not the holder's, nor the person's on this message, in an account that stays connected.\<close>

fun leavesAlone :: "runtime \<Rightarrow> take_holder \<Rightarrow> jstr \<times> jstr \<Rightarrow> take_env \<Rightarrow> take_act \<Rightarrow> bool" where
  "leavesAlone rt h path env (DoTake m c) = (takePath rt (messageRef m) = Inr path \<longrightarrow> \<not> sameSession h c)"
| "leavesAlone rt h path env (DoHandBack ref c _ _) = (takePath rt ref = Inr path \<longrightarrow> \<not> sameSession h c)"
| "leavesAlone rt h path env (DoFinish ref c _) = (takePath rt ref = Inr path \<longrightarrow> \<not> sameSession h c)"
| "leavesAlone rt h path env (DoGate ref caller _ _) =
     (takePath rt ref = Inr path \<longrightarrow> \<not> callerIs h caller)"
| "leavesAlone rt h path env (DoRelease ref _) = (takePath rt ref \<noteq> Inr path)"
| "leavesAlone rt h path env (DoGive m _ _) = (takePath rt (messageRef m) \<noteq> Inr path)"
| "leavesAlone rt h path env (DoKeep m _) = (takePath rt (messageRef m) \<noteq> Inr path)"
| "leavesAlone rt h path env (DoPrune _) = (case te_accountIds env of None \<Rightarrow> True | Some ids \<Rightarrow> fst path \<in> set ids)"
| "leavesAlone rt h path env _ = True"

text \<open>An act that needs the message: a take, a hand-back, a done, an agent's gated act.\<close>

fun needsMessage :: "runtime \<Rightarrow> jstr \<times> jstr \<Rightarrow> take_act \<Rightarrow> bool" where
  "needsMessage rt path (DoTake m _) = (takePath rt (messageRef m) = Inr path)"
| "needsMessage rt path (DoHandBack ref _ _ _) = (takePath rt ref = Inr path)"
| "needsMessage rt path (DoFinish ref _ _) = (takePath rt ref = Inr path)"
| "needsMessage rt path (DoGate ref caller _ _) = (caller \<noteq> PersonCaller \<and> takePath rt ref = Inr path)"
| "needsMessage rt path _ = False"

lemma sameTake_refl [simp]: "sameTake r r"
  by (simp add: sameTake_def)

lemma sameTake_trans: "sameTake a b \<Longrightarrow> sameTake b c \<Longrightarrow> sameTake a c"
  unfolding sameTake_def by (smt (verit) subset_trans take_record.surjective take_record.update_convs take_record.select_convs)

lemma held_retained:
  assumes "heldFrom h t r" "stillHeld env h t"
  shows "retained env r"
  using assms
  by (auto simp: heldFrom_def stillHeld_def retained_def whenParsed_def TAKE_LEASE_MS_def TAKE_RETENTION_DAYS_def DAY_MS_def)

lemma held_settles:
  assumes "heldFrom h t r" "stillHeld env h t"
  shows "heldFrom h t (fst (settleRecord env probing r)) \<and> sameTake r (fst (settleRecord env probing r))"
proof -
  obtain a where a: "tr_state r = TTaken" "tr_holder r = Some (Session h)" "tr_lastActAt r = Some a" "dateParse a = Some t"
    using assms(1) by (auto simp: heldFrom_def)
  then have "settleRecord env probing r = settleTake env probing r h a"
    by (simp add: settleRecord_def)
  moreover have "\<not> leaseOver env r a" "\<not> parentGone env h" "dateParse (toISOString (te_now env)) = Some (te_now env)"
    using assms(2) a by (simp_all add: leaseOver_def whenParsed_def stillHeld_def dateParse_toISOString)
  moreover have "set (livePins env (tr_pins r)) \<subseteq> set (tr_pins r)"
    by (auto simp: livePins_def split: option.split)
  ultimately show ?thesis
    using assms a by (auto simp: settleTake_def Let_def heldFrom_def sameTake_def stillHeld_def)
qed

lemma held_elsewhere:
  assumes "heldFrom h t r" "\<not> callerIs h caller"
  shows "elsewhere r caller = Some ReasonHeld"
  using assms by (cases "sessionOf caller") (auto simp: elsewhere_def holdsIt_def heldFrom_def callerIs_def)

section \<open>One act\<close>

text \<open>What a run keeps of the cell: the take that was there.\<close>

definition keepsTake :: "take_holder \<Rightarrow> int \<Rightarrow> take_record \<Rightarrow> found \<Rightarrow> bool" where
  "keepsTake h t r cell \<longleftrightarrow> (\<exists>r'. cell = Found r' \<and> heldFrom h t r' \<and> sameTake r r')"

lemma actOn_keeps:
  assumes "keepsTake h t r cell" "stillHeld env h t"
    and "\<And>r'. heldFrom h t r' \<Longrightarrow>
      (\<exists>e. decide (Some r') (toISOString (te_now env)) = Inl e) \<or> (\<exists>x. decide (Some r') (toISOString (te_now env)) = Inr (KeepIt, x))"
  shows "keepsTake h t r (fst (actOn env probe replace ref thread decide cell))"
proof -
  obtain r' where r': "cell = Found r'" "heldFrom h t r'" "sameTake r r'"
    using assms(1) by (auto simp: keepsTake_def)
  note settled = held_settles [OF r'(2) assms(2), of probe]
  have "fst (actOn env probe replace ref thread decide (Found r')) = Found (fst (settleRecord env probe r'))"
    unfolding actOn_settled [OF held_retained [OF r'(2) assms(2)]]
    using assms(3) [OF settled [THEN conjunct1]] by auto
  then show ?thesis
    using settled r' sameTake_trans by (auto simp: keepsTake_def)
qed

lemma actOn_refuses:
  assumes "keepsTake h t r cell" "stillHeld env h t"
    and "\<And>r'. heldFrom h t r' \<Longrightarrow> decide (Some r') (toISOString (te_now env)) = Inl e"
  shows "snd (actOn env probe replace ref thread decide cell) = Inl e"
proof -
  obtain r' where r': "cell = Found r'" "heldFrom h t r'"
    using assms(1) by (auto simp: keepsTake_def)
  show ?thesis
    unfolding r'(1) actOn_settled [OF held_retained [OF r'(2) assms(2)]]
    using assms(3) [OF held_settles [OF r'(2) assms(2), THEN conjunct1]] by simp
qed

text \<open>The decisions of other sessions on a held message.\<close>

lemma held_decisions:
  assumes "heldFrom h t r"
  shows "\<not> sameSession h c \<Longrightarrow> takeDecision m c (Some r) at' = Inl (TakenElsewhere ReasonHeld)"
    "\<not> sameSession h c \<Longrightarrow> handBackDecision c reason said (Some r) at' = Inl (TakenElsewhere ReasonHeld)"
    "\<not> sameSession h c \<Longrightarrow> finishDecision c said (Some r) at' = Inl (TakenElsewhere ReasonHeld)"
    "\<not> callerIs h caller \<Longrightarrow> gateDecision caller required pin (Some r) at' = Inl (TakenElsewhere ReasonHeld)"
    "(\<exists>e. refuseDecision caller (Some r) at' = Inl e) \<or> (\<exists>x. refuseDecision caller (Some r) at' = Inr (KeepIt, x))"
    "offerDecision m' f (Some r) at' = Inr (KeepIt, (Some r, False))"
    "waitingDecision delivery change (Some r) at' = Inr (KeepIt, (Some r, False))"
proof -
  have taken: "tr_state r = TTaken"
    using assms by (simp add: heldFrom_def)
  have session: "\<not> sameSession h c \<Longrightarrow> elsewhere r (CallerSession c) = Some ReasonHeld"
    using held_elsewhere [OF assms] by (simp add: callerIs_def)
  show "\<not> sameSession h c \<Longrightarrow> takeDecision m c (Some r) at' = Inl (TakenElsewhere ReasonHeld)"
    "\<not> sameSession h c \<Longrightarrow> handBackDecision c reason said (Some r) at' = Inl (TakenElsewhere ReasonHeld)"
    "\<not> sameSession h c \<Longrightarrow> finishDecision c said (Some r) at' = Inl (TakenElsewhere ReasonHeld)"
    using session taken by (simp_all add: takeDecision_def handBackDecision_def finishDecision_def orBlank_def)
  show "\<not> callerIs h caller \<Longrightarrow> gateDecision caller required pin (Some r) at' = Inl (TakenElsewhere ReasonHeld)"
    using held_elsewhere [OF assms] taken by (simp add: gateDecision_def)
  show "(\<exists>e. refuseDecision caller (Some r) at' = Inl e) \<or> (\<exists>x. refuseDecision caller (Some r) at' = Inr (KeepIt, x))"
    by (simp add: refuseDecision_def split: option.split)
  show "offerDecision m' f (Some r) at' = Inr (KeepIt, (Some r, False))"
    "waitingDecision delivery change (Some r) at' = Inr (KeepIt, (Some r, False))"
    using taken by (simp_all add: offerDecision_def waitingDecision_def waitingOfferOf_def)
qed

text \<open>A locked change: on the message of the take it leaves the take, and elsewhere it is not looked at.\<close>

context take_decision
begin

lemma update_keeps:
  assumes "argsOk a" "pred_option takeIdPattern thread" "keepsTake h t r (readTake files path)" "stillHeld env h t"
    and "\<And>r'. takePath rt ref = Inr path \<Longrightarrow> heldFrom h t r' \<Longrightarrow>
      (\<exists>e. decide a (Some r') (toISOString (te_now env)) = Inl e)
      \<or> (\<exists>x. decide a (Some r') (toISOString (te_now env)) = Inr (KeepIt, x))"
  shows "keepsTake h t r (readTake (fst (updateTake rt env ref thread probe replace (decide a) files)) path)"
proof (cases "takePath rt ref")
  case (Inl e)
  then show ?thesis
    using assms(3) by (simp add: update_no_path)
next
  case (Inr path')
  show ?thesis
  proof (cases "path' = path")
    case True
    then show ?thesis
      unfolding update_refines [OF assms(1,2) Inr, THEN conjunct1]
      using actOn_keeps [where decide = "decide a", OF assms(3,4) assms(5)] Inr by simp
  next
    case False
    then show ?thesis
      using assms(3) update_paths [OF Inr _ assms(1,2)] by simp
  qed
qed

lemma update_refuses:
  assumes "argsOk a" "pred_option takeIdPattern thread" "keepsTake h t r (readTake files path)" "stillHeld env h t"
    "takePath rt ref = Inr path"
    and "\<And>r'. heldFrom h t r' \<Longrightarrow> decide a (Some r') (toISOString (te_now env)) = Inl e"
  shows "snd (updateTake rt env ref thread probe replace (decide a) files) = Inl e"
  unfolding update_refines [OF assms(1,2,5), THEN conjunct2] by (rule actOn_refuses [where decide = "decide a", OF assms(3,4,6)])

end

lemmas take_keeps = take_act.update_keeps [where a = "(m, c)" for m c, simplified]
lemmas hand_back_keeps = hand_back.update_keeps [where a = "(c, reason, said)" for c reason said, simplified]
lemmas finish_keeps = finish.update_keeps [where a = "(c, said)" for c said, simplified]
lemmas gate_keeps = gate.update_keeps [where a = "(caller, required, pin)" for caller required pin, simplified]
lemmas refuse_keeps = refuse.update_keeps [simplified]
lemmas release_keeps = release.update_keeps
lemmas give_keeps = give.update_keeps [where a = "(now, m, window, terminal)" for now m window terminal, simplified]
lemmas keep_keeps = keep.update_keeps [where a = "(m, terminal)" for m terminal, simplified]
lemmas offer_keeps = offer.update_keeps [where a = "(m, f)" for m f, simplified]
lemmas waiting_keeps = waiting.update_keeps [where a = "(delivery, change)" for delivery change, simplified]

lemmas take_refuses = take_act.update_refuses [where a = "(m, c)" for m c, simplified]
lemmas hand_back_refuses = hand_back.update_refuses [where a = "(c, reason, said)" for c reason said, simplified]
lemmas finish_refuses = finish.update_refuses [where a = "(c, said)" for c said, simplified]
lemmas gate_refuses = gate.update_refuses [where a = "(caller, required, pin)" for caller required pin, simplified]

section \<open>Every act\<close>

lemma fst_answered [simp]: "fst (answered result) = fst result"
  by (simp add: answered_def)

lemma fst_leftAsItIs [simp]: "fst (leftAsItIs result) = fst result"
  by (auto simp: leftAsItIs_def split: prod.split sum.split take_error.split)

lemma refuse_all_keeps:
  assumes "stillHeld env h t" "keepsTake h t r (readTake files path)"
  shows "keepsTake h t r (readTake (fst (refuseHeldElsewhere rt env refs caller files)) path)"
  using assms
proof (induction rt env refs caller files rule: refuseHeldElsewhere.induct)
  case (2 rt env ref refs caller files)
  obtain files' answer where u: "updateTake rt env ref None True False (refuseDecision caller) files = (files', answer)"
    by (cases "updateTake rt env ref None True False (refuseDecision caller) files")
  have "keepsTake h t r (readTake files' path)"
    using refuse_keeps [of None h t r files path env rt ref caller True False] 2 u held_decisions(5) by simp
  then show ?case
    using 2 u by (auto split: sum.split found.split)
qed simp

lemma lapseFile_keeps:
  assumes "stillHeld env h t" "keepsTake h t r (readTake (fst state) path)"
  shows "keepsTake h t r (readTake (fst (lapseFile env path' state)) path)"
proof (cases "\<exists>r'. readTake (fst state) path' = Found r' \<and> retained env r'")
  case True
  then obtain r' where r': "readTake (fst state) path' = Found r'" "retained env r'"
    by blast
  show ?thesis
  proof (cases "path = path'")
    case here: True
    then obtain "heldFrom h t r'" "sameTake r r'"
      using assms(2) r' by (auto simp: keepsTake_def)
    then show ?thesis
      using held_settles [OF _ assms(1), of r' True] sameTake_trans here assms(2) r'
      by (auto simp: lapseFile_found keepsTake_def)
  next
    case False
    then show ?thesis
      using assms(2) lapseFile_found [OF r'] by simp
  qed
next
  case False
  then show ?thesis
    using lapseFile_other [of state path' env] assms(2) by auto
qed

lemma fold_keeps:
  assumes "\<And>x s. x \<in> set xs \<Longrightarrow> keepsTake h t r (readTake (fst s) path) \<Longrightarrow> keepsTake h t r (readTake (fst (f x s)) path)"
    "keepsTake h t r (readTake (fst s) path)"
  shows "keepsTake h t r (readTake (fst (fold f xs s)) path)"
  using assms by (induction xs arbitrary: s) simp_all

lemma pruneFile_keeps:
  assumes "stillHeld env h t" "keepsTake h t r (readTake (fst state) path)"
  shows "keepsTake h t r (readTake (fst (pruneFile env mtime path' state)) path)"
proof (cases "path' = path")
  case True
  have "\<not> pastRetention env mtime (fst state) path"
    using assms by (auto simp: keepsTake_def heldFrom_def pastRetention_def stillHeld_def TAKE_LEASE_MS_def
        TAKE_RETENTION_DAYS_def DAY_MS_def)
  then show ?thesis
    using True assms(2) by (cases state) (simp add: pruneFile_def)
next
  case False
  then show ?thesis
    using assms(2) by (cases state) (auto simp: pruneFile_def readTake_delete)
qed

lemma pruneAccount_keeps:
  assumes "stillHeld env h t" "keepsTake h t r (readTake (fst state) path)"
    "case te_accountIds env of None \<Rightarrow> True | Some ids \<Rightarrow> fst path \<in> set ids"
  shows "keepsTake h t r (readTake (fst (pruneAccount env mtime account state)) path)"
proof -
  obtain files count removed where st: "state = (files, count, removed)"
    by (cases state)
  have "keepsTake h t r (readTake (fst (fold (pruneFile env mtime) paths (files, count))) path)" for paths
    by (rule fold_keeps) (use assms pruneFile_keeps st in auto)
  then show ?thesis
    using assms st by (auto simp: pruneAccount_def readTake_filter split: prod.split option.splits) (metis fst_conv)+
qed

lemma onWaitingOffer_keeps:
  assumes "keepsTake h t r (readTake files path)" "stillHeld env h t" "changesOk change"
  shows "keepsTake h t r (readTake (fst (onWaitingOffer rt env ref delivery change files)) path)"
proof -
  have "keepsTake h t r (readTake (fst (updateTake rt env ref None False False (waitingDecision delivery change) files)) path)"
    by (rule waiting_keeps [OF assms(3) _ assms(1,2)]) (simp, blast intro: held_decisions(7))
  then show ?thesis
    using assms(1) by (cases "takePath rt ref") (simp_all add: onWaitingOffer_def)
qed

lemma run_act_keeps:
  assumes "keepsTake h t r (readTake files path)" "stillHeld env h t" "actOk act" "leavesAlone rt h path env act"
  shows "keepsTake h t r (readTake (fst (runAct rt env act files)) path)"
proof (cases act)
  case (DoTake m c)
  then show ?thesis
    using assms take_keeps [of m c "tm_thread m"] messageOk_thread [of m] held_decisions(1)
    by (simp add: takeMessage_def)
next
  case (DoHandBack ref c reason said)
  then show ?thesis
    using assms hand_back_keeps [where c = c and thread = None] note_fits [of said] held_decisions(2)
    by (cases "checkedNote said") (simp_all add: handBack_def)
next
  case (DoFinish ref c said)
  then show ?thesis
    using assms finish_keeps [where c = c and thread = None] note_fits [of said] held_decisions(3)
    by (cases "checkedNote said") (simp_all add: finishTake_def)
next
  case (DoGate ref caller required approval)
  have "pred_option takeApprovalId (case approval of None \<Rightarrow> None | Some a \<Rightarrow> if takeApprovalId a then Some a else None)"
    by (simp split: option.split)
  moreover have "keepsTake h t r (readTake (fst (updateTake rt env ref None True False (gateDecision caller required pin) files)) path)"
    if "pred_option takeApprovalId pin" for pin
    using that assms DoGate held_decisions(4) by (intro gate_keeps) auto
  ultimately show ?thesis
    using DoGate assms(1) by (cases "takePath rt ref") (simp_all add: gate_def Let_def)
next
  case (DoRefuse refs caller)
  then show ?thesis
    using refuse_all_keeps assms by simp
next
  case (DoRelease ref terminal)
  have "keepsTake h t r (readTake (fst (updateTake rt env ref None False True (releaseDecision terminal) files)) path)"
    by (rule release_keeps) (use assms DoRelease in auto)
  then show ?thesis
    using DoRelease by (simp add: releaseTake_def)
next
  case (DoGive m window terminal)
  have "keepsTake h t r (readTake (fst (updateTake rt env (messageRef m) (tm_thread m) False True
      (giveDecision (te_now env) (withoutMessageId m) window terminal) files)) path)"
    by (rule give_keeps) (use assms DoGive without_ok messageOk_thread in auto)
  then show ?thesis
    using DoGive by (simp add: giveTake_def)
next
  case (DoKeep m terminal)
  have "keepsTake h t r (readTake (fst (updateTake rt env (messageRef m) (tm_thread m) False True
      (keepDecision (withoutMessageId m) terminal) files)) path)"
    by (rule keep_keeps) (use assms DoKeep without_ok messageOk_thread in auto)
  then show ?thesis
    using DoKeep by (simp add: keepTake_def)
next
  case (DoOffer m w rule delivery until)
  have "keepsTake h t r (readTake (fst (updateTake rt env ref thread True False (offerDecision m' f) files)) path)"
    if "messageOk m'" "offerOk f" "pred_option takeIdPattern thread" for ref thread m' f
    by (rule offer_keeps [OF _ that(3) assms(1,2)]) (use that in simp, blast intro: held_decisions(6))
  then show ?thesis
    using offerTake_cases [of rt env m w rule delivery until files] DoOffer assms(1) by auto
next
  case (DoHandOffer ref delivery until)
  then show ?thesis
    using assms(1,2) onWaitingOffer_keeps [OF _ _ hands_ok] by (simp add: handOffer_def takeTimeOf_def)
next
  case (DoLapseOffer ref delivery)
  then show ?thesis
    using assms(1,2) onWaitingOffer_keeps [OF _ _ lapses_ok] by (simp add: lapseOffer_def)
next
  case DoLapse
  then show ?thesis
    using fold_keeps [of _ h t r path "lapseFile env" "(files, 0, 0)"] lapseFile_keeps assms(1,2) by (simp add: lapseTakes_def)
next
  case (DoPrune mtime)
  then show ?thesis
    using fold_keeps [of _ h t r path "pruneAccount env mtime" "(files, 0, [])"] pruneAccount_keeps assms
    by (simp add: pruneTakes_def)
qed

section \<open>Runs\<close>

lemma run_act_refused:
  assumes "keepsTake h t r (readTake files path)" "stillHeld env h t" "actOk act" "leavesAlone rt h path env act"
    "needsMessage rt path act"
  shows "snd (runAct rt env act files) \<in> {Some (TakenElsewhere ReasonHeld), Some TakeUsage}"
proof -
  have answer: "snd (answered result) = Some e" if "snd result = Inl e" for result :: "take_files \<times> (take_error + 'x)" and e
    using that by (simp add: answered_def)
  have note_usage: "checkedNote said = Inl e \<Longrightarrow> e = TakeUsage" for said e
    by (auto simp: checkedNote_def Let_def split: option.splits if_splits)
  show ?thesis
  proof (cases act)
    case (DoTake m c)
    then show ?thesis
      using assms take_refuses [of m c "tm_thread m"] messageOk_thread [of m] held_decisions(1)
      by (simp add: takeMessage_def answered_def)
  next
    case (DoHandBack ref c reason said)
    then show ?thesis
      using assms hand_back_refuses [where c = c and thread = None] note_fits [of said] note_usage [of said] held_decisions(2)
      by (cases "checkedNote said") (simp_all add: handBack_def answered_def)
  next
    case (DoFinish ref c said)
    then show ?thesis
      using assms finish_refuses [where c = c and thread = None] note_fits [of said] note_usage [of said] held_decisions(3)
      by (cases "checkedNote said") (simp_all add: finishTake_def answered_def)
  next
    case (DoGate ref caller required approval)
    have "pred_option takeApprovalId (case approval of None \<Rightarrow> None | Some a \<Rightarrow> if takeApprovalId a then Some a else None)"
      by (simp split: option.split)
    moreover have "readTake files path \<noteq> NoFile"
      using assms(1) by (auto simp: keepsTake_def)
    ultimately show ?thesis
      using DoGate assms gate_refuses [where caller = caller and thread = None] held_decisions(4)
      by (simp add: gate_def Let_def answered_def)
  qed (use assms in simp_all)
qed

lemma runs_keep:
  assumes "keepsTake h t r (readTake files path)"
    "\<forall>(env, act) \<in> set run. stillHeld env h t \<and> actOk act \<and> leavesAlone rt h path env act"
  shows "keepsTake h t r (readTake (fst (runActs rt run files)) path)
    \<and> list_all2 (\<lambda>(env, act) answer. needsMessage rt path act
        \<longrightarrow> answer \<in> {Some (TakenElsewhere ReasonHeld), Some TakeUsage}) run (snd (runActs rt run files))"
  using assms
proof (induction run arbitrary: files)
  case (Cons step run)
  obtain env act where step: "step = (env, act)"
    by (cases step)
  obtain files' answer where first: "runAct rt env act files = (files', answer)"
    by (cases "runAct rt env act files")
  obtain files'' answers where rest: "runActs rt run files' = (files'', answers)"
    by (cases "runActs rt run files'")
  have ok: "stillHeld env h t" "actOk act" "leavesAlone rt h path env act"
    using Cons.prems(2) step by auto
  have "keepsTake h t r (readTake files' path)"
    using run_act_keeps [OF Cons.prems(1) ok] first by simp
  then show ?case
    using Cons.IH [of files'] Cons.prems(2) run_act_refused [OF Cons.prems(1) ok] first rest step by auto
qed simp

end
