(* ===== verification/TakeViews.thy ===== *)
theory TakeViews
  imports TakeHeld
begin

text \<open>
  What an agent may see of a take, as the record stripped of everything else, and when a take or an offer has lapsed,
  said without the order the code looks at it in.
\<close>

section \<open>What an agent sees\<close>

text \<open>A session that is no other: neither of this id, nor of this process, nor of this group.\<close>

definition stranger :: "take_holder \<Rightarrow> take_holder" where
  "stranger c = c\<lparr>th_process := th_process c @ [0], th_grouped := False,
     th_sessionId := map_option (\<lambda>s. s @ [0]) (th_sessionId c), th_parent := None, th_folder := None, th_client := None\<rparr>"

lemma stranger_other [simp]: "\<not> sameSession (stranger c) c"
  by (simp add: stranger_def sameSession_def split: option.split)

definition someHolder :: take_holder where
  "someHolder = \<lparr>th_key = [], th_grouped = False, th_process = [], th_sessionId = None, th_parent = None,
     th_folder = None, th_client = None\<rparr>"

text \<open>The caller itself for its own take, another session for another's, whoever that is.\<close>

definition seenHolder :: "take_caller \<Rightarrow> take_record \<Rightarrow> held option" where
  "seenHolder caller r =
     (if isPerson (tr_holder r) then Some ThePerson
      else case caller of
        CallerSession c \<Rightarrow> Some (Session (if holdsIt r caller then c else stranger c))
      | _ \<Rightarrow> Some (Session someHolder))"

definition seenOffer :: "take_caller \<Rightarrow> take_offer \<Rightarrow> take_offer" where
  "seenOffer caller offer =
     (let nobody = \<lparr>tw_sessionId = None, tw_key = None, tw_parent = None, tw_folder = None, tw_client = None\<rparr>;
          mine = (case caller of CallerSession c \<Rightarrow> offeredTo (to_window offer) c | _ \<Rightarrow> False)
      in \<lparr>to_window = (if mine then (to_window offer)\<lparr>tw_parent := None, tw_folder := None, tw_client := None\<rparr> else nobody),
          to_until = to_until offer, to_by = GivenByPerson\<rparr>)"

text \<open>A line: what it is and, of a hand-back, the closed reason.\<close>

definition seenLine :: "take_line \<Rightarrow> take_line" where
  "seenLine l = \<lparr>tl_at = [], tl_kind = tl_kind l, tl_by = ByService, tl_windowKey = None, tl_window = None,
     tl_terminal = None, tl_reason = (if tl_kind l = LHandedBack then tl_reason l else None), tl_note = None, tl_ack = None\<rparr>"

definition someMessage :: take_message where
  "someMessage = \<lparr>tm_channel = OnSlack, tm_accountId = [], tm_id = [], tm_thread = None, tm_rfc822Id = None\<rparr>"

text \<open>The last act and whether an approval holds the take count for its holder only, as the end of the lease.\<close>

definition seenBy :: "take_caller \<Rightarrow> take_record \<Rightarrow> take_record" where
  "seenBy caller r =
     (let own = (holdsIt r caller \<and> tr_state r = TTaken)
      in \<lparr>tr_message = someMessage, tr_state = tr_state r, tr_holder = seenHolder caller r,
          tr_offer = map_option (seenOffer caller) (tr_offer r), tr_takenAt = tr_takenAt r,
          tr_lastActAt = (if own then tr_lastActAt r else None),
          tr_pins = (if own \<and> tr_pins r \<noteq> [] then [[]] else []),
          tr_history = map seenLine (tr_history r), tr_updatedAt = []\<rparr>)"

lemma sinceTaken_seen: "sinceTaken (map seenLine ls) = map seenLine (sinceTaken ls)"
  by (induction ls) (auto simp: seenLine_def list_ex_iff)

lemma map_filter_seen:
  "List.map_filter (\<lambda>l. if tl_kind l = LHandedBack then tl_reason l else None) (map seenLine ls)
    = List.map_filter (\<lambda>l. if tl_kind l = LHandedBack then tl_reason l else None) ls"
  by (induction ls) (auto simp: List.map_filter_simps seenLine_def split: option.split)

lemma handedBack_seen: "handedBackOf (seenBy caller r) = handedBackOf r"
  by (simp add: handedBackOf_def seenBy_def Let_def sinceTaken_seen map_filter_seen)

lemma person_seen: "isPerson (tr_holder (seenBy caller r)) = isPerson (tr_holder r)"
  by (simp add: seenBy_def Let_def seenHolder_def split: take_caller.split)

lemma holds_not_person: "holdsIt r caller \<Longrightarrow> \<not> isPerson (tr_holder r)"
  by (auto simp: holdsIt_def split: option.splits held.splits)

lemma holdsIt_cases:
  "holdsIt r (CallerSession c) \<longleftrightarrow> (\<exists>h. tr_holder r = Some (Session h) \<and> sameSession h c)"
  "\<not> holdsIt r (Unmatched m)" "\<not> holdsIt r PersonCaller"
  by (auto simp: holdsIt_def split: option.split held.split)

lemma holder_seen: "tr_holder (seenBy caller r) = seenHolder caller r"
  by (simp add: seenBy_def Let_def)

lemma holds_seen: "holdsIt (seenBy caller r) caller = holdsIt r caller"
proof (cases caller)
  case (CallerSession c)
  show ?thesis
  proof (cases "isPerson (tr_holder r)")
    case True
    then show ?thesis
      using holds_not_person [of r caller] by (auto simp: CallerSession holdsIt_cases(1) [of "seenBy _ _"] holder_seen seenHolder_def)
  next
    case False
    then show ?thesis
      by (simp add: CallerSession holdsIt_cases(1) [of "seenBy _ _"] holder_seen seenHolder_def)
  qed
qed (simp_all add: holdsIt_cases)

lemma lease_seen:
  assumes "holdsIt r caller" "tr_state r = TTaken"
  shows "leaseUntilOf (seenBy caller r) = leaseUntilOf r"
  using assms person_seen [of caller r] by (simp add: leaseUntilOf_def seenBy_def Let_def)

lemma offer_seen: "offeredTo (to_window (seenOffer (CallerSession c) offer)) c = offeredTo (to_window offer) c"
proof -
  have "offeredTo (w\<lparr>tw_parent := None, tw_folder := None, tw_client := None\<rparr>) c = offeredTo w c" for w
    by (simp add: offeredTo_def split: option.split)
  moreover have "\<not> offeredTo \<lparr>tw_sessionId = None, tw_key = None, tw_parent = None, tw_folder = None, tw_client = None\<rparr> c"
    by (simp add: offeredTo_def)
  ultimately show ?thesis
    by (simp add: seenOffer_def Let_def)
qed

lemma until_seen: "to_until (seenOffer caller offer) = to_until offer"
  by (simp add: seenOffer_def Let_def)

lemma members_seen: "tr_state (seenBy caller r) = tr_state r" "tr_takenAt (seenBy caller r) = tr_takenAt r"
  "tr_offer (seenBy caller r) = map_option (seenOffer caller) (tr_offer r)"
  by (simp_all add: seenBy_def Let_def)

lemma mine_seen:
  "(case sessionOf caller of None \<Rightarrow> False | Some session \<Rightarrow> offeredTo (to_window (seenOffer caller offer)) session)
    = (case sessionOf caller of None \<Rightarrow> False | Some session \<Rightarrow> offeredTo (to_window offer) session)"
  by (cases caller) (simp_all add: offer_seen)

lemmas seen = handedBack_seen person_seen holds_seen lease_seen members_seen until_seen mine_seen

section \<open>What has lapsed\<close>

text \<open>
  When an offer ends: at its time; one of the person's without a time does not; one of a rule's a while after it was made.
\<close>

definition offerEnds :: "take_env \<Rightarrow> take_record \<Rightarrow> take_offer \<Rightarrow> int option" where
  "offerEnds env r offer =
     (case to_until offer of
        Some until \<Rightarrow> dateParse until
      | None \<Rightarrow> if to_by offer = GivenByPerson then None
                else map_option (\<lambda>made. made + offerWaitIn env (tm_accountId (tr_message r))) (dateParse (offerMadeAt r)))"

text \<open>A take of a session: an hour after its last act with no approval waiting, or when its window's process has gone.\<close>

definition hasLapsed :: "take_env \<Rightarrow> take_record \<Rightarrow> bool" where
  "hasLapsed env r \<longleftrightarrow>
     (tr_state r = TOffered \<and> (\<exists>offer t. tr_offer r = Some offer \<and> offerEnds env r offer = Some t \<and> t \<le> te_now env))
     \<or> (tr_state r = TTaken \<and> (\<exists>h a t. tr_holder r = Some (Session h) \<and> tr_lastActAt r = Some a \<and> dateParse a = Some t
          \<and> ((livePins env (tr_pins r) = [] \<and> t + TAKE_LEASE_MS \<le> te_now env) \<or> parentGone env h)))"

text \<open>The moment at which a rule's offer ends is one that can be written.\<close>

definition endIsWritten :: "take_env \<Rightarrow> take_record \<Rightarrow> bool" where
  "endIsWritten env r \<longleftrightarrow>
     (tr_state r = TOffered \<longrightarrow> (\<forall>made \<in> set_option (dateParse (offerMadeAt r)). moment (made + offerWaitIn env (tm_accountId (tr_message r)))))"

text \<open>Opened by a lapse: with one more line, of what ended it.\<close>

definition openedFrom :: "take_record \<Rightarrow> jstr \<Rightarrow> take_record \<Rightarrow> bool" where
  "openedFrom r at' r' \<longleftrightarrow> (\<exists>l. (tl_kind l = LExpired \<or> tl_kind l = LEnded) \<and> r' = opened r l at')"

lemma openedFrom_line [simp]:
  "openedFrom r at' (opened r (serviceLine t LExpired key) at')"
  "openedFrom r at' (opened r (withWindowLine h (serviceLine t LExpired key)) at')"
  "openedFrom r at' (opened r (withWindowLine h (serviceLine t LEnded key)) at')"
  unfolding openedFrom_def by (rule exI, rule conjI [rotated], rule refl, simp add: serviceLine_def withWindowLine_def)+

lemma offerWaitIn_pos: "offerWaitIn env a > 0"
  by (simp add: offerWaitIn_def TAKE_OFFER_WAIT_MS_def split: option.split)

lemma settleOffer_lapsed:
  assumes "tr_state r = TOffered" "tr_offer r = Some offer" "pred_option isTime (to_until offer)" "endIsWritten env r"
  shows "settleOffer env r offer = (r, False) \<and> (\<forall>t. offerEnds env r offer = Some t \<longrightarrow> te_now env < t)
    \<or> (\<exists>t. offerEnds env r offer = Some t \<and> t \<le> te_now env)
      \<and> snd (settleOffer env r offer) \<and> openedFrom r (toISOString (te_now env)) (fst (settleOffer env r offer))"
proof (cases "to_until offer")
  case (Some until)
  then obtain t where "dateParse until = Some t"
    using assms(3) by (auto simp: isTime_def)
  then show ?thesis
    using Some by (auto simp: settleOffer_def offerEnds_def whenParsed_def Let_def)
next
  case None
  show ?thesis
  proof (cases "to_by offer = GivenByPerson \<or> dateParse (offerMadeAt r) = None")
    case True
    then show ?thesis
      using None assms(1,2) by (auto simp: settleOffer_def offerEnds_def offerWaitsUntil_def Let_def)
  next
    case False
    then obtain made where "to_by offer \<noteq> GivenByPerson" "dateParse (offerMadeAt r) = Some made"
      by auto
    moreover from this have "dateParse (toISOString (made + offerWaitIn env (tm_accountId (tr_message r))))
        = Some (made + offerWaitIn env (tm_accountId (tr_message r)))"
      using assms(1,4) by (intro dateParse_toISOString) (simp add: endIsWritten_def)
    ultimately show ?thesis
      using None assms(1,2) offerWaitIn_pos [of env "tm_accountId (tr_message r)"]
      by (auto simp: settleOffer_def offerEnds_def offerWaitsUntil_def whenParsed_def Let_def)
  qed
qed

lemma livePins_again [simp]: "livePins env (livePins env pins) = livePins env pins"
  by (simp add: livePins_def split: option.split)

lemma livePins_length: "length (livePins env pins) = length pins \<longleftrightarrow> livePins env pins = pins"
proof (cases "te_pinLive env")
  case (Some live)
  then show ?thesis
    by (simp add: livePins_def) (metis filter_True length_filter_less less_irrefl)
qed (simp add: livePins_def)

lemma settleTake_lapsed:
  assumes "dateParse a = Some t"
  shows "if (livePins env (tr_pins r) = [] \<and> t + TAKE_LEASE_MS \<le> te_now env) \<or> parentGone env h
    then snd (settleTake env True r h a) \<and> openedFrom r (toISOString (te_now env)) (fst (settleTake env True r h a))
    else settleTake env True r h a = (if livePins env (tr_pins r) = tr_pins r then (r, False)
      else (r\<lparr>tr_pins := livePins env (tr_pins r), tr_updatedAt := toISOString (te_now env)\<rparr>, True))"
  using assms
  by (auto simp: settleTake_def Let_def leaseOver_def whenParsed_def livePins_length)

text \<open>What settling comes to: it opens what has lapsed, takes out pins that no longer wait, or leaves the record.\<close>

lemma settle_comes_to:
  assumes "recordOk r" "endIsWritten env r"
  shows "if hasLapsed env r
    then snd (settleRecord env True r) \<and> openedFrom r (toISOString (te_now env)) (fst (settleRecord env True r))
    else settleRecord env True r = (r, False)
      \<or> tr_state r = TTaken \<and> livePins env (tr_pins r) \<noteq> tr_pins r
        \<and> settleRecord env True r = (r\<lparr>tr_pins := livePins env (tr_pins r), tr_updatedAt := toISOString (te_now env)\<rparr>, True)"
proof (cases "tr_state r")
  case TOffered
  then obtain offer where offer: "tr_offer r = Some offer" "pred_option isTime (to_until offer)"
    using assms(1) by (auto simp: recordOk_def stateMeans_def offerOk_def)
  then show ?thesis
    using TOffered settleOffer_lapsed [OF TOffered offer assms(2)] by (auto simp: settleRecord_def hasLapsed_def)
next
  case TTaken
  show ?thesis
  proof (cases "\<exists>h a. tr_holder r = Some (Session h) \<and> tr_lastActAt r = Some a")
    case True
    then obtain h a where ha: "tr_holder r = Some (Session h)" "tr_lastActAt r = Some a"
      by blast
    then obtain t where t: "dateParse a = Some t"
      using assms(1) by (auto simp: recordOk_def isTime_def)
    have "settleRecord env True r = settleTake env True r h a"
      by (simp add: settleRecord_def TTaken ha)
    moreover have "hasLapsed env r \<longleftrightarrow> (livePins env (tr_pins r) = [] \<and> t + TAKE_LEASE_MS \<le> te_now env) \<or> parentGone env h"
      by (simp add: hasLapsed_def TTaken ha t)
    ultimately show ?thesis
      using settleTake_lapsed [OF t, of env r h] TTaken by (auto split: if_splits)
  next
    case False
    then have "settleRecord env True r = (r, False)" "\<not> hasLapsed env r"
      by (auto simp: settleRecord_def hasLapsed_def TTaken split: option.split held.split)
    then show ?thesis
      by simp
  qed
qed (simp_all add: settleRecord_def hasLapsed_def)

text \<open>A record with its live pins only has lapsed when it had, and settling finds no more in it.\<close>

lemma settles_once:
  assumes "recordOk r" "endIsWritten env r"
  shows "settleRecord env True (fst (settleRecord env True r)) = (fst (settleRecord env True r), False)"
proof (cases "hasLapsed env r")
  case True
  then obtain l where "fst (settleRecord env True r) = opened r l (toISOString (te_now env))"
    using settle_comes_to [OF assms] by (auto simp: openedFrom_def)
  then show ?thesis
    by (simp add: settleRecord_def opened_def)
next
  case False
  show ?thesis
  proof (cases "settleRecord env True r = (r, False)")
    case changed: False
    let ?s = "r\<lparr>tr_pins := livePins env (tr_pins r), tr_updatedAt := toISOString (te_now env)\<rparr>"
    have s: "settleRecord env True r = (?s, True)" "tr_state r = TTaken"
      using settle_comes_to [OF assms] False changed by auto
    have "recordOk ?s" "endIsWritten env ?s"
      using settle_ok [OF assms(1), of env True] s by (simp_all add: endIsWritten_def)
    moreover have "\<not> hasLapsed env ?s"
      using False by (simp add: hasLapsed_def s(2))
    ultimately show ?thesis
      using settle_comes_to [of ?s env] s by auto
  qed simp
qed

end
