(* ===== verification/TakeProperties.thy ===== *)
theory TakeProperties
  imports TakeViews
begin

text \<open>
  The properties of takes, with the values their witnesses are evaluated on.
\<close>

section \<open>Cutting\<close>

lemma chars_of_pairs: "isHigh u \<Longrightarrow> isLow v \<Longrightarrow> chars (concat (replicate k [u, v])) = replicate k [u, v]"
  by (induction k) simp_all

lemma length_of_pairs: "length (concat (replicate k [u, v])) = k * 2"
  by (induction k) simp_all

lemma take_pairs: "take (n * 2) (concat (replicate (n + m) [u, v])) = concat (replicate n [u, v])"
proof -
  have "concat (replicate (n + m) [u, v]) = concat (replicate n [u, v]) @ concat (replicate m [u, v])"
    by (simp add: replicate_add)
  then show ?thesis
    by (simp add: length_of_pairs)
qed

text \<open>C40.
  What \<open>cut\<close> promises fails for one kind of text only: what it returns has at most the characters asked for, or is the
  whole of a text that is longer and begins with that many pairs of surrogates. Such a text is kept whole at any
  length: a name or folder of astral characters is written to the record as long as it came.
\<close>

theorem cut_keeps_astral_text_whole:
  "(length (chars (cutText s n)) \<le> n
      \<or> cutText s n = s \<and> n * 2 < length s \<and> length (chars (take (n * 2) s)) \<le> n)
   \<and> cutText (concat (replicate (n + m) [55357, 56832])) n = concat (replicate (n + m) [55357, 56832])
   \<and> length (chars (concat (replicate (n + m) [55357, 56832]))) = n + m"
proof (intro conjI)
  let ?cs = "chars (if length s > n * 2 then take (n * 2) s else s)"
  show "length (chars (cutText s n)) \<le> n \<or> cutText s n = s \<and> n * 2 < length s \<and> length (chars (take (n * 2) s)) \<le> n"
  proof (cases "length ?cs \<le> n")
    case True
    then have "cutText s n = s"
      by (simp only: cutText_def Let_def if_True)
    with True show ?thesis
      by (cases "length s > n * 2") simp_all
  next
    case False
    then have "cutText s n = concat (take n ?cs)"
      by (simp only: cutText_def Let_def if_False)
    then show ?thesis
      by (simp only: chars_prefix length_take min.cobounded2 simp_thms)
  qed
  show "cutText (concat (replicate (n + m) [55357, 56832])) n = concat (replicate (n + m) [55357, 56832])"
    by (simp add: cutText_def Let_def take_pairs length_of_pairs chars_of_pairs isHigh_def isLow_def)
  show "length (chars (concat (replicate (n + m) [55357, 56832]))) = n + m"
    by (simp add: chars_of_pairs isHigh_def isLow_def)
qed

section \<open>Every act is written\<close>

text \<open>C24.
  Every operation on takes, on any folder and whatever lapses on the way, keeps the files what they are: no record it
  writes fails to be read back, so none ends in \<open>UNEXPECTED\<close>, and no file that could be read becomes one that cannot.
\<close>

theorem acts_are_written:
  assumes "actOk act"
  shows "snd (runAct rt env act files) \<noteq> Some NotReadBack
    \<and> (\<forall>path r. readTake files path = Found r \<longrightarrow> readTake (fst (runAct rt env act files)) path \<noteq> NotReadable)"
  using run_act_well [OF assms, of rt env files] by (auto simp: staysReadable_def)

section \<open>Who gets a message\<close>

text \<open>The record a taker meets: within its retention, settled with a look at its holder's parent.\<close>

definition standingTake :: "take_env \<Rightarrow> found \<Rightarrow> take_record option" where
  "standingTake env cell =
     (case cell of Found r \<Rightarrow> if retained env r then Some (fst (settleRecord env True r)) else None | _ \<Rightarrow> None)"

text \<open>Nobody has it, it is offered to this session, or this session holds it or marked it done.\<close>

definition freeFor :: "take_holder \<Rightarrow> take_record \<Rightarrow> bool" where
  "freeFor c r \<longleftrightarrow> tr_state r = TOpen
     \<or> (tr_state r = TOffered \<and> (\<exists>offer. tr_offer r = Some offer \<and> offeredTo (to_window offer) c))
     \<or> ((tr_state r = TTaken \<or> tr_state r = TDone) \<and> (\<exists>h. tr_holder r = Some (Session h) \<and> sameSession h c))"

lemma freeFor_elsewhere: "recordOk r \<Longrightarrow> elsewhere r (CallerSession c) = None \<longleftrightarrow> freeFor c r"
  by (cases "tr_state r"; cases "tr_holder r" rule: isPerson.cases)
    (auto simp: elsewhere_def freeFor_def holdsIt_def recordOk_def stateMeans_def split: option.split)

lemma renewed_holder:
  assumes "holdsIt q (CallerSession c)"
  shows "\<exists>h. tr_holder (renewedBy c at' q) = Some (Session h) \<and> sameSession h c"
proof -
  obtain h where "tr_holder q = Some (Session h)" "sameSession h c"
    using assms by (auto simp: holdsIt_def split: option.splits held.splits)
  then show ?thesis
    using refreshed_same [of h c] by (simp add: renewedBy_def del: refreshedHolder.simps)
qed

lemma taken_holder: "\<exists>h. tr_holder (takenBy m c at' q) = Some (Session h) \<and> sameSession h c"
  by (simp add: takenBy_def)

definition takenOrRenewed :: "take_message \<Rightarrow> take_holder \<Rightarrow> jstr \<Rightarrow> take_record \<Rightarrow> take_record" where
  "takenOrRenewed m c at' q =
     (if tr_state q = TTaken \<and> holdsIt q (CallerSession c) then renewedBy c at' q else takenBy m c at' q)"

lemma takenOrRenewed_holds:
  "tr_state (takenOrRenewed m c at' q) = TTaken" "tr_lastActAt (takenOrRenewed m c at' q) = Some at'"
  "\<exists>h. tr_holder (takenOrRenewed m c at' q) = Some (Session h) \<and> sameSession h c"
    apply (simp add: takenOrRenewed_def renewedBy_def takenBy_def)
   apply (simp add: takenOrRenewed_def renewedBy_def takenBy_def)
  using renewed_holder [of q c at'] taken_holder [of m c at' q] by (auto simp: takenOrRenewed_def)

lemma takeDecision_cases:
  "\<exists>out. tc_record out = takenOrRenewed m c at' (orBlank m at' current)
    \<and> takeDecision m c current at' = (case elsewhere (orBlank m at' current) (CallerSession c) of
        None \<Rightarrow> Inr (WriteIt (takenOrRenewed m c at' (orBlank m at' current)), out)
      | Some why \<Rightarrow> Inl (TakenElsewhere why))"
  by (rule exI [of _ "outcomeFor (CallerSession c) (\<not> (tr_state (orBlank m at' current) = TTaken
        \<and> holdsIt (orBlank m at' current) (CallerSession c))) (takenOrRenewed m c at' (orBlank m at' current))"])
    (simp add: takeDecision_def takenOrRenewed_def outcomeFor_def Let_def split: option.split)

lemma orBlank_elsewhere: "elsewhere (orBlank m at' None) caller = None"
  by (simp add: orBlank_def blank_def elsewhere_def)

text \<open>C22.
  A session gets a message exactly when it can be read and, once what has lapsed is worked out, nobody else has it:
  there is no record, or it is open, offered to this session, or its own take or done. The file then says that this
  session holds the message and last acted now; a session that does not get it is told who has it, in closed words.
\<close>

theorem take_granted_exactly:
  assumes "messageOk m" "holderOk c" "takePath rt (messageRef m) = Inr path"
  shows "((\<exists>out. snd (takeMessage rt env m c files) = Inr out) \<longleftrightarrow>
      readTake files path \<noteq> NotReadable \<and> pred_option (freeFor c) (standingTake env (readTake files path)))
    \<and> (\<forall>out. snd (takeMessage rt env m c files) = Inr out \<longrightarrow>
        readTake (fst (takeMessage rt env m c files)) path = Found (tc_record out) \<and> tr_state (tc_record out) = TTaken
        \<and> (\<exists>h. tr_holder (tc_record out) = Some (Session h) \<and> sameSession h c)
        \<and> tr_lastActAt (tc_record out) = Some (toISOString (te_now env)))
    \<and> (\<forall>e. snd (takeMessage rt env m c files) = Inl e \<longrightarrow> (\<exists>why. e = TakenElsewhere why))"
proof -
  let ?cell = "readTake files path"
  let ?current = "standingTake env ?cell" and ?at = "toISOString (te_now env)"
  let ?did = "takeDecision m c ?current ?at"
  note cell = take_cell [OF conjI [OF assms(1,2)] messageOk_thread [OF assms(1)] assms(3), of env True False files path]
  have ok: "pred_option recordOk ?current"
    using readTake_ok [of files path] settle_ok by (auto simp: standingTake_def split: found.split)
  have decided: "snd (takeMessage rt env m c files) = (if ?cell = NotReadable then Inl (TakenElsewhere ReasonHeld)
        else case ?did of Inl e \<Rightarrow> Inl e | Inr (_, out) \<Rightarrow> Inr out)
    \<and> (\<forall>r out. ?cell \<noteq> NotReadable \<and> ?did = Inr (WriteIt r, out)
        \<longrightarrow> readTake (fst (takeMessage rt env m c files)) path = Found r)"
    using cell
    by (cases ?cell) (auto simp: takeMessage_def actOn_def currentOf_def standingTake_def Let_def split_def
        split: sum.split take_next.split)
  have free: "elsewhere (orBlank m ?at ?current) (CallerSession c) = None \<longleftrightarrow> pred_option (freeFor c) ?current"
    using ok freeFor_elsewhere orBlank_elsewhere by (cases ?current) (simp_all add: orBlank_def)
  define q where "q = orBlank m ?at ?current"
  define n where "n = takenOrRenewed m c ?at q"
  have n: "tr_state n = TTaken" "tr_lastActAt n = Some ?at" "\<exists>h. tr_holder n = Some (Session h) \<and> sameSession h c"
    unfolding n_def using takenOrRenewed_holds by simp_all
  obtain out where out: "tc_record out = n" "?did = (case elsewhere q (CallerSession c) of
      None \<Rightarrow> Inr (WriteIt n, out) | Some why \<Rightarrow> Inl (TakenElsewhere why))"
    using takeDecision_cases [where m = m and c = c and current = ?current and at' = ?at] unfolding q_def n_def by blast
  show ?thesis
  proof (cases "?cell = NotReadable \<or> elsewhere q (CallerSession c) \<noteq> None")
    case True
    then have "\<exists>why. snd (takeMessage rt env m c files) = Inl (TakenElsewhere why)"
      using decided out(2) by auto
    moreover have "\<not> (?cell \<noteq> NotReadable \<and> pred_option (freeFor c) ?current)"
      using True free [folded q_def] by (elim disjE) simp_all
    ultimately show ?thesis
      by auto
  next
    case False
    then have "snd (takeMessage rt env m c files) = Inr out"
      "readTake (fst (takeMessage rt env m c files)) path = Found n"
      using decided out(2) by auto
    moreover have "?cell \<noteq> NotReadable \<and> pred_option (freeFor c) ?current"
      using False free [folded q_def] by simp
    ultimately show ?thesis
      using n out(1) by auto
  qed
qed

section \<open>While it is held\<close>

text \<open>C21.
  While a session holds a message - within an hour of its last act, its window not seen to be gone - no run of acts by
  other sessions, by agents' shells that are none, and by the event service takes it away: the record still says so,
  with the same history, and every take, hand-back, done and gated act on the message is refused as held elsewhere (or
  for a note that is too long). Only the holder and the person change it.
\<close>

theorem held_message_is_refused:
  assumes "readTake files path = Found r" "heldFrom h t r"
    "\<forall>(env, act) \<in> set run. stillHeld env h t \<and> actOk act \<and> leavesAlone rt h path env act"
  shows "(\<exists>r'. readTake (fst (runActs rt run files)) path = Found r' \<and> sameTake r r')
    \<and> list_all2 (\<lambda>(env, act) answer. needsMessage rt path act
        \<longrightarrow> answer \<in> {Some (TakenElsewhere ReasonHeld), Some TakeUsage}) run (snd (runActs rt run files))"
proof -
  have "keepsTake h t r (readTake files path)"
    using assms(1,2) by (simp add: keepsTake_def)
  from runs_keep [OF this assms(3)] show ?thesis
    by (auto simp: keepsTake_def)
qed

section \<open>What an agent may know\<close>

text \<open>C26.
  What a caller is shown of a take depends on nothing but the state, the times, whether the take is the caller's, the
  person's or another's, whether the offer is to the caller, and the kinds and closed reasons of the lines: it is the
  same when everything else - the note of a hand-back, the folder, client, key and session id of another window, who
  offered it and by which rule, the message itself - is replaced.
\<close>

theorem agents_see_no_more: "takenViewOf (Some r) caller = takenViewOf (Some (seenBy caller r)) caller"
proof (cases "tr_state r")
  case TOffered
  then show ?thesis
    by (cases "tr_offer r") (simp_all add: takenViewOf_def Let_def seen)
next
  case TTaken
  then show ?thesis
    by (simp add: takenViewOf_def Let_def seen)
qed (simp_all add: takenViewOf_def Let_def seen)

section \<open>Lapses\<close>

text \<open>C25.
  A look at a record moves it exactly when its offer or its session's lease has ended - at the offer's time, a while
  after a rule made it, an hour after the holder's last act with no approval waiting, or when the holder's process has
  gone - and then opens it with one line of that; nothing of the person's lapses, nor what is done. A second look at
  the same moment finds no more.
\<close>

theorem lapses_exactly:
  assumes "recordOk r" "endIsWritten env r"
  shows "(tr_state (fst (settleRecord env True r)) \<noteq> tr_state r \<longleftrightarrow> hasLapsed env r)
    \<and> (hasLapsed env r \<longrightarrow> openedFrom r (toISOString (te_now env)) (fst (settleRecord env True r)))
    \<and> (tr_state r = TOpen \<or> tr_state r = TDone \<or> isPerson (tr_holder r) \<longrightarrow> settleRecord env True r = (r, False))
    \<and> settleRecord env True (fst (settleRecord env True r)) = (fst (settleRecord env True r), False)"
proof (intro conjI impI)
  have "openedFrom r at' s \<Longrightarrow> hasLapsed env r \<Longrightarrow> tr_state s \<noteq> tr_state r" for at' s
    by (auto simp: openedFrom_def opened_def hasLapsed_def)
  then show "tr_state (fst (settleRecord env True r)) \<noteq> tr_state r \<longleftrightarrow> hasLapsed env r"
    using settle_comes_to [OF assms] by (auto split: if_splits)
  show "hasLapsed env r \<Longrightarrow> openedFrom r (toISOString (te_now env)) (fst (settleRecord env True r))"
    using settle_comes_to [OF assms] by simp
  show "settleRecord env True r = (r, False)" if "tr_state r = TOpen \<or> tr_state r = TDone \<or> isPerson (tr_holder r)"
  proof -
    have "tr_state r = TOffered \<Longrightarrow> tr_holder r = None"
      using assms(1) by (simp add: recordOk_def)
    with that show ?thesis
      by (cases "tr_state r"; cases "tr_holder r" rule: isPerson.cases) (auto simp: settleRecord_def)
  qed
  show "settleRecord env True (fst (settleRecord env True r)) = (fst (settleRecord env True r), False)"
    by (rule settles_once [OF assms])
qed

section \<open>Witnesses\<close>

definition sampleAsk :: take_env where
  "sampleAsk = \<lparr>te_now = 1729938600000, te_pinLive = None, te_windows = False, te_running = (\<lambda>_. True),
     te_probe = (\<lambda>_. None), te_offerWait = (\<lambda>_. None), te_accountIds = None\<rparr>"

definition otherHolder :: take_holder where
  "otherHolder = sampleHolder\<lparr>th_key := js ''fedcba9876543210'', th_process := js ''cd34''\<rparr>"

definition samplePath :: "jstr \<times> jstr" where
  "samplePath = (js ''acc_0123456789ABCDEF'',
     rtSha sampleRuntime (takeMessageKey (messageRef (tr_message sampleTake))) @ js ''.json'')"

definition sampleFiles :: take_files where
  "sampleFiles = [(samplePath, TakeJson (takeJson sampleTake))]"

lemma sampleTake_ok: "recordOk sampleTake"
  using takeRecordOf_ok [OF sampleTake_read] .

lemma sampleMessage_ok: "messageOk (tr_message sampleTake)" "holderOk sampleHolder"
  using sampleTake_ok by (simp_all add: recordOk_def) (simp add: sampleTake_def)

lemma otherHolder_ok: "holderOk otherHolder"
proof -
  have "isSessionKey (th_key otherHolder)" "takeProcessId (th_process otherHolder)"
    by code_simp+
  then show ?thesis
    by (simp add: holderOk_def) (simp add: otherHolder_def sampleHolder_def)
qed

lemma samplePath_is: "takePath sampleRuntime (messageRef (tr_message sampleTake)) = Inr samplePath"
proof -
  have "checkedTakeRef (messageRef (tr_message sampleTake)) = Inr (messageRef (tr_message sampleTake))"
    by code_simp
  then show ?thesis
    by (simp add: takePath_def samplePath_def) (simp add: messageRef_def sampleTake_def)
qed

lemma sampleFiles_read: "readTake sampleFiles samplePath = Found sampleTake"
  using record_reads_back [OF sampleTake_ok] by (simp add: readTake_def sampleFiles_def)

lemma sampleTime: "dateParse (js ''2024-10-26T10:00:00.123Z'') = Some 1729936800123"
  by code_simp

lemma sampleTake_held: "heldFrom sampleHolder 1729936800123 sampleTake"
  by (simp add: heldFrom_def sampleTake_def sampleTime)

lemma sampleAsk_held: "stillHeld sampleAsk sampleHolder 1729936800123"
  by (simp add: stillHeld_def sampleAsk_def moment_def TAKE_LEASE_MS_def parentGone_def sampleHolder_def)

lemma other_session: "\<not> sameSession sampleHolder otherHolder"
  by code_simp

theorem acts_are_written_witness:
  "snd (runAct sampleRuntime sampleAsk (DoTake (tr_message sampleTake) otherHolder) sampleFiles) \<noteq> Some NotReadBack"
  using acts_are_written [of "DoTake (tr_message sampleTake) otherHolder" sampleRuntime sampleAsk sampleFiles]
    sampleMessage_ok otherHolder_ok by simp

theorem lapses_exactly_witness:
  "let late = sampleAsk\<lparr>te_now := 1729940400123, te_pinLive := Some (\<lambda>_. Some False)\<rparr>
   in hasLapsed late sampleTake \<and> tr_state (fst (settleRecord late True sampleTake)) \<noteq> TTaken"
proof -
  let ?late = "sampleAsk\<lparr>te_now := 1729940400123, te_pinLive := Some (\<lambda>_. Some False)\<rparr>"
  have "hasLapsed ?late sampleTake"
    by (simp add: hasLapsed_def sampleTake_def sampleTime livePins_def sampleAsk_def TAKE_LEASE_MS_def)
  moreover have "endIsWritten ?late sampleTake" "tr_state sampleTake = TTaken"
    by (simp_all add: endIsWritten_def sampleTake_def)
  ultimately show ?thesis
    using lapses_exactly [OF sampleTake_ok, of ?late] by (simp add: Let_def)
qed

theorem take_granted_exactly_witness:
  "\<not> (\<exists>out. snd (takeMessage sampleRuntime sampleAsk (tr_message sampleTake) otherHolder sampleFiles) = Inr out)"
proof -
  have "standingTake sampleAsk (Found sampleTake) = Some (fst (settleRecord sampleAsk True sampleTake))"
    using held_retained [OF sampleTake_held sampleAsk_held] by (simp add: standingTake_def)
  moreover have "\<not> freeFor otherHolder (fst (settleRecord sampleAsk True sampleTake))"
    using held_settles [OF sampleTake_held sampleAsk_held, of True] other_session by (auto simp: freeFor_def heldFrom_def)
  ultimately show ?thesis
    using take_granted_exactly [OF sampleMessage_ok(1) otherHolder_ok samplePath_is, of sampleAsk sampleFiles]
    by (simp add: sampleFiles_read)
qed

theorem held_message_is_refused_witness:
  "snd (runActs sampleRuntime [(sampleAsk, DoLapse), (sampleAsk, DoTake (tr_message sampleTake) otherHolder)] sampleFiles)
     ! 1 \<in> {Some (TakenElsewhere ReasonHeld), Some TakeUsage}"
proof -
  let ?run = "[(sampleAsk, DoLapse), (sampleAsk, DoTake (tr_message sampleTake) otherHolder)]"
  have "\<forall>(env, act) \<in> set ?run. stillHeld env sampleHolder 1729936800123 \<and> actOk act
      \<and> leavesAlone sampleRuntime sampleHolder samplePath env act"
    using sampleAsk_held other_session sampleMessage_ok otherHolder_ok by simp
  from held_message_is_refused [OF sampleFiles_read sampleTake_held this] show ?thesis
    by (auto simp: samplePath_is list_all2_Cons1 simp del: runActs.simps)
qed

end
