(* ===== verification/EventText.thy ===== *)
theory EventText
  imports Json
begin

unbundle bit_operations_syntax

text \<open>
  Text as Unicode counts, orders and encodes it: \<open>packages/events/src/text.ts\<close>, \<open>unicode/codepoints.ts\<close>
  and \<open>wire/percent.ts\<close>. The loops of \<open>text.ts\<close> walk an index over code units and are functions of the
  index here; \<open>codePoints\<close> gives the list they all walk, and each is related to it. Bytes are naturals,
  and a store into a \<open>Uint8Array\<close> keeps the low eight bits and ignores an index past its end.
\<close>

section \<open>Codes of the issues\<close>

text \<open>The members of \<open>IssueCode\<close> in \<open>result.ts\<close> that the modelled parts report.\<close>

datatype issue_code = NOT_WELL_FORMED | POINTER_MALFORMED | POINTER_NOT_IN_SCHEMA

section \<open>Code points\<close>

definition HIGH_FIRST :: nat where "HIGH_FIRST = 55296"
definition HIGH_LAST :: nat where "HIGH_LAST = 56319"
definition LOW_FIRST :: nat where "LOW_FIRST = 56320"
definition LOW_LAST :: nat where "LOW_LAST = 57343"

lemmas surrogate_bounds = HIGH_FIRST_def HIGH_LAST_def LOW_FIRST_def LOW_LAST_def

definition codePointAt :: "jstr \<Rightarrow> nat \<Rightarrow> nat" where
  "codePointAt text index =
     (let first = text ! index
      in if first \<ge> HIGH_FIRST \<and> first \<le> HIGH_LAST \<and> index + 1 < length text
         then let second = text ! (index + 1)
              in if second \<ge> LOW_FIRST \<and> second \<le> LOW_LAST
                 then (first - HIGH_FIRST) * 1024 + (second - LOW_FIRST) + 65536
                 else first
         else first)"

text \<open>The step every loop takes: \<open>point > 0xffff ? 2 : 1\<close>.\<close>

definition pointWidth :: "nat \<Rightarrow> nat" where
  "pointWidth point = (if point > 65535 then 2 else 1)"

lemma pointWidth_pos [simp]: "0 < pointWidth p"
  by (simp add: pointWidth_def)

fun codePoints :: "jstr \<Rightarrow> nat list" where
  "codePoints [] = []"
| "codePoints [first] = [first]"
| "codePoints (first # second # text) =
     (if first \<ge> HIGH_FIRST \<and> first \<le> HIGH_LAST \<and> second \<ge> LOW_FIRST \<and> second \<le> LOW_LAST
      then ((first - HIGH_FIRST) * 1024 + (second - LOW_FIRST) + 65536) # codePoints text
      else first # codePoints (second # text))"

text \<open>What the loops walk: the point at an index, then what is left after it.\<close>

lemma codePoints_from:
  assumes "units_ok t" "i < length t"
  shows "codePoints (drop i t)
    = codePointAt t i # codePoints (drop (i + pointWidth (codePointAt t i)) t)"
proof (cases "i + 1 < length t")
  case True
  then have "drop i t = t ! i # t ! (i + 1) # drop (i + 2) t"
    by (metis Cons_nth_drop_Suc Suc_eq_plus1 add_2_eq_Suc' assms(2))
  moreover have "drop (i + 1) t = t ! (i + 1) # drop (i + 2) t"
    using True by (metis Cons_nth_drop_Suc Suc_eq_plus1 add_2_eq_Suc')
  moreover have "t ! i < 65536"
    using assms by (auto simp: units_ok_def)
  ultimately show ?thesis
    using True by (auto simp: codePointAt_def Let_def pointWidth_def)
next
  case False
  then have "drop i t = [t ! i]" "drop (i + 1) t = []" "drop (i + 2) t = []"
    using assms by (auto simp: Cons_nth_drop_Suc [symmetric])
  then show ?thesis
    using False by (auto simp: codePointAt_def Let_def pointWidth_def)
qed

section \<open>Counting\<close>

definition pointSize :: "nat \<Rightarrow> nat" where
  "pointSize point = (if point < 128 then 1 else if point < 2048 then 2 else if point < 65536 then 3 else 4)"

function utf8LengthFrom :: "jstr \<Rightarrow> nat \<Rightarrow> nat \<Rightarrow> nat" where
  "utf8LengthFrom text i bytes =
     (if i < length text
      then let point = codePointAt text i
           in utf8LengthFrom text (i + pointWidth point)
                (bytes + pointSize point)
      else bytes)"
  by pat_completeness auto
termination
  by (relation "measure (\<lambda>(text, i, _). length text - i)") (auto simp: pointWidth_def)

definition utf8ByteLength :: "jstr \<Rightarrow> nat" where
  "utf8ByteLength text = utf8LengthFrom text 0 0"

function pointCountFrom :: "jstr \<Rightarrow> nat \<Rightarrow> nat \<Rightarrow> nat" where
  "pointCountFrom text i count =
     (if i < length text then pointCountFrom text (i + pointWidth (codePointAt text i)) (count + 1) else count)"
  by pat_completeness auto
termination
  by (relation "measure (\<lambda>(text, i, _). length text - i)") (auto simp: pointWidth_def)

definition codePointLength :: "jstr \<Rightarrow> nat" where
  "codePointLength text = pointCountFrom text 0 0"

function wellFormedFrom :: "jstr \<Rightarrow> nat \<Rightarrow> bool" where
  "wellFormedFrom text i =
     (if i < length text
      then let point = codePointAt text i
           in if point \<ge> HIGH_FIRST \<and> point \<le> LOW_LAST then False
              else wellFormedFrom text (i + pointWidth point)
      else True)"
  by pat_completeness auto
termination
  by (relation "measure (\<lambda>(text, i). length text - i)") (auto simp: pointWidth_def)

definition isWellFormed :: "jstr \<Rightarrow> bool" where
  "isWellFormed text = wellFormedFrom text 0"

text \<open>A point that is no surrogate.\<close>

definition scalar :: "nat \<Rightarrow> bool" where
  "scalar point \<longleftrightarrow> \<not> (HIGH_FIRST \<le> point \<and> point \<le> LOW_LAST)"

lemma scalar_iff: "HIGH_FIRST \<le> p \<and> p \<le> LOW_LAST \<longleftrightarrow> \<not> scalar p"
  by (simp add: scalar_def)

declare utf8LengthFrom.simps [simp del] pointCountFrom.simps [simp del] wellFormedFrom.simps [simp del]

lemma utf8LengthFrom_points:
  "units_ok t \<Longrightarrow>
     utf8LengthFrom t i bytes = bytes + sum_list (map pointSize (codePoints (drop i t)))"
proof (induction t i bytes rule: utf8LengthFrom.induct)
  case (1 t i bytes)
  show ?case
  proof (cases "i < length t")
    case True
    then show ?thesis
      using 1 codePoints_from [of t i]
      by (subst utf8LengthFrom.simps) (simp add: Let_def)
  next
    case False
    then show ?thesis
      by (subst utf8LengthFrom.simps) simp
  qed
qed

lemma utf8ByteLength_points:
  "units_ok t \<Longrightarrow> utf8ByteLength t = sum_list (map pointSize (codePoints t))"
  by (simp add: utf8ByteLength_def utf8LengthFrom_points)

lemma pointCountFrom_points:
  "units_ok t \<Longrightarrow> pointCountFrom t i count = count + length (codePoints (drop i t))"
proof (induction t i count rule: pointCountFrom.induct)
  case (1 t i count)
  then show ?case
    by (subst pointCountFrom.simps) (auto simp: codePoints_from)
qed

lemma codePointLength_points:
  "units_ok t \<Longrightarrow> codePointLength t = length (codePoints t)"
  by (simp add: codePointLength_def pointCountFrom_points)

lemma wellFormedFrom_points:
  "units_ok t \<Longrightarrow> wellFormedFrom t i \<longleftrightarrow> list_all scalar (codePoints (drop i t))"
proof (induction t i rule: wellFormedFrom.induct)
  case (1 t i)
  then show ?case
    by (subst wellFormedFrom.simps) (auto simp: codePoints_from Let_def scalar_iff)
qed

lemma isWellFormed_points:
  "units_ok t \<Longrightarrow> isWellFormed t \<longleftrightarrow> list_all scalar (codePoints t)"
  by (simp add: isWellFormed_def wellFormedFrom_points)

section \<open>Order\<close>

function compareFrom :: "jstr \<Rightarrow> jstr \<Rightarrow> nat \<Rightarrow> nat \<Rightarrow> int" where
  "compareFrom a b i j =
     (if i < length a \<and> j < length b
      then let x = codePointAt a i; y = codePointAt b j
           in if x \<noteq> y then (if x < y then -1 else 1)
              else compareFrom a b (i + pointWidth x) (j + pointWidth y)
      else if i < length a then 1
      else if j < length b then -1
      else 0)"
  by pat_completeness auto
termination
  by (relation "measure (\<lambda>(a, _, i, _). length a - i)") (auto simp: pointWidth_def)

declare compareFrom.simps [simp del]

definition compareUtf8 :: "jstr \<Rightarrow> jstr \<Rightarrow> int" where
  "compareUtf8 a b = compareFrom a b 0 0"

text \<open>How one list stands to another, as a comparison function says it.\<close>

definition standing_to :: "'a::linorder \<Rightarrow> 'a \<Rightarrow> int" where
  "standing_to x y = (if x < y then -1 else if x = y then 0 else 1)"

lemma standing_to_Cons:
  "standing_to (x # xs) (y # ys) = (if x = y then standing_to xs ys else if x < y then -1 else 1)"
  by (auto simp: standing_to_def)

lemma standing_to_Nil:
  "standing_to [] (y # ys) = -1" "standing_to (y # ys) [] = 1" "standing_to [] [] = 0"
  by (simp_all add: standing_to_def)

lemma codePoints_eq_Nil [simp]: "codePoints t = [] \<longleftrightarrow> t = []"
  by (cases t rule: codePoints.cases) auto

lemma compareFrom_points:
  "units_ok a \<Longrightarrow> units_ok b \<Longrightarrow>
     compareFrom a b i j = standing_to (codePoints (drop i a)) (codePoints (drop j b))"
proof (induction a b i j rule: compareFrom.induct)
  case (1 a b i j)
  show ?case
  proof (cases "i < length a \<and> j < length b")
    case True
    then show ?thesis
      using 1 by (subst compareFrom.simps) (simp add: codePoints_from standing_to_Cons Let_def)
  next
    case False
    then show ?thesis
      using 1 by (subst compareFrom.simps) (auto simp: codePoints_from standing_to_Nil)
  qed
qed

lemma compareUtf8_points:
  "units_ok a \<Longrightarrow> units_ok b \<Longrightarrow> compareUtf8 a b = standing_to (codePoints a) (codePoints b)"
  by (simp add: compareUtf8_def compareFrom_points)

section \<open>Code points and back\<close>

text \<open>\<open>String.fromCharCode\<close>: each number as a sixteen bit unit.\<close>

definition fromCharCode :: "nat list \<Rightarrow> jstr" where
  "fromCharCode units = map (\<lambda>u. u mod 65536) units"

definition pointUnits :: "nat \<Rightarrow> nat list" where
  "pointUnits point =
     (if point > 65535
      then let offset = point - 65536
           in [HIGH_FIRST + drop_bit 10 offset, LOW_FIRST + (offset AND 1023)]
      else [point])"

fun fromPoints :: "nat list \<Rightarrow> jstr \<Rightarrow> nat list \<Rightarrow> jstr" where
  "fromPoints [] text units = text @ fromCharCode units"
| "fromPoints (point # points) text units =
     (let units' = units @ pointUnits point
      in if length units' \<ge> 4096 then fromPoints points (text @ fromCharCode units') []
         else fromPoints points text units')"

definition fromCodePoints :: "nat list \<Rightarrow> jstr" where
  "fromCodePoints points = fromPoints points [] []"

lemma fromCharCode_append: "fromCharCode (u @ v) = fromCharCode u @ fromCharCode v"
  by (simp add: fromCharCode_def)

lemma fromPoints_slices:
  "fromPoints points t units = t @ fromCharCode units @ concat (map (fromCharCode \<circ> pointUnits) points)"
  by (induction points t units rule: fromPoints.induct)
    (simp_all add: fromCharCode_append Let_def fromCharCode_def [of "[]"])

lemmas and_63 = and_low_bits [of _ 6, simplified]
  and and_1023 = and_low_bits [of _ 10, simplified]

lemmas bits_as_digits = and_63 and_1023 drop_bit_eq_div

lemma pair_units:
  assumes "HIGH_FIRST \<le> u" "u \<le> HIGH_LAST" "LOW_FIRST \<le> v" "v \<le> LOW_LAST"
  shows "pointUnits ((u - HIGH_FIRST) * 1024 + (v - LOW_FIRST) + 65536) = [u, v]"
proof -
  obtain a b where "u = HIGH_FIRST + a" "v = LOW_FIRST + b" "a < 1024" "b < 1024"
    using assms le_Suc_ex [of HIGH_FIRST u] le_Suc_ex [of LOW_FIRST v]
    by (force simp: surrogate_bounds)
  then show ?thesis
    by (simp add: pointUnits_def Let_def bits_as_digits)
qed

lemma points_units:
  "units_ok t \<Longrightarrow> concat (map (fromCharCode \<circ> pointUnits) (codePoints t)) = t"
proof (induction t rule: codePoints.induct)
  case (3 u v t)
  show ?case
  proof (cases "HIGH_FIRST \<le> u \<and> u \<le> HIGH_LAST \<and> LOW_FIRST \<le> v \<and> v \<le> LOW_LAST")
    case True
    then show ?thesis
      using 3 pair_units [of u v] by (simp add: fromCharCode_def)
  next
    case False
    then show ?thesis
      using 3 by (simp only: codePoints.simps if_False) (simp add: fromCharCode_def pointUnits_def)
  qed
qed (simp_all add: fromCharCode_def pointUnits_def)

lemma fromCodePoints_codePoints: "units_ok t \<Longrightarrow> fromCodePoints (codePoints t) = t"
  by (simp add: fromCodePoints_def fromPoints_slices points_units fromCharCode_def)

lemma codePoints_inject: "units_ok s \<Longrightarrow> units_ok t \<Longrightarrow> codePoints s = codePoints t \<longleftrightarrow> s = t"
  by (metis fromCodePoints_codePoints)

lemma codePoints_bound: "units_ok t \<Longrightarrow> p \<in> set (codePoints t) \<Longrightarrow> p < 1114112"
  by (induction t rule: codePoints.induct) (auto simp: surrogate_bounds split: if_splits)

section \<open>Bytes\<close>

definition pointBytes :: "nat \<Rightarrow> nat list" where
  "pointBytes point =
     (if point < 128 then [point]
      else if point < 2048 then [192 OR drop_bit 6 point, 128 OR (point AND 63)]
      else if point < 65536
        then [224 OR drop_bit 12 point, 128 OR (drop_bit 6 point AND 63), 128 OR (point AND 63)]
      else [240 OR drop_bit 18 point, 128 OR (drop_bit 12 point AND 63),
            128 OR (drop_bit 6 point AND 63), 128 OR (point AND 63)])"

text \<open>\<open>bytes[at++] = b\<close>, for one byte after another.\<close>

fun storeBytes :: "nat list \<Rightarrow> nat \<Rightarrow> nat list \<Rightarrow> nat list" where
  "storeBytes bytes at [] = bytes"
| "storeBytes bytes at (b # bs) = storeBytes (bytes[at := b mod 256]) (at + 1) bs"

function encodeFrom :: "jstr \<Rightarrow> nat \<Rightarrow> nat \<Rightarrow> nat list \<Rightarrow> (issue_code \<times> nat) + nat list" where
  "encodeFrom text i at bytes =
     (if i < length text
      then let point = codePointAt text i
           in if point \<ge> HIGH_FIRST \<and> point \<le> LOW_LAST then Inl (NOT_WELL_FORMED, i)
              else encodeFrom text (i + pointWidth point) (at + length (pointBytes point))
                     (storeBytes bytes at (pointBytes point))
      else Inr bytes)"
  by pat_completeness auto
termination
  by (relation "measure (\<lambda>(text, i, _, _). length text - i)") (auto simp: pointWidth_def)

declare encodeFrom.simps [simp del]

definition utf8Encode :: "jstr \<Rightarrow> (issue_code \<times> nat) + nat list" where
  "utf8Encode text = encodeFrom text 0 0 (replicate (utf8ByteLength text) 0)"

text \<open>UTF-8 as its definition gives it: each point's bytes, one after another.\<close>

definition utf8Bytes :: "nat list \<Rightarrow> nat list" where
  "utf8Bytes points = concat (map pointBytes points)"

lemma utf8Bytes_simps [simp]:
  "utf8Bytes [] = []"
  "utf8Bytes (p # ps) = pointBytes p @ utf8Bytes ps"
  by (simp_all add: utf8Bytes_def)

lemma length_pointBytes [simp]: "length (pointBytes p) = pointSize p"
  by (simp add: pointBytes_def pointSize_def)

lemma length_utf8Bytes: "length (utf8Bytes ps) = sum_list (map pointSize ps)"
  by (induction ps) simp_all

lemma lead_bytes:
  "x < 32 \<Longrightarrow> (192 :: nat) OR x = 192 + x"
  "x < 16 \<Longrightarrow> (224 :: nat) OR x = 224 + x"
  "x < 8 \<Longrightarrow> (240 :: nat) OR x = 240 + x"
  "x < 64 \<Longrightarrow> (128 :: nat) OR x = 128 + x"
  using or_disjoint [of x 5 6] or_disjoint [of x 4 14] or_disjoint [of x 3 30] or_disjoint [of x 6 2]
  by simp_all

lemma pointBytes_digits:
  "p < 128 \<Longrightarrow> pointBytes p = [p]"
  "128 \<le> p \<Longrightarrow> p < 2048 \<Longrightarrow> pointBytes p = [192 + p div 64, 128 + p mod 64]"
  "2048 \<le> p \<Longrightarrow> p < 65536 \<Longrightarrow>
     pointBytes p = [224 + p div 4096, 128 + p div 64 mod 64, 128 + p mod 64]"
  "65536 \<le> p \<Longrightarrow> p < 1114112 \<Longrightarrow>
     pointBytes p = [240 + p div 262144, 128 + p div 4096 mod 64, 128 + p div 64 mod 64, 128 + p mod 64]"
  by (simp_all add: pointBytes_def bits_as_digits lead_bytes less_mult_imp_div_less)

lemma pointBytes_below: "p < 1114112 \<Longrightarrow> b \<in> set (pointBytes p) \<Longrightarrow> b < 256"
  by (cases "p < 128"; cases "p < 2048"; cases "p < 65536")
    (auto simp: pointBytes_digits less_mult_imp_div_less)

subsection \<open>Writing them\<close>

lemma storeBytes_between:
  "list_all (\<lambda>b. b < 256) bs \<Longrightarrow>
     storeBytes (pre @ replicate (length bs + n) 0) (length pre) bs = pre @ bs @ replicate n 0"
proof (induction bs arbitrary: pre)
  case (Cons b bs)
  have "storeBytes (pre @ replicate (length (b # bs) + n) 0) (length pre) (b # bs)
      = storeBytes ((pre @ [b]) @ replicate (length bs + n) 0) (length (pre @ [b])) bs"
    using Cons.prems by (simp add: list_update_append)
  then show ?case
    using Cons.IH [of "pre @ [b]"] Cons.prems by simp
qed simp

lemma encodeFrom_ok:
  "units_ok t \<Longrightarrow> list_all scalar (codePoints (drop i t)) \<Longrightarrow> at = length pre \<Longrightarrow>
     bytes = pre @ replicate (sum_list (map pointSize (codePoints (drop i t)))) 0 \<Longrightarrow>
     encodeFrom t i at bytes = Inr (pre @ utf8Bytes (codePoints (drop i t)))"
proof (induction t i at bytes arbitrary: pre rule: encodeFrom.induct)
  case (1 t i at bytes)
  show ?case
  proof (cases "i < length t")
    case True
    define p where "p = codePointAt t i"
    define rest where "rest = codePoints (drop (i + pointWidth p) t)"
    have points: "codePoints (drop i t) = p # rest"
      using "1.prems"(1) True by (simp add: codePoints_from p_def rest_def)
    then have "p \<in> set (codePoints (drop i t))"
      by simp
    then have "p < 1114112"
      using "1.prems"(1) codePoints_bound [of "drop i t" p] by (auto simp: units_ok_def dest: in_set_dropD)
    then have "list_all (\<lambda>b. b < 256) (pointBytes p)"
      by (simp add: list_all_iff pointBytes_below)
    then have stored: "storeBytes bytes at (pointBytes p)
        = (pre @ pointBytes p) @ replicate (sum_list (map pointSize rest)) 0"
      using "1.prems"(3,4) points storeBytes_between [of "pointBytes p" pre "sum_list (map pointSize rest)"]
      by simp
    have "scalar p" "list_all scalar rest"
      using "1.prems"(2) points by simp_all
    then have "encodeFrom t i at bytes
        = encodeFrom t (i + pointWidth p) (at + length (pointBytes p)) (storeBytes bytes at (pointBytes p))"
      using True by (subst encodeFrom.simps) (simp add: Let_def scalar_iff p_def)
    also have "\<dots> = Inr ((pre @ pointBytes p) @ utf8Bytes rest)"
      using "1.IH" [OF True p_def, of "pre @ pointBytes p"] "1.prems"(1,3) stored
        \<open>scalar p\<close> \<open>list_all scalar rest\<close>
      by (simp add: scalar_iff rest_def)
    finally show ?thesis
      using points by simp
  next
    case False
    then show ?thesis
      using "1.prems" by (subst encodeFrom.simps) simp
  qed
qed

lemma encodeFrom_refused:
  "units_ok t \<Longrightarrow> \<not> list_all scalar (codePoints (drop i t)) \<Longrightarrow>
     \<exists>k. encodeFrom t i at bytes = Inl (NOT_WELL_FORMED, k)"
proof (induction t i at bytes rule: encodeFrom.induct)
  case (1 t i at bytes)
  then have "i < length t"
    by (cases "i < length t") simp_all
  then show ?case
    using 1 by (subst encodeFrom.simps) (auto simp: Let_def codePoints_from scalar_iff)
qed

lemma utf8Encode_Inr:
  "units_ok t \<Longrightarrow> isWellFormed t \<Longrightarrow> utf8Encode t = Inr (utf8Bytes (codePoints t))"
  using encodeFrom_ok [of t 0 0 "[]"]
  by (simp add: utf8Encode_def isWellFormed_points utf8ByteLength_points)

lemma utf8Encode_Inl:
  "units_ok t \<Longrightarrow> \<not> isWellFormed t \<Longrightarrow> \<exists>k. utf8Encode t = Inl (NOT_WELL_FORMED, k)"
  using encodeFrom_refused [of t 0] by (simp add: utf8Encode_def isWellFormed_points)

lemma utf8Encode_iff:
  "units_ok t \<Longrightarrow> utf8Encode t = Inr bs \<longleftrightarrow> isWellFormed t \<and> bs = utf8Bytes (codePoints t)"
  by (cases "isWellFormed t") (auto simp: utf8Encode_Inr dest: utf8Encode_Inl)

subsection \<open>Bytes sort as points do\<close>

lemma append_less_append: "(zs @ xs :: nat list) < zs @ ys \<longleftrightarrow> xs < ys"
  by (induction zs) simp_all

lemma digit_less:
  assumes "(p :: nat) < q"
  shows "p div 64 < q div 64 \<or> p div 64 = q div 64 \<and> p mod 64 < q mod 64"
proof (cases "p div 64 = q div 64")
  case True
  then show ?thesis
    using assms mult_div_mod_eq [of 64 p] mult_div_mod_eq [of 64 q] by linarith
next
  case False
  then show ?thesis
    using assms div_le_mono [of p q 64] by linarith
qed

lemma digits_less:
  fixes p q :: nat
  assumes "p < q"
  shows "p div 4096 < q div 4096 \<or> p div 4096 = q div 4096 \<and>
      (p div 64 mod 64 < q div 64 mod 64 \<or> p div 64 mod 64 = q div 64 mod 64 \<and> p mod 64 < q mod 64)"
  using digit_less [OF assms] digit_less [of "p div 64" "q div 64"]
  by (auto simp: div_mult2_eq [of _ 64 64, simplified])

lemma more_digits_less:
  fixes p q :: nat
  assumes "p < q"
  shows "p div 262144 < q div 262144 \<or> p div 262144 = q div 262144 \<and>
      (p div 4096 mod 64 < q div 4096 mod 64 \<or> p div 4096 mod 64 = q div 4096 mod 64 \<and>
       (p div 64 mod 64 < q div 64 mod 64 \<or> p div 64 mod 64 = q div 64 mod 64 \<and> p mod 64 < q mod 64))"
  using digits_less [OF assms] digit_less [of "p div 4096" "q div 4096"]
  by (auto simp: div_mult2_eq [of _ 4096 64, simplified])

lemma pointBytes_less:
  assumes "p < q" "q < 1114112"
  shows "pointBytes p @ x < pointBytes q @ y"
proof -
  consider "p < 128" | "128 \<le> p" "p < 2048" | "2048 \<le> p" "p < 65536" | "65536 \<le> p"
    by linarith
  then show ?thesis
  proof cases
    case 1
    consider "q < 128" | "128 \<le> q" "q < 2048" | "2048 \<le> q" "q < 65536" | "65536 \<le> q"
      by linarith
    then show ?thesis
      by cases (use 1 assms in \<open>simp_all add: pointBytes_digits\<close>)
  next
    case 2
    consider "q < 2048" | "2048 \<le> q" "q < 65536" | "65536 \<le> q"
      by linarith
    moreover have "p div 64 < 32"
      using 2 by (simp add: less_mult_imp_div_less)
    ultimately show ?thesis
      by cases (use 2 assms digit_less [of p q] in \<open>auto simp: pointBytes_digits\<close>)
  next
    case 3
    consider "q < 65536" | "65536 \<le> q"
      by linarith
    moreover have "p div 4096 < 16"
      using 3 by (simp add: less_mult_imp_div_less)
    ultimately show ?thesis
      by cases (use 3 assms digits_less [of p q] in \<open>auto simp: pointBytes_digits\<close>)
  next
    case 4
    then show ?thesis
      using assms more_digits_less [of p q] by (auto simp: pointBytes_digits)
  qed
qed

lemma pointBytes_not_Nil [simp]: "pointBytes p \<noteq> []"
  by (simp add: pointBytes_def)

lemma utf8Bytes_less_iff:
  "list_all (\<lambda>p. p < 1114112) ps \<Longrightarrow> list_all (\<lambda>p. p < 1114112) qs \<Longrightarrow>
     utf8Bytes ps < utf8Bytes qs \<longleftrightarrow> ps < qs"
proof (induction ps arbitrary: qs)
  case Nil
  then show ?case
    by (cases qs) (auto simp: neq_Nil_conv pointBytes_def)
next
  case (Cons p ps)
  show ?case
  proof (cases qs)
    case Nil
    then show ?thesis
      by simp
  next
    case (Cons q qs')
    have "p < 1114112" "q < 1114112"
      using Cons.prems Cons by simp_all
    then show ?thesis
      using Cons.IH [of qs'] Cons.prems Cons pointBytes_less [of p q] pointBytes_less [of q p]
      by (cases p q rule: linorder_cases)
        (auto simp: append_less_append dest: order_less_asym order_less_imp_le leD)
  qed
qed

lemma standing_to_bytes:
  assumes "units_ok a" "units_ok b"
  shows "standing_to (utf8Bytes (codePoints a)) (utf8Bytes (codePoints b))
    = standing_to (codePoints a) (codePoints b)"
proof -
  have "list_all (\<lambda>p. p < 1114112) (codePoints a)" "list_all (\<lambda>p. p < 1114112) (codePoints b)"
    using assms by (auto simp: list_all_iff codePoints_bound)
  then show ?thesis
    using utf8Bytes_less_iff [of "codePoints a" "codePoints b"]
      utf8Bytes_less_iff [of "codePoints b" "codePoints a"]
    by (auto simp: standing_to_def)
qed

lemma utf8Bytes_inject:
  assumes "units_ok a" "units_ok b"
  shows "utf8Bytes (codePoints a) = utf8Bytes (codePoints b) \<longleftrightarrow> a = b"
  using standing_to_bytes [OF assms] codePoints_inject [OF assms] by (auto simp: standing_to_def split: if_splits)

section \<open>Percent encoding\<close>

definition HEX :: jstr where "HEX = js ''0123456789ABCDEF''"

definition unreserved :: "nat \<Rightarrow> bool" where
  "unreserved byte \<longleftrightarrow> (byte \<ge> 65 \<and> byte \<le> 90) \<or> (byte \<ge> 97 \<and> byte \<le> 122) \<or> (byte \<ge> 48 \<and> byte \<le> 57)
     \<or> byte = 45 \<or> byte = 46 \<or> byte = 95 \<or> byte = 126"

definition percentByte :: "nat \<Rightarrow> jstr" where
  "percentByte byte =
     (if unreserved byte then [byte] else [37, HEX ! (drop_bit 4 byte AND 15), HEX ! (byte AND 15)])"

definition percentEncodeComponent :: "jstr \<Rightarrow> (issue_code \<times> nat) + jstr" where
  "percentEncodeComponent text =
     result_bind (utf8Encode text) (\<lambda>bytes. Inr (fold (\<lambda>byte encoded. encoded @ percentByte byte) bytes []))"

text \<open>RFC 3986 reads it back: \<open>%HH\<close> is a byte, anything else is its own.\<close>

definition upperHexValue :: "nat \<Rightarrow> nat" where
  "upperHexValue c = (if c < 58 then c - 48 else c - 55)"

fun percentDecode :: "jstr \<Rightarrow> nat list" where
  "percentDecode (c # h # l # s) =
     (if c = 37 then (16 * upperHexValue h + upperHexValue l) # percentDecode s
      else c # percentDecode (h # l # s))"
| "percentDecode s = s"

lemma HEX_values:
  "n < 16 \<Longrightarrow> upperHexValue (HEX ! n) = n"
  "n < 16 \<Longrightarrow> unreserved (HEX ! n)"
proof -
  have "\<forall>n < 16. upperHexValue (HEX ! n) = n \<and> unreserved (HEX ! n)"
    by code_simp
  then show "n < 16 \<Longrightarrow> upperHexValue (HEX ! n) = n" "n < 16 \<Longrightarrow> unreserved (HEX ! n)"
    by blast+
qed

lemma percentDecode_own: "c \<noteq> 37 \<Longrightarrow> percentDecode (c # s) = c # percentDecode s"
  by (cases s rule: percentDecode.cases) auto

lemma percentDecode_byte:
  assumes "byte < 256"
  shows "percentDecode (percentByte byte @ s) = byte # percentDecode s"
proof (cases "unreserved byte")
  case True
  then show ?thesis
    by (auto simp: percentByte_def unreserved_def percentDecode_own)
next
  case False
  have "byte div 16 < 16"
    using assms by (simp add: less_mult_imp_div_less)
  then show ?thesis
    using False by (simp add: percentByte_def and_low_bits [of _ 4, simplified] drop_bit_eq_div HEX_values)
qed

lemma fold_append: "fold (\<lambda>b acc. acc @ f b) bs acc = acc @ concat (map f bs)"
  by (induction bs arbitrary: acc) simp_all

lemma percentDecode_bytes:
  "list_all (\<lambda>b. b < 256) bs \<Longrightarrow> percentDecode (concat (map percentByte bs)) = bs"
  by (induction bs) (simp_all add: percentDecode_byte)

lemma percentEncode_Inr:
  "units_ok t \<Longrightarrow> percentEncodeComponent t = Inr e \<longleftrightarrow>
     isWellFormed t \<and> e = concat (map percentByte (utf8Bytes (codePoints t)))"
  by (auto simp: percentEncodeComponent_def result_bind_eq_Inr utf8Encode_iff fold_append)

lemma utf8Bytes_below: "units_ok t \<Longrightarrow> list_all (\<lambda>b. b < 256) (utf8Bytes (codePoints t))"
  by (auto simp: list_all_iff utf8Bytes_def intro: pointBytes_below dest: codePoints_bound)

lemma percentByte_characters:
  "byte < 256 \<Longrightarrow> c \<in> set (percentByte byte) \<Longrightarrow> c = 37 \<or> unreserved c"
  by (auto simp: percentByte_def and_low_bits [of _ 4, simplified] HEX_values split: if_splits)

section \<open>Properties\<close>

text \<open>
  Text and its code points are two forms of the same thing: written back, in slices of whatever size, the points
  of a text give the text.
\<close>
theorem points_are_the_text:
  assumes "units_ok t"
  shows "fromCodePoints (codePoints t) = t \<and> codePointLength t = length (codePoints t)"
  using assms by (simp_all add: fromCodePoints_codePoints codePointLength_points)

lemma points_are_the_text_witness:
  "fromCodePoints (codePoints [97, 55357, 56832, 56832, 122]) = [97, 55357, 56832, 56832, 122]
   \<and> codePointLength [97, 55357, 56832, 56832, 122] = 4"
proof -
  have "units_ok [97, 55357, 56832, 56832, 122]"
    by simp
  from points_are_the_text [OF this] show ?thesis
    by (simp add: surrogate_bounds)
qed

text \<open>
  The encoder writes exactly the UTF-8 of a well-formed text, in an array that the counted length fits exactly,
  and refuses every other text.
\<close>
lemma encoder_is_exact:
  assumes "units_ok t"
  shows "(\<forall>bytes. utf8Encode t = Inr bytes \<longleftrightarrow> isWellFormed t \<and> bytes = utf8Bytes (codePoints t))
    \<and> (\<not> isWellFormed t \<longrightarrow> (\<exists>i. utf8Encode t = Inl (NOT_WELL_FORMED, i)))
    \<and> length (utf8Bytes (codePoints t)) = utf8ByteLength t"
  using assms by (auto simp: utf8Encode_iff utf8Encode_Inl length_utf8Bytes utf8ByteLength_points)

lemma encoder_is_exact_witness:
  "utf8Encode [97, 8364, 55357, 56832] = Inr [97, 226, 130, 172, 240, 159, 152, 128]"
proof -
  have "units_ok [97, 8364, 55357, 56832]"
    by simp
  from encoder_is_exact [OF this]
  have "utf8Encode [97, 8364, 55357, 56832] = Inr (utf8Bytes (codePoints [97, 8364, 55357, 56832]))
    \<longleftrightarrow> isWellFormed [97, 8364, 55357, 56832]"
    by blast
  moreover have "isWellFormed [97, 8364, 55357, 56832]"
    by (simp add: isWellFormed_points scalar_def surrogate_bounds)
  moreover have "utf8Bytes (codePoints [97, 8364, 55357, 56832]) = [97, 226, 130, 172, 240, 159, 152, 128]"
    by (simp add: surrogate_bounds pointBytes_digits)
  ultimately show ?thesis
    by simp
qed

text \<open>
  C33. The order of texts is the order of their UTF-8 bytes, and two texts stand at zero only when they are one text,
  so a sort by it is the sort every other host makes of the bytes.
\<close>
theorem order_is_byte_order:
  assumes "units_ok a" "units_ok b"
  shows "compareUtf8 a b = standing_to (utf8Bytes (codePoints a)) (utf8Bytes (codePoints b))
    \<and> (compareUtf8 a b = 0 \<longleftrightarrow> a = b)"
  using assms codePoints_inject [OF assms]
  by (simp add: compareUtf8_points standing_to_bytes) (simp add: standing_to_def)

lemma order_is_byte_order_witness:
  "compareUtf8 [65535] [55357, 56832] = -1 \<and> [55357, 56832] < [65535 :: nat]"
proof -
  have "units_ok [65535]" "units_ok [55357, 56832]"
    by simp_all
  from order_is_byte_order [OF this] show ?thesis
    by (simp add: surrogate_bounds pointBytes_digits standing_to_def)
qed

text \<open>
  A percent-encoded component reads back as the UTF-8 of the text, in unreserved characters and percent signs
  alone, so different texts have different components.
\<close>
lemma percent_encoding_reads_back:
  assumes "units_ok t" "percentEncodeComponent t = Inr e"
  shows "percentDecode e = utf8Bytes (codePoints t) \<and> (\<forall>c \<in> set e. c = 37 \<or> unreserved c)
    \<and> (\<forall>t'. units_ok t' \<and> percentEncodeComponent t' = Inr e \<longrightarrow> t' = t)"
proof (intro conjI allI impI)
  show read: "percentDecode e = utf8Bytes (codePoints t)"
    using assms by (simp add: percentEncode_Inr percentDecode_bytes utf8Bytes_below)
  show "\<forall>c \<in> set e. c = 37 \<or> unreserved c"
    using assms utf8Bytes_below [of t]
    by (auto simp: percentEncode_Inr list_all_iff dest: percentByte_characters)
  fix t'
  assume other: "units_ok t' \<and> percentEncodeComponent t' = Inr e"
  then have "utf8Bytes (codePoints t') = utf8Bytes (codePoints t)"
    using read by (auto simp: percentEncode_Inr percentDecode_bytes utf8Bytes_below)
  then show "t' = t"
    using other assms(1) by (simp add: utf8Bytes_inject)
qed

lemma percent_encoding_reads_back_witness:
  "percentDecode (js ''a%E2%82%AC'') = utf8Bytes (codePoints [97, 8364])"
proof -
  have "units_ok [97, 8364]"
    by simp
  moreover have "percentEncodeComponent [97, 8364] = Inr (js ''a%E2%82%AC'')"
    by (simp add: percentEncode_Inr isWellFormed_points scalar_def surrogate_bounds pointBytes_digits
        percentByte_def unreserved_def HEX_def js_eval bits_as_digits and_low_bits [of _ 4, simplified])
  ultimately show ?thesis
    using percent_encoding_reads_back [of "[97, 8364]"] by blast
qed

end
