(* ===== verification/EventPointer.thy ===== *)
theory EventPointer
  imports EventText
begin

text \<open>
  JSON pointers and pointer patterns: \<open>packages/events/src/pointer.ts\<close> and \<open>pattern.ts\<close>. A pointer is
  text; its reference tokens are what \<open>parsePointer\<close> reads. An issue is its code. An array has no
  \<open>undefined\<close> element here, as a parsed one has none; an object member may be \<open>undefined\<close>. Lengths of
  arrays and indexes are exact naturals, where the code has doubles that are exact as far as an array is long.
\<close>

section \<open>Pointers\<close>

definition isArrayIndex :: "jstr \<Rightarrow> bool" where
  "isArrayIndex token =
     (case token of [] \<Rightarrow> False
      | c # cs \<Rightarrow> (c = 48 \<and> cs = []) \<or> (49 \<le> c \<and> c \<le> 57 \<and> list_all isDigit cs))"

text \<open>The inner loop of \<open>parsePointer\<close>: one token without its escapes, \<open>None\<close> for an escape that is none.\<close>

fun unescapeToken :: "jstr \<Rightarrow> jstr option" where
  "unescapeToken [] = Some []"
| "unescapeToken (c # raw) =
     (if c \<noteq> 126 then map_option ((#) c) (unescapeToken raw)
      else (case raw of [] \<Rightarrow> None
        | next # rest \<Rightarrow>
            if next \<noteq> 48 \<and> next \<noteq> 49 then None
            else map_option ((#) (if next = 48 then 126 else 47)) (unescapeToken rest)))"

fun unescapeTokens :: "jstr list \<Rightarrow> issue_code + jstr list" where
  "unescapeTokens [] = Inr []"
| "unescapeTokens (raw # raws) =
     (case unescapeToken raw of None \<Rightarrow> Inl POINTER_MALFORMED
      | Some token \<Rightarrow> result_bind (unescapeTokens raws) (\<lambda>tokens. Inr (token # tokens)))"

definition parsePointer :: "jstr \<Rightarrow> issue_code + jstr list" where
  "parsePointer pointer =
     (case pointer of [] \<Rightarrow> Inr []
      | c # rest \<Rightarrow> if c \<noteq> 47 then Inl POINTER_MALFORMED else unescapeTokens (splitOn 47 rest))"

text \<open>A token to be written: a key, or an index as a number.\<close>

datatype pointer_token = Key jstr | Index int

text \<open>\<open>text.replaceAll(from, to)\<close>, for a pattern of one code unit.\<close>

definition replaceAll :: "nat \<Rightarrow> jstr \<Rightarrow> jstr \<Rightarrow> jstr" where
  "replaceAll from to s = concat (map (\<lambda>c. if c = from then to else [c]) s)"

definition escapeToken :: "jstr \<Rightarrow> jstr" where
  "escapeToken token = replaceAll 47 (js ''~1'') (replaceAll 126 (js ''~0'') token)"

fun formatFrom :: "jstr \<Rightarrow> pointer_token list \<Rightarrow> issue_code + jstr" where
  "formatFrom pointer [] = Inr pointer"
| "formatFrom pointer (Index n # tokens) =
     (if \<not> isSafeInteger n \<or> n < 0 then Inl POINTER_MALFORMED
      else formatFrom (pointer @ 47 # decimal (nat n)) tokens)"
| "formatFrom pointer (Key token # tokens) = formatFrom (pointer @ 47 # escapeToken token) tokens"

definition formatPointer :: "pointer_token list \<Rightarrow> issue_code + jstr" where
  "formatPointer tokens = formatFrom [] tokens"

fun getFrom :: "json \<Rightarrow> jstr list \<Rightarrow> issue_code + json option" where
  "getFrom at [] = Inr (Some at)"
| "getFrom at (token # tokens) =
     (case at of
        JArr elements \<Rightarrow>
          if \<not> isArrayIndex token then Inl POINTER_NOT_IN_SCHEMA
          else if numberOf token < length elements then getFrom (elements ! numberOf token) tokens
          else Inr None
      | JObj members \<Rightarrow>
          (case map_of members token of
             Some (Some member) \<Rightarrow> getFrom member tokens
           | _ \<Rightarrow> Inr None)
      | _ \<Rightarrow> Inr None)"

definition getPointer :: "json \<Rightarrow> jstr \<Rightarrow> issue_code + json option" where
  "getPointer v pointer = result_bind (parsePointer pointer) (getFrom v)"

datatype relation = Equal | Ancestor | Descendant | Disjoint

text \<open>The loop looks for the first place where the two differ, among those both have.\<close>

definition relatePointers :: "jstr \<Rightarrow> jstr \<Rightarrow> issue_code + relation" where
  "relatePointers a b =
     result_bind (parsePointer a) (\<lambda>left. result_bind (parsePointer b) (\<lambda>right.
       let shared = min (length left) (length right)
       in Inr (if \<not> list_all (\<lambda>i. left ! i = right ! i) [0..<shared] then Disjoint
               else if length left = length right then Equal
               else if length left < length right then Ancestor else Descendant)))"

section \<open>Patterns\<close>

datatype pattern_token = Exactly jstr | AnyIndex

text \<open>The recursion of \<open>expandPattern\<close>, with what it has found so far and what it throws.\<close>

fun walk :: "pattern_token list \<Rightarrow> json \<Rightarrow> pointer_token list \<Rightarrow> jstr list \<Rightarrow> issue_code + jstr list" where
  "walk [] at path found =
     (if at = JNull then Inr found
      else result_bind (formatPointer path) (\<lambda>pointer. Inr (found @ [pointer])))"
| "walk (token # tokens) at path found =
     (case at of
        JNull \<Rightarrow> Inr found
      | JArr items \<Rightarrow>
          (case token of Exactly _ \<Rightarrow> Inl POINTER_NOT_IN_SCHEMA
           | AnyIndex \<Rightarrow>
               fold (\<lambda>(item, element) sofar. result_bind sofar (walk tokens element (path @ [Index (int item)])))
                 (enumerate 0 items) (Inr found))
      | JObj members \<Rightarrow>
          (case token of AnyIndex \<Rightarrow> Inl POINTER_NOT_IN_SCHEMA
           | Exactly key \<Rightarrow>
               (case map_of members key of
                  Some (Some member) \<Rightarrow> walk tokens member (path @ [Key key]) found
                | _ \<Rightarrow> Inr found))
      | _ \<Rightarrow> Inl POINTER_NOT_IN_SCHEMA)"

definition expandPattern :: "pattern_token list \<Rightarrow> json \<Rightarrow> issue_code + jstr list" where
  "expandPattern pattern v = walk pattern v [] []"

fun stepMatches :: "pattern_token \<Rightarrow> jstr \<Rightarrow> bool" where
  "stepMatches (Exactly key) step \<longleftrightarrow> key = step"
| "stepMatches AnyIndex step \<longleftrightarrow> isArrayIndex step"

definition matchesPattern :: "pattern_token list \<Rightarrow> jstr \<Rightarrow> issue_code + bool" where
  "matchesPattern pattern pointer =
     result_bind (parsePointer pointer) (\<lambda>concrete.
       Inr (length concrete = length pattern \<and> list_all2 stepMatches pattern concrete))"

section \<open>Lemmas on tokens\<close>

lemma escapeToken_simps:
  "escapeToken [] = []"
  "escapeToken (c # s) =
     (if c = 126 then js ''~0'' else if c = 47 then js ''~1'' else [c]) @ escapeToken s"
  by (simp_all add: escapeToken_def replaceAll_def js_eval)

lemma escapeToken_clean: "47 \<notin> set (escapeToken s)"
  by (induction s) (simp_all add: escapeToken_simps js_eval)

lemma unescape_escape: "unescapeToken (escapeToken s) = Some s"
  by (induction s) (simp_all add: escapeToken_simps js_eval)

lemma escape_unescape: "47 \<notin> set raw \<Longrightarrow> unescapeToken raw = Some token \<Longrightarrow> escapeToken token = raw"
proof (induction raw arbitrary: token rule: unescapeToken.induct)
  case (2 c raw)
  then show ?case
    by (auto simp: escapeToken_simps js_eval split: if_splits list.splits)
qed (simp add: escapeToken_simps)

text \<open>A pointer written out: each token after its slash.\<close>

definition written :: "jstr list \<Rightarrow> jstr" where
  "written tokens = concat (map (\<lambda>t. 47 # escapeToken t) tokens)"

lemma written_simps [simp]: "written [] = []" "written (t # ts) = 47 # escapeToken t @ written ts"
  by (simp_all add: written_def)

lemma written_append [simp]: "written (ts @ us) = written ts @ written us"
  by (simp add: written_def)

lemma unescapeTokens_escaped: "unescapeTokens (map escapeToken ts) = Inr ts"
  by (induction ts) (simp_all add: unescape_escape)

lemma splitOn_written: "splitOn 47 (escapeToken t @ written ts) = escapeToken t # map escapeToken ts"
proof (induction ts arbitrary: t)
  case (Cons u ts)
  then show ?case
    using splitOn_append [of 47 "escapeToken t" "escapeToken u @ written ts"] by (simp add: escapeToken_clean)
qed (simp add: splitOn_clean escapeToken_clean)

lemma parse_written: "parsePointer (written ts) = Inr ts"
proof (cases ts)
  case (Cons t us)
  then show ?thesis
    using unescapeTokens_escaped [of "t # us"] by (simp add: parsePointer_def splitOn_written)
qed (simp add: parsePointer_def)

lemma unescapeTokens_Inr:
  "unescapeTokens raws = Inr ts \<Longrightarrow> (\<And>raw. raw \<in> set raws \<Longrightarrow> 47 \<notin> set raw) \<Longrightarrow>
     raws = map escapeToken ts"
proof (induction raws arbitrary: ts)
  case (Cons raw raws)
  obtain t us where "unescapeToken raw = Some t" "unescapeTokens raws = Inr us" "ts = t # us"
    using Cons.prems(1) by (auto simp: result_bind_eq_Inr split: option.splits)
  then show ?case
    using Cons.IH [of us] Cons.prems(2) escape_unescape [of raw t] by simp
qed simp

lemma join_written: "join [47] (escapeToken t # map escapeToken ts) = escapeToken t @ written ts"
  by (induction ts arbitrary: t) simp_all

lemma parse_Inr: "parsePointer p = Inr ts \<longleftrightarrow> p = written ts"
proof
  assume parsed: "parsePointer p = Inr ts"
  show "p = written ts"
  proof (cases p)
    case Nil
    with parsed show ?thesis
      by (simp add: parsePointer_def)
  next
    case (Cons c rest)
    then have c: "c = 47" and "unescapeTokens (splitOn 47 rest) = Inr ts"
      using parsed by (simp_all add: parsePointer_def split: if_splits)
    then have parts: "splitOn 47 rest = map escapeToken ts"
      using unescapeTokens_Inr splitOn_parts by blast
    then obtain t us where "ts = t # us"
      by (cases ts) simp_all
    then show ?thesis
      using Cons c parts splitOn_join [of 47 rest] join_written [of t us] by simp
  qed
qed (simp add: parse_written)

text \<open>The text of a token.\<close>

fun tokenText :: "pointer_token \<Rightarrow> jstr" where
  "tokenText (Key k) = k"
| "tokenText (Index n) = decimal (nat n)"

fun tokenOk :: "pointer_token \<Rightarrow> bool" where
  "tokenOk (Key _) \<longleftrightarrow> True"
| "tokenOk (Index n) \<longleftrightarrow> isSafeInteger n \<and> 0 \<le> n"

lemma escape_decimal: "escapeToken (decimal n) = decimal n"
proof -
  have "list_all isDigit s \<Longrightarrow> escapeToken s = s" for s
    by (induction s) (auto simp: escapeToken_simps isDigit_def)
  then show ?thesis
    by (simp add: list_all_iff decimal_digits)
qed

lemma formatFrom_Inr:
  "formatFrom p tokens = Inr q \<longleftrightarrow> list_all tokenOk tokens \<and> q = p @ written (map tokenText tokens)"
proof (induction p tokens rule: formatFrom.induct)
  case (2 p n tokens)
  then show ?case
    by (auto simp: escape_decimal)
qed auto

lemma format_Inr:
  "formatPointer tokens = Inr q \<longleftrightarrow> list_all tokenOk tokens \<and> q = written (map tokenText tokens)"
  by (simp add: formatPointer_def formatFrom_Inr)

lemma format_Inl: "\<not> list_all tokenOk tokens \<Longrightarrow> formatPointer tokens = Inl POINTER_MALFORMED"
proof -
  have "\<not> list_all tokenOk tokens \<Longrightarrow> formatFrom p tokens = Inl POINTER_MALFORMED" for p
    by (induction p tokens rule: formatFrom.induct) auto
  then show "\<not> list_all tokenOk tokens \<Longrightarrow> formatPointer tokens = Inl POINTER_MALFORMED"
    by (simp add: formatPointer_def)
qed

lemma decimal_isArrayIndex: "isArrayIndex (decimal n)"
proof (induction n rule: decimal.induct)
  case (1 n)
  show ?case
  proof (cases "n < 10")
    case True
    then show ?thesis
      by (subst decimal.simps) (auto simp: isArrayIndex_def)
  next
    case False
    then have "n div 10 \<noteq> 0"
      by simp
    then have "decimal (n div 10) \<noteq> [48]"
      using numberOf_decimal [of "n div 10"] by (auto simp: numberOf_def)
    moreover have "isDigit (48 + n mod 10)"
      by (simp add: isDigit_def)
    ultimately show ?thesis
      using False 1 by (subst decimal.simps) (auto simp: isArrayIndex_def split: list.splits)
  qed
qed

lemma getFrom_append:
  "getFrom v (ts @ us) =
     (case getFrom v ts of Inl e \<Rightarrow> Inl e | Inr None \<Rightarrow> Inr None | Inr (Some w) \<Rightarrow> getFrom w us)"
  by (induction v ts rule: getFrom.induct) (auto split: json.splits option.splits)

lemma index_text: "isArrayIndex t \<Longrightarrow> decimal (numberOf t) = t"
proof (induction t rule: rev_induct)
  case (snoc c t)
  show ?case
  proof (cases t)
    case Nil
    then show ?thesis
      using snoc.prems by (subst decimal.simps) (auto simp: isArrayIndex_def numberOf_def)
  next
    case (Cons d ds)
    have c: "48 \<le> c" "c \<le> 57" and t: "isArrayIndex t" "t \<noteq> [48]"
      using snoc.prems Cons by (auto simp: isArrayIndex_def isDigit_def)
    have "decimal 0 = [48]"
      by (subst decimal.simps) simp
    then have "numberOf t \<noteq> 0"
      using snoc.IH [OF t(1)] t(2) by metis
    moreover have "numberOf (t @ [c]) = 10 * numberOf t + (c - 48)"
      by (simp add: numberOf_def)
    moreover obtain e where "c = 48 + e" "e \<le> 9"
      using c le_Suc_ex [of 48 c] by auto
    ultimately show ?thesis
      using snoc.IH [OF t(1)] by (subst decimal.simps) simp
  qed
qed (simp add: isArrayIndex_def)

declare written_simps [simp del] written_append [simp del]

section \<open>What an expansion finds\<close>

text \<open>The pointers below \<open>path\<close> that a pattern names in a value and that lead to something other than \<open>null\<close>.\<close>

definition hits :: "pattern_token list \<Rightarrow> json \<Rightarrow> pointer_token list \<Rightarrow> jstr set" where
  "hits pattern v path =
     {written (map tokenText path @ ts) | ts. list_all2 stepMatches pattern ts
        \<and> (\<exists>w. getFrom v ts = Inr (Some w) \<and> w \<noteq> JNull)}"

lemma written_inject [simp]: "written ts = written us \<longleftrightarrow> ts = us"
  by (metis Inr_inject parse_written)

lemma hits_Nil: "hits [] v path = (if v = JNull then {} else {written (map tokenText path)})"
  by (auto simp: hits_def)

lemma hits_null: "hits pattern JNull path = {}"
  by (cases pattern) (auto simp: hits_def list_all2_Cons1)

lemma hits_key:
  "hits (Exactly key # pattern) (JObj members) path =
     (case map_of members key of Some (Some m) \<Rightarrow> hits pattern m (path @ [Key key]) | _ \<Rightarrow> {})"
proof (cases "map_of members key")
  case (Some member)
  then show ?thesis
    by (cases member) (force simp: hits_def list_all2_Cons1)+
qed (auto simp: hits_def list_all2_Cons1)

lemma hits_index:
  "hits (AnyIndex # pattern) (JArr items) path =
     (\<Union>i < length items. hits pattern (items ! i) (path @ [Index (int i)]))" (is "?l = ?r")
proof (intro equalityI subsetI)
  fix p
  assume "p \<in> ?l"
  then obtain t ts w where p: "p = written (map tokenText path @ t # ts)" "isArrayIndex t"
    "list_all2 stepMatches pattern ts" "getFrom (JArr items) (t # ts) = Inr (Some w)" "w \<noteq> JNull"
    by (auto simp: hits_def list_all2_Cons1)
  then have "numberOf t < length items" "getFrom (items ! numberOf t) ts = Inr (Some w)"
    by (simp_all split: if_splits)
  moreover have "tokenText (Index (int (numberOf t))) = t"
    using p(2) by (simp add: index_text)
  ultimately show "p \<in> ?r"
    using p unfolding hits_def by (fastforce simp: index_text)
next
  fix p
  assume "p \<in> ?r"
  then obtain i ts w where "i < length items" "p = written (map tokenText (path @ [Index (int i)]) @ ts)"
    "list_all2 stepMatches pattern ts" "getFrom (items ! i) ts = Inr (Some w)" "w \<noteq> JNull"
    by (auto simp: hits_def)
  then have "p = written (map tokenText path @ decimal i # ts)"
    "list_all2 stepMatches (AnyIndex # pattern) (decimal i # ts)"
    "getFrom (JArr items) (decimal i # ts) = Inr (Some w)" "w \<noteq> JNull"
    by (simp_all add: decimal_isArrayIndex)
  then show "p \<in> ?l"
    unfolding hits_def by blast
qed

lemma decimal_eq [simp]: "decimal i = decimal j \<longleftrightarrow> i = j"
  by (metis numberOf_decimal)

lemma hits_apart:
  assumes "p \<in> hits pattern v (path @ [Index (int i)])" "p \<in> hits pattern w (path @ [Index (int j)])"
  shows "i = j"
  using assms by (auto simp: hits_def)

lemma fold_Inl: "fold (\<lambda>x sofar. result_bind sofar (f x)) xs (Inl e) = Inl e"
  by (induction xs) simp_all

definition extends :: "jstr list \<Rightarrow> jstr list \<Rightarrow> jstr set \<Rightarrow> bool" where
  "extends found out S \<longleftrightarrow> (\<exists>new. out = found @ new \<and> set new = S \<and> distinct new)"

lemma extends_trans:
  "extends a b S \<Longrightarrow> extends b c T \<Longrightarrow> S \<inter> T = {} \<Longrightarrow> extends a c (S \<union> T)"
  unfolding extends_def by fastforce

lemma walk_items:
  assumes step: "\<And>at path found out. walk pattern at path found = Inr out \<Longrightarrow> extends found out (hits pattern at path)"
  shows "fold (\<lambda>(item, element) sofar. result_bind sofar (walk pattern element (path @ [Index (int item)])))
      (enumerate n items) (Inr found) = Inr out \<Longrightarrow>
    extends found out (\<Union>i < length items. hits pattern (items ! i) (path @ [Index (int (n + i))]))"
proof (induction items arbitrary: n found)
  case Nil
  then show ?case
    by (simp add: extends_def)
next
  case (Cons x items)
  let ?later = "\<Union>i < length items. hits pattern (items ! i) (path @ [Index (int (Suc n + i))])"
  obtain mid where mid: "walk pattern x (path @ [Index (int n)]) found = Inr mid"
    using Cons.prems
    by (cases "walk pattern x (path @ [Index (int n)]) found")
      (simp_all add: case_prod_unfold fold_Inl)
  then have first: "extends found mid (hits pattern x (path @ [Index (int n)]))"
    by (rule step)
  have rest: "extends mid out ?later"
    using Cons.IH [of "Suc n" mid] Cons.prems mid by simp
  have "False" if "p \<in> hits pattern x (path @ [Index (int n)])" "p \<in> ?later" for p
  proof -
    from that(2) obtain i where "p \<in> hits pattern (items ! i) (path @ [Index (int (Suc n + i))])"
      by blast
    from hits_apart [OF that(1) this] show False
      by simp
  qed
  then have "hits pattern x (path @ [Index (int n)]) \<inter> ?later = {}"
    by blast
  moreover have "(\<Union>i < length (x # items). hits pattern ((x # items) ! i) (path @ [Index (int (n + i))]))
      = hits pattern x (path @ [Index (int n)]) \<union> ?later"
    by (simp add: lessThan_Suc_eq_insert_0 image_Union algebra_simps del: lessThan_Suc)
  ultimately show ?case
    using extends_trans [OF first rest] by simp
qed

lemma walk_extends:
  "walk pattern v path found = Inr out \<Longrightarrow> extends found out (hits pattern v path)"
proof (induction pattern arbitrary: v path found out)
  case Nil
  then show ?case
    by (auto simp: extends_def hits_Nil result_bind_eq_Inr format_Inr split: if_splits)
next
  case (Cons token pattern)
  show ?case
  proof (cases v)
    case (JArr items)
    then show ?thesis
      using Cons.prems walk_items [of pattern path 0 items found out, OF Cons.IH]
      by (cases token) (simp_all add: hits_index)
  next
    case (JObj members)
    then show ?thesis
      using Cons by (auto simp: hits_key extends_def split: pattern_token.splits option.splits)
  qed (use Cons.prems in \<open>auto simp: hits_null extends_def\<close>)
qed

section \<open>Properties\<close>

text \<open>
  C32. A pointer and its tokens are two forms of one thing: \<open>parsePointer\<close> reads what \<open>formatPointer\<close> writes,
  keys and indexes alike, and every pointer it reads is the one its tokens are written as, so no two pointers name
  the same path.
\<close>
theorem pointers_read_back:
  "(parsePointer p = Inr ts \<longleftrightarrow> formatPointer (map Key ts) = Inr p)
   \<and> (formatPointer tokens = Inr q \<longrightarrow> parsePointer q = Inr (map tokenText tokens))"
proof -
  have "list_all tokenOk (map Key ts)" "map tokenText (map Key ts) = ts"
    by (simp_all add: list_all_iff comp_def)
  then show ?thesis
    by (auto simp: parse_Inr format_Inr)
qed

lemma pointers_read_back_witness:
  "parsePointer (js ''/a~1b/7'') = Inr [js ''a/b'', js ''7'']"
proof -
  have "formatPointer [Key (js ''a/b''), Index 7] = Inr (js ''/a~1b/7'')"
    by code_simp
  then have "parsePointer (js ''/a~1b/7'') = Inr (map tokenText [Key (js ''a/b''), Index 7])"
    using pointers_read_back by blast
  then show ?thesis
    by (simp add: js_eval decimal.simps)
qed

text \<open>
  What is an ancestor holds what is below it: one pointer is the ancestor of another exactly when its tokens begin
  the other's, and then what the longer one names is found, or not, below what the shorter one names. The relation
  turned round is the other relation.
\<close>
lemma ancestors_hold:
  assumes "relatePointers a b = Inr Ancestor"
  shows "\<exists>above below. parsePointer a = Inr above \<and> below \<noteq> [] \<and> parsePointer b = Inr (above @ below)
    \<and> getPointer v b = (case getPointer v a of Inr (Some w) \<Rightarrow> getFrom w below | other \<Rightarrow> other)
    \<and> relatePointers b a = Inr Descendant"
proof -
  obtain above whole where parsed: "parsePointer a = Inr above" "parsePointer b = Inr whole"
    using assms by (auto simp: relatePointers_def result_bind_eq_Inr)
  then have shorter: "length above < length whole" and same: "\<forall>i < length above. above ! i = whole ! i"
    using assms by (auto simp: relatePointers_def Let_def list_all_iff split: if_splits)
  define below where "below = drop (length above) whole"
  have "above = take (length above) whole"
    using shorter same by (intro nth_equalityI) simp_all
  then have whole: "whole = above @ below"
    by (metis append_take_drop_id below_def)
  have "below \<noteq> []"
    using shorter by (simp add: below_def)
  moreover have "getPointer v b = (case getPointer v a of Inr (Some w) \<Rightarrow> getFrom w below | other \<Rightarrow> other)"
    using parsed whole by (auto simp: getPointer_def getFrom_append split: sum.splits option.splits)
  moreover have "relatePointers b a = Inr Descendant"
    using parsed shorter same by (simp add: relatePointers_def Let_def list_all_iff)
  ultimately show ?thesis
    using parsed whole by blast
qed

lemma ancestors_hold_witness:
  "relatePointers (js ''/a/b'') (js ''/a'') = Inr Descendant
   \<and> relatePointers (js ''/a'') (js ''/ab'') = Inr Disjoint"
proof -
  have "relatePointers (js ''/a'') (js ''/a/b'') = Inr Ancestor"
    by code_simp
  from ancestors_hold [OF this, of JNull] have "relatePointers (js ''/a/b'') (js ''/a'') = Inr Descendant"
    by blast
  moreover have "relatePointers (js ''/a'') (js ''/ab'') = Inr Disjoint"
    by code_simp
  ultimately show ?thesis
    by blast
qed

text \<open>
  C31. An expansion names each present value of the pattern once, and nothing else: the pointers found are exactly those
  that match the pattern and lead to a value other than \<open>null\<close>.
\<close>
theorem expansion_is_exact:
  assumes "expandPattern pattern v = Inr found"
  shows "distinct found \<and> (\<forall>p. p \<in> set found \<longleftrightarrow> matchesPattern pattern p = Inr True
    \<and> (\<exists>w. getPointer v p = Inr (Some w) \<and> w \<noteq> JNull))"
proof -
  have "extends [] found (hits pattern v [])"
    using assms by (simp add: expandPattern_def walk_extends)
  then have "distinct found" "set found = hits pattern v []"
    by (simp_all add: extends_def)
  moreover have "p \<in> hits pattern v [] \<longleftrightarrow> matchesPattern pattern p = Inr True
      \<and> (\<exists>w. getPointer v p = Inr (Some w) \<and> w \<noteq> JNull)" for p
    by (auto simp: hits_def matchesPattern_def getPointer_def result_bind_eq_Inr parse_Inr parse_written
        dest: list_all2_lengthD [symmetric])
  ultimately show ?thesis
    by simp
qed

lemma expansion_is_exact_witness:
  "matchesPattern [Exactly (js ''to''), AnyIndex] (js ''/to/2'') = Inr True
   \<and> matchesPattern [Exactly (js ''to''), AnyIndex] (js ''/to/01'') \<noteq> Inr True"
proof -
  let ?v = "JObj [(js ''to'', Some (JArr [JBool True, JNull, JNum 3]))]"
  have found: "expandPattern [Exactly (js ''to''), AnyIndex] ?v = Inr [js ''/to/0'', js ''/to/2'']"
    by code_simp
  have "matchesPattern [Exactly (js ''to''), AnyIndex] (js ''/to/2'') = Inr True"
    using expansion_is_exact [OF found] by (meson list.set_intros)
  moreover have "matchesPattern [Exactly (js ''to''), AnyIndex] (js ''/to/01'') = Inr False"
    by code_simp
  ultimately show ?thesis
    by simp
qed

end
