(* ===== verification/EventPunycode.thy ===== *)
theory EventPunycode
  imports EventText "HOL-Library.Code_Target_Nat"
begin

text \<open>
  Punycode: \<open>packages/events/src/idna/punycode.ts\<close>. A label is its list of code points. The numbers stay below
  \<open>2\<^sup>31\<close>, where the code's doubles are exact, so they are naturals; \<open>undefined\<close> is \<open>None\<close>.
\<close>

section \<open>The two algorithms\<close>

definition BASE :: nat where "BASE = 36"
definition T_MIN :: nat where "T_MIN = 1"
definition T_MAX :: nat where "T_MAX = 26"
definition SKEW :: nat where "SKEW = 38"
definition DAMP :: nat where "DAMP = 700"
definition INITIAL_BIAS :: nat where "INITIAL_BIAS = 72"
definition INITIAL_N :: nat where "INITIAL_N = 128"
definition DELIMITER :: nat where "DELIMITER = 45"
definition MAX_INT :: nat where "MAX_INT = 2147483647"

lemmas punycode_numbers = BASE_def T_MIN_def T_MAX_def SKEW_def DAMP_def INITIAL_BIAS_def INITIAL_N_def
  DELIMITER_def MAX_INT_def

function adaptLoop :: "nat \<Rightarrow> nat \<Rightarrow> nat \<times> nat" where
  "adaptLoop scaled k =
     (if scaled > (BASE - T_MIN) * T_MAX div 2 then adaptLoop (scaled div (BASE - T_MIN)) (k + BASE) else (scaled, k))"
  by pat_completeness auto
termination
  by (relation "measure fst") (auto simp: punycode_numbers)

declare adaptLoop.simps [simp del]

definition adapt :: "nat \<Rightarrow> nat \<Rightarrow> bool \<Rightarrow> nat" where
  "adapt delta points first =
     (let halved = (if first then delta div DAMP else delta div 2);
          (scaled, k) = adaptLoop (halved + halved div points) 0
      in k + (BASE - T_MIN + 1) * scaled div (scaled + SKEW))"

definition digitOf :: "nat \<Rightarrow> nat option" where
  "digitOf point =
     (if 48 \<le> point \<and> point \<le> 57 then Some (point - 48 + 26)
      else if 65 \<le> point \<and> point \<le> 90 then Some (point - 65)
      else if 97 \<le> point \<and> point \<le> 122 then Some (point - 97)
      else None)"

definition digitPoint :: "nat \<Rightarrow> nat" where
  "digitPoint digit = (if digit < 26 then 97 + digit else 48 + digit - 26)"

definition threshold :: "nat \<Rightarrow> nat \<Rightarrow> nat" where
  "threshold k bias = (if k \<le> bias then T_MIN else if k \<ge> bias + T_MAX then T_MAX else k - bias)"

text \<open>The inner loop of the decoder: one number, from what is left of the input, and what is left after it.\<close>

fun readNumber :: "nat list \<Rightarrow> nat \<Rightarrow> nat \<Rightarrow> nat \<Rightarrow> nat \<Rightarrow> (nat \<times> nat list) option" where
  "readNumber [] i w k bias = None"
| "readNumber (point # rest) i w k bias =
     (case digitOf point of None \<Rightarrow> None
      | Some digit \<Rightarrow>
          if digit > (MAX_INT - i) div w then None
          else let i' = i + digit * w; t = threshold k bias
               in if digit < t then Some (i', rest)
                  else if w > MAX_INT div (BASE - t) then None
                  else readNumber rest i' (w * (BASE - t)) (k + BASE) bias)"

lemma readNumber_shorter: "readNumber input i w k bias = Some (j, rest) \<Longrightarrow> length rest < length input"
  by (induction input i w k bias rule: readNumber.induct)
    (fastforce simp: Let_def less_Suc_eq split: option.splits if_splits)+

function decodeLoop :: "nat list \<Rightarrow> nat list \<Rightarrow> nat \<Rightarrow> nat \<Rightarrow> nat \<Rightarrow> nat list option" where
  "decodeLoop input output n i bias =
     (if input = [] then Some output
      else case readNumber input i 1 BASE bias of None \<Rightarrow> None
        | Some (i', rest) \<Rightarrow>
            let len = length output + 1; bias' = adapt (i' - i) len (i = 0)
            in if i' div len > MAX_INT - n then None
               else let n' = n + i' div len; at = i' mod len
                    in if n' < 128 \<or> (55296 \<le> n' \<and> n' \<le> 57343) \<or> n' > 1114111 then None
                       else decodeLoop rest (take at output @ [n'] @ drop at output) n' (at + 1) bias')"
  by pat_completeness auto
termination
  by (relation "measure (\<lambda>(input, _). length input)") (auto dest: readNumber_shorter)

declare decodeLoop.simps [simp del]

definition lastDelimiter :: "nat list \<Rightarrow> nat option" where
  "lastDelimiter input =
     (if DELIMITER \<in> set input then Some (length input - 1 - length (takeWhile (\<lambda>p. p \<noteq> DELIMITER) (rev input)))
      else None)"

definition decodePunycode :: "nat list \<Rightarrow> nat list option" where
  "decodePunycode input =
     (let delimiter = lastDelimiter input;
          basic = (case delimiter of None \<Rightarrow> [] | Some d \<Rightarrow> take d input)
      in if \<not> list_all (\<lambda>point. point < 128) basic then None
         else decodeLoop (case delimiter of None \<Rightarrow> input | Some d \<Rightarrow> if d > 0 then drop (d + 1) input else input)
           basic INITIAL_N 0 INITIAL_BIAS)"

text \<open>The digits of one number.\<close>

function encodeNumber :: "nat \<Rightarrow> nat \<Rightarrow> nat \<Rightarrow> nat list" where
  "encodeNumber bias q k =
     (let t = threshold k bias
      in if q < t then [digitPoint q]
         else digitPoint (t + (q - t) mod (BASE - t)) # encodeNumber bias ((q - t) div (BASE - t)) (k + BASE))"
  by pat_completeness auto
termination
proof (relation "measure (\<lambda>(_, q, _). q)")
  fix bias q k t :: nat
  assume "t = threshold k bias" "\<not> q < t"
  then have "1 \<le> t" "t \<le> 26" "t \<le> q"
    by (auto simp: threshold_def punycode_numbers split: if_splits)
  then have "(q - t) div (36 - t) < q"
    by (intro le_less_trans [OF div_le_dividend]) simp
  then show "((bias, (q - t) div (BASE - t), k + BASE), bias, q, k) \<in> measure (\<lambda>(_, q, _). q)"
    by (simp add: BASE_def)
qed simp

declare encodeNumber.simps [simp del]

text \<open>One pass over the label, for the points that are \<open>n\<close>.\<close>

record punycode_state =
  py_output :: "nat list"
  py_delta :: nat
  py_bias :: nat
  py_handled :: nat

fun encodePass :: "nat \<Rightarrow> nat \<Rightarrow> nat list \<Rightarrow> punycode_state \<Rightarrow> punycode_state option" where
  "encodePass basic n [] st = Some st"
| "encodePass basic n (point # points) st =
     (if point < n \<and> py_delta st + 1 > MAX_INT then None
      else let st1 = (if point < n then st\<lparr>py_delta := py_delta st + 1\<rparr> else st);
               st2 = (if point = n
                      then \<lparr>py_output = py_output st1 @ encodeNumber (py_bias st1) (py_delta st1) BASE, py_delta = 0,
                            py_bias = adapt (py_delta st1) (py_handled st1 + 1) (py_handled st1 = basic),
                            py_handled = py_handled st1 + 1\<rparr>
                      else st1)
           in encodePass basic n points st2)"

text \<open>The loop for the least point that is not handled.\<close>

definition leastFrom :: "nat \<Rightarrow> nat list \<Rightarrow> nat" where
  "leastFrom n input = fold (\<lambda>point m. if point \<ge> n \<and> point < m then point else m) input MAX_INT"

lemma leastFrom_fold:
  fixes input :: "nat list" and n :: nat
  defines "least \<equiv> fold (\<lambda>point m. if point \<ge> n \<and> point < m then point else m)"
  shows "least input m \<le> m \<and> (\<forall>p \<in> set input. n \<le> p \<longrightarrow> least input m \<le> p)
    \<and> (least input m = m \<or> least input m \<in> set input \<and> n \<le> least input m)"
  unfolding least_def
proof (induction input arbitrary: m)
  case (Cons a input)
  show ?case
    using Cons.IH [of "if n \<le> a \<and> a < m then a else m"] by (cases "n \<le> a \<and> a < m") (simp_all, auto)
qed simp

lemma leastFrom:
  assumes "leastFrom n input \<noteq> MAX_INT"
  shows "leastFrom n input \<in> set input" "n \<le> leastFrom n input" "\<And>p. p \<in> set input \<Longrightarrow> n \<le> p \<Longrightarrow> leastFrom n input \<le> p"
  using assms leastFrom_fold [where n = n and input = input and m = MAX_INT] by (auto simp: leastFrom_def)

text \<open>
  The passes. \<open>handled\<close> counts the points below \<open>n\<close>, so while it is below the length there is a point left, and the
  least of those is not \<open>MAX_INT\<close>; the case that it is, where the code would go on, does not come up for code points.
\<close>

function encodeLoop :: "nat list \<Rightarrow> nat \<Rightarrow> nat \<Rightarrow> punycode_state \<Rightarrow> nat list option" where
  "encodeLoop input basic n st =
     (if \<not> py_handled st < length input then Some (py_output st)
      else let m = leastFrom n input
           in if m = MAX_INT \<or> m - n > (MAX_INT - py_delta st) div (py_handled st + 1) then None
              else (case encodePass basic m input (st\<lparr>py_delta := py_delta st + (m - n) * (py_handled st + 1)\<rparr>) of
                      None \<Rightarrow> None
                    | Some st' \<Rightarrow> encodeLoop input basic (m + 1) (st'\<lparr>py_delta := py_delta st' + 1\<rparr>)))"
  by pat_completeness auto
termination
proof (relation "measure (\<lambda>(input, _, n, _). length (filter (\<lambda>point. n \<le> point) input))")
  fix input :: "nat list" and basic n m :: nat and st st' :: punycode_state
  assume "m = leastFrom n input" "\<not> (m = MAX_INT \<or> m - n > (MAX_INT - py_delta st) div (py_handled st + 1))"
  then have m: "m \<in> set input" "n \<le> m"
    using leastFrom [of n input] by auto
  have "filter (\<lambda>point. m + 1 \<le> point) input = filter (\<lambda>point. m + 1 \<le> point) (filter (\<lambda>point. n \<le> point) input)"
    using m(2) by (auto intro!: filter_cong)
  moreover have "m \<in> set (filter (\<lambda>point. n \<le> point) input)"
    using m by simp
  ultimately have "length (filter (\<lambda>point. m + 1 \<le> point) input) < length (filter (\<lambda>point. n \<le> point) input)"
    using length_filter_less [of m "filter (\<lambda>point. n \<le> point) input" "\<lambda>point. m + 1 \<le> point"] by simp
  then show "((input, basic, m + 1, st'\<lparr>py_delta := py_delta st' + 1\<rparr>), input, basic, n, st)
      \<in> measure (\<lambda>(input, _, n, _). length (filter (\<lambda>point. n \<le> point) input))"
    by simp
qed simp

declare encodeLoop.simps [simp del]

definition encodePunycode :: "nat list \<Rightarrow> nat list option" where
  "encodePunycode input =
     (let basics = filter (\<lambda>point. point < 128) input
      in encodeLoop input (length basics) INITIAL_N
           \<lparr>py_output = (if basics = [] then basics else basics @ [DELIMITER]), py_delta = 0,
             py_bias = INITIAL_BIAS, py_handled = length basics\<rparr>)"

section \<open>One number\<close>

lemma threshold_bounds: "1 \<le> threshold k bias" "threshold k bias \<le> 26"
  by (auto simp: threshold_def punycode_numbers)

lemma threshold_one: "threshold k bias = 1 \<longleftrightarrow> k \<le> bias + 1"
  by (auto simp: threshold_def punycode_numbers)

lemma digitOf_digitPoint: "d < 36 \<Longrightarrow> digitOf (digitPoint d) = Some d"
  by (auto simp: digitOf_def digitPoint_def)

lemma digitPoint_plain: "d < 36 \<Longrightarrow> digitPoint d < 128 \<and> digitPoint d \<noteq> DELIMITER"
  by (auto simp: digitPoint_def DELIMITER_def)

lemma encodeNumber_plain: "p \<in> set (encodeNumber bias q k) \<Longrightarrow> p < 128 \<and> p \<noteq> DELIMITER"
proof (induction bias q k rule: encodeNumber.induct)
  case (1 bias q k)
  let ?t = "threshold k bias"
  have t: "1 \<le> ?t" "?t \<le> 26"
    by (rule threshold_bounds)+
  then have "(q - ?t) mod (BASE - ?t) < BASE - ?t"
    by (intro mod_less_divisor) (simp add: BASE_def)
  then have "?t + (q - ?t) mod (BASE - ?t) < 36"
    unfolding BASE_def by linarith
  then show ?case
    using 1 t digitPoint_plain by (subst (asm) encodeNumber.simps) (auto simp: Let_def split: if_splits)
qed

text \<open>
  A number that stays well below the bound of the decoder, from a weight it can have reached: the first weights are
  powers of 35, as long as the threshold is 1.
\<close>

definition reachedWeight :: "nat \<Rightarrow> nat \<Rightarrow> nat \<Rightarrow> bool" where
  "reachedWeight w k bias \<longleftrightarrow> 1 \<le> w \<and> (k \<le> bias + 1 \<longrightarrow> (\<exists>a. w = 35 ^ a))"

lemma weighted_sum: "(q :: nat) = x + y * b \<Longrightarrow> i + x * w + y * (w * b) = i + q * w"
  by (simp add: algebra_simps)

lemma place_of:
  assumes "c \<le> l"
  shows "(x * (l + 1) + c) div (l + 1) = (x :: nat)" "(x * (l + 1) + c) mod (l + 1) = c"
  using assms by (simp_all only: div_mult_self3 mod_mult_self3) simp_all

lemma readNumber_encodeNumber:
  assumes "reachedWeight w k bias" "i + q * w \<le> 100000000"
  shows "readNumber (encodeNumber bias q k @ rest) i w k bias = Some (i + q * w, rest)"
  using assms
proof (induction bias q k arbitrary: i w rule: encodeNumber.induct)
  case (1 bias q k)
  let ?t = "threshold k bias"
  have t: "1 \<le> ?t" "?t \<le> 26"
    by (rule threshold_bounds)+
  have w: "1 \<le> w"
    using "1.prems"(1) by (simp add: reachedWeight_def)
  have fits: "d \<le> (MAX_INT - i) div w" if "d \<le> q" for d
  proof -
    have "d * w \<le> q * w"
      using that by simp
    then have "d * w \<le> MAX_INT - i"
      using "1.prems"(2) unfolding MAX_INT_def by linarith
    then show ?thesis
      using w by (simp add: less_eq_div_iff_mult_less_eq)
  qed
  show ?case
  proof (cases "q < ?t")
    case True
    then show ?thesis
      using t fits [of q] by (subst encodeNumber.simps) (simp add: Let_def digitOf_digitPoint not_less)
  next
    case False
    let ?r = "(q - ?t) mod (BASE - ?t)"
    let ?q = "(q - ?t) div (BASE - ?t)"
    have r: "?t + ?r < 36"
    proof -
      have "?r < BASE - ?t"
        using t by (intro mod_less_divisor) (simp add: BASE_def)
      then show ?thesis
        unfolding BASE_def by linarith
    qed
    have split: "q = (?t + ?r) + ?q * (BASE - ?t)"
      using False mod_div_mult_eq [of "q - ?t" "BASE - ?t"] by linarith
    then have "?t + ?r \<le> q"
      by linarith
    have "?t * w \<le> q * w"
      using False by simp
    then have small: "?t * w \<le> 100000000"
      using "1.prems"(2) by linarith
    have next_weight: "w * (BASE - ?t) \<le> MAX_INT"
    proof (cases "k \<le> bias + 1")
        case True
        then obtain a where a: "w = 35 ^ a"
          using "1.prems"(1) by (auto simp: reachedWeight_def)
        have "?t = 1"
          using True by (simp only: threshold_one)
        then have "(35 :: nat) ^ a < 35 ^ 6"
          using small a by simp
        then have "a < 6"
          by (rule power_less_imp_less_exp [rotated]) simp
        then have "(35 :: nat) ^ a \<le> 35 ^ 5"
          by (intro power_increasing) simp_all
        then show ?thesis
          using a \<open>?t = 1\<close> by (simp add: punycode_numbers)
      next
        case False
        then have "2 \<le> ?t"
          using t(1) threshold_one [of k bias] by linarith
        then have "2 * w \<le> ?t * w"
          by simp
        then have "w \<le> 50000000"
          using small by linarith
        then have "w * (BASE - ?t) \<le> 50000000 * 34"
          using \<open>2 \<le> ?t\<close> by (intro mult_le_mono) (simp_all add: BASE_def)
        then show ?thesis
          by (simp add: MAX_INT_def)
      qed
    have reached: "reachedWeight (w * (BASE - ?t)) (k + BASE) bias"
    proof -
      have "\<exists>a. w * (BASE - ?t) = 35 ^ a" if "k + BASE \<le> bias + 1"
      proof -
        have "k \<le> bias + 1"
          using that by (simp add: BASE_def)
        then have "?t = 1"
          by (simp only: threshold_one)
        with \<open>k \<le> bias + 1\<close> obtain a where "w = 35 ^ a"
          using "1.prems"(1) by (auto simp: reachedWeight_def)
        then have "w * (BASE - ?t) = 35 ^ Suc a"
          using \<open>?t = 1\<close> by (simp add: BASE_def)
        then show ?thesis
          by blast
      qed
      then show ?thesis
        using w t by (simp add: reachedWeight_def BASE_def Suc_le_eq)
    qed
    have sum: "i + (?t + ?r) * w + ?q * (w * (BASE - ?t)) = i + q * w"
      by (rule weighted_sum [OF split])
    have "readNumber (encodeNumber bias ?q (k + BASE) @ rest) (i + (?t + ?r) * w) (w * (BASE - ?t)) (k + BASE) bias
        = Some (i + q * w, rest)"
      using "1.IH" [OF refl False reached] sum "1.prems"(2) by simp
    moreover have "\<not> MAX_INT div (BASE - ?t) < w"
      using next_weight t by (simp add: not_less BASE_def less_eq_div_iff_mult_less_eq)
    ultimately show ?thesis
      using False r fits [OF \<open>?t + ?r \<le> q\<close>]
      by (subst encodeNumber.simps) (simp add: Let_def digitOf_digitPoint not_less)
  qed
qed


section \<open>The decoder follows the encoder\<close>

definition labelPoint :: "nat \<Rightarrow> bool" where
  "labelPoint p \<longleftrightarrow> p \<le> 1114111 \<and> \<not> (55296 \<le> p \<and> p \<le> 57343)"

lemma decode_number:
  assumes "i + delta = (n - n0) * (length out + 1) + c" "n0 \<le> n" "c \<le> length out" "128 \<le> n" "labelPoint n"
    "i + delta \<le> 100000000"
  shows "decodeLoop (encodeNumber bias delta BASE @ rest) out n0 i bias
    = decodeLoop rest (take c out @ [n] @ drop c out) n (c + 1) (adapt delta (length out + 1) (i = 0))"
proof -
  have "reachedWeight 1 BASE bias"
    by (auto simp: reachedWeight_def intro: exI [of _ 0])
  then have read: "readNumber (encodeNumber bias delta BASE @ rest) i 1 BASE bias = Some (i + delta, rest)"
    using readNumber_encodeNumber [of 1 BASE bias i delta rest] assms(6) by simp
  have "encodeNumber bias delta BASE \<noteq> []"
    by (subst encodeNumber.simps) (simp add: Let_def)
  moreover have "(i + delta) div (length out + 1) = n - n0" "(i + delta) mod (length out + 1) = c"
    unfolding assms(1) using place_of [OF assms(3)] by simp_all
  moreover have "\<not> n - n0 > MAX_INT - n0" "\<not> (n < 128 \<or> (55296 \<le> n \<and> n \<le> 57343) \<or> n > 1114111)"
    using assms(4,5) by (auto simp: labelPoint_def MAX_INT_def)
  ultimately show ?thesis
    using read assms(2) by (subst decodeLoop.simps) (auto simp: Let_def)
qed

text \<open>
  A state of the encoder and the decoder after the digits it has written: \<open>digits\<close>, from the basic points \<open>basics\<close>.
  The decoder has the points handled so far, in place; its position and the encoder's \<open>delta\<close> add up to the place of
  the next point.
\<close>

definition follows :: "nat list \<Rightarrow> nat list \<Rightarrow> nat list \<Rightarrow> nat \<Rightarrow> nat \<Rightarrow> punycode_state \<Rightarrow> bool" where
  "follows basics start handled n c st \<longleftrightarrow>
     (\<exists>digits n0 i. py_output st = start @ digits \<and> list_all (\<lambda>p. p < 128 \<and> p \<noteq> DELIMITER) digits
        \<and> (\<forall>rest. decodeLoop (digits @ rest) basics INITIAL_N 0 INITIAL_BIAS
             = decodeLoop rest handled n0 i (py_bias st))
        \<and> i + py_delta st = (n - n0) * (length handled + 1) + c \<and> n0 \<le> n
        \<and> py_handled st = length handled \<and> length basics \<le> length handled
        \<and> (i = 0 \<longleftrightarrow> length handled = length basics))"

lemma place_bound:
  assumes "i + delta = (n - n0) * (length handled + 1) + c" "n \<le> 1114112" "length handled \<le> 63" "c \<le> length handled + 1"
  shows "i + delta \<le> 100000000"
proof -
  have "(n - n0) * (length handled + 1) \<le> 1114112 * 64"
    using assms(2,3) by (intro mult_le_mono) simp_all
  then show ?thesis
    using assms by linarith
qed

lemma encodePass_follows:
  assumes "follows basics start (filter (\<lambda>p. p \<le> n) past @ filter (\<lambda>p. p < n) points) n (length (filter (\<lambda>p. p \<le> n) past)) st"
    and "128 \<le> n" "labelPoint n" "length (past @ points) \<le> 63"
  shows "\<exists>st'. encodePass (length basics) n points st = Some st' \<and>
    follows basics start (filter (\<lambda>p. p \<le> n) (past @ points)) n (length (filter (\<lambda>p. p \<le> n) (past @ points))) st'"
  using assms
proof (induction points arbitrary: past st)
  case (Cons p points)
  let ?left = "filter (\<lambda>p. p \<le> n) past" and ?right = "filter (\<lambda>p. p < n) points"
  obtain digits n0 i where st: "py_output st = start @ digits" "list_all (\<lambda>p. p < 128 \<and> p \<noteq> DELIMITER) digits"
      "\<And>rest. decodeLoop (digits @ rest) basics INITIAL_N 0 INITIAL_BIAS
        = decodeLoop rest (?left @ filter (\<lambda>p. p < n) (p # points)) n0 i (py_bias st)"
      "i + py_delta st = (n - n0) * (length (?left @ filter (\<lambda>p. p < n) (p # points)) + 1) + length ?left" "n0 \<le> n"
      "py_handled st = length (?left @ filter (\<lambda>p. p < n) (p # points))"
      "length basics \<le> length (?left @ filter (\<lambda>p. p < n) (p # points))"
      "i = 0 \<longleftrightarrow> length (?left @ filter (\<lambda>p. p < n) (p # points)) = length basics"
    using Cons.prems(1) unfolding follows_def by blast
  have sizes: "length ?left \<le> length past" "length ?right \<le> length points"
    by (rule length_filter_le)+
  have "length (filter (\<lambda>p. p < n) (p # points)) \<le> length (p # points)"
    by (rule length_filter_le)
  then have "length (?left @ filter (\<lambda>p. p < n) (p # points)) \<le> 63"
    using sizes(1) Cons.prems(4) unfolding length_append by linarith
  then have small: "i + py_delta st \<le> 100000000"
    using Cons.prems(3) by (intro place_bound [OF st(4)]) (simp_all add: labelPoint_def)
  consider "p < n" | "p = n" | "n < p"
    by linarith
  then show ?case
  proof cases
    case 1
    let ?st = "st\<lparr>py_delta := py_delta st + 1\<rparr>"
    have "follows basics start (filter (\<lambda>p. p \<le> n) (past @ [p]) @ ?right) n (length (filter (\<lambda>p. p \<le> n) (past @ [p]))) ?st"
      using st 1 unfolding follows_def by (intro exI [of _ digits] exI [of _ n0] exI [of _ i]) simp
    moreover have "encodePass (length basics) n (p # points) st = encodePass (length basics) n points ?st"
      using 1 small by (simp add: MAX_INT_def)
    ultimately show ?thesis
      using Cons.IH [of "past @ [p]" ?st] Cons.prems by simp
  next
    case 2
    let ?st = "\<lparr>py_output = py_output st @ encodeNumber (py_bias st) (py_delta st) BASE, py_delta = 0,
      py_bias = adapt (py_delta st) (py_handled st + 1) (py_handled st = length basics), py_handled = py_handled st + 1\<rparr>"
    have "decodeLoop (encodeNumber (py_bias st) (py_delta st) BASE @ rest) (?left @ ?right) n0 i (py_bias st)
        = decodeLoop rest (?left @ [n] @ ?right) n (length ?left + 1) (py_bias ?st)" for rest
      using decode_number [of i "py_delta st" n n0 "?left @ ?right" "length ?left" "py_bias st" rest] st(4-8) 2 small Cons.prems(2,3)
      by simp
    then have "decodeLoop ((digits @ encodeNumber (py_bias st) (py_delta st) BASE) @ rest) basics INITIAL_N 0 INITIAL_BIAS
        = decodeLoop rest (?left @ [n] @ ?right) n (length ?left + 1) (py_bias ?st)" for rest
      using st(3) 2 by simp
    moreover have "list_all (\<lambda>p. p < 128 \<and> p \<noteq> DELIMITER) (encodeNumber (py_bias st) (py_delta st) BASE)"
      using encodeNumber_plain by (simp add: list_all_iff)
    ultimately have "follows basics start (?left @ [n] @ ?right) n (length ?left + 1) ?st"
      using st 2 unfolding follows_def
      by (intro exI [of _ "digits @ encodeNumber (py_bias st) (py_delta st) BASE"] exI [of _ n] exI [of _ "length ?left + 1"])
        (simp del: append_assoc add: append_assoc [symmetric])
    then have "follows basics start (filter (\<lambda>p. p \<le> n) (past @ [p]) @ ?right) n (length (filter (\<lambda>p. p \<le> n) (past @ [p]))) ?st"
      using 2 by simp
    moreover have "encodePass (length basics) n (p # points) st = encodePass (length basics) n points ?st"
      using 2 by simp
    ultimately show ?thesis
      using Cons.IH [of "past @ [p]" ?st] Cons.prems by simp
  next
    case 3
    then have "follows basics start (filter (\<lambda>p. p \<le> n) (past @ [p]) @ ?right) n (length (filter (\<lambda>p. p \<le> n) (past @ [p]))) st"
      using Cons.prems(1) by simp
    then show ?thesis
      using Cons.IH [of "past @ [p]" st] Cons.prems 3 by simp
  qed
qed simp


section \<open>The passes\<close>

lemma filter_gap:
  assumes "leastFrom n input \<noteq> MAX_INT" "n \<le> m" "m = leastFrom n input"
  shows "filter (\<lambda>p. p < m) input = filter (\<lambda>p. p < n) input"
proof (rule filter_cong [OF refl])
  fix p assume "p \<in> set input"
  then show "(p < m) = (p < n)"
    using leastFrom(3) [OF assms(1), of p] assms(2,3) by (cases "n \<le> p") auto
qed

lemma leastFrom_exists:
  assumes "length (filter (\<lambda>p. p < n) input) < length input" "list_all labelPoint input"
  shows "leastFrom n input \<noteq> MAX_INT"
proof -
  obtain p where p: "p \<in> set input" "n \<le> p"
    using assms(1) filter_True [of input "\<lambda>p. p < n"] by (metis leI less_irrefl)
  then have "leastFrom n input \<le> p"
    using leastFrom_fold [where n = n and input = input and m = MAX_INT] by (simp add: leastFrom_def)
  moreover have "p \<le> 1114111"
    using assms(2) p(1) by (simp add: list_all_iff labelPoint_def)
  ultimately show ?thesis
    by (simp add: MAX_INT_def)
qed

lemma gap_sum:
  assumes "n0 \<le> (n :: nat)" "n \<le> m"
  shows "(m - n0) * l = (n - n0) * l + (m - n) * l"
proof -
  have "m - n0 = (n - n0) + (m - n)"
    using assms by simp
  then show ?thesis
    by (simp only: add_mult_distrib)
qed

lemma follows_next:
  assumes "follows basics start (filter (\<lambda>p. p \<le> m) input) m (length (filter (\<lambda>p. p \<le> m) input)) st"
  shows "follows basics start (filter (\<lambda>p. p < m + 1) input) (m + 1) 0 (st\<lparr>py_delta := py_delta st + 1\<rparr>)"
proof -
  have same: "(\<lambda>p. p < m + 1) = (\<lambda>p. p \<le> m)"
    by auto
  have "(m + 1 - n0) * (l + 1) = (m - n0) * (l + 1) + (l + 1)" if "n0 \<le> m" for n0 l :: nat
    using gap_sum [OF that, of "m + 1" "l + 1"] by simp
  then show ?thesis
    using assms unfolding follows_def same by fastforce
qed

lemma encodeLoop_follows:
  assumes "follows basics start (filter (\<lambda>p. p < n) input) n 0 st" "128 \<le> n" "n \<le> 1114112"
    "list_all labelPoint input" "length input \<le> 63"
  shows "\<exists>digits. encodeLoop input (length basics) n st = Some (start @ digits)
    \<and> list_all (\<lambda>p. p < 128 \<and> p \<noteq> DELIMITER) digits \<and> decodeLoop digits basics INITIAL_N 0 INITIAL_BIAS = Some input"
  using assms
proof (induction input "length basics" n st rule: encodeLoop.induct)
  case (1 input n st)
  obtain digits n0 i where st: "py_output st = start @ digits" "list_all (\<lambda>p. p < 128 \<and> p \<noteq> DELIMITER) digits"
      "\<And>rest. decodeLoop (digits @ rest) basics INITIAL_N 0 INITIAL_BIAS
        = decodeLoop rest (filter (\<lambda>p. p < n) input) n0 i (py_bias st)"
      "i + py_delta st = (n - n0) * (length (filter (\<lambda>p. p < n) input) + 1) + 0" "n0 \<le> n"
      "py_handled st = length (filter (\<lambda>p. p < n) input)" "length basics \<le> length (filter (\<lambda>p. p < n) input)"
      "i = 0 \<longleftrightarrow> length (filter (\<lambda>p. p < n) input) = length basics"
    using "1.prems"(1) unfolding follows_def by blast
  show ?case
  proof (cases "py_handled st < length input")
    case False
    then have "filter (\<lambda>p. p < n) input = input"
      using st(6) by (metis filter_id_conv length_filter_less not_le)
    moreover have "decodeLoop digits basics INITIAL_N 0 INITIAL_BIAS = Some (filter (\<lambda>p. p < n) input)"
      using st(3) [of "[]"] by (simp add: decodeLoop.simps [of "[]"])
    ultimately show ?thesis
      using False st(1,2) by (subst encodeLoop.simps) simp
  next
    case True
    define m where "m = leastFrom n input"
    define st1 where "st1 = st\<lparr>py_delta := py_delta st + (m - n) * (py_handled st + 1)\<rparr>"
    have exists: "leastFrom n input \<noteq> MAX_INT"
      using leastFrom_exists True st(6) "1.prems"(4) by simp
    have m: "m \<in> set input" "n \<le> m"
      using leastFrom [OF exists] by (simp_all add: m_def)
    then have label: "labelPoint m" "128 \<le> m"
      using "1.prems"(2,4) by (simp_all add: list_all_iff)
    have same: "filter (\<lambda>p. p < m) input = filter (\<lambda>p. p < n) input"
      by (rule filter_gap [OF exists m(2) m_def])
    have place: "i + py_delta st1 = (m - n0) * (length (filter (\<lambda>p. p < m) input) + 1) + 0"
      using st(4,6) gap_sum [OF st(5) m(2), of "length (filter (\<lambda>p. p < n) input) + 1"] unfolding st1_def same
      by (simp del: mult_Suc_right)
    have "length (filter (\<lambda>p. p < m) input) \<le> 63"
      using length_filter_le [of "\<lambda>p. p < m" input] "1.prems"(5) by linarith
    then have "i + py_delta st1 \<le> 100000000"
      using label(1) by (intro place_bound [OF place]) (simp_all add: labelPoint_def)
    then have fits: "\<not> m - n > (MAX_INT - py_delta st) div (py_handled st + 1)"
      by (simp add: st1_def MAX_INT_def not_less less_eq_div_iff_mult_less_eq)
    have "follows basics start (filter (\<lambda>p. p \<le> m) [] @ filter (\<lambda>p. p < m) input) m (length (filter (\<lambda>p. p \<le> m) [])) st1"
      unfolding follows_def using st place m(2) same
      by (intro exI [of _ digits] exI [of _ n0] exI [of _ i]) (simp add: st1_def)
    then obtain st' where st': "encodePass (length basics) m input st1 = Some st'"
      "follows basics start (filter (\<lambda>p. p \<le> m) input) m (length (filter (\<lambda>p. p \<le> m) input)) st'"
      using encodePass_follows [of basics start m "[]" input st1] label "1.prems"(5) by auto
    let ?st = "st'\<lparr>py_delta := py_delta st' + 1\<rparr>"
    have "follows basics start (filter (\<lambda>p. p < m + 1) input) (m + 1) 0 ?st"
      by (rule follows_next [OF st'(2)])
    then have "\<exists>digits. encodeLoop input (length basics) (m + 1) ?st = Some (start @ digits)
        \<and> list_all (\<lambda>p. p < 128 \<and> p \<noteq> DELIMITER) digits \<and> decodeLoop digits basics INITIAL_N 0 INITIAL_BIAS = Some input"
      using "1.hyps" [OF _ m_def _ st'(1) [unfolded st1_def]] True exists fits label "1.prems"(4,5)
      by (simp add: m_def [symmetric] labelPoint_def)
    moreover have "encodeLoop input (length basics) n st = encodeLoop input (length basics) (m + 1) ?st"
      using True exists fits st'(1) by (subst encodeLoop.simps) (simp add: m_def st1_def Let_def)
    ultimately show ?thesis
      by simp
  qed
qed


section \<open>The round trip\<close>

lemma lastDelimiter_of:
  assumes "DELIMITER \<notin> set digits"
  shows "lastDelimiter (basics @ DELIMITER # digits) = Some (length basics)"
proof -
  have "takeWhile (\<lambda>p. p \<noteq> DELIMITER) (rev digits @ DELIMITER # rev basics) = rev digits"
    using assms by (subst takeWhile_append2) auto
  then show ?thesis
    by (simp add: lastDelimiter_def)
qed

lemma decodePunycode_starts:
  assumes "list_all (\<lambda>p. p < 128 \<and> p \<noteq> DELIMITER) digits" "list_all (\<lambda>p. p < 128) basics"
  shows "decodePunycode ((if basics = [] then basics else basics @ [DELIMITER]) @ digits)
    = decodeLoop digits basics INITIAL_N 0 INITIAL_BIAS"
proof -
  have plain: "DELIMITER \<notin> set digits"
    using assms(1) by (auto simp: list_all_iff)
  show ?thesis
  proof (cases "basics = []")
    case True
    then show ?thesis
      using plain by (simp add: decodePunycode_def lastDelimiter_def)
  next
    case False
    then show ?thesis
      using lastDelimiter_of [OF plain, of basics] assms(2) by (simp add: decodePunycode_def)
  qed
qed

text \<open>C34.
  The Punycode of a label of at most 63 code points is always found, is ASCII, and decodes to that label: the encoder
  and the decoder agree on every number's digits, on the bias between the numbers and on the place every point is
  put back to, and no number of such a label passes the bound of \<open>2\<^sup>31 - 1\<close>, at either end.
\<close>

theorem punycode_reads_back:
  assumes "list_all labelPoint input" "length input \<le> 63"
  shows "\<exists>out. encodePunycode input = Some out \<and> list_all (\<lambda>p. p < 128) out \<and> decodePunycode out = Some input"
proof -
  let ?basics = "filter (\<lambda>p. p < 128) input"
  let ?start = "if ?basics = [] then ?basics else ?basics @ [DELIMITER]"
  let ?st = "\<lparr>py_output = ?start, py_delta = 0, py_bias = INITIAL_BIAS, py_handled = length ?basics\<rparr>"
  have "follows ?basics ?start ?basics 128 0 ?st"
    unfolding follows_def by (intro exI [of _ "[]"] exI [of _ 128] exI [of _ 0]) (simp add: INITIAL_N_def)
  then obtain digits where digits: "encodeLoop input (length ?basics) 128 ?st = Some (?start @ digits)"
      "list_all (\<lambda>p. p < 128 \<and> p \<noteq> DELIMITER) digits" "decodeLoop digits ?basics INITIAL_N 0 INITIAL_BIAS = Some input"
    using encodeLoop_follows [of ?basics ?start 128 input ?st] assms by auto
  have basics: "list_all (\<lambda>p. p < 128) ?basics"
    by (simp add: list_all_iff)
  have "encodePunycode input = Some (?start @ digits)"
    using digits(1) by (simp add: encodePunycode_def INITIAL_N_def)
  moreover have "list_all (\<lambda>p. p < 128) (?start @ digits)"
    using digits(2) by (auto simp: list_all_iff DELIMITER_def)
  moreover have "decodePunycode (?start @ digits) = Some input"
    using decodePunycode_starts [OF digits(2) basics] digits(3) by simp
  ultimately show ?thesis
    by blast
qed

text \<open>\<open>b\<close>, \<open>u\<close> with a diaeresis, \<open>cher\<close>: \<open>bcher-kva\<close>.\<close>

lemma punycode_reads_back_witness:
  "(\<exists>out. encodePunycode [98, 252, 99, 104, 101, 114] = Some out \<and> list_all (\<lambda>p. p < 128) out
      \<and> decodePunycode out = Some [98, 252, 99, 104, 101, 114])
    \<and> encodePunycode [98, 252, 99, 104, 101, 114] = Some [98, 99, 104, 101, 114, 45, 107, 118, 97]"
  by (intro conjI punycode_reads_back; code_simp)

end
