(* ===== verification/FlowGraph.thy ===== *)
theory FlowGraph
  imports EventText "HOL-Library.AList"
begin

text \<open>
  A workflow's flow and the graph its arrows draw: \<open>packages/events/src/flow/types.ts\<close> and \<open>graph.ts\<close>.

  A flow's steps are an object from id to step, kept as the list of its own members. The condition a step holds
  (\<open>'c\<close>) and the question a judge is asked (\<open>'j\<close>) take no part in the graph and are parameters. A JavaScript
  \<open>Set\<close> that is iterated is the list of its elements in the order they went in, and the stacks the loops keep
  have their top first. The recursion of \<open>stepOrder\<close> keeps its calls in a stack here as well.
\<close>

section \<open>Steps\<close>

datatype place = InProject jstr | InWorktree jstr | InFolder jstr | InLane jstr | InThread

datatype provider = Claude | Codex

datatype session_mode = Manual | AcceptEdits | PlanMode

datatype waits_for = TurnEnd jstr | SessionIdle jstr | TimeAfter int

datatype worktree_base = DefaultBranch | FromBranch jstr

datatype worktree_cleanup = KeepIt | RemoveIfClean

datatype delivers_to = ToSession "jstr list" | ToIssue jstr

datatype route_by = ByHints | ByJudge

record route_candidate =
  rc_projectId :: jstr
  rc_name :: jstr
  rc_folders :: "jstr list"
  rc_worktreeRoot :: "jstr option"

datatype ('c, 'j) step_body =
    ConditionStep 'c
  | JudgeStep 'j
  | RouteStep "route_candidate list" "route_by list" "'j option" "jstr list"
  | FindSession place provider bool
  | StartSession place provider session_mode
  | WorktreeStep jstr worktree_base jstr worktree_cleanup
  | DeliverStep jstr int "delivers_to option" "jstr list option"
  | WaitStep waits_for int
  | NotifyStep jstr
  | SplitStep "jstr list"
  | RaiseStep jstr "jstr list option"

text \<open>
  The flag of \<open>FindSession\<close> is \<open>only: 'idle'\<close>, the first two members of \<open>DeliverStep\<close> its target and version.
  A step's arrows are \<open>next\<close>, from an outcome or \<open>otherwise\<close> to a step or \<open>end\<close>; a split has none.
\<close>

record ('c, 'j) flow_step =
  fs_label :: "jstr option"
  fs_emit :: "jstr list option"
  fs_body :: "('c, 'j) step_body"
  fs_next :: "(jstr \<times> jstr) list"

type_synonym ('c, 'j) flow_steps = "(jstr \<times> ('c, 'j) flow_step) list"

record flow_limits =
  fl_runsPerHour :: int
  fl_concurrentRuns :: int
  fl_sessionsPerHour :: int
  fl_worktreesPerDay :: int
  fl_linearWritesPerHour :: int
  fl_eventsPerHour :: int
  fl_runMs :: int

record flow_events =
  fe_namespace :: jstr
  fe_workflow :: jstr
  fe_run :: "jstr list option"

record flow_on =
  fo_raised :: "jstr list"
  fo_withinMs :: int

text \<open>The document; its \<open>flowVersion\<close> is always 1.\<close>

record ('c, 'j) flow_document =
  fd_start :: jstr
  fd_steps :: "('c, 'j) flow_steps"
  fd_limits :: flow_limits
  fd_events :: "flow_events option"
  fd_on :: "flow_on option"
  fd_shadow :: bool

fun STEP_OUTCOMES :: "('c, 'j) step_body \<Rightarrow> jstr list" where
  "STEP_OUTCOMES (ConditionStep _) = map js [''yes'', ''no'']"
| "STEP_OUTCOMES (JudgeStep _) = map js [''yes'', ''no'', ''unsure'']"
| "STEP_OUTCOMES (RouteStep _ _ _ _) = map js [''chosen'', ''none'', ''unsure'']"
| "STEP_OUTCOMES (FindSession _ _ _) = map js [''idle'', ''busy'', ''none'', ''watched'']"
| "STEP_OUTCOMES (StartSession _ _ _) = map js [''started'', ''refused'']"
| "STEP_OUTCOMES (WorktreeStep _ _ _ _) = map js [''made'', ''refused'']"
| "STEP_OUTCOMES (DeliverStep _ _ _ _) = map js [''done'', ''left-in-queue'', ''failed'']"
| "STEP_OUTCOMES (WaitStep _ _) = map js [''completed'', ''failed'', ''stopped'', ''done'', ''needs-the-person'',
     ''not-mine'', ''blocked'', ''free'', ''elapsed'', ''timed-out'']"
| "STEP_OUTCOMES (NotifyStep _) = map js [''sent'']"
| "STEP_OUTCOMES (SplitStep _) = []"
| "STEP_OUTCOMES (RaiseStep _ _) = map js [''raised'']"

fun WAIT_OUTCOMES :: "waits_for \<Rightarrow> jstr list" where
  "WAIT_OUTCOMES (TurnEnd _) = map js [''completed'', ''failed'', ''stopped'', ''done'', ''needs-the-person'',
     ''not-mine'', ''blocked'', ''timed-out'']"
| "WAIT_OUTCOMES (SessionIdle _) = map js [''free'', ''timed-out'']"
| "WAIT_OUTCOMES (TimeAfter _) = map js [''elapsed'', ''timed-out'']"

section \<open>Arrows\<close>

definition outcomesOf :: "('c, 'j) flow_step \<Rightarrow> jstr list" where
  "outcomesOf step =
     (case fs_body step of
        SplitStep _ \<Rightarrow> []
      | WaitStep w _ \<Rightarrow> WAIT_OUTCOMES w
      | FindSession p v True \<Rightarrow> map js [''idle'', ''none'']
      | body \<Rightarrow> STEP_OUTCOMES body)"

definition arrowsOf :: "('c, 'j) flow_step \<Rightarrow> (jstr \<times> jstr) list" where
  "arrowsOf step = (case fs_body step of SplitStep _ \<Rightarrow> [] | _ \<Rightarrow> fs_next step)"

definition END :: jstr where "END = js ''end''"
definition OTHERWISE :: jstr where "OTHERWISE = js ''otherwise''"

text \<open>\<open>[...new Set(xs)]\<close>: each element where it first stands.\<close>

definition uniqueInOrder :: "'a list \<Rightarrow> 'a list" where
  "uniqueInOrder xs = fold (\<lambda>x seen. if x \<in> set seen then seen else seen @ [x]) xs []"

definition arrowTo :: "(jstr \<times> jstr) list \<Rightarrow> jstr \<Rightarrow> jstr option" where
  "arrowTo arrows outcome =
     (case map_of arrows outcome of Some to \<Rightarrow> Some to | None \<Rightarrow> map_of arrows OTHERWISE)"

definition nextSteps :: "('c, 'j) flow_step \<Rightarrow> jstr \<Rightarrow> jstr list" where
  "nextSteps step outcome =
     (case fs_body step of
        SplitStep branches \<Rightarrow> uniqueInOrder (filter (\<lambda>b. b \<noteq> END) branches)
      | _ \<Rightarrow> (case arrowTo (arrowsOf step) outcome of
          None \<Rightarrow> [] | Some target \<Rightarrow> if target = END then [] else [target]))"

text \<open>\<open>xs.sort(compareUtf8)\<close>.\<close>

definition sortUtf8 :: "jstr list \<Rightarrow> jstr list" where
  "sortUtf8 xs = sort_key codePoints xs"

definition addTarget :: "jstr option \<Rightarrow> jstr list \<Rightarrow> jstr list" where
  "addTarget target found =
     (case target of None \<Rightarrow> found
      | Some t \<Rightarrow> if t \<noteq> END \<and> t \<notin> set found then found @ [t] else found)"

definition successors :: "('c, 'j) flow_step \<Rightarrow> jstr list" where
  "successors step =
     (case fs_body step of
        SplitStep _ \<Rightarrow> nextSteps step []
      | _ \<Rightarrow>
          let arrows = arrowsOf step;
              found = fold (\<lambda>outcome. addTarget (arrowTo arrows outcome)) (outcomesOf step) []
          in fold (\<lambda>outcome. addTarget (map_of arrows outcome)) (sortUtf8 (map fst arrows)) found)"

definition hasOwn :: "('c, 'j) flow_steps \<Rightarrow> jstr \<Rightarrow> bool" where
  "hasOwn steps i \<longleftrightarrow> map_of steps i \<noteq> None"

text \<open>The successors of a step the flow holds; the loops ask for no other.\<close>

definition successorsAt :: "('c, 'j) flow_steps \<Rightarrow> jstr \<Rightarrow> jstr list" where
  "successorsAt steps i = (case map_of steps i of None \<Rightarrow> [] | Some step \<Rightarrow> successors step)"

text \<open>Those of them that the flow holds.\<close>

definition nextAt :: "('c, 'j) flow_steps \<Rightarrow> jstr \<Rightarrow> jstr list" where
  "nextAt steps i = filter (hasOwn steps) (successorsAt steps i)"

lemma hasOwn_iff: "hasOwn steps i \<longleftrightarrow> i \<in> set (map fst steps)"
  by (simp add: hasOwn_def map_of_eq_None_iff)

text \<open>How many ids of the flow a loop has yet to meet.\<close>

definition unmet :: "('c, 'j) flow_steps \<Rightarrow> jstr set \<Rightarrow> nat" where
  "unmet steps met = card (set (map fst steps) - met)"

lemma unmet_insert: "hasOwn steps i \<Longrightarrow> i \<notin> met \<Longrightarrow> unmet steps (insert i met) < unmet steps met"
  unfolding unmet_def hasOwn_iff by (rule psubset_card_mono) auto

lemma unmet_other: "\<not> hasOwn steps i \<Longrightarrow> unmet steps (insert i met) = unmet steps met"
  unfolding unmet_def hasOwn_iff by (rule arg_cong [of _ _ card]) blast

lemma unmet_mono: "unmet steps (insert i met) \<le> unmet steps met"
  unfolding unmet_def by (rule card_mono) auto

lemma nextAt_other: "\<not> hasOwn steps i \<Longrightarrow> nextAt steps i = []"
  "\<not> hasOwn steps i \<Longrightarrow> successorsAt steps i = []"
  by (simp_all add: nextAt_def successorsAt_def hasOwn_def)

section \<open>What is reachable\<close>

function reachLoop :: "('c, 'j) flow_steps \<Rightarrow> jstr list \<Rightarrow> jstr list \<Rightarrow> jstr list" where
  "reachLoop steps [] seen = seen"
| "reachLoop steps (i # stack) seen =
     (if i \<in> set seen then reachLoop steps stack seen
      else reachLoop steps (rev (nextAt steps i) @ stack) (seen @ [i]))"
  by pat_completeness auto
termination
proof (relation "measures [\<lambda>(steps, _, seen). unmet steps (set seen), \<lambda>(_, stack, _). length stack]")
  fix steps :: "('c, 'j) flow_steps" and i :: jstr and stack seen :: "jstr list"
  assume "i \<notin> set seen"
  then show "((steps, rev (nextAt steps i) @ stack, seen @ [i]), (steps, i # stack, seen))
      \<in> measures [\<lambda>(steps, _, seen). unmet steps (set seen), \<lambda>(_, stack, _). length stack]"
    by (cases "hasOwn steps i") (auto simp: unmet_insert unmet_other nextAt_other)
qed auto

definition reachableFrom :: "('c, 'j) flow_steps \<Rightarrow> jstr list \<Rightarrow> jstr list" where
  "reachableFrom steps starts = reachLoop steps (rev (filter (hasOwn steps) starts)) []"

section \<open>Cycles\<close>

datatype mark = Open | Finished

text \<open>A frame of the search: a step, and what it goes on to that is not looked at yet.\<close>

function cycleLoop ::
  "('c, 'j) flow_steps \<Rightarrow> (jstr \<rightharpoonup> mark) \<Rightarrow> (jstr \<times> jstr list) list \<Rightarrow> (jstr \<rightharpoonup> mark) \<times> jstr option" where
  "cycleLoop steps state [] = (state, None)"
| "cycleLoop steps state ((i, []) # stack) = cycleLoop steps (state(i \<mapsto> Finished)) stack"
| "cycleLoop steps state ((i, to # next) # stack) =
     (case state to of
        Some Open \<Rightarrow> (state, Some to)
      | Some Finished \<Rightarrow> cycleLoop steps state ((i, next) # stack)
      | None \<Rightarrow> cycleLoop steps (state(to \<mapsto> Open)) ((to, nextAt steps to) # (i, next) # stack))"
  by pat_completeness auto
termination
proof (relation "measures [\<lambda>(steps, state, _). unmet steps (dom state),
    \<lambda>(_, _, stack). sum_list (map (\<lambda>(_, next). 2 * length next + 1) stack)]")
  fix steps :: "('c, 'j) flow_steps" and state :: "jstr \<rightharpoonup> mark" and i and stack :: "(jstr \<times> jstr list) list"
  have "unmet steps (dom (state(i \<mapsto> Finished))) \<le> unmet steps (dom state)"
    by (simp add: unmet_mono)
  then show "((steps, state(i \<mapsto> Finished), stack), (steps, state, (i, []) # stack))
      \<in> measures [\<lambda>(steps, state, _). unmet steps (dom state),
         \<lambda>(_, _, stack). sum_list (map (\<lambda>(_, next). 2 * length next + 1) stack)]"
    by auto
next
  fix steps :: "('c, 'j) flow_steps" and state :: "jstr \<rightharpoonup> mark" and i to and left :: "jstr list"
    and stack :: "(jstr \<times> jstr list) list"
  assume "state to = None"
  then have "to \<notin> dom state"
    by blast
  then show "((steps, state(to \<mapsto> Open), (to, nextAt steps to) # (i, left) # stack), (steps, state, (i, to # left) # stack))
      \<in> measures [\<lambda>(steps, state, _). unmet steps (dom state),
         \<lambda>(_, _, stack). sum_list (map (\<lambda>(_, next). 2 * length next + 1) stack)]"
    by (cases "hasOwn steps to") (auto simp: unmet_insert unmet_other nextAt_other)
qed auto

fun cycleRoots :: "('c, 'j) flow_steps \<Rightarrow> (jstr \<rightharpoonup> mark) \<Rightarrow> jstr list \<Rightarrow> jstr option" where
  "cycleRoots steps state [] = None"
| "cycleRoots steps state (root # roots) =
     (if state root \<noteq> None then cycleRoots steps state roots
      else (case cycleLoop steps (state(root \<mapsto> Open)) [(root, nextAt steps root)] of
          (_, Some to) \<Rightarrow> Some to
        | (state', None) \<Rightarrow> cycleRoots steps state' roots))"

definition cycleStep :: "('c, 'j) flow_steps \<Rightarrow> jstr option" where
  "cycleStep steps = cycleRoots steps Map.empty (sortUtf8 (map fst steps))"

section \<open>Splits whose branches meet\<close>

text \<open>The innermost loop: a step another branch reached, or who reached what.\<close>

fun meetReached :: "jstr \<Rightarrow> (jstr \<rightharpoonup> jstr) \<Rightarrow> jstr list \<Rightarrow> jstr + (jstr \<rightharpoonup> jstr)" where
  "meetReached branch reachedBy [] = Inr reachedBy"
| "meetReached branch reachedBy (reached # rest) =
     (case reachedBy reached of
        Some other \<Rightarrow> if other \<noteq> branch then Inl reached
                      else meetReached branch (reachedBy(reached \<mapsto> branch)) rest
      | None \<Rightarrow> meetReached branch (reachedBy(reached \<mapsto> branch)) rest)"

fun meetBranches :: "('c, 'j) flow_steps \<Rightarrow> (jstr \<rightharpoonup> jstr) \<Rightarrow> jstr list \<Rightarrow> jstr option" where
  "meetBranches steps reachedBy [] = None"
| "meetBranches steps reachedBy (branch # branches) =
     (case meetReached branch reachedBy (reachableFrom steps [branch]) of
        Inl step \<Rightarrow> Some step
      | Inr reachedBy' \<Rightarrow> meetBranches steps reachedBy' branches)"

definition isSplit :: "('c, 'j) flow_step \<Rightarrow> bool" where
  "isSplit step \<longleftrightarrow> (case fs_body step of SplitStep _ \<Rightarrow> True | _ \<Rightarrow> False)"

fun meetSplits :: "('c, 'j) flow_steps \<Rightarrow> jstr list \<Rightarrow> (jstr \<times> jstr) option" where
  "meetSplits steps [] = None"
| "meetSplits steps (i # ids) =
     (case map_of steps i of
        None \<Rightarrow> meetSplits steps ids
      | Some step \<Rightarrow>
          if \<not> isSplit step then meetSplits steps ids
          else (case meetBranches steps Map.empty (nextSteps step []) of
              Some met \<Rightarrow> Some (i, met)
            | None \<Rightarrow> meetSplits steps ids))"

definition splitMeeting :: "('c, 'j) flow_steps \<Rightarrow> (jstr \<times> jstr) option" where
  "splitMeeting steps = meetSplits steps (sortUtf8 (map fst steps))"

section \<open>The order steps are printed in\<close>

definition waitingOf :: "(jstr \<rightharpoonup> int) \<Rightarrow> jstr \<Rightarrow> int" where
  "waitingOf waiting i = (case waiting i of None \<Rightarrow> 0 | Some n \<Rightarrow> n)"

definition countWaiting :: "('c, 'j) flow_steps \<Rightarrow> jstr list \<Rightarrow> (jstr \<rightharpoonup> int)" where
  "countWaiting steps reachable =
     fold (\<lambda>i. fold (\<lambda>next waiting.
         if next \<noteq> i \<and> next \<in> set reachable then waiting(next \<mapsto> waitingOf waiting next + 1) else waiting)
       (successorsAt steps i)) reachable Map.empty"

text \<open>
  \<open>write\<close>: each call is a frame, the step it wrote and the successors its loop has left. What is written is what
  is in the order.
\<close>

function writeLoop ::
  "('c, 'j) flow_steps \<Rightarrow> jstr list \<Rightarrow> (jstr \<rightharpoonup> int) \<Rightarrow> jstr list \<Rightarrow> (jstr \<times> jstr list) list \<Rightarrow> jstr list" where
  "writeLoop steps reachable waiting order [] = order"
| "writeLoop steps reachable waiting order ((i, []) # calls) = writeLoop steps reachable waiting order calls"
| "writeLoop steps reachable waiting order ((i, next # left) # calls) =
     (if next = i \<or> next \<notin> set reachable \<or> next \<in> set order
      then writeLoop steps reachable waiting order ((i, left) # calls)
      else let now = waitingOf waiting next - 1
           in if now = 0
              then writeLoop steps reachable (waiting(next \<mapsto> now)) (order @ [next])
                     ((next, successorsAt steps next) # (i, left) # calls)
              else writeLoop steps reachable (waiting(next \<mapsto> now)) order ((i, left) # calls))"
  by pat_completeness auto
termination
proof (relation "measures [\<lambda>(steps, _, _, order, _). unmet steps (set order),
    \<lambda>(_, _, _, _, calls). sum_list (map (\<lambda>(_, left). 2 * length left + 1) calls)]")
  fix steps :: "('c, 'j) flow_steps" and reachable order left :: "jstr list" and waiting waiting' :: "jstr \<rightharpoonup> int"
    and i to :: jstr and calls :: "(jstr \<times> jstr list) list"
  assume "\<not> (to = i \<or> to \<notin> set reachable \<or> to \<in> set order)"
  then show "((steps, reachable, waiting(to \<mapsto> x), order @ [to], (to, successorsAt steps to) # (i, left) # calls),
        (steps, reachable, waiting, order, (i, to # left) # calls))
      \<in> measures [\<lambda>(steps, _, _, order, _). unmet steps (set order),
         \<lambda>(_, _, _, _, calls). sum_list (map (\<lambda>(_, left). 2 * length left + 1) calls)]" for x
    by (cases "hasOwn steps to") (auto simp: unmet_insert unmet_other nextAt_other)
qed auto

definition stepOrder :: "('c, 'j) flow_document \<Rightarrow> jstr list" where
  "stepOrder flow =
     (let steps = fd_steps flow;
          ids = sortUtf8 (map fst steps);
          reachable = reachableFrom steps [fd_start flow];
          waiting = countWaiting steps reachable;
          order = (if fd_start flow \<in> set reachable
                   then writeLoop steps reachable waiting [fd_start flow]
                          [(fd_start flow, successorsAt steps (fd_start flow))]
                   else [])
      in order @ filter (\<lambda>i. i \<notin> set order) ids)"

definition unreachableAfter :: "('c, 'j) flow_document \<Rightarrow> jstr list \<Rightarrow> jstr list \<Rightarrow> jstr list" where
  "unreachableAfter flow live settled =
     (let reachable = reachableFrom (fd_steps flow) live
      in filter (\<lambda>i. i \<notin> set live \<and> i \<notin> set settled \<and> i \<notin> set reachable) (stepOrder flow))"

section \<open>Drawing an arrow\<close>

text \<open>\<open>{ ...object, [key]: value }\<close>.\<close>

definition withMember :: "(jstr \<times> 'a) list \<Rightarrow> jstr \<Rightarrow> 'a \<Rightarrow> (jstr \<times> 'a) list" where
  "withMember members key v = AList.update key v members"

definition connected :: "('c, 'j) flow_step \<Rightarrow> jstr \<Rightarrow> jstr \<Rightarrow> ('c, 'j) flow_step option" where
  "connected step outcome to =
     (case fs_body step of
        SplitStep branches \<Rightarrow>
          if to = END then None
          else Some (step\<lparr>fs_body := SplitStep (if to \<in> set branches then branches else branches @ [to])\<rparr>)
      | _ \<Rightarrow>
          if outcome \<noteq> OTHERWISE \<and> outcome \<notin> set (outcomesOf step) then None
          else Some (step\<lparr>fs_next := withMember (arrowsOf step) outcome to\<rparr>))"

definition connectionAllowed :: "('c, 'j) flow_document \<Rightarrow> jstr \<Rightarrow> jstr \<Rightarrow> jstr \<Rightarrow> bool" where
  "connectionAllowed flow stepId outcome to =
     (let steps = fd_steps flow
      in case map_of steps stepId of
           None \<Rightarrow> False
         | Some step \<Rightarrow>
             if to \<noteq> END \<and> \<not> hasOwn steps to then False
             else (case connected step outcome to of
                 None \<Rightarrow> False
               | Some changed \<Rightarrow>
                   let after = withMember steps stepId changed
                   in cycleStep after = None \<and> splitMeeting after = None))"

end
