(* ===== verification/FlowSearch.thy ===== *)
theory FlowSearch
  imports FlowGraph
begin

text \<open>
  What the searches of \<open>graph.ts\<close> find: \<open>reachableFrom\<close> is reachability along the arrows, \<open>cycleStep\<close> finds
  a cycle whenever there is one, \<open>splitMeeting\<close> a step that two branches of a split reach.
\<close>

definition leads :: "('c, 'j) flow_steps \<Rightarrow> (jstr \<times> jstr) set" where
  "leads steps = {(a, b). b \<in> set (nextAt steps a)}"

lemma leads_iff: "(a, b) \<in> leads steps \<longleftrightarrow> b \<in> set (nextAt steps a)"
  by (simp add: leads_def)

lemma leads_own: "(a, b) \<in> leads steps \<Longrightarrow> hasOwn steps a \<and> hasOwn steps b"
  by (cases "hasOwn steps a") (auto simp: leads_def nextAt_other, simp add: nextAt_def)

lemma finite_leads: "finite (leads steps)"
proof (rule finite_subset)
  show "leads steps \<subseteq> set (map fst steps) \<times> set (map fst steps)"
    using leads_own by (fastforce simp: hasOwn_iff)
qed simp

lemma set_sortUtf8 [simp]: "set (sortUtf8 xs) = set xs"
  by (simp add: sortUtf8_def)

lemma distinct_sortUtf8 [simp]: "distinct (sortUtf8 xs) = distinct xs"
  by (simp add: sortUtf8_def)

section \<open>Reachability\<close>

lemma reachLoop_distinct: "distinct seen \<Longrightarrow> distinct (reachLoop steps stack seen)"
  by (induction steps stack seen rule: reachLoop.induct) auto

lemma reachLoop_keeps: "set seen \<union> set stack \<subseteq> set (reachLoop steps stack seen)"
  by (induction steps stack seen rule: reachLoop.induct) auto

lemma reachLoop_sound:
  "set (reachLoop steps stack seen) \<subseteq> set seen \<union> (leads steps)\<^sup>* `` set stack"
proof (induction steps stack seen rule: reachLoop.induct)
  case (2 steps i stack seen)
  show ?case
  proof (cases "i \<in> set seen")
    case True
    with 2 show ?thesis
      by (simp, blast)
  next
    case False
    have "(leads steps)\<^sup>* `` set (nextAt steps i) \<subseteq> (leads steps)\<^sup>* `` {i}"
      by (auto simp: leads_iff [symmetric] intro: converse_rtrancl_into_rtrancl)
    then show ?thesis
      using False 2 by (simp add: Image_Un) blast
  qed
qed simp

lemma reachLoop_closed:
  "(\<And>x. x \<in> set seen \<Longrightarrow> set (nextAt steps x) \<subseteq> set seen \<union> set stack) \<Longrightarrow>
     x \<in> set (reachLoop steps stack seen) \<Longrightarrow> set (nextAt steps x) \<subseteq> set (reachLoop steps stack seen)"
proof (induction steps stack seen rule: reachLoop.induct)
  case (2 steps i stack seen)
  show ?case
  proof (cases "i \<in> set seen")
    case True
    then show ?thesis
      using 2 by (simp add: insert_absorb)
  next
    case False
    then show ?thesis
      using 2 by (simp, blast)
  qed
qed auto

lemma distinct_reachableFrom: "distinct (reachableFrom steps starts)"
  by (simp add: reachableFrom_def reachLoop_distinct)

lemma set_reachableFrom:
  "set (reachableFrom steps starts) = (leads steps)\<^sup>* `` {s \<in> set starts. hasOwn steps s}" (is "?r = ?s")
proof
  show "?r \<subseteq> ?s"
    using reachLoop_sound [of steps "rev (filter (hasOwn steps) starts)" "[]"]
    by (simp add: reachableFrom_def)
next
  have "y \<in> ?r" if "(x, y) \<in> (leads steps)\<^sup>*" "x \<in> ?r" for x y
    using that
  proof (induction rule: rtrancl_induct)
    case (step y z)
    then show ?case
      using reachLoop_closed [of "[]" steps "rev (filter (hasOwn steps) starts)" y]
      by (auto simp: reachableFrom_def leads_iff)
  qed
  moreover have "{s \<in> set starts. hasOwn steps s} \<subseteq> ?r"
    using reachLoop_keeps [of "[]" "rev (filter (hasOwn steps) starts)" steps]
    by (auto simp: reachableFrom_def)
  ultimately show "?s \<subseteq> ?r"
    by blast
qed

lemma reachableFrom_own: "x \<in> set (reachableFrom steps starts) \<Longrightarrow> hasOwn steps x"
  by (auto simp: set_reachableFrom elim: rtranclE dest: leads_own)

section \<open>Cycles\<close>

text \<open>
  What holds while the search runs: the open steps are those on the stack, each led to by the one below it; a
  frame's step leads to steps that are finished, the one above it, or still to look at; and what a finished step leads
  to is finished.
\<close>

fun framesOk :: "('c, 'j) flow_steps \<Rightarrow> jstr set \<Rightarrow> jstr set \<Rightarrow> (jstr \<times> jstr list) list \<Rightarrow> bool" where
  "framesOk steps finished child [] \<longleftrightarrow> True"
| "framesOk steps finished child ((i, left) # stack) \<longleftrightarrow>
     set (nextAt steps i) \<subseteq> finished \<union> child \<union> set left \<and> set left \<subseteq> set (nextAt steps i)
     \<and> child \<subseteq> set (nextAt steps i) \<and> framesOk steps finished {i} stack"

definition searching :: "('c, 'j) flow_steps \<Rightarrow> (jstr \<rightharpoonup> mark) \<Rightarrow> (jstr \<times> jstr list) list \<Rightarrow> bool" where
  "searching steps state stack \<longleftrightarrow>
     distinct (map fst stack)
     \<and> {x. state x = Some Open} = set (map fst stack)
     \<and> framesOk steps {x. state x = Some Finished} {} stack
     \<and> (\<forall>x. state x = Some Finished \<longrightarrow>
          (\<forall>y \<in> set (nextAt steps x). state y = Some Finished) \<and> (x, x) \<notin> (leads steps)\<^sup>+)"

lemma framesOk_mono: "framesOk steps F A stack \<Longrightarrow> F \<subseteq> G \<Longrightarrow> framesOk steps G A stack"
  by (induction stack arbitrary: A) (auto, blast)

lemma framesOk_path:
  "framesOk steps F A stack \<Longrightarrow> x \<in> set (map fst stack) \<Longrightarrow> a \<in> A \<Longrightarrow> (x, a) \<in> (leads steps)\<^sup>+"
proof (induction stack arbitrary: A a)
  case (Cons f stack)
  obtain i left where f: "f = (i, left)"
    by fastforce
  then have "(i, a) \<in> leads steps"
    using Cons.prems by (auto simp: leads_iff)
  then show ?case
    using Cons f by (auto intro: trancl_into_trancl)
qed simp

lemma finished_closed:
  assumes "searching steps state stack" "state x = Some Finished" "(x, y) \<in> (leads steps)\<^sup>*"
  shows "state y = Some Finished"
  using assms(3,2,1) by (induction rule: rtrancl_induct) (auto simp: searching_def leads_iff)

lemma searching_finish:
  assumes ok: "searching steps state ((i, []) # stack)"
  shows "searching steps (state(i \<mapsto> Finished)) stack"
proof -
  let ?F = "{x. state x = Some Finished}" and ?G = "{x. (state(i \<mapsto> Finished)) x = Some Finished}"
  have next_fin: "set (nextAt steps i) \<subseteq> ?F" and i_open: "state i = Some Open" and i: "i \<notin> set (map fst stack)"
    using ok by (auto simp: searching_def)
  have "(i, i) \<notin> (leads steps)\<^sup>+"
  proof
    assume "(i, i) \<in> (leads steps)\<^sup>+"
    then obtain y where "(i, y) \<in> leads steps" "(y, i) \<in> (leads steps)\<^sup>*"
      by (meson tranclD)
    then have "state i = Some Finished"
      using next_fin finished_closed [OF ok] by (auto simp: leads_iff)
    then show False
      using i_open by simp
  qed
  moreover have "framesOk steps ?G {} stack"
  proof (cases stack)
    case (Cons f rest)
    obtain j left where f: "f = (j, left)"
      by fastforce
    have "framesOk steps ?F {i} (f # rest)"
      using ok Cons by (simp add: searching_def)
    then have "set (nextAt steps j) \<subseteq> ?G \<union> set left" "set left \<subseteq> set (nextAt steps j)"
      "framesOk steps ?F {j} rest"
      using f by auto
    moreover have "?F \<subseteq> ?G"
      by auto
    ultimately show ?thesis
      using Cons f framesOk_mono [of steps ?F "{j}" rest ?G] by simp
  qed simp
  moreover have "{x. (state(i \<mapsto> Finished)) x = Some Open} = set (map fst stack)"
    using ok i by (auto simp: searching_def)
  ultimately show ?thesis
    using ok next_fin by (auto simp: searching_def)
qed

lemma searching_skip:
  assumes "searching steps state ((i, to # left) # stack)" "state to = Some Finished"
  shows "searching steps state ((i, left) # stack)"
  using assms by (auto simp: searching_def)

lemma searching_opened:
  "searching steps state stack \<Longrightarrow> x \<in> set (map fst stack) \<longleftrightarrow> state x = Some Open"
  unfolding searching_def by blast

lemma searching_enter:
  assumes ok: "searching steps state ((i, to # left) # stack)" and new: "state to = None"
  shows "searching steps (state(to \<mapsto> Open)) ((to, nextAt steps to) # (i, left) # stack)"
proof -
  have "{x. (state(to \<mapsto> Open)) x = Some Finished} = {x. state x = Some Finished}"
    using new by auto
  moreover have "to \<notin> set (map fst ((i, to # left) # stack))"
    using searching_opened [OF ok, of to] new by simp
  moreover have "{x. (state(to \<mapsto> Open)) x = Some Open} = insert to {x. state x = Some Open}"
    by auto
  ultimately show ?thesis
    using ok new unfolding searching_def by auto
qed

text \<open>What a search answers: a step on a cycle, or a state with nothing open that holds all it was to look at.\<close>

fun answers :: "('c, 'j) flow_steps \<Rightarrow> jstr set \<Rightarrow> (jstr \<rightharpoonup> mark) \<times> jstr option \<Rightarrow> bool" where
  "answers steps D (state, Some x) \<longleftrightarrow> (x, x) \<in> (leads steps)\<^sup>+"
| "answers steps D (state, None) \<longleftrightarrow> searching steps state [] \<and> D \<subseteq> dom state"

lemma answers_mono: "answers steps D r \<Longrightarrow> C \<subseteq> D \<Longrightarrow> answers steps C r"
  by (cases "(steps, D, r)" rule: answers.cases) auto

lemma cycleLoop_answers:
  "searching steps state stack \<Longrightarrow> answers steps (dom state) (cycleLoop steps state stack)"
proof (induction steps state stack rule: cycleLoop.induct)
  case (2 steps state i stack)
  have "answers steps (dom (state(i \<mapsto> Finished))) (cycleLoop steps (state(i \<mapsto> Finished)) stack)"
    by (rule "2.IH" [OF searching_finish [OF "2.prems"]])
  then show ?case
    by (auto intro: answers_mono)
next
  case (3 steps state i to left stack)
  show ?case
  proof (cases "state to")
    case None
    have "answers steps (dom (state(to \<mapsto> Open)))
        (cycleLoop steps (state(to \<mapsto> Open)) ((to, nextAt steps to) # (i, left) # stack))"
      by (rule "3.IH"(1) [OF None searching_enter [OF "3.prems" None]])
    then show ?thesis
      using None by (auto intro: answers_mono)
  next
    case (Some m)
    show ?thesis
    proof (cases m)
      case Open
      then have "to \<in> set (map fst ((i, to # left) # stack))"
        using Some searching_opened [OF "3.prems", of to] by simp
      moreover have "framesOk steps {x. state x = Some Finished} {to} ((i, to # left) # stack)"
        using "3.prems" by (auto simp: searching_def)
      ultimately show ?thesis
        using Some Open framesOk_path [of steps "{x. state x = Some Finished}" "{to}" "(i, to # left) # stack" to to]
        by (simp del: framesOk.simps)
    next
      case Finished
      then have fin: "state to = Some Finished"
        using Some by simp
      show ?thesis
        using "3.IH"(2) [OF fin refl searching_skip [OF "3.prems" fin]] fin by simp
    qed
  qed
qed simp

lemma cycleRoots_answers:
  "searching steps state [] \<Longrightarrow>
     \<exists>state'. answers steps (dom state \<union> set roots) (state', cycleRoots steps state roots)"
proof (induction roots arbitrary: state)
  case (Cons root roots)
  show ?case
  proof (cases "state root")
    case None
    have "searching steps (state(root \<mapsto> Open)) [(root, nextAt steps root)]"
      using Cons.prems None by (auto simp: searching_def split: if_splits)
    then have answer: "answers steps (dom (state(root \<mapsto> Open)))
        (cycleLoop steps (state(root \<mapsto> Open)) [(root, nextAt steps root)])"
      by (rule cycleLoop_answers)
    obtain state' r where loop: "cycleLoop steps (state(root \<mapsto> Open)) [(root, nextAt steps root)] = (state', r)"
      by fastforce
    show ?thesis
    proof (cases r)
      case None
      then have ok: "searching steps state' []" "insert root (dom state) \<subseteq> dom state'"
        using answer loop by simp_all
      obtain state'' where "answers steps (dom state' \<union> set roots) (state'', cycleRoots steps state' roots)"
        using Cons.IH [OF ok(1)] by blast
      then have "answers steps (dom state \<union> set (root # roots)) (state'', cycleRoots steps state' roots)"
        using ok(2) by (auto intro: answers_mono)
      then show ?thesis
        using \<open>state root = None\<close> loop None by auto
    next
      case (Some x)
      then show ?thesis
        using answer loop \<open>state root = None\<close> by simp
    qed
  next
    case (Some m)
    have "dom state \<union> set (root # roots) = dom state \<union> set roots"
      using Some by auto
    then show ?thesis
      using Cons.IH [OF Cons.prems] Some by simp
  qed
qed auto

lemma searching_start: "searching steps Map.empty []"
  by (simp add: searching_def)

lemma cycleStep_answers: "\<exists>state. answers steps (set (map fst steps)) (state, cycleStep steps)"
  using cycleRoots_answers [OF searching_start, of steps "sortUtf8 (map fst steps)"]
  by (simp add: cycleStep_def)

lemma cycleStep_Some: "cycleStep steps = Some x \<Longrightarrow> (x, x) \<in> (leads steps)\<^sup>+"
  using cycleStep_answers [of steps] by simp

lemma cycleStep_None: "cycleStep steps = None \<longleftrightarrow> acyclic (leads steps)"
proof
  assume "cycleStep steps = None"
  then obtain state where state: "searching steps state []" "set (map fst steps) \<subseteq> dom state"
    using cycleStep_answers [of steps] by auto
  show "acyclic (leads steps)"
    unfolding acyclic_def
  proof (intro allI notI)
    fix x
    assume cycle: "(x, x) \<in> (leads steps)\<^sup>+"
    then have "hasOwn steps x"
      by (meson leads_own tranclD)
    then obtain m where "state x = Some m"
      using state(2) by (auto simp: hasOwn_iff)
    then show False
      using state(1) cycle by (cases m) (auto simp: searching_def)
  qed
next
  assume "acyclic (leads steps)"
  then show "cycleStep steps = None"
    using cycleStep_Some by (cases "cycleStep steps") (auto simp: acyclic_def)
qed

end
