(* ===== verification/FlowOrder.thy ===== *)
theory FlowOrder
  imports FlowSearch
begin

text \<open>
  The splits of a flow and the order its steps are printed in: \<open>splitMeeting\<close> finds a step two branches of a split
  both reach, and \<open>stepOrder\<close> writes every step once, each after all the steps that lead to it.
\<close>

lemma uniqueInOrder_fold:
  "distinct seen \<Longrightarrow> distinct (fold (\<lambda>x seen. if x \<in> set seen then seen else seen @ [x]) xs seen)
     \<and> set (fold (\<lambda>x seen. if x \<in> set seen then seen else seen @ [x]) xs seen) = set seen \<union> set xs"
  by (induction xs arbitrary: seen) auto

lemma set_uniqueInOrder [simp]: "set (uniqueInOrder xs) = set xs"
  using uniqueInOrder_fold [of "[]" xs] by (simp add: uniqueInOrder_def)

lemma distinct_uniqueInOrder [simp]: "distinct (uniqueInOrder xs)"
  using uniqueInOrder_fold [of "[]" xs] by (simp add: uniqueInOrder_def)

lemma distinct_nextSteps: "distinct (nextSteps step outcome)"
  by (auto simp: nextSteps_def split: step_body.split option.split)

lemma distinct_addTarget: "distinct found \<Longrightarrow> distinct (addTarget t found)"
  by (auto simp: addTarget_def split: option.split)

lemma distinct_successors: "distinct (successors step)"
proof -
  have "distinct found \<Longrightarrow> distinct (fold (\<lambda>x. addTarget (f x)) xs found)" for f and xs :: "jstr list" and found
    by (induction xs arbitrary: found) (simp_all add: distinct_addTarget)
  then show ?thesis
    by (simp add: successors_def distinct_nextSteps Let_def split: step_body.split)
qed

lemma distinct_successorsAt: "distinct (successorsAt steps i)"
  by (simp add: successorsAt_def distinct_successors split: option.split)

section \<open>Splits\<close>

definition reached :: "('c, 'j) flow_steps \<Rightarrow> jstr \<Rightarrow> jstr set" where
  "reached steps i = set (reachableFrom steps [i])"

text \<open>A split, and a step two of its branches reach.\<close>

definition splitsMeet :: "('c, 'j) flow_steps \<Rightarrow> (jstr \<times> jstr) set" where
  "splitsMeet steps =
     {(i, x). \<exists>step. map_of steps i = Some step \<and> isSplit step \<and>
        (\<exists>b \<in> set (nextSteps step []). \<exists>c \<in> set (nextSteps step []).
           b \<noteq> c \<and> x \<in> reached steps b \<and> x \<in> reached steps c)}"

lemma meetReached_Inl:
  "meetReached branch m rs = Inl r \<Longrightarrow> r \<in> set rs \<and> (\<exists>other. m r = Some other \<and> other \<noteq> branch)"
  by (induction branch m rs rule: meetReached.induct) (auto split: option.splits if_splits)

lemma meetReached_Inr:
  "meetReached branch m rs = Inr m' \<Longrightarrow>
     (\<forall>r \<in> set rs. m r = None \<or> m r = Some branch) \<and>
     m' = (\<lambda>x. if x \<in> set rs then Some branch else m x)"
proof (induction rs arbitrary: m)
  case (Cons r rs)
  have r: "m r = None \<or> m r = Some branch" and rest: "meetReached branch (m(r \<mapsto> branch)) rs = Inr m'"
    using Cons.prems by (auto split: option.splits if_splits)
  show ?case
    using Cons.IH [OF rest] r by (auto split: if_splits)
qed simp

definition reachedBy_ok :: "('c, 'j) flow_steps \<Rightarrow> jstr set \<Rightarrow> (jstr \<rightharpoonup> jstr) \<Rightarrow> bool" where
  "reachedBy_ok steps D m \<longleftrightarrow> (\<forall>x b. m x = Some b \<longleftrightarrow> b \<in> D \<and> x \<in> reached steps b)"

text \<open>What the two inner loops answer about a set of branches: a step two of them reach, or who reaches what.\<close>

fun meeting :: "('c, 'j) flow_steps \<Rightarrow> jstr set \<Rightarrow> jstr option \<Rightarrow> bool" where
  "meeting steps D (Some x) \<longleftrightarrow> (\<exists>b \<in> D. \<exists>c \<in> D. b \<noteq> c \<and> x \<in> reached steps b \<and> x \<in> reached steps c)"
| "meeting steps D None \<longleftrightarrow> (\<exists>m. reachedBy_ok steps D m)"

lemma meetBranches_meeting:
  "reachedBy_ok steps D m \<Longrightarrow> distinct bs \<Longrightarrow> D \<inter> set bs = {} \<Longrightarrow>
     meeting steps (D \<union> set bs) (meetBranches steps m bs)"
proof (induction bs arbitrary: D m)
  case (Cons b bs)
  show ?case
  proof (cases "meetReached b m (reachableFrom steps [b])")
    case (Inl x)
    then obtain other where "x \<in> reached steps b" "m x = Some other" "other \<noteq> b"
      using meetReached_Inl [OF Inl] by (auto simp: reached_def)
    then show ?thesis
      using Inl Cons.prems(1) by (auto simp: reachedBy_ok_def)
  next
    case (Inr m')
    have m': "\<forall>r \<in> reached steps b. m r = None \<or> m r = Some b"
      "m' = (\<lambda>x. if x \<in> reached steps b then Some b else m x)"
      using meetReached_Inr [OF Inr] by (simp_all add: reached_def)
    have "b \<notin> D"
      using Cons.prems(3) by auto
    then have "reachedBy_ok steps (insert b D) m'"
      using m' Cons.prems(1) unfolding reachedBy_ok_def by (metis insert_iff option.distinct(1) option.inject)
    then have "meeting steps (insert b D \<union> set bs) (meetBranches steps m' bs)"
      using Cons.IH [of "insert b D" m'] Cons.prems by auto
    then show ?thesis
      using Inr by simp
  qed
qed auto

lemma meetBranches_Some:
  assumes "meetBranches steps Map.empty bs = Some x" "distinct bs"
  shows "\<exists>b \<in> set bs. \<exists>c \<in> set bs. b \<noteq> c \<and> x \<in> reached steps b \<and> x \<in> reached steps c"
  using meetBranches_meeting [of steps "{}" Map.empty bs] assms by (simp add: reachedBy_ok_def)

lemma meetBranches_None:
  assumes "meetBranches steps Map.empty bs = None" "distinct bs" "b \<in> set bs" "c \<in> set bs"
    "x \<in> reached steps b" "x \<in> reached steps c"
  shows "b = c"
proof -
  obtain m where "reachedBy_ok steps (set bs) m"
    using meetBranches_meeting [of steps "{}" Map.empty bs] assms(1,2) by (auto simp: reachedBy_ok_def [of _ "{}"])
  then have "m x = Some b" "m x = Some c"
    using assms by (auto simp: reachedBy_ok_def)
  then show ?thesis
    by simp
qed

lemma meetSplits_Some: "meetSplits steps ids = Some (i, x) \<Longrightarrow> (i, x) \<in> splitsMeet steps"
proof (induction steps ids rule: meetSplits.induct)
  case (2 steps j ids)
  then show ?case
    by (auto simp: splitsMeet_def distinct_nextSteps split: option.splits if_splits dest: meetBranches_Some)
qed simp

lemma meetSplits_None: "meetSplits steps ids = None \<Longrightarrow> i \<in> set ids \<Longrightarrow> (i, x) \<notin> splitsMeet steps"
proof (induction steps ids rule: meetSplits.induct)
  case (2 steps j ids)
  then show ?case
    by (auto simp: splitsMeet_def distinct_nextSteps split: option.splits if_splits dest: meetBranches_None)
qed simp

lemma splitMeeting_Some: "splitMeeting steps = Some p \<Longrightarrow> p \<in> splitsMeet steps"
  by (cases p) (simp add: splitMeeting_def meetSplits_Some)

lemma splitMeeting_None: "splitMeeting steps = None \<longleftrightarrow> splitsMeet steps = {}"
proof
  assume none: "splitMeeting steps = None"
  have "(i, x) \<notin> splitsMeet steps" for i x
  proof (cases "hasOwn steps i")
    case True
    then show ?thesis
      using none meetSplits_None [of steps "sortUtf8 (map fst steps)" i x]
      by (simp add: splitMeeting_def hasOwn_iff)
  next
    case False
    then show ?thesis
      by (auto simp: splitsMeet_def hasOwn_def)
  qed
  then show "splitsMeet steps = {}"
    by auto
next
  assume "splitsMeet steps = {}"
  then show "splitMeeting steps = None"
    using splitMeeting_Some by (cases "splitMeeting steps") auto
qed

section \<open>Order\<close>

text \<open>The steps of \<open>R\<close> whose arrow to \<open>b\<close> the writing has not counted off yet.\<close>

definition pending ::
  "('c, 'j) flow_steps \<Rightarrow> jstr set \<Rightarrow> jstr list \<Rightarrow> (jstr \<times> jstr list) list \<Rightarrow> jstr \<Rightarrow> jstr set" where
  "pending steps R order calls b =
     {a \<in> R. b \<in> set (successorsAt steps a) \<and> a \<noteq> b \<and>
        (a \<in> set order \<longrightarrow> (\<exists>left. (a, left) \<in> set calls \<and> b \<in> set left))}"

definition after_all :: "('c, 'j) flow_steps \<Rightarrow> jstr set \<Rightarrow> jstr list \<Rightarrow> jstr \<Rightarrow> bool" where
  "after_all steps R pre b \<longleftrightarrow> (\<forall>a \<in> R. b \<in> set (successorsAt steps a) \<longrightarrow> a \<noteq> b \<longrightarrow> a \<in> set pre)"

definition writing ::
  "('c, 'j) flow_steps \<Rightarrow> jstr set \<Rightarrow> jstr \<Rightarrow> (jstr \<rightharpoonup> int) \<Rightarrow> jstr list \<Rightarrow> (jstr \<times> jstr list) list \<Rightarrow> bool" where
  "writing steps R start waiting order calls \<longleftrightarrow>
     distinct order \<and> set order \<subseteq> R \<and> start \<in> set order
     \<and> distinct (map fst calls)
     \<and> (\<forall>(a, left) \<in> set calls. a \<in> set order \<and> distinct left \<and> set left \<subseteq> set (successorsAt steps a))
     \<and> (\<forall>b \<in> R - set order. pending steps R order calls b \<noteq> {}
          \<and> waitingOf waiting b = int (card (pending steps R order calls b)))
     \<and> (\<forall>pre b post. order = pre @ b # post \<longrightarrow> b \<noteq> start \<longrightarrow> after_all steps R pre b)"

lemma pending_pop: "pending steps R order ((i, []) # calls) b = pending steps R order calls b"
  by (auto simp: pending_def)

lemma pending_skip:
  "b \<noteq> next \<Longrightarrow> pending steps R order ((i, next # left) # calls) b = pending steps R order ((i, left) # calls) b"
  by (auto simp: pending_def)

lemma pending_take:
  assumes "writing steps R start waiting order ((i, next # left) # calls)" "next \<noteq> i" "next \<in> R"
  shows "i \<in> pending steps R order ((i, next # left) # calls) next"
    "pending steps R order ((i, left) # calls) next = pending steps R order ((i, next # left) # calls) next - {i}"
proof -
  have i: "i \<in> set order" "i \<in> R" "next \<in> set (successorsAt steps i)" "next \<notin> set left"
    "i \<notin> set (map fst calls)"
    using assms(1) by (auto simp: writing_def)
  then show "i \<in> pending steps R order ((i, next # left) # calls) next"
    using assms by (auto simp: pending_def)
  have "\<nexists>left'. (i, left') \<in> set calls"
    using i(5) by force
  then show "pending steps R order ((i, left) # calls) next = pending steps R order ((i, next # left) # calls) next - {i}"
    using i by (auto simp: pending_def)
qed

lemma pending_enter:
  assumes "n \<notin> set order"
  shows "pending steps R (order @ [n]) ((n, successorsAt steps n) # calls) b = pending steps R order calls b"
  using assms by (auto simp: pending_def)

lemma writing_pop:
  assumes "writing steps R start waiting order ((i, []) # calls)"
  shows "writing steps R start waiting order calls"
  using assms by (simp add: writing_def pending_pop)

lemma writing_skip:
  assumes ok: "writing steps R start waiting order ((i, next # left) # calls)"
    and skip: "next = i \<or> next \<notin> R \<or> next \<in> set order"
  shows "writing steps R start waiting order ((i, left) # calls)"
proof -
  have i: "i \<in> set order"
    using ok by (simp add: writing_def)
  have "pending steps R order ((i, left) # calls) b = pending steps R order ((i, next # left) # calls) b"
    if "b \<in> R - set order" for b
  proof -
    have "b \<noteq> next"
      using that skip i by auto
    then show ?thesis
      by (rule pending_skip [symmetric])
  qed
  then show ?thesis
    using ok by (auto simp: writing_def)
qed

lemma waitingOf_update [simp]: "waitingOf (w(i \<mapsto> n)) j = (if j = i then n else waitingOf w j)"
  by (simp add: waitingOf_def)

lemma writing_count:
  assumes ok: "writing steps R start waiting order ((i, next # left) # calls)" and R: "finite R"
    and take: "next \<noteq> i" "next \<in> R" "next \<notin> set order" and more: "waitingOf waiting next - 1 \<noteq> 0"
  shows "writing steps R start (waiting(next \<mapsto> waitingOf waiting next - 1)) order ((i, left) # calls)"
proof -
  let ?old = "\<lambda>b. pending steps R order ((i, next # left) # calls) b"
    and ?new = "\<lambda>b. pending steps R order ((i, left) # calls) b"
  have old: "waitingOf waiting b = int (card (?old b))" "?old b \<noteq> {}" if "b \<in> R - set order" for b
    using ok that by (auto simp: writing_def)
  have fin: "finite (?old next)"
    using R by (simp add: pending_def)
  have card: "int (card (?new next)) = waitingOf waiting next - 1"
  proof -
    have "0 < card (?old next)"
      using old(2) [of "next"] take fin by (simp add: card_gt_0_iff)
    then show ?thesis
      using pending_take [OF ok take(1,2)] old(1) [of "next"] take fin by (simp add: of_nat_diff Suc_leI)
  qed
  then have "?new next \<noteq> {}"
    using more by auto
  moreover have "?new b = ?old b" if "b \<noteq> next" for b
    by (rule pending_skip [OF that, symmetric])
  ultimately have "\<forall>b \<in> R - set order. ?new b \<noteq> {}
      \<and> waitingOf (waiting(next \<mapsto> waitingOf waiting next - 1)) b = int (card (?new b))"
    using old card by auto
  then show ?thesis
    using ok by (simp add: writing_def)
qed

lemma writing_enter:
  assumes ok: "writing steps R start waiting order ((i, next # left) # calls)" and R: "finite R"
    and take: "next \<noteq> i" "next \<in> R" "next \<notin> set order" and last: "waitingOf waiting next - 1 = 0"
  shows "writing steps R start (waiting(next \<mapsto> waitingOf waiting next - 1)) (order @ [next])
    ((next, successorsAt steps next) # (i, left) # calls)"
proof -
  let ?old = "\<lambda>b. pending steps R order ((i, next # left) # calls) b"
    and ?new = "\<lambda>b. pending steps R (order @ [next]) ((next, successorsAt steps next) # (i, left) # calls) b"
  have old: "waitingOf waiting b = int (card (?old b))" "?old b \<noteq> {}" if "b \<in> R - set order" for b
    using ok that by (auto simp: writing_def)
  have i: "i \<in> set order"
    using ok by (simp add: writing_def)
  have "card (?old next) = 1"
    using old(1) [of "next"] take last by simp
  then obtain c where "?old next = {c}"
    by (rule card_1_singletonE)
  then have only: "?old next = {i}"
    using pending_take(1) [OF ok take(1,2)] by simp
  have written: "after_all steps R order next"
    unfolding after_all_def
  proof (intro ballI impI, rule ccontr)
    fix a
    assume a: "a \<in> R" "next \<in> set (successorsAt steps a)" "a \<noteq> next" "a \<notin> set order"
    then have "a \<in> ?old next"
      by (simp add: pending_def)
    then show False
      using only i a(4) by simp
  qed
  have same: "?new b = ?old b" if "b \<noteq> next" for b
    using pending_enter [OF take(3)] by (rule trans) (rule pending_skip [OF that, symmetric])
  have "next \<notin> fst ` set calls"
    using ok take(3) by (force simp: writing_def)
  moreover have "after_all steps R pre b" if "order @ [next] = pre @ b # post" "b \<noteq> start" for pre b post
  proof (cases post rule: rev_cases)
    case Nil
    then show ?thesis
      using that written by simp
  next
    case (snoc post' c)
    then have "order = pre @ b # post'"
      using that(1) by simp
    then show ?thesis
      using ok that(2) by (simp add: writing_def)
  qed
  moreover have "\<forall>b \<in> R - set (order @ [next]). ?new b \<noteq> {}
      \<and> waitingOf (waiting(next \<mapsto> waitingOf waiting next - 1)) b = int (card (?new b))"
  proof
    fix b
    assume b: "b \<in> R - set (order @ [next])"
    then have "b \<noteq> next"
      by auto
    then show "?new b \<noteq> {} \<and> waitingOf (waiting(next \<mapsto> waitingOf waiting next - 1)) b = int (card (?new b))"
      using b old [of b] same [of b] by simp
  qed
  moreover have "distinct (order @ [next])" "set (order @ [next]) \<subseteq> R" "start \<in> set (order @ [next])"
    "distinct (map fst ((i, left) # calls))"
    "\<forall>(a, left) \<in> set ((i, left) # calls). a \<in> set order \<and> distinct left \<and> set left \<subseteq> set (successorsAt steps a)"
    using ok take by (auto simp: writing_def)
  ultimately show ?thesis
    using take(1) unfolding writing_def by (auto simp: distinct_successorsAt)
qed

lemma writeLoop_writing:
  "finite R \<Longrightarrow> set reachable = R \<Longrightarrow> writing steps R start waiting order calls \<Longrightarrow>
    \<exists>waiting'. writing steps R start waiting' (writeLoop steps reachable waiting order calls) []"
proof (induction steps reachable waiting order calls rule: writeLoop.induct)
  case (3 steps reachable waiting order i "next" left calls)
  let ?w = "waiting(next \<mapsto> waitingOf waiting next - 1)"
  consider "next = i \<or> next \<notin> R \<or> next \<in> set order"
    | "next \<noteq> i" "next \<in> R" "next \<notin> set order" "waitingOf waiting next - 1 = 0"
    | "next \<noteq> i" "next \<in> R" "next \<notin> set order" "waitingOf waiting next - 1 \<noteq> 0"
    by blast
  then show ?case
  proof cases
    case 1
    then have skip: "next = i \<or> next \<notin> set reachable \<or> next \<in> set order"
      using "3.prems"(2) by simp
    have "writing steps R start waiting order ((i, left) # calls)"
      by (rule writing_skip [OF "3.prems"(3) 1])
    from "3.IH"(1) [OF skip "3.prems"(1,2) this] show ?thesis
      using skip by simp
  next
    case 2
    then have take: "\<not> (next = i \<or> next \<notin> set reachable \<or> next \<in> set order)"
      using "3.prems"(2) by simp
    have "writing steps R start ?w (order @ [next]) ((next, successorsAt steps next) # (i, left) # calls)"
      by (rule writing_enter [OF "3.prems"(3,1) 2])
    from "3.IH"(2) [OF take refl 2(4) "3.prems"(1,2) this] show ?thesis
      using take 2(4) by (simp add: fun_upd_def)
  next
    case 3
    then have take: "\<not> (next = i \<or> next \<notin> set reachable \<or> next \<in> set order)"
      using "3.prems"(2) by simp
    have "writing steps R start ?w order ((i, left) # calls)"
      by (rule writing_count [OF "3.prems"(3,1) 3])
    from "3.IH"(3) [OF take refl 3(4) "3.prems"(1,2) this] show ?thesis
      using take 3(4) by (simp add: fun_upd_def)
  qed
qed (auto intro: writing_pop)
subsection \<open>What is counted first\<close>

lemma count_inner:
  "distinct ss \<Longrightarrow>
     waitingOf (fold (\<lambda>next waiting. if next \<noteq> i \<and> next \<in> R then waiting(next \<mapsto> waitingOf waiting next + 1) else waiting)
       ss w) b
     = waitingOf w b + (if b \<in> set ss \<and> b \<noteq> i \<and> b \<in> R then 1 else 0)"
  by (induction ss arbitrary: w) auto

lemma count_outer:
  assumes "\<And>a. distinct (succ a)"
  shows "distinct rs \<Longrightarrow>
     waitingOf (fold (\<lambda>i. fold (\<lambda>next waiting.
         if next \<noteq> i \<and> next \<in> R then waiting(next \<mapsto> waitingOf waiting next + 1) else waiting) (succ i)) rs w) b
     = waitingOf w b + (if b \<in> R then int (card {a \<in> set rs. b \<in> set (succ a) \<and> a \<noteq> b}) else 0)"
proof (induction rs arbitrary: w)
  case (Cons r rs)
  have "{a \<in> set (r # rs). b \<in> set (succ a) \<and> a \<noteq> b}
      = (if b \<in> set (succ r) \<and> r \<noteq> b then insert r else id) {a \<in> set rs. b \<in> set (succ a) \<and> a \<noteq> b}"
    by auto
  moreover have "r \<notin> {a \<in> set rs. b \<in> set (succ a) \<and> a \<noteq> b}"
    using Cons.prems by simp
  ultimately show ?case
    using Cons assms by (auto simp: count_inner)
qed simp

lemma waitingOf_count:
  assumes "distinct reachable" "b \<in> set reachable"
  shows "waitingOf (countWaiting steps reachable) b
    = int (card {a \<in> set reachable. b \<in> set (successorsAt steps a) \<and> a \<noteq> b})"
  using count_outer [of "successorsAt steps" reachable "set reachable" Map.empty b] assms
  by (simp add: countWaiting_def distinct_successorsAt waitingOf_def)

text \<open>A step that another one reaches has an arrow from some other step reached too.\<close>

lemma reached_from_other:
  assumes "(s, b) \<in> (leads steps)\<^sup>*" "b \<noteq> s"
  shows "\<exists>a. (s, a) \<in> (leads steps)\<^sup>* \<and> b \<in> set (successorsAt steps a) \<and> a \<noteq> b"
  using assms
proof (induction rule: rtrancl_induct)
  case (step y z)
  show ?case
  proof (cases "y = z")
    case True
    then show ?thesis
      using step by simp
  next
    case False
    then show ?thesis
      using step by (auto simp: leads_iff nextAt_def)
  qed
qed simp

lemma writing_start:
  fixes steps :: "('c, 'j) flow_steps" and start :: jstr
  defines "reachable \<equiv> reachableFrom steps [start]"
  assumes "hasOwn steps start"
  shows "writing steps (set reachable) start (countWaiting steps reachable) [start] [(start, successorsAt steps start)]"
proof -
  have R: "set reachable = (leads steps)\<^sup>* `` {start}"
    using assms(2) by (auto simp: reachable_def set_reachableFrom)
  have distinct: "distinct reachable"
    by (simp add: reachable_def distinct_reachableFrom)
  have pending: "pending steps (set reachable) [start] [(start, successorsAt steps start)] b
      = {a \<in> set reachable. b \<in> set (successorsAt steps a) \<and> a \<noteq> b}" for b
    by (auto simp: pending_def)
  have "\<forall>b \<in> set reachable - {start}. pending steps (set reachable) [start] [(start, successorsAt steps start)] b \<noteq> {}
      \<and> waitingOf (countWaiting steps reachable) b
        = int (card (pending steps (set reachable) [start] [(start, successorsAt steps start)] b))"
  proof
    fix b
    assume b: "b \<in> set reachable - {start}"
    then obtain a where "a \<in> set reachable" "b \<in> set (successorsAt steps a)" "a \<noteq> b"
      using R reached_from_other [of start b steps] by auto
    then show "pending steps (set reachable) [start] [(start, successorsAt steps start)] b \<noteq> {}
      \<and> waitingOf (countWaiting steps reachable) b
        = int (card (pending steps (set reachable) [start] [(start, successorsAt steps start)] b))"
      using waitingOf_count [OF distinct, of b steps] b unfolding pending by auto
  qed
  then show ?thesis
    using R by (auto simp: writing_def distinct_successorsAt Cons_eq_append_conv)
qed

subsection \<open>What is written in the end\<close>

text \<open>The part of the order that the recursion writes.\<close>

definition writtenOrder :: "('c, 'j) flow_document \<Rightarrow> jstr list" where
  "writtenOrder flow =
     (let steps = fd_steps flow; reachable = reachableFrom steps [fd_start flow]
      in if fd_start flow \<in> set reachable
         then writeLoop steps reachable (countWaiting steps reachable) [fd_start flow]
                [(fd_start flow, successorsAt steps (fd_start flow))]
         else [])"

lemma stepOrder_written:
  "stepOrder flow = writtenOrder flow @ filter (\<lambda>i. i \<notin> set (writtenOrder flow)) (sortUtf8 (map fst (fd_steps flow)))"
  by (simp add: stepOrder_def writtenOrder_def Let_def)

lemma writtenOrder_writing:
  assumes "hasOwn (fd_steps flow) (fd_start flow)"
  shows "\<exists>waiting. writing (fd_steps flow) (set (reachableFrom (fd_steps flow) [fd_start flow])) (fd_start flow)
    waiting (writtenOrder flow) []"
proof -
  have "fd_start flow \<in> set (reachableFrom (fd_steps flow) [fd_start flow])"
    using assms by (auto simp: set_reachableFrom)
  then show ?thesis
    using writeLoop_writing [OF _ refl writing_start [OF assms]] by (simp add: writtenOrder_def Let_def)
qed

lemma writtenOrder_other: "\<not> hasOwn (fd_steps flow) (fd_start flow) \<Longrightarrow> writtenOrder flow = []"
  by (auto simp: writtenOrder_def Let_def dest: reachableFrom_own)

lemma distinct_writtenOrder: "distinct (writtenOrder flow)"
  using writtenOrder_writing [of flow] writtenOrder_other [of flow]
  by (cases "hasOwn (fd_steps flow) (fd_start flow)") (auto simp: writing_def)

lemma set_writtenOrder: "set (writtenOrder flow) \<subseteq> set (reachableFrom (fd_steps flow) [fd_start flow])"
  using writtenOrder_writing [of flow] writtenOrder_other [of flow]
  by (cases "hasOwn (fd_steps flow) (fd_start flow)") (auto simp: writing_def)

lemma set_stepOrder: "set (stepOrder flow) = set (map fst (fd_steps flow))"
  using set_writtenOrder [of flow] reachableFrom_own [of _ "fd_steps flow" "[fd_start flow]"]
  by (auto simp: stepOrder_written hasOwn_iff)

lemma distinct_stepOrder: "distinct (map fst (fd_steps flow)) \<Longrightarrow> distinct (stepOrder flow)"
  by (auto simp: stepOrder_written distinct_writtenOrder)

lemma all_written:
  assumes "acyclic (leads (fd_steps flow))"
  shows "set (writtenOrder flow) = set (reachableFrom (fd_steps flow) [fd_start flow])"
proof (cases "hasOwn (fd_steps flow) (fd_start flow)")
  case True
  let ?steps = "fd_steps flow" and ?R = "set (reachableFrom (fd_steps flow) [fd_start flow])"
  obtain w where ok: "writing ?steps ?R (fd_start flow) w (writtenOrder flow) []"
    using writtenOrder_writing [OF True] by blast
  have "b \<in> ?R \<Longrightarrow> b \<in> set (writtenOrder flow)" for b
  proof (induction b rule: wf_induct_rule [OF finite_acyclic_wf [OF finite_leads assms]])
    case (1 b)
    show ?case
    proof (rule ccontr)
      assume "b \<notin> set (writtenOrder flow)"
      then have "pending ?steps ?R (writtenOrder flow) [] b \<noteq> {}"
        using ok 1(2) by (simp add: writing_def)
      then obtain a where a: "a \<in> ?R" "b \<in> set (successorsAt ?steps a)" "a \<notin> set (writtenOrder flow)"
        by (auto simp: pending_def)
      then have "(a, b) \<in> leads ?steps"
        using reachableFrom_own [OF 1(2)] by (simp add: leads_iff nextAt_def)
      then show False
        using 1(1) a by blast
    qed
  qed
  then show ?thesis
    using set_writtenOrder by blast
next
  case False
  then show ?thesis
    using writtenOrder_other [OF False] by (auto simp: set_reachableFrom)
qed

lemma written_after:
  assumes "writtenOrder flow = pre @ b # post" "b \<noteq> fd_start flow"
    "a \<in> set (reachableFrom (fd_steps flow) [fd_start flow])" "(a, b) \<in> leads (fd_steps flow)" "a \<noteq> b"
  shows "a \<in> set pre"
proof -
  have "hasOwn (fd_steps flow) (fd_start flow)"
    using assms(1) writtenOrder_other [of flow] by auto
  then obtain w where "writing (fd_steps flow) (set (reachableFrom (fd_steps flow) [fd_start flow]))
      (fd_start flow) w (writtenOrder flow) []"
    using writtenOrder_writing by blast
  then have "after_all (fd_steps flow) (set (reachableFrom (fd_steps flow) [fd_start flow])) pre b"
    using assms by (auto simp: writing_def)
  then show ?thesis
    using assms by (auto simp: after_all_def leads_iff nextAt_def)
qed

end
