(* ===== verification/FlowProperties.thy ===== *)
theory FlowProperties
  imports FlowOrder "HOL-Library.Code_Target_Nat"
begin

text \<open>What the graph of a flow promises to the checks, the printer, the designer and a run that uses it.\<close>

section \<open>Lemmas on drawing\<close>

lemma map_of_withMember [simp]:
  "map_of (withMember ms k v) i = (if i = k then Some v else map_of ms i)"
  by (simp add: withMember_def update_conv')

lemma connected_goes:
  assumes "connected step outcome to = Some changed" "to \<noteq> END" "\<not> isSplit step"
  shows "nextSteps changed outcome = [to]"
  using assms
  by (cases "fs_body step") (auto simp: connected_def nextSteps_def arrowsOf_def arrowTo_def isSplit_def
      split: if_splits option.splits)

lemma connected_branch:
  assumes "connected step outcome to = Some changed" "isSplit step"
  shows "to \<in> set (nextSteps changed other)"
  using assms
  by (cases "fs_body step") (auto simp: connected_def nextSteps_def isSplit_def split: if_splits)

section \<open>Properties\<close>

text \<open>
  C30. What \<open>reachableFrom\<close> returns is exactly what the arrows lead to from the steps given that the flow holds, each
  of them once; it stops whatever the arrows draw, a circle too.
\<close>
theorem reachable_is_reachability:
  "distinct (reachableFrom steps starts)
   \<and> (x \<in> set (reachableFrom steps starts)
      \<longleftrightarrow> (\<exists>s \<in> {s \<in> set starts. hasOwn steps s}. (s, x) \<in> (leads steps)\<^sup>*))"
  by (auto simp: set_reachableFrom distinct_reachableFrom)

text \<open>
  C28. The search for a circle is right both ways: the step it names is on a circle of arrows, and where it names none
  there is none.
\<close>
theorem circle_found_if_drawn:
  "case cycleStep steps of
     None \<Rightarrow> acyclic (leads steps)
   | Some x \<Rightarrow> (x, x) \<in> (leads steps)\<^sup>+"
  using cycleStep_None [of steps] cycleStep_Some [of steps] by (auto split: option.split)

text \<open>
  C29. A meeting of branches is found exactly where there is one: the split and the step it names are a split of the
  flow and a step that two of its branches reach, and where it names none no two branches of any split reach one step.
\<close>
theorem meeting_found_if_drawn:
  "case splitMeeting steps of
     None \<Rightarrow> splitsMeet steps = {}
   | Some p \<Rightarrow> p \<in> splitsMeet steps"
  using splitMeeting_None [of steps] splitMeeting_Some [of steps] by (auto split: option.split)

text \<open>
  The printer's order holds each step of the flow once. Where the arrows draw no circle, the steps reached from the
  start come first, and each of them after every reached step with an arrow to it.
\<close>
lemma printed_in_order:
  assumes "distinct (map fst (fd_steps flow))" "acyclic (leads (fd_steps flow))"
  shows "distinct (stepOrder flow) \<and> set (stepOrder flow) = set (map fst (fd_steps flow))
    \<and> (\<exists>first rest. stepOrder flow = first @ rest
        \<and> set first = set (reachableFrom (fd_steps flow) [fd_start flow])
        \<and> (\<forall>pre b post. first = pre @ b # post \<longrightarrow>
             (\<forall>a \<in> set first. (a, b) \<in> leads (fd_steps flow) \<longrightarrow> a \<in> set pre)))"
proof (intro conjI exI allI ballI impI)
  let ?steps = "fd_steps flow" and ?rest = "filter (\<lambda>i. i \<notin> set (writtenOrder flow)) (sortUtf8 (map fst (fd_steps flow)))"
  show "distinct (stepOrder flow)"
    by (rule distinct_stepOrder [OF assms(1)])
  show "set (stepOrder flow) = set (map fst ?steps)"
    by (rule set_stepOrder)
  show "stepOrder flow = writtenOrder flow @ ?rest"
    by (rule stepOrder_written)
  show all: "set (writtenOrder flow) = set (reachableFrom ?steps [fd_start flow])"
    by (rule all_written [OF assms(2)])
  fix pre b post a
  assume split: "writtenOrder flow = pre @ b # post" and a: "a \<in> set (writtenOrder flow)" "(a, b) \<in> leads ?steps"
  have "a \<noteq> b"
    using a(2) assms(2) by (auto simp: acyclic_def)
  moreover have "b \<noteq> fd_start flow"
  proof
    assume "b = fd_start flow"
    then have "(b, a) \<in> (leads ?steps)\<^sup>*"
      using a(1) all by (auto simp: set_reachableFrom)
    then show False
      using a(2) assms(2) by (meson acyclic_def rtrancl_into_trancl1)
  qed
  ultimately show "a \<in> set pre"
    using written_after [OF split] a all by simp
qed

text \<open>
  The designer draws an arrow only into a flow that stays one: the outcome is the step's own, the arrow goes to a
  step of the flow or to its end, every other step is as it was, the outcome now goes there, and the graph with the
  arrow has no circle and no split whose branches meet.
\<close>
lemma drawn_arrows_keep_the_graph:
  assumes "connectionAllowed flow i outcome to"
  shows "\<exists>step changed after. map_of (fd_steps flow) i = Some step \<and> connected step outcome to = Some changed
    \<and> after = withMember (fd_steps flow) i changed
    \<and> (to = END \<or> hasOwn (fd_steps flow) to)
    \<and> (isSplit step \<or> outcome = OTHERWISE \<or> outcome \<in> set (outcomesOf step))
    \<and> (to \<noteq> END \<longrightarrow> (if isSplit step then to \<in> set (nextSteps changed outcome) else nextSteps changed outcome = [to]))
    \<and> (\<forall>j. j \<noteq> i \<longrightarrow> map_of after j = map_of (fd_steps flow) j)
    \<and> acyclic (leads after) \<and> splitsMeet after = {}"
proof -
  obtain step changed where step: "map_of (fd_steps flow) i = Some step" "connected step outcome to = Some changed"
    "to = END \<or> hasOwn (fd_steps flow) to"
    "cycleStep (withMember (fd_steps flow) i changed) = None" "splitMeeting (withMember (fd_steps flow) i changed) = None"
    using assms by (auto simp: connectionAllowed_def Let_def split: option.splits if_splits)
  moreover have "isSplit step \<or> outcome = OTHERWISE \<or> outcome \<in> set (outcomesOf step)"
    using step(2) by (auto simp: connected_def isSplit_def split: step_body.splits if_splits)
  ultimately show ?thesis
    using connected_goes [OF step(2)] connected_branch [OF step(2)] cycleStep_None splitMeeting_None
    by (intro exI [of _ step] exI [of _ changed] exI [of _ "withMember (fd_steps flow) i changed"]) auto
qed

text \<open>
  A settled branch closes what it alone led to: the steps \<open>unreachableAfter\<close> names are those that are neither
  live nor settled and that no live step leads to by any number of arrows, each once.
\<close>
lemma closed_steps_are_out_of_reach:
  "i \<in> set (unreachableAfter flow live settled) \<longleftrightarrow>
     hasOwn (fd_steps flow) i \<and> i \<notin> set live \<and> i \<notin> set settled
     \<and> (\<nexists>s. s \<in> set live \<and> hasOwn (fd_steps flow) s \<and> (s, i) \<in> (leads (fd_steps flow))\<^sup>*)"
  by (auto simp: unreachableAfter_def Let_def set_stepOrder set_reachableFrom hasOwn_iff)

section \<open>A flow\<close>

definition sampleStep :: "(unit, unit) step_body \<Rightarrow> (jstr \<times> jstr) list \<Rightarrow> (unit, unit) flow_step" where
  "sampleStep body arrows = \<lparr>fs_label = None, fs_emit = None, fs_body = body, fs_next = arrows\<rparr>"

definition sampleFlow :: "(unit, unit) flow_document" where
  "sampleFlow = \<lparr>fd_start = js ''ask'',
     fd_steps =
       [(js ''tell'', sampleStep (NotifyStep (js ''done'')) []),
        (js ''ask'', sampleStep (ConditionStep ()) [(js ''yes'', js ''send''), (OTHERWISE, js ''tell'')]),
        (js ''send'', sampleStep (DeliverStep (js ''t'') 1 None None) [(js ''done'', js ''tell'')])],
     fd_limits = \<lparr>fl_runsPerHour = 10, fl_concurrentRuns = 2, fl_sessionsPerHour = 2, fl_worktreesPerDay = 5,
       fl_linearWritesPerHour = 30, fl_eventsPerHour = 120, fl_runMs = 259200000\<rparr>,
     fd_events = None, fd_on = None, fd_shadow = False\<rparr>"

lemma printed_in_order_witness:
  "stepOrder sampleFlow = [js ''ask'', js ''send'', js ''tell''] \<and> set (stepOrder sampleFlow) = {js ''ask'', js ''send'', js ''tell''}"
proof -
  have "distinct (map fst (fd_steps sampleFlow))"
    by code_simp
  moreover have "acyclic (leads (fd_steps sampleFlow))"
    unfolding cycleStep_None [symmetric] by code_simp
  ultimately have "set (stepOrder sampleFlow) = set (map fst (fd_steps sampleFlow))"
    using printed_in_order by blast
  moreover have "stepOrder sampleFlow = [js ''ask'', js ''send'', js ''tell'']"
    by code_simp
  ultimately show ?thesis
    by (simp add: sampleFlow_def)
qed

lemma drawn_arrows_keep_the_graph_witness:
  "connectionAllowed sampleFlow (js ''ask'') (js ''no'') (js ''send'')
   \<and> \<not> connectionAllowed sampleFlow (js ''tell'') (js ''sent'') (js ''ask'')
   \<and> (\<exists>after. acyclic (leads (after :: (unit, unit) flow_steps)) \<and> hasOwn after (js ''ask''))"
proof -
  have allowed: "connectionAllowed sampleFlow (js ''ask'') (js ''no'') (js ''send'')"
    by code_simp
  then obtain after :: "(unit, unit) flow_steps" and changed where
    "acyclic (leads after)" "after = withMember (fd_steps sampleFlow) (js ''ask'') changed"
    using drawn_arrows_keep_the_graph by blast
  then have "acyclic (leads after) \<and> hasOwn after (js ''ask'')"
    by (simp add: hasOwn_def)
  moreover have "\<not> connectionAllowed sampleFlow (js ''tell'') (js ''sent'') (js ''ask'')"
    by code_simp
  ultimately show ?thesis
    using allowed by blast
qed

end
