(* ===== verification/NetAddress.thy ===== *)
theory NetAddress
  imports Runtime Json "HOL-Library.Code_Target_Nat"
begin

unbundle bit_operations_syntax

text \<open>
  Where the event daemon may connect: \<open>packages/events-daemon/src/network/address-policy.ts\<close> and
  \<open>iana-special-purpose.ts\<close>. An address is its number, a natural as the code's \<open>bigint\<close> never is negative; every
  refusal is one error. \<open>Number\<close> of text that is not digits, and the collation that \<open>localeCompare\<close> asks of the
  host, are arguments.
\<close>

section \<open>Texts of addresses\<close>

datatype address_error = NETWORK_ADDRESS_REFUSED

datatype family = V4 | V6

record ip_address =
  ip_address :: jstr
  ip_family :: family
  ip_value :: nat

record cidr =
  ci_family :: family
  ci_prefixLength :: nat
  ci_value :: nat

record net_host =
  nh_number :: "jstr \<Rightarrow> int option"
  nh_localeCompare :: "jstr \<Rightarrow> jstr \<Rightarrow> int"

definition IPV4_MAX :: nat where "IPV4_MAX = 2 ^ 32 - 1"
definition IPV6_MAX :: nat where "IPV6_MAX = 2 ^ 128 - 1"

fun bitsFor :: "family \<Rightarrow> nat" where
  "bitsFor V4 = 32"
| "bitsFor V6 = 128"

fun maxFor :: "family \<Rightarrow> nat" where
  "maxFor V4 = IPV4_MAX"
| "maxFor V6 = IPV6_MAX"

text \<open>The mask of a prefix whose length fits; \<open>parseCidr\<close> refuses the others, where the code's throws.\<close>

definition maskOf :: "family \<Rightarrow> nat \<Rightarrow> nat" where
  "maskOf family prefixLength =
     (if prefixLength = 0 then 0 else push_bit (bitsFor family - prefixLength) (2 ^ prefixLength - 1))"

definition stripBrackets :: "jstr \<Rightarrow> jstr" where
  "stripBrackets s =
     (if s \<noteq> [] \<and> hd s = 91 \<and> last s = 93 then butlast (tl s) else s)"

text \<open>\<open>/^(?:0|[1-9]\d{0,2})$/\<close>.\<close>

definition octetText :: "jstr \<Rightarrow> bool" where
  "octetText part \<longleftrightarrow>
     (case part of [] \<Rightarrow> False
      | c # cs \<Rightarrow> part = [48] \<or> (49 \<le> c \<and> c \<le> 57 \<and> length cs \<le> 2 \<and> list_all isDigit cs))"

fun parseOctets :: "nat \<Rightarrow> jstr list \<Rightarrow> nat option" where
  "parseOctets r [] = Some r"
| "parseOctets r (part # parts) =
     (if \<not> octetText part then None
      else if numberOf part > 255 then None
      else parseOctets (push_bit 8 r OR numberOf part) parts)"

definition parseIpv4 :: "jstr \<Rightarrow> nat option" where
  "parseIpv4 s = (let parts = splitOn 46 s in if length parts \<noteq> 4 then None else parseOctets 0 parts)"

definition ipv4Text :: "nat \<Rightarrow> jstr" where
  "ipv4Text v = join [46] (map (\<lambda>shift. decimal (drop_bit shift v AND 255)) [24, 16, 8, 0])"

text \<open>\<open>text.indexOf(part, from)\<close>.\<close>

definition indexOf :: "jstr \<Rightarrow> jstr \<Rightarrow> nat \<Rightarrow> nat option" where
  "indexOf s part from = find (\<lambda>i. take (length part) (drop i s) = part) [from..<length s]"

definition isHexUnit :: "nat \<Rightarrow> bool" where
  "isHexUnit c \<longleftrightarrow> isDigit c \<or> (97 \<le> c \<and> c \<le> 102) \<or> (65 \<le> c \<and> c \<le> 70)"

definition hexUnitValue :: "nat \<Rightarrow> nat" where
  "hexUnitValue c = (if c < 58 then c - 48 else if c < 97 then c - 55 else c - 87)"

definition hexNumber :: "jstr \<Rightarrow> nat" where
  "hexNumber s = foldl (\<lambda>n c. 16 * n + hexUnitValue c) 0 s"

fun parseGroups :: "jstr list \<Rightarrow> nat list option" where
  "parseGroups [] = Some []"
| "parseGroups (part # parts) =
     (if 46 \<in> set part
      then if parts \<noteq> [] then None
           else (case parseIpv4 part of None \<Rightarrow> None
             | Some embedded \<Rightarrow> Some [drop_bit 16 embedded AND 65535, embedded AND 65535])
      else if part = [] \<or> length part > 4 \<or> \<not> list_all isHexUnit part then None
      else map_option ((#) (hexNumber part)) (parseGroups parts))"

definition groupsValue :: "nat list \<Rightarrow> nat" where
  "groupsValue groups = fold (\<lambda>group r. push_bit 16 r OR group) groups 0"

definition colonParts :: "jstr \<Rightarrow> jstr list" where
  "colonParts s = (if s = [] then [] else splitOn 58 s)"

definition parseIpv6 :: "jstr \<Rightarrow> nat option" where
  "parseIpv6 s =
     (if 37 \<in> set s then None
      else let doubleColon = indexOf s [58, 58] 0
      in if (case doubleColon of None \<Rightarrow> False | Some i \<Rightarrow> indexOf s [58, 58] (i + 1) \<noteq> None) then None
      else let leftParts = colonParts (case doubleColon of None \<Rightarrow> s | Some i \<Rightarrow> take i s);
               rightParts = colonParts (case doubleColon of None \<Rightarrow> [] | Some i \<Rightarrow> drop (i + 2) s);
               rawParts = leftParts @ rightParts
      in if [] \<in> set rawParts then None
      else (case parseGroups rawParts of None \<Rightarrow> None
        | Some groups \<Rightarrow>
            if doubleColon = None then (if length groups \<noteq> 8 then None else Some (groupsValue groups))
            else if length groups \<ge> 8 then None
            else let at = sum_list (map (\<lambda>part. if 46 \<in> set part then 2 else 1) leftParts)
                 in Some (groupsValue (take at groups @ replicate (8 - length groups) 0 @ drop at groups))))"

text \<open>The longest run of zero groups, the first of the longest, when it is longer than one.\<close>

function bestRun :: "nat list \<Rightarrow> nat \<Rightarrow> (nat \<times> nat) option \<Rightarrow> (nat \<times> nat) option" where
  "bestRun groups index best =
     (if index < length groups
      then if groups ! index \<noteq> 0 then bestRun groups (index + 1) best
           else let run = length (takeWhile (\<lambda>g. g = 0) (drop index groups))
                in bestRun groups (index + run)
                     (if run > (case best of None \<Rightarrow> 0 | Some (_, l) \<Rightarrow> l) \<and> run > 1 then Some (index, run) else best)
      else best)"
  by pat_completeness auto
termination
proof (relation "measure (\<lambda>(groups, index, _). length groups - index)")
  fix groups :: "nat list" and index run :: nat and best best' :: "(nat \<times> nat) option"
  assume a: "index < length groups" "\<not> groups ! index \<noteq> 0" "run = length (takeWhile (\<lambda>g. g = 0) (drop index groups))"
  then have "0 < run"
    by (simp add: Cons_nth_drop_Suc [symmetric])
  then show "((groups, index + run, best'), (groups, index, best)) \<in> measure (\<lambda>(groups, index, _). length groups - index)"
    for best'
    using a(1) \<open>0 < run\<close> by simp
qed auto

declare bestRun.simps [simp del]

fun hexText :: "nat \<Rightarrow> jstr" where
  "hexText n = (if n < 16 then [hexDigit n] else hexText (n div 16) @ [hexDigit (n mod 16)])"

declare hexText.simps [simp del]

text \<open>\<open>text.replace(/^:/, '::').replace(/:$/, '::')\<close>.\<close>

definition doubleOuterColons :: "jstr \<Rightarrow> jstr" where
  "doubleOuterColons s =
     (let t = (if s \<noteq> [] \<and> hd s = 58 then 58 # s else s)
      in if t \<noteq> [] \<and> last t = 58 then t @ [58] else t)"

text \<open>The pieces that are joined: the groups before the run, an empty one for it, a second one at the end, the rest.\<close>

definition ipv6Pieces :: "nat list \<Rightarrow> (nat \<times> nat) option \<Rightarrow> jstr list" where
  "ipv6Pieces groups best =
     (case best of None \<Rightarrow> map hexText groups
      | Some (start, run) \<Rightarrow>
          map hexText (take start groups) @ [[]] @ (if start + run = length groups then [[]] else [])
          @ map hexText (drop (start + run) groups))"

definition ipv6Groups :: "nat \<Rightarrow> nat list" where
  "ipv6Groups v = map (\<lambda>index. drop_bit ((7 - index) * 16) v AND 65535) [0..<8]"

definition ipv6Text :: "nat \<Rightarrow> jstr" where
  "ipv6Text v =
     (let groups = ipv6Groups v; best = bestRun groups 0 None
      in if best = Some (0, 8) then [58, 58]
         else doubleOuterColons (join [58] (ipv6Pieces groups best)))"

definition parseIpLiteral :: "jstr \<Rightarrow> address_error + ip_address" where
  "parseIpLiteral input =
     (let s = stripBrackets (trim input)
      in case parseIpv4 s of
           Some v \<Rightarrow> Inr \<lparr>ip_address = ipv4Text v, ip_family = V4, ip_value = v\<rparr>
         | None \<Rightarrow> (case parseIpv6 s of
             Some v \<Rightarrow> Inr \<lparr>ip_address = ipv6Text v, ip_family = V6, ip_value = v\<rparr>
           | None \<Rightarrow> Inl NETWORK_ADDRESS_REFUSED))"

section \<open>Prefixes\<close>

definition lastIndexOf :: "nat \<Rightarrow> jstr \<Rightarrow> nat option" where
  "lastIndexOf c s =
     (if c \<in> set s then Some (length s - 1 - length (takeWhile (\<lambda>u. u \<noteq> c) (rev s))) else None)"

text \<open>\<open>Number(text)\<close>, when it is a whole number.\<close>

definition wholeNumber :: "net_host \<Rightarrow> jstr \<Rightarrow> int option" where
  "wholeNumber host s =
     (if s \<noteq> [] \<and> list_all isDigit s then Some (int (numberOf s)) else nh_number host s)"

definition parseCidr :: "net_host \<Rightarrow> jstr \<Rightarrow> address_error + cidr" where
  "parseCidr host input =
     (case lastIndexOf 47 input of None \<Rightarrow> Inl NETWORK_ADDRESS_REFUSED
      | Some slash \<Rightarrow>
          if slash = 0 \<or> slash = length input - 1 then Inl NETWORK_ADDRESS_REFUSED
          else result_bind (parseIpLiteral (take slash input)) (\<lambda>address.
            case wholeNumber host (drop (slash + 1) input) of None \<Rightarrow> Inl NETWORK_ADDRESS_REFUSED
            | Some n \<Rightarrow>
                if n < 0 \<or> n > int (bitsFor (ip_family address)) then Inl NETWORK_ADDRESS_REFUSED
                else if ip_value address AND maskOf (ip_family address) (nat n) \<noteq> ip_value address
                  then Inl NETWORK_ADDRESS_REFUSED
                else Inr \<lparr>ci_family = ip_family address, ci_prefixLength = nat n, ci_value = ip_value address\<rparr>))"

definition inCidr :: "ip_address \<Rightarrow> cidr \<Rightarrow> bool" where
  "inCidr address c \<longleftrightarrow> ip_family address = ci_family c \<and>
     ip_value address AND maskOf (ci_family c) (ci_prefixLength c) = ci_value c"

fun sortedBy :: "(jstr \<Rightarrow> jstr \<Rightarrow> int) \<Rightarrow> jstr list \<Rightarrow> bool" where
  "sortedBy compare (previous # current # rest) \<longleftrightarrow>
     compare previous current < 0 \<and> sortedBy compare (current # rest)"
| "sortedBy compare _ \<longleftrightarrow> True"

fun traverse :: "('a \<Rightarrow> 'e + 'b) \<Rightarrow> 'a list \<Rightarrow> 'e + 'b list" where
  "traverse f [] = Inr []"
| "traverse f (x # xs) = result_bind (f x) (\<lambda>y. result_bind (traverse f xs) (\<lambda>ys. Inr (y # ys)))"

definition approvedEntry :: "net_host \<Rightarrow> jstr \<Rightarrow> address_error + cidr" where
  "approvedEntry host entry =
     (if 47 \<in> set entry then parseCidr host entry
      else result_bind (parseIpLiteral entry) (\<lambda>a.
        parseCidr host (ip_address a @ [47] @ decimal (bitsFor (ip_family a)))))"

definition parseApprovedAddressSet :: "net_host \<Rightarrow> jstr list \<Rightarrow> address_error + cidr list" where
  "parseApprovedAddressSet host entries =
     (if entries = [] then Inl NETWORK_ADDRESS_REFUSED
      else result_bind (traverse (approvedEntry host) entries) (\<lambda>parsed.
        if sortedBy (nh_localeCompare host) entries then Inr parsed else Inl NETWORK_ADDRESS_REFUSED))"

section \<open>The policy\<close>

text \<open>The registry of special-purpose addresses the repository carries: each prefix, and whether it is global.\<close>

definition IANA_SPECIAL_PURPOSE :: "(jstr \<times> bool) list" where
  "IANA_SPECIAL_PURPOSE = map (\<lambda>(prefix, globallyReachable). (js prefix, globallyReachable))
     [(''0.0.0.0/8'', False), (''0.0.0.0/32'', False), (''10.0.0.0/8'', False),
      (''100.64.0.0/10'', False), (''127.0.0.0/8'', False), (''169.254.0.0/16'', False),
      (''172.16.0.0/12'', False), (''192.0.0.0/24'', False), (''192.0.0.0/29'', False),
      (''192.0.0.8/32'', False), (''192.0.0.9/32'', True), (''192.0.0.10/32'', True),
      (''192.0.0.170/32'', False), (''192.0.0.171/32'', False), (''192.0.2.0/24'', False),
      (''192.31.196.0/24'', True), (''192.52.193.0/24'', True), (''192.88.99.0/24'', False),
      (''192.88.99.2/32'', False), (''192.168.0.0/16'', False), (''192.175.48.0/24'', True),
      (''198.18.0.0/15'', False), (''198.51.100.0/24'', False), (''203.0.113.0/24'', False),
      (''240.0.0.0/4'', False), (''255.255.255.255/32'', False), (''::1/128'', False),
      (''::/128'', False), (''::ffff:0:0/96'', False), (''64:ff9b::/96'', True),
      (''64:ff9b:1::/48'', False), (''100::/64'', False), (''100:0:0:1::/64'', False),
      (''2001::/23'', False), (''2001::/32'', False), (''2001:1::1/128'', True),
      (''2001:1::2/128'', True), (''2001:1::3/128'', True), (''2001:2::/48'', False),
      (''2001:3::/32'', True), (''2001:4:112::/48'', True), (''2001:10::/28'', False),
      (''2001:20::/28'', True), (''2001:30::/28'', True), (''2001:db8::/32'', False),
      (''2002::/16'', False), (''2620:4f:8000::/48'', True), (''3fff::/20'', False),
      (''5f00::/16'', False), (''fc00::/7'', False), (''fe80::/10'', False)]"

text \<open>
  The prefixes the module parses when it loads. All are digits, dots and colons with a decimal length, so the host
  takes no part; one that did not parse would stop the module from loading.
\<close>

definition plainHost :: net_host where
  "plainHost = \<lparr>nh_number = (\<lambda>_. None), nh_localeCompare = (\<lambda>_ _. 0)\<rparr>"

definition constantCidr :: "string \<Rightarrow> cidr option" where
  "constantCidr s = (case parseCidr plainHost (js s) of Inl _ \<Rightarrow> None | Inr c \<Rightarrow> Some c)"

definition inConstant :: "string \<Rightarrow> ip_address \<Rightarrow> bool" where
  "inConstant s address = (case constantCidr s of None \<Rightarrow> False | Some c \<Rightarrow> inCidr address c)"

definition registryPrefixes :: "(cidr \<times> bool) list" where
  "registryPrefixes =
     [(c, reachable). (prefix, reachable) \<leftarrow> IANA_SPECIAL_PURPOSE,
        c \<leftarrow> (case parseCidr plainHost prefix of Inl _ \<Rightarrow> [] | Inr c \<Rightarrow> [c])]"

definition isUnconditionallyDenied :: "ip_address \<Rightarrow> bool" where
  "isUnconditionallyDenied address \<longleftrightarrow>
     inConstant ''169.254.0.0/16'' address \<or> inConstant ''fe80::/10'' address
     \<or> inConstant ''224.0.0.0/4'' address \<or> inConstant ''ff00::/8'' address
     \<or> (ip_family address = V4 \<and> Some (ip_value address) = parseIpv4 (js ''169.254.169.254''))
     \<or> (ip_family address = V6 \<and> Some (ip_value address) = parseIpv6 (js ''fd00:ec2::254''))"

text \<open>The longest prefix that holds the address decides; the sort is stable.\<close>

definition globallyReachable :: "ip_address \<Rightarrow> bool" where
  "globallyReachable address =
     (case sort_key (\<lambda>(c, _). - int (ci_prefixLength c)) (filter (\<lambda>(c, _). inCidr address c) registryPrefixes) of
        [] \<Rightarrow> True
      | (_, reachable) # _ \<Rightarrow> reachable)"

definition ipv4From :: "nat \<Rightarrow> ip_address" where
  "ipv4From v = (let ipv4 = v AND IPV4_MAX in \<lparr>ip_address = ipv4Text ipv4, ip_family = V4, ip_value = ipv4\<rparr>)"

datatype address_mode = ApprovedAddressSet "jstr list" | GlobalOnly

text \<open>\<open>AddressPolicyOptions\<close>; one text for the NAT64 prefix is a list of one.\<close>

record address_options =
  ao_mode :: address_mode
  ao_activeNat64Prefix :: "jstr list option"

definition configuredNat64 :: "net_host \<Rightarrow> address_options \<Rightarrow> address_error + cidr option" where
  "configuredNat64 host options =
     (case ao_activeNat64Prefix options of None \<Rightarrow> Inr None
      | Some [prefixText] \<Rightarrow> result_bind (parseCidr host prefixText) (\<lambda>prefix.
          if ci_family prefix \<noteq> V6 \<or> ci_prefixLength prefix \<noteq> 96 then Inl NETWORK_ADDRESS_REFUSED
          else Inr (Some prefix))
      | Some _ \<Rightarrow> Inl NETWORK_ADDRESS_REFUSED)"

definition inConfigured :: "ip_address \<Rightarrow> cidr option \<Rightarrow> bool" where
  "inConfigured address configured = (case configured of None \<Rightarrow> False | Some c \<Rightarrow> inCidr address c)"

definition embeddedAddresses :: "net_host \<Rightarrow> address_options \<Rightarrow> ip_address \<Rightarrow> address_error + ip_address list" where
  "embeddedAddresses host options address =
     (if ip_family address \<noteq> V6 then Inr []
      else let v = ip_value address;
               upper96 = drop_bit 32 v;
               mapped = (upper96 = 65535);
               compatible = (upper96 = 0 \<and> v > 1);
               first = (if mapped \<or> compatible then [ipv4From v] else [])
      in result_bind (configuredNat64 host options) (\<lambda>configured.
         let looksNat64 = (inConstant ''64:ff9b::/96'' address \<or> inConstant ''64:ff9b:1::/48'' address
               \<or> inConfigured address configured)
         in if looksNat64 \<and> \<not> inConfigured address configured then Inl NETWORK_ADDRESS_REFUSED
         else let nat64 = (if looksNat64 then [ipv4From v] else []);
                  sixToFour = (if inConstant ''2002::/16'' address then [ipv4From (drop_bit 80 v)] else []);
                  teredo = (if inConstant ''2001:0::/32'' address
                    then [ipv4From (drop_bit 64 v), ipv4From ((v XOR IPV4_MAX) AND IPV4_MAX)] else []);
                  isatapInterface = drop_bit 32 v AND IPV4_MAX;
                  isatap = (if isatapInterface = 24318 \<or> isatapInterface = 33578750 then [ipv4From v] else [])
              in Inr (first @ nat64 @ sixToFour @ teredo @ isatap)))"

text \<open>What the mode asks of one address.\<close>

definition modeAllows :: "address_options \<Rightarrow> cidr list \<Rightarrow> ip_address \<Rightarrow> bool" where
  "modeAllows options approved address =
     (case ao_mode options of
        GlobalOnly \<Rightarrow> globallyReachable address
      | ApprovedAddressSet _ \<Rightarrow>
          let explicitlyApproved = list_ex (inCidr address) approved
          in \<not> (\<not> globallyReachable address \<and> \<not> explicitlyApproved) \<and> explicitlyApproved)"

lemma ipv4From_simps [simp]:
  "ip_family (ipv4From v) = V4" "ip_value (ipv4From v) = v AND IPV4_MAX"
  by (simp_all add: ipv4From_def Let_def)

lemma refuse_or_Inr: "(if c then Inl e else Inr xs) = Inr bs \<longleftrightarrow> \<not> c \<and> bs = xs"
  by auto

lemma list_all_if: "list_all P (if c then xs else ys) \<longleftrightarrow> (if c then list_all P xs else list_all P ys)"
  by simp

lemma embedded_V4:
  assumes "embeddedAddresses host options a = Inr bs" "b \<in> set bs"
  shows "ip_family b = V4"
proof -
  have "list_all (\<lambda>b. ip_family b = V4) bs"
  proof (cases "ip_family a \<noteq> V6")
    case True
    then show ?thesis
      using assms(1) by (simp add: embeddedAddresses_def)
  next
    case False
    then obtain configured where "configuredNat64 host options = Inr configured"
      using assms(1) by (cases "configuredNat64 host options") (simp_all add: embeddedAddresses_def Let_def)
    then show ?thesis
      using assms(1) False
      by (simp only: embeddedAddresses_def Let_def result_bind_simps if_False refuse_or_Inr)
        (simp only: list_all_append list_all_if list.pred_inject ipv4From_simps if_cancel simp_thms)
  qed
  then show ?thesis
    using assms(2) by (simp add: list_all_iff)
qed

lemma embedded_of_V4: "ip_family a = V4 \<Longrightarrow> embeddedAddresses host options a = Inr []"
  by (simp add: embeddedAddresses_def)

text \<open>
  The recursion: the addresses still to check, and those seen. \<open>assertOne\<close> of the code is this for one address, and
  its return value, the addresses embedded in it, is kept beside what it has seen.
\<close>

function assertOne ::
    "net_host \<Rightarrow> address_options \<Rightarrow> cidr list \<Rightarrow> ip_address \<Rightarrow> (family \<times> nat) list
       \<Rightarrow> address_error + ip_address list \<times> (family \<times> nat) list"
  and assertAll ::
    "net_host \<Rightarrow> address_options \<Rightarrow> cidr list \<Rightarrow> ip_address list \<Rightarrow> (family \<times> nat) list
       \<Rightarrow> address_error + (family \<times> nat) list"
where
  "assertOne host options approved address seen =
     (if (ip_family address, ip_value address) \<in> set seen then Inr ([], seen)
      else if isUnconditionallyDenied address then Inl NETWORK_ADDRESS_REFUSED
      else if \<not> modeAllows options approved address then Inl NETWORK_ADDRESS_REFUSED
      else (case embeddedAddresses host options address of Inl e \<Rightarrow> Inl e
        | Inr nested \<Rightarrow>
            (case assertAll host options approved nested ((ip_family address, ip_value address) # seen) of
               Inl e \<Rightarrow> Inl e
             | Inr seen' \<Rightarrow> Inr (nested, seen'))))"
| "assertAll host options approved [] seen = Inr seen"
| "assertAll host options approved (child # children) seen =
     (case assertOne host options approved child seen of
        Inl e \<Rightarrow> Inl e
      | Inr (_, seen') \<Rightarrow> assertAll host options approved children seen')"
  by pat_completeness auto
termination
proof (relation "measures
   [\<lambda>x. case x of
       Inl (_, _, _, a, _) \<Rightarrow> if ip_family a = V6 then 3 else 1
     | Inr (_, _, _, as, _) \<Rightarrow> if \<exists>a \<in> set as. ip_family a = V6 then 4 else if as = [] then 0 else 2,
    \<lambda>x. case x of Inl _ \<Rightarrow> 0 | Inr (_, _, _, as, _) \<Rightarrow> length as]", goal_cases)
  case (2 host options approved address seen nested)
  then show ?case
    using embedded_V4 [of host options address nested]
    by (cases "ip_family address") (auto simp: embedded_of_V4)
qed auto

declare assertOne.simps [simp del]

definition assertAddressAllowed :: "net_host \<Rightarrow> address_options \<Rightarrow> jstr \<Rightarrow> address_error + ip_address \<times> ip_address list" where
  "assertAddressAllowed host options input =
     result_bind (parseIpLiteral input) (\<lambda>address.
     result_bind (case ao_mode options of GlobalOnly \<Rightarrow> Inr []
         | ApprovedAddressSet entries \<Rightarrow> parseApprovedAddressSet host entries) (\<lambda>approved.
     result_bind (assertOne host options approved address []) (\<lambda>(embedded, _). Inr (address, embedded))))"

end
