(* ===== verification/NetText.thy ===== *)
theory NetText
  imports NetAddress EventPointer
begin

unbundle bit_operations_syntax

text \<open>
  The texts of addresses: what the two parsers read is in bounds, and what is written reads back. The one text that
  does not is an IPv6 address whose longest run of zeros ends it.
\<close>

section \<open>Dotted text\<close>

lemma octetText_decimal:
  assumes "n \<le> 255"
  shows "octetText (decimal n)"
proof -
  have digit: "m mod 10 \<le> 9" for m :: nat
    by (simp add: less_Suc_eq_le [symmetric])
  consider "n < 10" | "10 \<le> n" "n < 100" | "100 \<le> n"
    by linarith
  then show ?thesis
  proof cases
    case 1
    then have "decimal n = [48 + n]"
      by (subst decimal.simps) simp
    then show ?thesis
      using 1 by (auto simp: octetText_def)
  next
    case 2
    then have "decimal n = [48 + n div 10, 48 + n mod 10]" "1 \<le> n div 10" "n div 10 \<le> 9"
      by (simp_all add: decimal.simps [of n] decimal.simps [of "n div 10"])
    then show ?thesis
      by (simp add: octetText_def isDigit_def digit)
  next
    case 3
    then have "decimal n = [48 + n div 10 div 10, 48 + n div 10 mod 10, 48 + n mod 10]"
      "1 \<le> n div 10 div 10" "n div 10 div 10 \<le> 9"
      using assms
      by (simp_all add: decimal.simps [of n] decimal.simps [of "n div 10"] decimal.simps [of "n div 10 div 10"]) linarith+
    then show ?thesis
      by (simp add: octetText_def isDigit_def digit)
  qed
qed

lemma octetText_canonical: "octetText p \<Longrightarrow> decimal (numberOf p) = p"
  by (rule index_text) (auto simp: octetText_def isArrayIndex_def split: list.splits)

lemma splitOn_of_join:
  "parts \<noteq> [] \<Longrightarrow> (\<And>p. p \<in> set parts \<Longrightarrow> sep \<notin> set p) \<Longrightarrow> splitOn sep (join [sep] parts) = parts"
proof (induction "[sep]" parts rule: join.induct)
  case (3 x y ys)
  then show ?case
    using splitOn_append [of sep x "join [sep] (y # ys)"] by simp
qed (simp_all add: splitOn_clean)

lemma parseOctets_step:
  "parseOctets r (p # ps) = Some v \<longleftrightarrow>
     (\<exists>n \<le> 255. p = decimal n \<and> parseOctets (r * 256 + n) ps = Some v)"
proof -
  have "push_bit 8 r OR n = r * 256 + n" if "n \<le> 255" for n
    using that or_disjoint [of n 8 r] by (simp add: push_bit_eq_mult)
  then show ?thesis
    using octetText_canonical [of p] octetText_decimal by (auto simp: not_less)
qed

text \<open>The digits of a number to the base 256.\<close>

lemma last_octet:
  "d < 256 \<Longrightarrow> (x * 256 + d) div 256 = (x :: nat)" "d < 256 \<Longrightarrow> (x * 256 + d) mod 256 = (d :: nat)"
  by (simp_all add: mult.commute [of x])

lemma ipv4Text_digits:
  "ipv4Text v = join [46] (map decimal [v div 256 div 256 div 256 mod 256, v div 256 div 256 mod 256, v div 256 mod 256, v mod 256])"
  using and_low_bits [of _ 8] by (simp add: ipv4Text_def drop_bit_eq_div div_mult2_eq [symmetric])

lemma four_octets:
  assumes "a \<le> 255" "b \<le> 255" "c \<le> 255" "d \<le> 255"
  shows "ipv4Text (((a * 256 + b) * 256 + c) * 256 + d) = join [46] (map decimal [a, b, c, d])"
    "((a * 256 + b) * 256 + c) * 256 + d < 2 ^ 32"
proof -
  have "a < 256" "b < 256" "c < 256" "d < 256"
    using assms by simp_all
  then show "ipv4Text (((a * 256 + b) * 256 + c) * 256 + d) = join [46] (map decimal [a, b, c, d])"
    by (simp only: ipv4Text_digits last_octet mod_less)
  show "((a * 256 + b) * 256 + c) * 256 + d < 2 ^ 32"
    using assms by simp
qed

lemma octets_of:
  assumes "(v :: nat) < 2 ^ 32"
  obtains a b c d where "a \<le> 255" "b \<le> 255" "c \<le> 255" "d \<le> 255" "v = ((a * 256 + b) * 256 + c) * 256 + d"
proof -
  have "v = ((v div 256 div 256 div 256 * 256 + v div 256 div 256 mod 256) * 256 + v div 256 mod 256) * 256 + v mod 256"
    by (simp only: div_mult_mod_eq)
  moreover have "v div 256 div 256 div 256 \<le> 255"
    using assms by simp
  ultimately show ?thesis
    using that [of "v div 256 div 256 div 256" "v div 256 div 256 mod 256" "v div 256 mod 256" "v mod 256"]
    by (simp add: less_Suc_eq_le [symmetric])
qed

lemma parseOctets_four:
  assumes "length parts = 4"
  shows "parseOctets 0 parts = Some v \<longleftrightarrow>
    (\<exists>a b c d. a \<le> 255 \<and> b \<le> 255 \<and> c \<le> 255 \<and> d \<le> 255
       \<and> parts = map decimal [a, b, c, d] \<and> v = ((a * 256 + b) * 256 + c) * 256 + d)"
proof -
  obtain p q r t where "parts = [p, q, r, t]"
    using assms by (auto simp: length_Suc_conv numeral_eq_Suc)
  then show ?thesis
    by (simp only: parseOctets_step parseOctets.simps(1) list.map list.inject option.inject) fastforce
qed

lemma decimal_no_dot [simp]: "46 \<notin> set (decimal n)"
  using decimal_digits [of 46 n] by (auto simp: isDigit_def)

lemma parseIpv4_iff: "parseIpv4 s = Some v \<longleftrightarrow> v < 2 ^ 32 \<and> s = ipv4Text v"
proof
  assume "parseIpv4 s = Some v"
  then have "length (splitOn 46 s) = 4" "parseOctets 0 (splitOn 46 s) = Some v"
    by (simp_all add: parseIpv4_def Let_def split: if_splits)
  then obtain a b c d where "a \<le> 255" "b \<le> 255" "c \<le> 255" "d \<le> 255" "splitOn 46 s = map decimal [a, b, c, d]"
    "v = ((a * 256 + b) * 256 + c) * 256 + d"
    by (auto simp: parseOctets_four)
  then show "v < 2 ^ 32 \<and> s = ipv4Text v"
    using four_octets [of a b c d] splitOn_join [of 46 s] by simp
next
  assume v: "v < 2 ^ 32 \<and> s = ipv4Text v"
  then obtain a b c d where parts: "a \<le> 255" "b \<le> 255" "c \<le> 255" "d \<le> 255"
    "v = ((a * 256 + b) * 256 + c) * 256 + d"
    using octets_of by blast
  then have "s = join [46] (map decimal [a, b, c, d])"
    using v four_octets(1) [OF parts(1-4)] by simp
  then have split: "splitOn 46 s = map decimal [a, b, c, d]"
    by (simp only: \<open>s = _\<close>, intro splitOn_of_join) auto
  then have "parseOctets 0 (splitOn 46 s) = Some v"
    using parts by (subst parseOctets_four) auto
  then show "parseIpv4 s = Some v"
    using split by (simp add: parseIpv4_def Let_def)
qed

section \<open>Numbers that are read fit\<close>

lemma parseIpv4_bound: "parseIpv4 s = Some v \<Longrightarrow> v < 2 ^ 32"
  by (simp add: parseIpv4_iff)

lemma hexNumber_bound: "list_all isHexUnit s \<Longrightarrow> hexNumber s < 16 ^ length s"
proof (induction s rule: rev_induct)
  case (snoc c s)
  have "hexUnitValue c < 16"
    using snoc.prems by (auto simp: hexUnitValue_def isHexUnit_def isDigit_def)
  then show ?case
    using snoc by (simp add: hexNumber_def)
qed (simp add: hexNumber_def)

lemma parseGroups_bound: "parseGroups parts = Some groups \<Longrightarrow> list_all (\<lambda>g. g < 65536) groups"
proof (induction parts arbitrary: groups)
  case (Cons part parts)
  show ?case
  proof (cases "46 \<in> set part")
    case True
    then obtain e where "parseIpv4 part = Some e" "groups = [drop_bit 16 e AND 65535, e AND 65535]"
      using Cons.prems by (auto split: if_splits option.splits)
    then show ?thesis
      using and_low_bits [of _ 16] by simp
  next
    case False
    then have part: "length part \<le> 4" "list_all isHexUnit part"
      and rest: "\<exists>gs. parseGroups parts = Some gs \<and> groups = hexNumber part # gs"
      using Cons.prems by (auto split: if_splits)
    have "hexNumber part < 16 ^ length part"
      by (rule hexNumber_bound [OF part(2)])
    also have "(16 :: nat) ^ length part \<le> 16 ^ 4"
      using part(1) by (rule power_increasing) simp
    finally show ?thesis
      using rest Cons.IH by auto
  qed
qed simp

lemma groupsValue_step:
  "list_all (\<lambda>g. g < 65536) (groups :: nat list) \<Longrightarrow> (r :: nat) < 2 ^ k \<Longrightarrow>
     fold (\<lambda>group r. push_bit 16 r OR group) groups r < 2 ^ (k + 16 * length groups)"
proof (induction groups arbitrary: r k)
  case (Cons g groups)
  have g: "g < 2 ^ 16"
    using Cons.prems by simp
  have "push_bit 16 r OR g = r * 2 ^ 16 + g"
    using or_disjoint [OF g, of r] by (simp add: push_bit_eq_mult)
  also have "\<dots> < 2 ^ (k + 16)"
    using g Cons.prems(2) by (simp add: power_add)
  finally show ?case
    using Cons.IH [of "push_bit 16 r OR g" "k + 16"] Cons.prems(1) by (simp add: add.assoc)
qed simp

lemma groupsValue_bound:
  "list_all (\<lambda>g. g < 65536) groups \<Longrightarrow> groupsValue groups < 2 ^ (16 * length groups)"
  using groupsValue_step [of groups 0 0] by (simp add: groupsValue_def)

lemma parseIpv6_bound:
  assumes "parseIpv6 s = Some v"
  shows "v < 2 ^ 128"
proof -
  obtain groups where groups: "list_all (\<lambda>g. g < 65536) groups" "length groups = 8" "v = groupsValue groups"
  proof -
    obtain parts gs where gs: "parseGroups parts = Some gs"
      "length gs = 8 \<and> v = groupsValue gs
       \<or> length gs < 8 \<and> (\<exists>k. v = groupsValue (take k gs @ replicate (8 - length gs) 0 @ drop k gs))"
      using assms by (auto simp: parseIpv6_def Let_def not_le split: if_splits option.splits)
    note bound = parseGroups_bound [OF gs(1)]
    show ?thesis
    proof (cases "length gs = 8 \<and> v = groupsValue gs")
      case True
      then show ?thesis
        using bound that by blast
    next
      case False
      then obtain k where k: "length gs < 8" "v = groupsValue (take k gs @ replicate (8 - length gs) 0 @ drop k gs)"
        using gs(2) by blast
      have "list_all (\<lambda>g. g < 65536) (take k gs @ replicate (8 - length gs) 0 @ drop k gs)"
        using bound by (auto simp: list_all_iff dest: in_set_takeD in_set_dropD)
      moreover have "length (take k gs @ replicate (8 - length gs) 0 @ drop k gs) = 8"
        using k(1) by simp
      ultimately show ?thesis
        using k(2) that by blast
    qed
  qed
  then show ?thesis
    using groupsValue_bound [OF groups(1)] by simp
qed

lemma groupsValue_code [code]:
  "groupsValue groups =
     (if list_all (\<lambda>g. g < 65536) groups then foldl (\<lambda>r g. r * 65536 + g) 0 groups
      else fold (\<lambda>group r. push_bit 16 r OR group) groups 0)"
proof -
  have "list_all (\<lambda>g. g < 65536) groups \<Longrightarrow>
      fold (\<lambda>group r. push_bit 16 r OR group) groups r = foldl (\<lambda>r g. r * 65536 + g) r groups" for r :: nat
  proof (induction groups arbitrary: r)
    case (Cons g groups)
    have "push_bit 16 r OR g = r * 2 ^ 16 + g"
      using or_disjoint [of g 16 r] Cons.prems by (simp add: push_bit_eq_mult)
    then show ?case
      using Cons by simp
  qed simp
  then show ?thesis
    by (simp add: groupsValue_def)
qed

section \<open>Hexadecimal text\<close>

lemma hexText_cases:
  "n < 16 \<Longrightarrow> hexText n = [hexDigit n]" "16 \<le> n \<Longrightarrow> hexText n = hexText (n div 16) @ [hexDigit (n mod 16)]"
  by (simp_all add: hexText.simps [of n])

lemma hexDigit_unit: "n < 16 \<Longrightarrow> isHexUnit (hexDigit n) \<and> hexUnitValue (hexDigit n) = n"
  by (auto simp: hexDigit_def isHexUnit_def isDigit_def hexUnitValue_def)

lemma hexText_units: "c \<in> set (hexText n) \<Longrightarrow> isHexUnit c"
proof (induction n rule: hexText.induct)
  case (1 n)
  then show ?case
    using hexDigit_unit by (cases "n < 16") (auto simp: hexText_cases)
qed

lemma hexText_not_Nil [simp]: "hexText n \<noteq> []"
  by (subst hexText.simps) simp

lemma hexNumber_hexText [simp]: "hexNumber (hexText n) = n"
proof (induction n rule: hexText.induct)
  case (1 n)
  then show ?case
    using hexDigit_unit [of n] hexDigit_unit [of "n mod 16"]
    by (cases "n < 16") (simp_all add: hexText_cases hexNumber_def)
qed

lemma hexText_length:
  assumes "n < 65536"
  shows "length (hexText n) \<le> 4"
proof -
  have step: "length (hexText n) \<le> Suc k" if "length (hexText (n div 16)) \<le> k" for n k
    using that by (cases "n < 16") (simp_all add: hexText_cases)
  have "n div 16 div 16 div 16 < 16"
    using assms by simp
  then have "length (hexText (n div 16 div 16 div 16)) \<le> 1"
    by (simp add: hexText_cases)
  from step [OF step [OF step [OF this]]] show ?thesis
    by simp
qed

lemma hexText_clean [simp]: "58 \<notin> set (hexText n)" "46 \<notin> set (hexText n)" "37 \<notin> set (hexText n)"
  using hexText_units [of 58 n] hexText_units [of 46 n] hexText_units [of 37 n]
  by (auto simp: isHexUnit_def isDigit_def)

lemma parseGroups_hexText: "list_all (\<lambda>g. g < 65536) gs \<Longrightarrow> parseGroups (map hexText gs) = Some gs"
proof (induction gs)
  case (Cons g gs)
  have "list_all isHexUnit (hexText g)"
    using hexText_units by (simp add: list_all_iff)
  with Cons show ?case
    using hexText_length [of g] by simp
qed simp

section \<open>Colons\<close>

text \<open>Text in which no two colons follow each other.\<close>

abbreviation single :: "jstr \<Rightarrow> bool" where
  "single s \<equiv> successively (\<lambda>a b. \<not> (a = 58 \<and> b = 58)) s"

lemma find_none: "find P xs = None \<longleftrightarrow> (\<forall>x \<in> set xs. \<not> P x)"
  by (auto simp: find_None_iff)

lemma find_upt:
  assumes "m \<le> i" "i < n" "P i" "\<And>j. m \<le> j \<Longrightarrow> j < i \<Longrightarrow> \<not> P j"
  shows "find P [m..<n] = Some i"
  using assms by (auto simp: find_Some_iff intro!: exI [of _ "i - m"])

lemma no_pair_if_single: "single s \<Longrightarrow> take 2 (drop i s) \<noteq> [58, 58]"
proof (induction s arbitrary: i)
  case (Cons c s)
  then show ?case
    by (cases i; cases s) (auto simp: numeral_2_eq_2 successively_Cons)
qed simp

lemma indexOf_single: "single s \<Longrightarrow> indexOf s [58, 58] i = None"
  using no_pair_if_single [of s] by (simp add: indexOf_def find_none numeral_2_eq_2)

lemma indexOf_first:
  assumes "single s" "s = [] \<or> last s \<noteq> 58"
  shows "indexOf (s @ 58 # 58 # t) [58, 58] 0 = Some (length s)"
proof -
  have "take 2 (drop j (s @ 58 # 58 # t)) \<noteq> [58, 58]" if "j < length s" for j
  proof -
    have "single (s @ [58])"
      using assms by (auto simp: successively_append_iff)
    moreover have "take 2 (drop j (s @ 58 # 58 # t)) = take 2 (drop j (s @ [58]))"
      using that by (cases "drop j s") (simp_all add: numeral_2_eq_2 take_Cons')
    ultimately show ?thesis
      using no_pair_if_single by metis
  qed
  then show ?thesis
    unfolding indexOf_def by (intro find_upt) (simp_all add: numeral_2_eq_2)
qed

lemma indexOf_second:
  assumes "single t" "t = [] \<or> hd t \<noteq> 58"
  shows "indexOf (s @ 58 # 58 # t) [58, 58] (Suc (length s)) = None"
proof -
  have "single (58 # t)"
    using assms by (cases t) auto
  then have "take 2 (drop (i - Suc (length s)) (58 # t)) \<noteq> [58, 58]" for i
    by (rule no_pair_if_single)
  moreover have "drop i (s @ 58 # 58 # t) = drop (i - Suc (length s)) (58 # t)" if "Suc (length s) \<le> i" for i
    using that by (simp add: drop_Cons' Suc_le_eq)
  ultimately have "take (length [58, 58 :: nat]) (drop i (s @ 58 # 58 # t)) \<noteq> [58, 58]" if "Suc (length s) \<le> i" for i
    using that by (simp only: length_Cons list.size(3) numeral_2_eq_2) metis
  then show ?thesis
    unfolding indexOf_def find_none by (metis atLeastLessThan_iff set_upt)
qed

lemma indexOf_third: "indexOf (s @ [58, 58, 58]) [58, 58] (Suc (length s)) = Some (Suc (length s))"
  unfolding indexOf_def by (intro find_upt) simp_all

lemma join_single:
  "(\<And>p. p \<in> set parts \<Longrightarrow> p \<noteq> [] \<and> 58 \<notin> set p) \<Longrightarrow>
     single (join [58] parts) \<and> (parts \<noteq> [] \<longrightarrow> join [58] parts \<noteq> [] \<and> hd (join [58] parts) \<noteq> 58 \<and> last (join [58] parts) \<noteq> 58)"
proof (induction "[58 :: nat]" parts rule: join.induct)
  case (2 x)
  have "single y" if "58 \<notin> set y" for y
    using that by (induction y) (auto simp: successively_Cons)
  then show ?case
    using 2 by (cases x) (auto dest: last_in_set)
next
  case (3 x y ys)
  have "single y" if "58 \<notin> set y" for y
    using that by (induction y) (auto simp: successively_Cons)
  moreover have "x \<noteq> []" "58 \<notin> set x"
    using 3(2) by simp_all
  moreover have "hd x \<noteq> 58" "last x \<noteq> 58"
    using \<open>x \<noteq> []\<close> \<open>58 \<notin> set x\<close> by (metis hd_in_set, metis last_in_set)
  ultimately show ?case
    using 3 by (simp add: successively_append_iff successively_Cons)
qed simp

section \<open>IPv6 text\<close>

lemma set_join: "c \<in> set (join sep parts) \<Longrightarrow> c \<in> set sep \<or> (\<exists>p \<in> set parts. c \<in> set p)"
  by (induction sep parts rule: join.induct) auto

lemma join_append: "ps \<noteq> [] \<Longrightarrow> qs \<noteq> [] \<Longrightarrow> join [c] (ps @ qs) = join [c] ps @ c # join [c] qs"
proof (induction "[c]" ps rule: join.induct)
  case (2 x)
  then show ?case
    by (cases qs) simp_all
qed simp_all

abbreviation hexJoin :: "nat list \<Rightarrow> jstr" where
  "hexJoin gs \<equiv> join [58] (map hexText gs)"

lemma hexJoin_single: "single (hexJoin gs)"
  "gs \<noteq> [] \<Longrightarrow> hexJoin gs \<noteq> [] \<and> hd (hexJoin gs) \<noteq> 58 \<and> last (hexJoin gs) \<noteq> 58"
proof -
  have "single (hexJoin gs) \<and> (map hexText gs \<noteq> [] \<longrightarrow>
      hexJoin gs \<noteq> [] \<and> hd (hexJoin gs) \<noteq> 58 \<and> last (hexJoin gs) \<noteq> 58)"
    by (rule join_single) auto
  then show "single (hexJoin gs)"
    "gs \<noteq> [] \<Longrightarrow> hexJoin gs \<noteq> [] \<and> hd (hexJoin gs) \<noteq> 58 \<and> last (hexJoin gs) \<noteq> 58"
    by simp_all
qed

lemma hexJoin_no_percent: "37 \<notin> set (hexJoin gs)"
  using set_join [of 37 "[58]" "map hexText gs"] by auto

lemma colonParts_hexJoin: "colonParts (hexJoin gs) = map hexText gs"
proof (cases "gs = []")
  case False
  then have "splitOn 58 (hexJoin gs) = map hexText gs"
    by (intro splitOn_of_join) auto
  then show ?thesis
    using hexJoin_single(2) [OF False] by (simp add: colonParts_def)
qed (simp add: colonParts_def)

lemma parseIpv6_full:
  assumes "list_all (\<lambda>g. g < 65536) gs" "length gs = 8"
  shows "parseIpv6 (hexJoin gs) = Some (groupsValue gs)"
proof -
  have "[] \<notin> set (map hexText gs)"
    using hexText_not_Nil by (metis (no_types) imageE list.set_map)
  then show ?thesis
    using assms parseGroups_hexText [OF assms(1)] indexOf_single [OF hexJoin_single(1)]
    by (simp add: parseIpv6_def hexJoin_no_percent colonParts_hexJoin Let_def) (simp add: colonParts_def)
qed

lemma parseIpv6_gap:
  assumes "list_all (\<lambda>g. g < 65536) (as @ bs)" "length as + length bs < 8"
  shows "parseIpv6 (hexJoin as @ 58 # 58 # hexJoin bs)
    = Some (groupsValue (as @ replicate (8 - (length as + length bs)) 0 @ bs))"
proof -
  have first: "indexOf (hexJoin as @ 58 # 58 # hexJoin bs) [58, 58] 0 = Some (length (hexJoin as))"
    using hexJoin_single [of as] by (intro indexOf_first; cases "as = []") simp_all
  have second: "indexOf (hexJoin as @ 58 # 58 # hexJoin bs) [58, 58] (Suc (length (hexJoin as))) = None"
    using hexJoin_single [of bs] by (intro indexOf_second; cases "bs = []") simp_all
  have groups: "parseGroups (map hexText as @ map hexText bs) = Some (as @ bs)"
    using parseGroups_hexText [OF assms(1)] by simp
  have full: "[] \<notin> hexText ` set gs" for gs
    by (metis hexText_not_Nil imageE)
  have at: "sum_list (map (\<lambda>part. if 46 \<in> set part then 2 else 1) (map hexText as)) = length as"
    by (induction as) auto
  show ?thesis
    using assms(2) first second groups at full
    by (simp add: parseIpv6_def hexJoin_no_percent colonParts_hexJoin Let_def comp_def)
qed

lemma parseIpv6_three_colons: "gs \<noteq> [] \<Longrightarrow> parseIpv6 (hexJoin gs @ [58, 58, 58]) = None"
  using indexOf_first [OF hexJoin_single(1), of gs "[58]"] hexJoin_single(2) [of gs] indexOf_third [of "hexJoin gs"]
  by (simp add: parseIpv6_def Let_def)

lemma bestRun_zeros:
  assumes "bestRun gs index best = Some (start, run)"
    "\<And>start run. best = Some (start, run) \<Longrightarrow>
       2 \<le> run \<and> start + run \<le> length gs \<and> take run (drop start gs) = replicate run 0"
  shows "2 \<le> run \<and> start + run \<le> length gs \<and> take run (drop start gs) = replicate run 0"
  using assms
proof (induction gs index best rule: bestRun.induct)
  case (1 gs index best)
  show ?case
  proof (cases "index < length gs \<and> gs ! index = 0")
    case True
    let ?zeros = "takeWhile (\<lambda>g. g = 0) (drop index gs)"
    have "length ?zeros \<le> length gs - index"
      using length_takeWhile_le [of "\<lambda>g. g = 0" "drop index gs"] by simp
    then have fits: "index + length ?zeros \<le> length gs"
      using True by linarith
    have zeros: "take (length ?zeros) (drop index gs) = replicate (length ?zeros) 0"
      using takeWhile_eq_take [of "\<lambda>g. g = 0" "drop index gs"]
        replicate_length_same [of ?zeros 0] set_takeWhileD [of _ "\<lambda>g. g = 0" "drop index gs"] by metis
    let ?best = "if (case best of None \<Rightarrow> 0 | Some (_, l) \<Rightarrow> l) < length ?zeros \<and> 1 < length ?zeros
      then Some (index, length ?zeros) else best"
    have step: "bestRun gs index best = bestRun gs (index + length ?zeros) ?best"
      using True by (subst bestRun.simps) (simp add: Let_def)
    show ?thesis
    proof (rule "1.IH"(2) [OF _ _ refl])
      show "index < length gs" "\<not> gs ! index \<noteq> 0" "bestRun gs (index + length ?zeros) ?best = Some (start, run)"
        using True "1.prems"(1) step by simp_all
      show "2 \<le> run \<and> start + run \<le> length gs \<and> take run (drop start gs) = replicate run 0"
        if "?best = Some (start, run)" for start run
        using that "1.prems"(2) fits zeros by (auto split: if_splits)
    qed
  next
    case False
    then have "bestRun gs index best = (if index < length gs then bestRun gs (index + 1) best else best)"
      by (subst bestRun.simps) simp
    then show ?thesis
      using "1.IH"(1) "1.prems" False by (auto split: if_splits)
  qed
qed

lemma groups_low: "list_all (\<lambda>g. g < 65536) (ipv6Groups v)"
  using and_low_bits [of _ 16] by (simp add: ipv6Groups_def list_all_iff)

lemma groups_length [simp]: "length (ipv6Groups v) = 8"
  by (simp add: ipv6Groups_def)

lemma groupsValue_digits:
  "groupsValue (map (\<lambda>i. drop_bit ((n - Suc i) * 16) v AND 65535) [0..<n]) = take_bit (16 * n) v"
proof (induction n arbitrary: v)
  case (Suc n)
  have "drop_bit ((n - i) * 16) v = drop_bit ((n - Suc i) * 16) (drop_bit 16 v)" if "i < n" for i
    using that by (simp add: Suc_diff_Suc [symmetric] add.commute)
  then have digits: "map (\<lambda>i. drop_bit ((Suc n - Suc i) * 16) v AND 65535) [0..<Suc n]
      = map (\<lambda>i. drop_bit ((n - Suc i) * 16) (drop_bit 16 v) AND 65535) [0..<n] @ [v AND 65535]"
    by simp
  have "v AND 65535 = take_bit 16 v"
    by (simp add: take_bit_eq_mask mask_eq_exp_minus_1)
  moreover have "bit (push_bit 16 (take_bit (16 * n) (drop_bit 16 v)) OR take_bit 16 v) k = bit (take_bit (16 * Suc n) v) k" for k
    by (cases "k < 16") (auto simp: bit_simps)
  ultimately have "push_bit 16 (take_bit (16 * n) (drop_bit 16 v)) OR (v AND 65535) = take_bit (16 * Suc n) v"
    by (metis bit_eqI)
  then show ?case
    unfolding digits using Suc [of "drop_bit 16 v"] by (simp only: groupsValue_def List.fold_append List.fold.simps comp_apply id_apply)
qed (simp add: groupsValue_def)

lemma groupsValue_groups: "v < 2 ^ 128 \<Longrightarrow> groupsValue (ipv6Groups v) = v"
  using groupsValue_digits [of 8 v] by (simp add: ipv6Groups_def take_bit_nat_eq_self)

lemma doubled_hexJoin [simp]: "doubleOuterColons (hexJoin gs) = hexJoin gs"
  using hexJoin_single(2) [of gs] by (cases "gs = []") (auto simp: doubleOuterColons_def Let_def)

text \<open>The text around a gap, as it is meant and, when the gap ends the address, as it is.\<close>

lemma gap_text:
  assumes "start + run \<le> length gs" "\<not> (start = 0 \<and> run = length gs)"
  defines "as \<equiv> take start gs" and "bs \<equiv> drop (start + run) gs"
  shows "doubleOuterColons (join [58] (ipv6Pieces gs (Some (start, run))))
    = hexJoin as @ 58 # 58 # (if bs = [] then [58] else hexJoin bs)"
proof (cases "bs = []")
  case True
  then have pieces: "ipv6Pieces gs (Some (start, run)) = map hexText as @ [[], []]"
    using assms(1) by (simp add: ipv6Pieces_def as_def bs_def)
  have "as \<noteq> []"
    using True assms(1,2) by (auto simp: as_def bs_def)
  then have "join [58] (map hexText as @ [[], []]) = hexJoin as @ [58, 58]"
    by (subst join_append) simp_all
  then show ?thesis
    using True hexJoin_single(2) [OF \<open>as \<noteq> []\<close>] pieces by (simp add: doubleOuterColons_def Let_def)
next
  case False
  then have pieces: "ipv6Pieces gs (Some (start, run)) = map hexText as @ [] # map hexText bs"
    using assms(1) by (auto simp: ipv6Pieces_def as_def bs_def)
  have tail: "join [58] ([] # map hexText bs) = 58 # hexJoin bs"
    using False by (cases bs) simp_all
  show ?thesis
  proof (cases "as = []")
    case True
    then show ?thesis
      using False hexJoin_single(2) [OF False] pieces tail by (simp add: doubleOuterColons_def Let_def)
  next
    case outer: False
    then have "join [58] (map hexText as @ [] # map hexText bs) = hexJoin as @ 58 # 58 # hexJoin bs"
      using tail by (subst join_append) simp_all
    then show ?thesis
      using False outer hexJoin_single(2) [OF False] hexJoin_single(2) [OF outer] pieces
      by (simp add: doubleOuterColons_def Let_def)
  qed
qed

text \<open>The address ends in the zeros that its text leaves out, and does not consist of them.\<close>

definition endsInGap :: "nat \<Rightarrow> bool" where
  "endsInGap v =
     (case bestRun (ipv6Groups v) 0 None of None \<Rightarrow> False | Some (start, run) \<Rightarrow> start \<noteq> 0 \<and> start + run = 8)"

lemma parse_ipv6Text:
  assumes "v < 2 ^ 128"
  shows "parseIpv6 (ipv6Text v) = (if endsInGap v then None else Some v)"
proof (cases "bestRun (ipv6Groups v) 0 None")
  case None
  then show ?thesis
    using parseIpv6_full [OF groups_low, of v] groupsValue_groups [OF assms] groups_length [of v]
    by (simp add: ipv6Text_def endsInGap_def Let_def ipv6Pieces_def)
next
  case (Some gap)
  obtain start run where gap: "gap = (start, run)"
    by (cases gap)
  define gs as bs where "gs = ipv6Groups v" and "as = take start gs" and "bs = drop (start + run) gs"
  have "length gs = 8"
    by (simp add: gs_def)
  have run: "2 \<le> run" "start + run \<le> 8" "take run (drop start gs) = replicate run 0"
    using bestRun_zeros [OF Some [unfolded gap]] \<open>length gs = 8\<close> by (simp_all add: gs_def)
  have sizes: "length as = start" "length bs = 8 - (start + run)"
    using run \<open>length gs = 8\<close> by (simp_all add: as_def bs_def)
  have whole: "gs = as @ replicate run 0 @ bs"
    by (metis append_take_drop_id as_def bs_def drop_drop add.commute run(3))
  have low: "list_all (\<lambda>g. g < 65536) (as @ bs)"
    using groups_low [of v] unfolding gs_def [symmetric] by (subst (asm) whole) simp
  have parse: "parseIpv6 (hexJoin as @ 58 # 58 # hexJoin bs) = Some v"
    using parseIpv6_gap [OF low] sizes run groupsValue_groups [OF assms] whole by (simp add: gs_def [symmetric])
  show ?thesis
  proof (cases "start = 0 \<and> run = 8")
    case True
    then have "ipv6Text v = [58, 58]" "as = []" "bs = []"
      using Some gap sizes by (simp_all add: ipv6Text_def Let_def)
    then show ?thesis
      using parse True Some gap by (simp add: endsInGap_def)
  next
    case False
    then have written: "ipv6Text v = hexJoin as @ 58 # 58 # (if bs = [] then [58] else hexJoin bs)"
      using gap_text [of start run gs] Some gap run \<open>length gs = 8\<close>
      by (simp add: ipv6Text_def Let_def gs_def [symmetric] as_def bs_def)
    have "bs = [] \<longleftrightarrow> start + run = 8"
      using sizes(2) run(2) by auto
    moreover have "bs = [] \<Longrightarrow> as \<noteq> []"
      using calculation False sizes(1) by auto
    ultimately show ?thesis
      using written parse parseIpv6_three_colons [of as] Some gap False sizes(1)
      by (auto simp: endsInGap_def)
  qed
qed

section \<open>What the texts are made of\<close>

definition addressUnit :: "nat \<Rightarrow> bool" where
  "addressUnit c \<longleftrightarrow> isHexUnit c \<or> c = 46 \<or> c = 58"

lemma addressUnit_bare:
  assumes "list_all addressUnit s"
  shows "trim s = s" "stripBrackets s = s"
proof -
  have plain: "\<not> isSpace c \<and> c \<noteq> 91" if "c \<in> set s" for c
    using assms that by (auto simp: list_all_iff addressUnit_def isHexUnit_def isDigit_def isSpace_def)
  then have "dropWhile isSpace t = t" if "set t \<subseteq> set s" for t
    using that by (cases t) auto
  then show "trim s = s"
    by (simp add: trim_def trimEnd_def)
  show "stripBrackets s = s"
    using plain by (cases s) (auto simp: stripBrackets_def)
qed

lemma ipv4Text_units: "list_all addressUnit (ipv4Text v)"
  using set_join [of _ "[46]"] decimal_digits
  by (fastforce simp: list_all_iff addressUnit_def isHexUnit_def ipv4Text_def)

lemma doubled_units: "c \<in> set (doubleOuterColons s) \<Longrightarrow> c \<in> set s \<or> c = 58"
  by (auto simp: doubleOuterColons_def Let_def split: if_splits)

lemma pieces_units: "p \<in> set (ipv6Pieces gs gap) \<Longrightarrow> c \<in> set p \<Longrightarrow> isHexUnit c"
  using hexText_units by (auto simp: ipv6Pieces_def split: option.splits prod.splits if_splits)

lemma ipv6Text_units: "c \<in> set (ipv6Text v) \<Longrightarrow> isHexUnit c \<or> c = 58"
  using pieces_units set_join [of c "[58]"] doubled_units [of c]
  by (fastforce simp: ipv6Text_def Let_def split: if_splits)

lemma ipv6Text_not_ipv4: "parseIpv4 (ipv6Text v) = None"
proof -
  have "46 \<notin> set (ipv6Text v)"
    using ipv6Text_units [of 46 v] by (auto simp: isHexUnit_def isDigit_def)
  then show ?thesis
    by (simp add: parseIpv4_def splitOn_clean)
qed

lemma ipv6Text_bare: "list_all addressUnit (ipv6Text v)"
  using ipv6Text_units by (auto simp: list_all_iff addressUnit_def)

lemma literal_of_text:
  assumes "parseIpLiteral input = Inr a"
  shows "ip_family a = V4 \<and> ip_address a = ipv4Text (ip_value a) \<and> ip_value a < 2 ^ 32
    \<or> ip_family a = V6 \<and> ip_address a = ipv6Text (ip_value a) \<and> ip_value a < 2 ^ 128"
  using assms parseIpv4_bound parseIpv6_bound
  by (fastforce simp: parseIpLiteral_def Let_def split: option.splits)

lemma canonical_text:
  assumes "parseIpLiteral input = Inr a"
  shows "parseIpLiteral (ip_address a) =
      (if ip_family a = V6 \<and> endsInGap (ip_value a) then Inl NETWORK_ADDRESS_REFUSED else Inr a)
    \<and> (ip_family a = V4 \<longrightarrow> stripBrackets (trim input) = ip_address a)"
  using literal_of_text [OF assms]
proof
  assume v4: "ip_family a = V4 \<and> ip_address a = ipv4Text (ip_value a) \<and> ip_value a < 2 ^ 32"
  then have "parseIpv4 (ip_address a) = Some (ip_value a)"
    by (simp add: parseIpv4_iff)
  moreover have "stripBrackets (trim input) = ip_address a"
    using assms v4 by (auto simp: parseIpLiteral_def parseIpv4_iff Let_def split: option.splits)
  ultimately show ?thesis
    using v4 addressUnit_bare [OF ipv4Text_units] by (simp add: parseIpLiteral_def)
next
  assume v6: "ip_family a = V6 \<and> ip_address a = ipv6Text (ip_value a) \<and> ip_value a < 2 ^ 128"
  then show ?thesis
    using addressUnit_bare [OF ipv6Text_bare] parse_ipv6Text [of "ip_value a"]
    by (simp add: parseIpLiteral_def ipv6Text_not_ipv4)
qed

section \<open>Properties\<close>

text \<open>
  C38. The text an address is shown by is the address. Every literal that is read is given one canonical text, the only
  spelling an IPv4 address may have, and reading that text gives the address again, with one exception: the text of
  an IPv6 address whose longest run of zeros ends it, which is refused.
\<close>
theorem canonical_text_reads_back:
  assumes "parseIpLiteral input = Inr a"
  shows "parseIpLiteral (ip_address a) =
      (if ip_family a = V6 \<and> endsInGap (ip_value a) then Inl NETWORK_ADDRESS_REFUSED else Inr a)
    \<and> (ip_family a = V4 \<longrightarrow> stripBrackets (trim input) = ip_address a)"
  using assms by (rule canonical_text)

text \<open>An address that ends in zeros: its canonical text has three colons, and is no address.\<close>

theorem canonical_text_reads_back_witness:
  "\<exists>a. parseIpLiteral (js '' [2001:db8::] '') = Inr a \<and> parseIpLiteral (ip_address a) = Inl NETWORK_ADDRESS_REFUSED"
proof -
  have "stripBrackets (trim (js '' [2001:db8::] '')) = js ''2001:db8::''"
    "parseIpv4 (js ''2001:db8::'') = None" "parseIpv6 (js ''2001:db8::'') = Some (0x20010db8 * 2 ^ 96)"
    by code_simp+
  then have read: "parseIpLiteral (js '' [2001:db8::] '')
      = Inr \<lparr>ip_address = ipv6Text (0x20010db8 * 2 ^ 96), ip_family = V6, ip_value = 0x20010db8 * 2 ^ 96\<rparr>"
    by (simp add: parseIpLiteral_def)
  have "endsInGap (0x20010db8 * 2 ^ 96)"
    by code_simp
  then show ?thesis
    using read canonical_text_reads_back [OF read] by auto
qed

end
