(* ===== verification/NetPolicy.thy ===== *)
theory NetPolicy
  imports NetText
begin

unbundle bit_operations_syntax

text \<open>
  What the address policy keeps out: prefixes as ranges of addresses, the registry as a table, and the recursion over
  the addresses an address carries.
\<close>

section \<open>Prefixes are ranges\<close>

lemma and_maskOf:
  assumes "n \<le> bitsFor f" "v < 2 ^ bitsFor f"
  shows "v AND maskOf f n = v - v mod 2 ^ (bitsFor f - n)"
proof (cases "n = 0")
  case True
  then show ?thesis
    using assms by (simp add: maskOf_def)
next
  case False
  define k where "k = bitsFor f - n"
  have "drop_bit k v < 2 ^ n"
    using assms by (simp add: drop_bit_eq_div k_def less_mult_imp_div_less power_add [symmetric])
  then have "take_bit n (drop_bit k v) = drop_bit k v"
    by (simp add: take_bit_nat_eq_self)
  moreover have "v AND push_bit k (mask n) = push_bit k (take_bit n (drop_bit k v))"
    by (rule bit_eqI) (auto simp: bit_simps)
  moreover have "push_bit k (drop_bit k v) = v - v mod 2 ^ k"
    by (simp add: push_bit_eq_mult drop_bit_eq_div minus_mod_eq_div_mult)
  ultimately show ?thesis
    using False by (simp add: maskOf_def k_def mask_eq_exp_minus_1)
qed

text \<open>An address, or a prefix, with the numbers its family has room for.\<close>

definition addressOk :: "ip_address \<Rightarrow> bool" where
  "addressOk a \<longleftrightarrow> ip_value a < 2 ^ bitsFor (ip_family a)"

definition cidrOk :: "cidr \<Rightarrow> bool" where
  "cidrOk c \<longleftrightarrow> ci_prefixLength c \<le> bitsFor (ci_family c) \<and> ci_value c < 2 ^ bitsFor (ci_family c)
     \<and> ci_value c mod 2 ^ (bitsFor (ci_family c) - ci_prefixLength c) = 0"

lemma same_block_iff:
  fixes v c b :: nat
  assumes "c mod b = 0" "0 < b"
  shows "v - v mod b = c \<longleftrightarrow> c \<le> v \<and> v < c + b"
proof
  assume "v - v mod b = c"
  then have "v = c + v mod b"
    by (metis add.commute le_add_diff_inverse2 mod_less_eq_dividend)
  moreover have "v mod b < b"
    using assms(2) by simp
  ultimately show "c \<le> v \<and> v < c + b"
    by linarith
next
  assume "c \<le> v \<and> v < c + b"
  then obtain r where "v = c + r" "r < b"
    by (metis add_less_cancel_left le_add_diff_inverse)
  moreover have "(c + r) mod b = r"
    using assms(1) \<open>r < b\<close> by (metis add_0 mod_add_left_eq mod_less)
  ultimately show "v - v mod b = c"
    by simp
qed

lemma inCidr_range:
  assumes "addressOk a" "cidrOk c"
  shows "inCidr a c \<longleftrightarrow> ip_family a = ci_family c \<and> ci_value c \<le> ip_value a
    \<and> ip_value a < ci_value c + 2 ^ (bitsFor (ci_family c) - ci_prefixLength c)"
  using assms by (auto simp: inCidr_def addressOk_def cidrOk_def and_maskOf same_block_iff)

section \<open>The registry\<close>

lemma parseIpLiteral_ok: "parseIpLiteral input = Inr a \<Longrightarrow> addressOk a"
  by (auto simp: parseIpLiteral_def addressOk_def Let_def split: option.splits dest: parseIpv4_bound parseIpv6_bound)

text \<open>What the policy asks of a prefix, without the text it is written back as.\<close>

definition literalNumber :: "jstr \<Rightarrow> (family \<times> nat) option" where
  "literalNumber input =
     (let s = stripBrackets (trim input)
      in case parseIpv4 s of Some v \<Rightarrow> Some (V4, v)
         | None \<Rightarrow> map_option (Pair V6) (parseIpv6 s))"

definition cidrNumbers :: "jstr \<Rightarrow> cidr option" where
  "cidrNumbers input =
     (case lastIndexOf 47 input of None \<Rightarrow> None
      | Some slash \<Rightarrow>
          if slash = 0 \<or> slash = length input - 1 then None
          else (case literalNumber (take slash input) of None \<Rightarrow> None
            | Some (f, v) \<Rightarrow>
                let t = drop (slash + 1) input; n = numberOf t
                in if t = [] \<or> \<not> list_all isDigit t then None
                   else if n > bitsFor f then None
                   else if v mod 2 ^ (bitsFor f - n) \<noteq> 0 then None
                   else Some \<lparr>ci_family = f, ci_prefixLength = n, ci_value = v\<rparr>))"

lemma literalNumber_Some:
  "literalNumber input = Some (f, v) \<longleftrightarrow>
     (\<exists>a. parseIpLiteral input = Inr a \<and> ip_family a = f \<and> ip_value a = v)"
  by (auto simp: literalNumber_def parseIpLiteral_def Let_def split: option.splits)

lemma cidrNumbers_parse:
  assumes "cidrNumbers input = Some c"
  shows "parseCidr host input = Inr c"
proof -
  obtain slash f v where literal: "lastIndexOf 47 input = Some slash" "slash \<noteq> 0" "slash \<noteq> length input - 1"
    "literalNumber (take slash input) = Some (f, v)"
    using assms by (auto simp: cidrNumbers_def split: option.splits if_splits)
  then obtain a where a: "parseIpLiteral (take slash input) = Inr a" "ip_family a = f" "ip_value a = v"
    by (auto simp: literalNumber_Some)
  define t where "t = drop (slash + 1) input"
  have n: "t \<noteq> []" "list_all isDigit t" "numberOf t \<le> bitsFor f" "v mod 2 ^ (bitsFor f - numberOf t) = 0"
    "c = \<lparr>ci_family = f, ci_prefixLength = numberOf t, ci_value = v\<rparr>"
    using assms literal by (auto simp: cidrNumbers_def Let_def t_def not_less split: if_splits)
  have "v < 2 ^ bitsFor f"
    using parseIpLiteral_ok [OF a(1)] a by (simp add: addressOk_def)
  then have "v AND maskOf f (numberOf t) = v"
    using and_maskOf [OF n(3)] n(4) by simp
  moreover have "wholeNumber host (drop (slash + 1) input) = Some (int (numberOf t))"
    using n unfolding t_def wholeNumber_def by simp
  ultimately show ?thesis
    using literal a n(3,5) by (simp add: parseCidr_def)
qed

definition registryTable :: "(family \<times> nat \<times> nat \<times> bool) list" where
  "registryTable =
     [(V4, 8, 0, False), (V4, 32, 0, False), (V4, 8, 167772160, False),
      (V4, 10, 1681915904, False), (V4, 8, 2130706432, False), (V4, 16, 2851995648, False),
      (V4, 12, 2886729728, False), (V4, 24, 3221225472, False), (V4, 29, 3221225472, False),
      (V4, 32, 3221225480, False), (V4, 32, 3221225481, True), (V4, 32, 3221225482, True),
      (V4, 32, 3221225642, False), (V4, 32, 3221225643, False), (V4, 24, 3221225984, False),
      (V4, 24, 3223307264, True), (V4, 24, 3224682752, True), (V4, 24, 3227017984, False),
      (V4, 32, 3227017986, False), (V4, 16, 3232235520, False), (V4, 24, 3232706560, True),
      (V4, 15, 3323068416, False), (V4, 24, 3325256704, False), (V4, 24, 3405803776, False),
      (V4, 4, 4026531840, False), (V4, 32, 4294967295, False), (V6, 128, 1, False),
      (V6, 128, 0, False), (V6, 96, 281470681743360, False), (V6, 96, 524413980667603649783483181312245760, True),
      (V6, 48, 524413980668812575603097810486951936, False), (V6, 64, 1329227995784915872903807060280344576, False), (V6, 64, 1329227995784915891350551133989896192, False),
      (V6, 23, 42540488161975842760550356425300246528, False), (V6, 32, 42540488161975842760550356425300246528, False), (V6, 128, 42540488241204005274814694018844196865, True),
      (V6, 128, 42540488241204005274814694018844196866, True), (V6, 128, 42540488241204005274814694018844196867, True), (V6, 48, 42540488320432167789079031612388147200, False),
      (V6, 32, 42540488399660330303343369205932097536, True), (V6, 48, 42540488479219738492182115193345540096, True), (V6, 28, 42540489429626442988779757922003451904, False),
      (V6, 28, 42540490697277043217009159418706657280, True), (V6, 28, 42540491964927643445238560915409862656, True), (V6, 32, 42540766411282592856903984951653826560, False),
      (V6, 16, 42545680458834377588178886921629466624, False), (V6, 48, 50676823637938837538472482859932188672, True), (V6, 20, 85065399433376081038215121361612832768, False),
      (V6, 16, 126276659599567007925861670726632734720, False), (V6, 7, 334965454937798799971759379190646833152, False), (V6, 10, 338288524927261089654018896841347694592, False)]"

definition tableCidr :: "family \<times> nat \<times> nat \<times> bool \<Rightarrow> cidr \<times> bool" where
  "tableCidr = (\<lambda>(f, n, v, g). (\<lparr>ci_family = f, ci_prefixLength = n, ci_value = v\<rparr>, g))"

lemma registry_numbers:
  "map (\<lambda>(prefix, g). (cidrNumbers prefix, g)) IANA_SPECIAL_PURPOSE
   = map (\<lambda>(c, g). (Some c, g)) (map tableCidr registryTable)"
  by code_simp

lemma registryPrefixes_table: "registryPrefixes = map tableCidr registryTable"
proof -
  have "map (\<lambda>(p, g). (cidrNumbers p, g)) ps = map (\<lambda>(c, g). (Some c, g)) cs \<Longrightarrow>
      [(c, g). (p, g) \<leftarrow> ps, c \<leftarrow> (case parseCidr host p of Inl _ \<Rightarrow> [] | Inr c \<Rightarrow> [c])] = cs" for ps cs host
  proof (induction ps arbitrary: cs)
    case (Cons p ps)
    then show ?case
      by (cases p; cases cs) (auto dest!: cidrNumbers_parse [of _ _ host])
  qed simp
  from this [OF registry_numbers] show ?thesis
    by (simp add: registryPrefixes_def)
qed

lemma constant_of_numbers: "cidrNumbers (js s) = Some c \<Longrightarrow> constantCidr s = Some c"
  using cidrNumbers_parse [of _ _ plainHost] by (simp add: constantCidr_def)

lemma constant_numbers:
  "constantCidr ''169.254.0.0/16'' = Some \<lparr>ci_family = V4, ci_prefixLength = 16, ci_value = 2851995648\<rparr>"
  "constantCidr ''224.0.0.0/4'' = Some \<lparr>ci_family = V4, ci_prefixLength = 4, ci_value = 3758096384\<rparr>"
  "constantCidr ''fe80::/10'' = Some \<lparr>ci_family = V6, ci_prefixLength = 10, ci_value = 1018 * 2 ^ 118\<rparr>"
  "constantCidr ''ff00::/8'' = Some \<lparr>ci_family = V6, ci_prefixLength = 8, ci_value = 255 * 2 ^ 120\<rparr>"
  "constantCidr ''64:ff9b::/96'' = Some \<lparr>ci_family = V6, ci_prefixLength = 96, ci_value = 0x64ff9b * 2 ^ 96\<rparr>"
  "constantCidr ''2002::/16'' = Some \<lparr>ci_family = V6, ci_prefixLength = 16, ci_value = 0x2002 * 2 ^ 112\<rparr>"
  "constantCidr ''2001:0::/32'' = Some \<lparr>ci_family = V6, ci_prefixLength = 32, ci_value = 0x20010000 * 2 ^ 96\<rparr>"
  by (rule constant_of_numbers, code_simp)+

lemma registry_ok: "\<forall>(c, g) \<in> set registryPrefixes. cidrOk c"
  by (simp add: registryPrefixes_table registryTable_def tableCidr_def cidrOk_def)

lemma ipv4From_ok: "addressOk (ipv4From v)"
  using and_low_bits [of v 32] by (simp add: addressOk_def IPV4_MAX_def)

lemma parseCidr_ok:
  assumes "parseCidr host input = Inr c"
  shows "cidrOk c"
proof -
  obtain a n where a: "addressOk a" "n \<le> bitsFor (ip_family a)"
    "ip_value a AND maskOf (ip_family a) n = ip_value a"
    "c = \<lparr>ci_family = ip_family a, ci_prefixLength = n, ci_value = ip_value a\<rparr>"
    using assms by (fastforce simp: parseCidr_def result_bind_eq_Inr split: option.splits if_splits
        dest: parseIpLiteral_ok)
  then have "ip_value a - ip_value a mod 2 ^ (bitsFor (ip_family a) - n) = ip_value a"
    using and_maskOf [OF a(2)] by (simp add: addressOk_def)
  then have "ip_value a mod 2 ^ (bitsFor (ip_family a) - n) = 0"
    by (metis diff_diff_cancel diff_self_eq_0 mod_less_eq_dividend)
  then show ?thesis
    using a by (simp add: cidrOk_def addressOk_def)
qed

section \<open>The addresses an address carries\<close>

definition accepted :: "address_options \<Rightarrow> cidr list \<Rightarrow> ip_address \<Rightarrow> bool" where
  "accepted options approved a \<longleftrightarrow> \<not> isUnconditionallyDenied a \<and> modeAllows options approved a"

definition keyOf :: "ip_address \<Rightarrow> family \<times> nat" where
  "keyOf a = (ip_family a, ip_value a)"

text \<open>The text of an address takes no part in what is decided of it.\<close>

lemma accepted_key:
  assumes "keyOf a = keyOf b"
  shows "accepted options approved a = accepted options approved b"
proof -
  have "inCidr a = inCidr b"
    using assms by (auto simp: inCidr_def keyOf_def)
  then have "inConstant s a = inConstant s b" "globallyReachable a = globallyReachable b" for s
    by (simp_all add: inConstant_def globallyReachable_def split: option.split)
  then show ?thesis
    using assms \<open>inCidr a = inCidr b\<close>
    by (simp add: accepted_def isUnconditionallyDenied_def modeAllows_def keyOf_def split: address_mode.split)
qed

lemma assertOne_V4:
  assumes "assertOne host options approved a seen = Inr (n, seen')" "ip_family a = V4"
  shows "set seen' = insert (keyOf a) (set seen) \<and> (keyOf a \<in> set seen \<or> accepted options approved a)"
  using assms
  by (subst (asm) assertOne.simps)
    (auto simp: embedded_of_V4 accepted_def keyOf_def insert_absorb split: if_splits)

lemma assertAll_V4:
  assumes "\<And>b. b \<in> set bs \<Longrightarrow> ip_family b = V4" "assertAll host options approved bs seen = Inr seen'"
  shows "\<forall>b \<in> set bs. keyOf b \<in> set seen \<or> accepted options approved b"
  using assms
proof (induction bs arbitrary: seen)
  case (Cons b bs)
  obtain n mid where mid: "assertOne host options approved b seen = Inr (n, mid)"
    "assertAll host options approved bs mid = Inr seen'"
    using Cons.prems(2) by (auto split: sum.splits)
  have one: "set mid = insert (keyOf b) (set seen)" "keyOf b \<in> set seen \<or> accepted options approved b"
    using assertOne_V4 [OF mid(1)] Cons.prems(1) by simp_all
  have "keyOf c \<in> set seen \<or> accepted options approved c" if "c \<in> set bs" for c
  proof -
    have "keyOf c \<in> set mid \<or> accepted options approved c"
      using Cons.IH [OF _ mid(2)] Cons.prems(1) that by simp
    then show ?thesis
      using one accepted_key [of c b options approved] by auto
  qed
  then show ?case
    using one(2) by simp
qed simp

lemma assertOne_accepts:
  assumes "assertOne host options approved a [] = Inr (embedded, seen)"
  shows "embeddedAddresses host options a = Inr embedded \<and> (\<forall>b \<in> set (a # embedded). accepted options approved b)"
proof -
  have a: "accepted options approved a" "embeddedAddresses host options a = Inr embedded"
    "assertAll host options approved embedded [keyOf a] = Inr seen"
    using assms by (subst (asm) assertOne.simps, auto simp: accepted_def keyOf_def split: if_splits sum.splits)+
  have "accepted options approved b" if "b \<in> set embedded" for b
  proof -
    have "keyOf b = keyOf a \<or> accepted options approved b"
      using assertAll_V4 [OF embedded_V4 [OF a(2)] a(3)] that by auto
    then show ?thesis
      using a(1) accepted_key [of b a options approved] by auto
  qed
  then show ?thesis
    using a by simp
qed

text \<open>
  The IPv4 addresses that an IPv6 address stands for, by the numbers of the transition schemes: IPv4-mapped and
  IPv4-compatible, the well-known NAT64 prefix, 6to4, the server and the inverted client of Teredo, and ISATAP.
\<close>

definition tunnels :: "nat \<Rightarrow> nat \<Rightarrow> bool" where
  "tunnels v w \<longleftrightarrow> w < 2 ^ 32 \<and>
     ((v div 2 ^ 32 = 65535 \<and> w = v mod 2 ^ 32)
    \<or> (v div 2 ^ 32 = 0 \<and> 1 < v \<and> w = v)
    \<or> (v div 2 ^ 32 = 0x64ff9b * 2 ^ 64 \<and> w = v mod 2 ^ 32)
    \<or> (v div 2 ^ 112 = 0x2002 \<and> w = v div 2 ^ 80 mod 2 ^ 32)
    \<or> (v div 2 ^ 96 = 0x20010000 \<and> (w = v div 2 ^ 64 mod 2 ^ 32 \<or> w + v mod 2 ^ 32 = 2 ^ 32 - 1))
    \<or> (v div 2 ^ 32 mod 2 ^ 32 \<in> {0x5efe, 0x02005efe} \<and> w = v mod 2 ^ 32))"

lemma in_block: "(v :: nat) div b = k \<Longrightarrow> 0 < b \<Longrightarrow> k * b \<le> v \<and> v < k * b + b"
  by (metis add.commute div_mult_mod_eq le_add1 mod_less_divisor nat_add_left_cancel_less)

lemma in_constant_block:
  assumes "constantCidr s = Some \<lparr>ci_family = V6, ci_prefixLength = n, ci_value = k * 2 ^ (128 - n)\<rparr>"
    "ip_family a = V6" "addressOk a" "n \<le> 128" "k < 2 ^ n" "ip_value a div 2 ^ (128 - n) = k"
  shows "inConstant s a"
proof -
  have "k * 2 ^ (128 - n) < (2 :: nat) ^ 128"
    using assms(4,5) by (metis le_add_diff_inverse2 mult.commute mult_less_cancel2 power_add zero_less_numeral zero_less_power add.commute)
  then show ?thesis
    using assms in_block [OF assms(6)] by (simp add: inConstant_def inCidr_range cidrOk_def)
qed

lemma inverted: "(v XOR IPV4_MAX) AND IPV4_MAX = 2 ^ 32 - 1 - v mod 2 ^ 32"
proof -
  have max: "IPV4_MAX = mask 32"
    by (simp add: IPV4_MAX_def mask_eq_exp_minus_1)
  have "take_bit 32 v AND ((v XOR mask 32) AND mask 32) = 0" "take_bit 32 v OR ((v XOR mask 32) AND mask 32) = mask 32"
    by (auto intro!: bit_eqI simp: bit_simps)
  then have "take_bit 32 v + ((v XOR mask 32) AND mask 32) = mask 32"
    using disjunctive_add_eq_or by metis
  then show ?thesis
    by (simp add: max take_bit_eq_mod mask_eq_exp_minus_1)
qed

lemma embedded_pieces:
  assumes "embeddedAddresses host options a = Inr bs" "ip_family a = V6"
  defines "v \<equiv> ip_value a"
  shows "\<exists>looksNat64. bs = (if v div 2 ^ 32 = 65535 \<or> v div 2 ^ 32 = 0 \<and> 1 < v then [ipv4From v] else [])
      @ (if looksNat64 then [ipv4From v] else [])
      @ (if inConstant ''2002::/16'' a then [ipv4From (v div 2 ^ 80)] else [])
      @ (if inConstant ''2001:0::/32'' a
         then [ipv4From (v div 2 ^ 64), ipv4From ((v XOR IPV4_MAX) AND IPV4_MAX)] else [])
      @ (if v div 2 ^ 32 mod 2 ^ 32 = 0x5efe \<or> v div 2 ^ 32 mod 2 ^ 32 = 0x02005efe then [ipv4From v] else [])
    \<and> (inConstant ''64:ff9b::/96'' a \<longrightarrow> looksNat64)"
proof -
  obtain configured where configured: "configuredNat64 host options = Inr configured"
    using assms(1,2) by (cases "configuredNat64 host options") (simp_all add: embeddedAddresses_def Let_def)
  have low: "x AND IPV4_MAX = x mod 2 ^ 32" for x
    using and_low_bits [of x 32] by (simp add: IPV4_MAX_def)
  show ?thesis
    using assms(1) unfolding embeddedAddresses_def Let_def configured result_bind_simps assms(2)
      drop_bit_eq_div v_def [symmetric] low [of "v div _"] not_True_eq_False simp_thms if_False refuse_or_Inr by blast
qed

lemma embedded_tunnels:
  assumes "embeddedAddresses host options a = Inr bs" "ip_family a = V6" "addressOk a" "tunnels (ip_value a) w"
  shows "\<exists>b \<in> set bs. keyOf b = (V4, w)"
proof -
  define v where "v = ip_value a"
  have low: "x AND IPV4_MAX = x mod 2 ^ 32" for x
    using and_low_bits [of x 32] by (simp add: IPV4_MAX_def)
  note block = in_constant_block [OF _ assms(2,3)]
  have blocks: "v div 2 ^ 32 = 0x64ff9b * 2 ^ 64 \<Longrightarrow> inConstant ''64:ff9b::/96'' a"
    "v div 2 ^ 112 = 0x2002 \<Longrightarrow> inConstant ''2002::/16'' a" "v div 2 ^ 96 = 0x20010000 \<Longrightarrow> inConstant ''2001:0::/32'' a"
    using block [of _ 96 "0x64ff9b * 2 ^ 64"] block [of _ 16 "0x2002"] block [of _ 32 "0x20010000"]
    by (simp_all add: constant_numbers v_def)
  have bs: "(v div 2 ^ 32 = 65535 \<or> v div 2 ^ 32 = 0 \<and> 1 < v \<Longrightarrow> ipv4From v \<in> set bs)"
    "inConstant ''64:ff9b::/96'' a \<Longrightarrow> ipv4From v \<in> set bs"
    "inConstant ''2002::/16'' a \<Longrightarrow> ipv4From (v div 2 ^ 80) \<in> set bs"
    "inConstant ''2001:0::/32'' a \<Longrightarrow> ipv4From (v div 2 ^ 64) \<in> set bs \<and> ipv4From ((v XOR IPV4_MAX) AND IPV4_MAX) \<in> set bs"
    "v div 2 ^ 32 mod 2 ^ 32 \<in> {0x5efe, 0x02005efe} \<Longrightarrow> ipv4From v \<in> set bs"
    using embedded_pieces [OF assms(1,2)] unfolding v_def [symmetric] by auto
  have key: "keyOf (ipv4From x) = (V4, x mod 2 ^ 32)" for x
    by (simp add: keyOf_def low)
  have "(ipv4From v \<in> set bs \<and> w = v mod 2 ^ 32) \<or> (ipv4From (v div 2 ^ 80) \<in> set bs \<and> w = v div 2 ^ 80 mod 2 ^ 32)
    \<or> (ipv4From (v div 2 ^ 64) \<in> set bs \<and> w = v div 2 ^ 64 mod 2 ^ 32)
    \<or> (ipv4From ((v XOR IPV4_MAX) AND IPV4_MAX) \<in> set bs \<and> w + v mod 2 ^ 32 = 2 ^ 32 - 1)"
    using assms(4) [folded v_def, unfolded tunnels_def]
  proof (elim conjE disjE, goal_cases)
    case 2
    then have "w = v mod 2 ^ 32"
      by simp
    with 2 bs(1) show ?case
      by blast
  qed (use bs blocks in blast)+
  then consider "ipv4From v \<in> set bs" "w = v mod 2 ^ 32" | "ipv4From (v div 2 ^ 80) \<in> set bs" "w = v div 2 ^ 80 mod 2 ^ 32"
    | "ipv4From (v div 2 ^ 64) \<in> set bs" "w = v div 2 ^ 64 mod 2 ^ 32"
    | "ipv4From ((v XOR IPV4_MAX) AND IPV4_MAX) \<in> set bs" "w + v mod 2 ^ 32 = 2 ^ 32 - 1"
    by blast
  then show ?thesis
  proof cases
    case 4
    have "((v XOR IPV4_MAX) AND IPV4_MAX) AND IPV4_MAX = w"
      using inverted [of v] 4(2) unfolding and.assoc and.idem by linarith
    then show ?thesis
      by (intro bexI [OF _ 4(1)]) (simp only: keyOf_def ipv4From_simps)
  qed (use key in blast)+
qed

section \<open>What an accepted address is not\<close>

definition octets :: "nat \<Rightarrow> nat \<Rightarrow> nat \<Rightarrow> nat \<Rightarrow> nat" where
  "octets a b c d = a * 2 ^ 24 + b * 2 ^ 16 + c * 2 ^ 8 + d"

text \<open>The IPv4 networks a person's own machines and routers are in.\<close>

definition privateV4 :: "nat \<Rightarrow> bool" where
  "privateV4 v \<longleftrightarrow> v < octets 1 0 0 0
     \<or> (octets 10 0 0 0 \<le> v \<and> v < octets 11 0 0 0) \<or> (octets 100 64 0 0 \<le> v \<and> v < octets 100 128 0 0)
     \<or> (octets 127 0 0 0 \<le> v \<and> v < octets 128 0 0 0) \<or> (octets 172 16 0 0 \<le> v \<and> v < octets 172 32 0 0)
     \<or> (octets 192 168 0 0 \<le> v \<and> v < octets 192 169 0 0)"

definition linkLocalOrGroup :: "ip_address \<Rightarrow> bool" where
  "linkLocalOrGroup a \<longleftrightarrow>
     (case ip_family a of
        V4 \<Rightarrow> (octets 169 254 0 0 \<le> ip_value a \<and> ip_value a < octets 169 255 0 0)
              \<or> (octets 224 0 0 0 \<le> ip_value a \<and> ip_value a < octets 240 0 0 0)
      | V6 \<Rightarrow> (1018 * 2 ^ 118 \<le> ip_value a \<and> ip_value a < 1019 * 2 ^ 118) \<or> 255 * 2 ^ 120 \<le> ip_value a)"

lemma denied_if_local:
  assumes "addressOk a" "linkLocalOrGroup a"
  shows "isUnconditionallyDenied a"
  using assms
  by (cases "ip_family a")
    (auto simp: isUnconditionallyDenied_def inConstant_def constant_numbers inCidr_range cidrOk_def
      linkLocalOrGroup_def octets_def addressOk_def)

text \<open>A prefix that is not global decides where no global prefix at least as long holds the address.\<close>

lemma not_global:
  assumes "(c, False) \<in> set registryPrefixes" "inCidr a c"
    and "\<And>d. (d, True) \<in> set registryPrefixes \<Longrightarrow> inCidr a d \<Longrightarrow> ci_prefixLength d < ci_prefixLength c"
  shows "\<not> globallyReachable a"
proof -
  let ?key = "\<lambda>(c, _ :: bool). - int (ci_prefixLength c)"
  let ?found = "filter (\<lambda>(c, _). inCidr a c) registryPrefixes"
  have c: "(c, False) \<in> set (sort_key ?key ?found)"
    using assms(1,2) by simp
  then obtain d g rest where first: "sort_key ?key ?found = (d, g) # rest"
    by (cases "sort_key ?key ?found") auto
  have "sorted (map ?key ((d, g) # rest))"
    using sorted_sort_key [of ?key ?found] first by simp
  then have "ci_prefixLength c \<le> ci_prefixLength d"
    using c first by fastforce
  moreover have "(d, g) \<in> set ?found"
    using first by (metis list.set_intros(1) set_sort)
  ultimately have "\<not> g"
    using assms(3) [of d] by (cases g) auto
  then show ?thesis
    using first by (simp add: globallyReachable_def)
qed

lemma inCidr_table:
  assumes "addressOk a" "(f, n, v, g) \<in> set registryTable"
  shows "inCidr a (fst (tableCidr (f, n, v, g))) \<longleftrightarrow>
    ip_family a = f \<and> v \<le> ip_value a \<and> ip_value a < v + 2 ^ (bitsFor f - n)"
proof -
  have "(fst (tableCidr (f, n, v, g)), g) \<in> set registryPrefixes"
    using assms(2) by (force simp: registryPrefixes_table tableCidr_def)
  then have "cidrOk (fst (tableCidr (f, n, v, g)))"
    using registry_ok by auto
  from inCidr_range [OF assms(1) this] show ?thesis
    by (simp add: tableCidr_def)
qed

lemma global_entries:
  "{(f, n, v). (f, n, v, True) \<in> set registryTable \<and> f = V4}
   = {(V4, 32, octets 192 0 0 9), (V4, 32, octets 192 0 0 10), (V4, 24, octets 192 31 196 0),
      (V4, 24, octets 192 52 193 0), (V4, 24, octets 192 175 48 0)}"
  by (auto simp: registryTable_def octets_def)

lemma private_entries:
  "(V4, 8, octets 0 0 0 0, False) \<in> set registryTable" "(V4, 8, octets 10 0 0 0, False) \<in> set registryTable"
  "(V4, 10, octets 100 64 0 0, False) \<in> set registryTable" "(V4, 8, octets 127 0 0 0, False) \<in> set registryTable"
  "(V4, 12, octets 172 16 0 0, False) \<in> set registryTable" "(V4, 16, octets 192 168 0 0, False) \<in> set registryTable"
  by (simp_all add: registryTable_def octets_def)

lemma private_not_global:
  assumes "addressOk a" "ip_family a = V4" "privateV4 (ip_value a)"
  shows "\<not> globallyReachable a"
proof -
  obtain n v where block: "(V4, n, v, False) \<in> set registryTable" "v \<le> ip_value a" "ip_value a < v + 2 ^ (32 - n)"
  proof -
    consider "ip_value a < octets 1 0 0 0" | "octets 10 0 0 0 \<le> ip_value a \<and> ip_value a < octets 11 0 0 0"
      | "octets 100 64 0 0 \<le> ip_value a \<and> ip_value a < octets 100 128 0 0"
      | "octets 127 0 0 0 \<le> ip_value a \<and> ip_value a < octets 128 0 0 0"
      | "octets 172 16 0 0 \<le> ip_value a \<and> ip_value a < octets 172 32 0 0"
      | "octets 192 168 0 0 \<le> ip_value a \<and> ip_value a < octets 192 169 0 0"
      using assms(3) unfolding privateV4_def by blast
    then show ?thesis
    proof cases
      case 1
      then show ?thesis using that [OF private_entries(1)] by (simp add: octets_def)
    next
      case 2
      then show ?thesis using that [OF private_entries(2)] by (simp add: octets_def)
    next
      case 3
      then show ?thesis using that [OF private_entries(3)] by (simp add: octets_def)
    next
      case 4
      then show ?thesis using that [OF private_entries(4)] by (simp add: octets_def)
    next
      case 5
      then show ?thesis using that [OF private_entries(5)] by (simp add: octets_def)
    next
      case 6
      then show ?thesis using that [OF private_entries(6)] by (simp add: octets_def)
    qed
  qed
  have none: "\<not> inCidr a d" if d: "(d, True) \<in> set registryPrefixes" for d
  proof
    assume "inCidr a d"
    obtain f m w where entry: "(f, m, w, True) \<in> set registryTable" "d = fst (tableCidr (f, m, w, True))"
      using d by (auto simp: registryPrefixes_table tableCidr_def)
    then have at: "f = V4" "w \<le> ip_value a" "ip_value a < w + 2 ^ (32 - m)"
      using inCidr_table [OF assms(1) entry(1)] \<open>inCidr a d\<close> assms(2) by auto
    have "(f, m, w) \<in> {(f, n, v). (f, n, v, True) \<in> set registryTable \<and> f = V4}"
      using entry(1) at(1) by simp
    note this [unfolded global_entries]
    then consider "w = octets 192 0 0 9" "m = 32" | "w = octets 192 0 0 10" "m = 32" | "w = octets 192 31 196 0" "m = 24"
      | "w = octets 192 52 193 0" "m = 24" | "w = octets 192 175 48 0" "m = 24"
      by auto
    then have "octets 192 0 0 0 \<le> ip_value a \<and> ip_value a < octets 192 168 0 0
        \<or> octets 192 175 0 0 \<le> ip_value a \<and> ip_value a < octets 193 0 0 0"
      using at(2,3) by cases (simp_all add: octets_def)
    then show False
      using assms(3) by (simp add: privateV4_def octets_def) linarith
  qed
  have "(fst (tableCidr (V4, n, v, False)), False) \<in> set registryPrefixes"
    using block(1) by (force simp: registryPrefixes_table tableCidr_def)
  moreover have "inCidr a (fst (tableCidr (V4, n, v, False)))"
    using inCidr_table [OF assms(1) block(1)] block assms(2) by simp
  ultimately show ?thesis
    using none not_global by blast
qed

text \<open>An address that no prefix holds, or only global ones.\<close>

definition outsideRow :: "family \<Rightarrow> nat \<Rightarrow> family \<times> nat \<times> nat \<times> bool \<Rightarrow> bool" where
  "outsideRow f v = (\<lambda>(g, n, w, reachable). f \<noteq> g \<or> v < w \<or> w + 2 ^ (bitsFor g - n) \<le> v \<or> reachable)"

lemma global_if_outside:
  assumes "addressOk a" "list_all (outsideRow (ip_family a) (ip_value a)) registryTable"
  shows "globallyReachable a"
proof -
  have "reachable" if held: "(c, reachable) \<in> set registryPrefixes" "inCidr a c" for c reachable
  proof -
    obtain row where row: "row \<in> set registryTable" "(c, reachable) = tableCidr row"
      using held(1) unfolding registryPrefixes_table set_map by blast
    moreover have "cidrOk c"
      using registry_ok held(1) by auto
    moreover have "outsideRow (ip_family a) (ip_value a) row"
      using assms(2) row(1) by (simp add: list_all_iff)
    moreover obtain f n w g where "row = (f, n, w, g)"
      using prod_cases4 by blast
    ultimately show ?thesis
      using inCidr_range [OF assms(1), of c] held(2) by (auto simp: tableCidr_def outsideRow_def)
  qed
  note reachable = this
  let ?held = "sort_key (\<lambda>(c, _). - int (ci_prefixLength c)) (filter (\<lambda>(c, _). inCidr a c) registryPrefixes)"
  show ?thesis
  proof (cases ?held)
    case Nil
    then show ?thesis
      by (simp only: globallyReachable_def list.case)
  next
    case (Cons p rest)
    then have "p \<in> set ?held"
      by (simp only: list.set_intros)
    then have "snd p"
      using reachable [of "fst p" "snd p"] by auto
    then show ?thesis
      unfolding globallyReachable_def Cons by (simp add: case_prod_beta)
  qed
qed

lemma accepted_outside:
  assumes "assertAddressAllowed host options input = Inr (a, embedded)"
    "b = a \<or> (ip_family a = V6 \<and> ip_family b = V4 \<and> tunnels (ip_value a) (ip_value b))"
  shows "\<not> linkLocalOrGroup b
    \<and> (ao_mode options = GlobalOnly \<longrightarrow> ip_family b = V4 \<longrightarrow> \<not> privateV4 (ip_value b))
    \<and> (\<forall>entries. ao_mode options = ApprovedAddressSet entries \<longrightarrow>
         (\<exists>approved. parseApprovedAddressSet host entries = Inr approved \<and> list_ex (inCidr b) approved))"
proof -
  obtain approved seen where one: "parseIpLiteral input = Inr a"
    "(case ao_mode options of GlobalOnly \<Rightarrow> Inr [] | ApprovedAddressSet entries \<Rightarrow> parseApprovedAddressSet host entries)
       = Inr approved"
    "assertOne host options approved a [] = Inr (embedded, seen)"
    using assms(1) by (auto simp: assertAddressAllowed_def result_bind_eq_Inr)
  note ok = parseIpLiteral_ok [OF one(1)]
  note all = assertOne_accepts [OF one(3)]
  have "\<exists>c \<in> set (a # embedded). keyOf c = keyOf b"
  proof (cases "b = a")
    case False
    then have "ip_family a = V6" "keyOf b = (V4, ip_value b)" "tunnels (ip_value a) (ip_value b)"
      using assms(2) by (simp_all add: keyOf_def)
    then show ?thesis
      using embedded_tunnels [OF conjunct1 [OF all] _ ok] by fastforce
  qed simp
  then have b: "accepted options approved b"
    using all accepted_key [of _ b options approved] by blast
  have "addressOk b"
    using ok assms(2) by (auto simp: addressOk_def tunnels_def)
  note ok = this
  have "\<not> linkLocalOrGroup b"
    using denied_if_local [OF ok] b by (auto simp: accepted_def)
  moreover have "\<not> privateV4 (ip_value b)" if "ao_mode options = GlobalOnly" "ip_family b = V4"
    using private_not_global [OF ok that(2)] b that(1) by (auto simp: accepted_def modeAllows_def)
  moreover have "parseApprovedAddressSet host entries = Inr approved \<and> list_ex (inCidr b) approved"
    if "ao_mode options = ApprovedAddressSet entries" for entries
    using b one(2) that by (simp add: accepted_def modeAllows_def Let_def)
  ultimately show ?thesis
    by blast
qed

section \<open>Properties\<close>

text \<open>
  C35. No spelling of an address leads inside. When an address is accepted, then it, and every IPv4 address that a
  transition scheme gives it, is neither link-local, where the metadata service of a cloud answers, nor a group
  address; where only global addresses are accepted no IPv4 address among them is private, and where a set is approved
  each of them is in it.
\<close>
theorem accepted_addresses_stay_outside:
  assumes "assertAddressAllowed host options input = Inr (a, embedded)"
    "b = a \<or> (ip_family a = V6 \<and> ip_family b = V4 \<and> tunnels (ip_value a) (ip_value b))"
  shows "\<not> linkLocalOrGroup b
    \<and> (ao_mode options = GlobalOnly \<longrightarrow> ip_family b = V4 \<longrightarrow> \<not> privateV4 (ip_value b))
    \<and> (\<forall>entries. ao_mode options = ApprovedAddressSet entries \<longrightarrow>
         (\<exists>approved. parseApprovedAddressSet host entries = Inr approved \<and> list_ex (inCidr b) approved))"
  using assms by (rule accepted_outside)

text \<open>An address of the NAT64 prefix, accepted for the public address it carries.\<close>

theorem accepted_addresses_stay_outside_witness:
  "\<exists>a embedded. assertAddressAllowed plainHost \<lparr>ao_mode = GlobalOnly, ao_activeNat64Prefix = Some [js ''64:ff9b::/96'']\<rparr>
       (js ''64:ff9b::808:808'') = Inr (a, embedded)
     \<and> tunnels (ip_value a) (octets 8 8 8 8) \<and> \<not> privateV4 (octets 8 8 8 8)"
proof -
  let ?options = "\<lparr>ao_mode = GlobalOnly, ao_activeNat64Prefix = Some [js ''64:ff9b::/96'']\<rparr>"
  define v :: nat where "v = 0x64ff9b * 2 ^ 96 + 0x8080808"
  define a where "a = \<lparr>ip_address = ipv6Text v, ip_family = V6, ip_value = v\<rparr>"
  define b where "b = ipv4From v"
  have "stripBrackets (trim (js ''64:ff9b::808:808'')) = js ''64:ff9b::808:808''"
    "parseIpv4 (js ''64:ff9b::808:808'') = None" "parseIpv6 (js ''64:ff9b::808:808'') = Some v"
    unfolding v_def by code_simp+
  then have read: "parseIpLiteral (js ''64:ff9b::808:808'') = Inr a"
    by (simp add: parseIpLiteral_def a_def)
  have "cidrNumbers (js ''64:ff9b::/96'') = Some \<lparr>ci_family = V6, ci_prefixLength = 96, ci_value = 0x64ff9b * 2 ^ 96\<rparr>"
    by code_simp
  note prefix = cidrNumbers_parse [OF this, of plainHost]
  have ok: "addressOk a" "addressOk b" "ip_family b = V4" "ip_value b = 134744072"
    using ipv4From_ok [of v] and_low_bits [of v 32] by (simp_all add: a_def b_def v_def addressOk_def IPV4_MAX_def)
  have metadata: "parseIpv4 (js ''169.254.169.254'') = Some 2852039166" "parseIpv6 (js ''fd00:ec2::254'') = Some 336294982257581694735330614659971547732"
    by code_simp+
  note numbers = inConstant_def constant_numbers inCidr_range ok cidrOk_def isUnconditionallyDenied_def metadata
  have outside: "\<not> isUnconditionallyDenied a" "\<not> isUnconditionallyDenied b"
    by (simp_all add: numbers) (simp add: a_def v_def)+
  have global: "globallyReachable a" "globallyReachable b"
  proof -
    have "list_all (outsideRow V6 (0x64ff9b * 2 ^ 96 + 0x8080808)) registryTable" "list_all (outsideRow V4 0x8080808) registryTable"
      by code_simp+
    then show "globallyReachable a" "globallyReachable b"
      using global_if_outside [OF ok(1)] global_if_outside [OF ok(2)] ok(3,4) by (simp_all add: a_def v_def)
  qed
  have "configuredNat64 plainHost ?options = Inr (Some \<lparr>ci_family = V6, ci_prefixLength = 96, ci_value = 0x64ff9b * 2 ^ 96\<rparr>)"
    by (simp add: configuredNat64_def prefix)
  moreover have "inConstant ''64:ff9b::/96'' a" "\<not> inConstant ''2002::/16'' a" "\<not> inConstant ''2001:0::/32'' a"
    "inConfigured a (Some \<lparr>ci_family = V6, ci_prefixLength = 96, ci_value = 0x64ff9b * 2 ^ 96\<rparr>)"
    by (simp_all add: numbers inConfigured_def) (simp_all add: a_def v_def)
  ultimately have "embeddedAddresses plainHost ?options a = Inr [b]"
    using and_low_bits [of _ 32]
    by (simp add: embeddedAddresses_def Let_def b_def drop_bit_eq_div IPV4_MAX_def) (simp add: a_def v_def)
  then have "assertOne plainHost ?options [] a [] = Inr ([b], [keyOf b, keyOf a])"
    using outside global ok(3)
    by (simp add: assertOne.simps modeAllows_def embedded_of_V4 keyOf_def) (simp add: a_def)
  then have accepted: "assertAddressAllowed plainHost ?options (js ''64:ff9b::808:808'') = Inr (a, [b])"
    by (simp add: assertAddressAllowed_def read)
  have "ip_family b = V4" "tunnels (ip_value a) (ip_value b)" "ip_value b = octets 8 8 8 8"
    using ok by (simp_all add: tunnels_def a_def v_def octets_def)
  then show ?thesis
    using accepted accepted_addresses_stay_outside [OF accepted, of b] by (auto simp: a_def)
qed

end
