(* ===== verification/NetConnection.thy ===== *)
theory NetConnection
  imports NetPolicy EventText
begin

text \<open>
  How the event daemon opens a connection: \<open>packages/events-daemon/src/network/resolver.ts\<close>, \<open>local-endpoint.ts\<close> and
  the preparation in \<open>pinned-connection.ts\<close>. The name is resolved once, every answer is vetted, and the connection is
  to the one vetted literal, never to the name. The parser of URLs and the resolver are the platform's: the members a
  URL is read by are a record, and both are arguments.
\<close>

section \<open>The platform\<close>

text \<open>The members of a \<open>URL\<close> that are read.\<close>

record net_url =
  u_href :: jstr
  u_protocol :: jstr
  u_username :: jstr
  u_password :: jstr
  u_hash :: jstr
  u_hostname :: jstr
  u_port :: jstr
  u_pathname :: jstr
  u_search :: jstr

text \<open>
  What a preparation may end with: \<open>AddressPolicyError\<close>, \<open>LocalEndpointError\<close>, what \<open>new URL\<close> throws, and what the
  resolver rejects with. The resolver gives \<open>None\<close> where it rejects.
\<close>

datatype connect_error = AddressRefused | LOCAL_ENDPOINT_REFUSED | InvalidUrl | LookupFailed

record net_platform =
  np_host :: net_host
  np_sha256 :: "jstr \<Rightarrow> jstr"
  np_url :: "jstr \<Rightarrow> net_url option"
  np_lookup :: "jstr \<Rightarrow> jstr list option"

definition refused :: "address_error + 'a \<Rightarrow> connect_error + 'a" where
  "refused r = (case r of Inl _ \<Rightarrow> Inl AddressRefused | Inr x \<Rightarrow> Inr x)"

text \<open>\<open>sort((left, right) => left.localeCompare(right))\<close>: a stable sort by what the host compares with.\<close>

fun insertBy :: "(jstr \<Rightarrow> jstr \<Rightarrow> int) \<Rightarrow> jstr \<Rightarrow> jstr list \<Rightarrow> jstr list" where
  "insertBy compare x [] = [x]"
| "insertBy compare x (y # ys) = (if compare x y \<le> 0 then x # y # ys else y # insertBy compare x ys)"

definition sortBy :: "(jstr \<Rightarrow> jstr \<Rightarrow> int) \<Rightarrow> jstr list \<Rightarrow> jstr list" where
  "sortBy compare xs = foldr (insertBy compare) xs []"

section \<open>Names\<close>

definition resolveHost :: "net_platform \<Rightarrow> jstr \<Rightarrow> connect_error + jstr list" where
  "resolveHost platform hostname =
     (case parseIpLiteral hostname of
        Inr a \<Rightarrow> Inr [ip_address a]
      | Inl _ \<Rightarrow>
          (case np_lookup platform hostname of
             None \<Rightarrow> Inl LookupFailed
           | Some answers \<Rightarrow> if answers = [] then Inl AddressRefused else Inr answers))"

definition isLiteral :: "jstr \<Rightarrow> bool" where
  "isLiteral hostname = (case parseIpLiteral hostname of Inl _ \<Rightarrow> False | Inr _ \<Rightarrow> True)"

definition LOOPBACK4 :: jstr where "LOOPBACK4 = js ''127.0.0.1''"
definition LOOPBACK6 :: jstr where "LOOPBACK6 = js ''::1''"

section \<open>A local endpoint\<close>

text \<open>An \<open>AddressPolicyError\<close> of the last check, which stands outside the \<open>try\<close>, is thrown as it is.\<close>

definition validateLocalEndpoint :: "net_platform \<Rightarrow> jstr \<Rightarrow> jstr list \<Rightarrow> connect_error + net_url \<times> jstr" where
  "validateLocalEndpoint platform input approvedAddressSet =
     (case np_url platform input of None \<Rightarrow> Inl InvalidUrl
      | Some url \<Rightarrow>
        let hostname = stripBrackets (u_hostname url)
        in if u_protocol url \<noteq> js ''http:'' then Inl LOCAL_ENDPOINT_REFUSED
        else if u_username url \<noteq> [] \<or> u_password url \<noteq> [] \<or> u_hash url \<noteq> [] then Inl LOCAL_ENDPOINT_REFUSED
        else (case parseIpLiteral hostname of Inl _ \<Rightarrow> Inl LOCAL_ENDPOINT_REFUSED
          | Inr a \<Rightarrow>
            let address = ip_address a
            in (case assertAddressAllowed (np_host platform)
                   \<lparr>ao_mode = ApprovedAddressSet approvedAddressSet, ao_activeNat64Prefix = None\<rparr> address of
                  Inl _ \<Rightarrow> Inl LOCAL_ENDPOINT_REFUSED
                | Inr _ \<Rightarrow>
                    if address \<noteq> LOOPBACK4 \<and> address \<noteq> LOOPBACK6 then Inl LOCAL_ENDPOINT_REFUSED
                    else (case approvedAddressSet of
                        [entry] \<Rightarrow>
                          if 47 \<in> set entry then Inl LOCAL_ENDPOINT_REFUSED
                          else (case parseIpLiteral entry of Inl _ \<Rightarrow> Inl AddressRefused
                            | Inr e \<Rightarrow> if ip_address e \<noteq> address then Inl LOCAL_ENDPOINT_REFUSED
                                       else Inr (url, address))
                      | _ \<Rightarrow> Inl LOCAL_ENDPOINT_REFUSED))))"

section \<open>A pinned connection\<close>

datatype hosted_purpose = Analyse | SessionContext | Linear

record prepare_options =
  po_url :: jstr
  po_address :: address_options
  po_approvedAddressSetDigest :: "jstr option"
  po_hostedPurpose :: "hosted_purpose option"

record pinned_connection =
  pc_url :: net_url
  pc_hostname :: jstr
  pc_address :: jstr
  pc_port :: int
  pc_useTls :: bool
  pc_hostHeader :: jstr
  pc_servername :: "jstr option"
  pc_certificateHost :: jstr

definition TYPESAFE_GLOBAL_ONLY_ENDPOINT :: jstr where
  "TYPESAFE_GLOBAL_ONLY_ENDPOINT = js ''https://api.typesafe.ai/v1/systemone''"

definition OPENROUTER_GLOBAL_ONLY_ENDPOINT :: jstr where
  "OPENROUTER_GLOBAL_ONLY_ENDPOINT = js ''https://openrouter.ai/api/v1/systemone''"

definition ANALYSE_GLOBAL_ONLY_ENDPOINTS :: "jstr list" where
  "ANALYSE_GLOBAL_ONLY_ENDPOINTS =
     [js ''https://openrouter.ai/api/v1/chat/completions'', js ''https://api.anthropic.com/v1/messages'']"

definition LINEAR_GLOBAL_ONLY_ENDPOINT :: jstr where
  "LINEAR_GLOBAL_ONLY_ENDPOINT = js ''https://api.linear.app/graphql''"

text \<open>The guards of the fixed endpoints, for each purpose.\<close>

definition purposeAdmits :: "hosted_purpose option \<Rightarrow> jstr \<Rightarrow> bool" where
  "purposeAdmits purpose href =
     (case purpose of
        Some Analyse \<Rightarrow> href \<in> set ANALYSE_GLOBAL_ONLY_ENDPOINTS
      | Some SessionContext \<Rightarrow> href \<in> set ANALYSE_GLOBAL_ONLY_ENDPOINTS
      | Some Linear \<Rightarrow> href = LINEAR_GLOBAL_ONLY_ENDPOINT
      | None \<Rightarrow> href = OPENROUTER_GLOBAL_ONLY_ENDPOINT \<or> href = TYPESAFE_GLOBAL_ONLY_ENDPOINT)"

text \<open>\<open>JSON.stringify\<close> of an array of strings is its canonical JSON.\<close>

definition addressSetDigest :: "net_platform \<Rightarrow> jstr list \<Rightarrow> jstr" where
  "addressSetDigest platform entries = np_sha256 platform (canonicalJson (JArr (map JStr entries)))"

text \<open>Whether the one entry is the address; reading an entry that is no literal throws.\<close>

definition isSoleApprovedLiteral :: "jstr list \<Rightarrow> jstr \<Rightarrow> connect_error + bool" where
  "isSoleApprovedLiteral entries address =
     (case entries of
        [entry] \<Rightarrow>
          if 47 \<in> set entry then Inr False
          else result_bind (refused (parseIpLiteral entry)) (\<lambda>e. Inr (ip_address e = address))
      | _ \<Rightarrow> Inr False)"

definition assertPinnedUrl :: "net_url \<Rightarrow> bool" where
  "assertPinnedUrl url \<longleftrightarrow>
     (u_protocol url = js ''http:'' \<or> u_protocol url = js ''https:'')
     \<and> u_username url = [] \<and> u_password url = [] \<and> u_hash url = []"

definition assertMode :: "net_platform \<Rightarrow> prepare_options \<Rightarrow> net_url \<Rightarrow> connect_error + unit" where
  "assertMode platform options url =
     (case ao_mode (po_address options) of
        GlobalOnly \<Rightarrow>
          if \<not> purposeAdmits (po_hostedPurpose options) (u_href url) then Inl AddressRefused
          else if po_approvedAddressSetDigest options \<noteq> None then Inl AddressRefused
          else Inr ()
      | ApprovedAddressSet entries \<Rightarrow>
          if po_hostedPurpose options \<noteq> None then Inl AddressRefused
          else if po_approvedAddressSetDigest options \<noteq> None
              \<and> po_approvedAddressSetDigest options \<noteq> Some (addressSetDigest platform entries) then Inl AddressRefused
          else result_bind (refused (parseApprovedAddressSet (np_host platform) entries)) (\<lambda>_. Inr ()))"

definition assertHttp :: "prepare_options \<Rightarrow> net_url \<Rightarrow> jstr \<Rightarrow> connect_error + unit" where
  "assertHttp options url hostname =
     (if u_protocol url \<noteq> js ''http:'' then Inr ()
      else if \<not> isLiteral hostname \<or> (hostname \<noteq> LOOPBACK4 \<and> hostname \<noteq> LOOPBACK6) then Inl AddressRefused
      else (case ao_mode (po_address options) of GlobalOnly \<Rightarrow> Inr ()
        | ApprovedAddressSet entries \<Rightarrow>
            result_bind (isSoleApprovedLiteral entries hostname) (\<lambda>sole.
              if sole then Inr () else Inl AddressRefused)))"

text \<open>Every answer is vetted, in order, before one is chosen; the chosen one is the first in the host's order.\<close>

definition selectAddress :: "net_platform \<Rightarrow> prepare_options \<Rightarrow> net_url \<Rightarrow> jstr \<Rightarrow> jstr list \<Rightarrow> connect_error + jstr" where
  "selectAddress platform options url hostname answers =
     result_bind (refused (traverse (assertAddressAllowed (np_host platform) (po_address options)) answers)) (\<lambda>vetted.
       case sortBy (nh_localeCompare (np_host platform)) (map (\<lambda>(a, _). ip_address a) vetted) of
         [] \<Rightarrow> Inl AddressRefused
       | address # others \<Rightarrow>
           if u_protocol url = js ''http:'' \<and> (others \<noteq> [] \<or> address \<noteq> hostname) then Inl AddressRefused
           else Inr address)"

definition defaultPort :: "net_url \<Rightarrow> int" where
  "defaultPort url = (if u_protocol url = js ''https:'' then 443 else 80)"

definition pinnedPort :: "net_platform \<Rightarrow> net_url \<Rightarrow> int option" where
  "pinnedPort platform url =
     (case (if u_port url = [] then Some (defaultPort url) else wholeNumber (np_host platform) (u_port url)) of
        None \<Rightarrow> None
      | Some port \<Rightarrow> if port < 1 \<or> port > 65535 then None else Some port)"

definition preparePinnedConnection :: "net_platform \<Rightarrow> prepare_options \<Rightarrow> connect_error + pinned_connection" where
  "preparePinnedConnection platform options =
     (case np_url platform (po_url options) of None \<Rightarrow> Inl InvalidUrl
      | Some url \<Rightarrow>
        if \<not> assertPinnedUrl url then Inl AddressRefused
        else result_bind (assertMode platform options url) (\<lambda>_.
          let hostname = stripBrackets (u_hostname url); literal = isLiteral hostname
          in result_bind (assertHttp options url hostname) (\<lambda>_.
             result_bind (resolveHost platform hostname) (\<lambda>answers.
             result_bind (selectAddress platform options url hostname answers) (\<lambda>address.
               case pinnedPort platform url of None \<Rightarrow> Inl AddressRefused
               | Some port \<Rightarrow>
                   let hostForHeader = (if 58 \<in> set hostname then 91 # hostname @ [93] else hostname)
                   in Inr \<lparr>pc_url = url, pc_hostname = hostname, pc_address = address, pc_port = port,
                        pc_useTls = (u_protocol url = js ''https:''),
                        pc_hostHeader = (if port = defaultPort url then hostForHeader
                           else hostForHeader @ [58] @ jsonNumber port),
                        pc_servername = (if literal then None else Some hostname),
                        pc_certificateHost = hostname\<rparr>)))))"

section \<open>Requests\<close>

definition requestLines :: "jstr list \<Rightarrow> (jstr \<times> jstr) list \<Rightarrow> jstr" where
  "requestLines lines headers =
     join [13, 10] lines @ [13, 10] @ join [13, 10] (map (\<lambda>(name, value). name @ [58, 32] @ value) headers) @ [13, 10, 13, 10]"

definition requestPath :: "pinned_connection \<Rightarrow> jstr" where
  "requestPath connection =
     (let path = u_pathname (pc_url connection) @ u_search (pc_url connection) in if path = [] then [47] else path)"

definition hostLine :: "pinned_connection \<Rightarrow> jstr" where
  "hostLine connection = js ''Host: '' @ pc_hostHeader connection"

datatype request_method = GET | POST

definition methodText :: "request_method \<Rightarrow> jstr" where
  "methodText m = (case m of GET \<Rightarrow> js ''GET'' | POST \<Rightarrow> js ''POST'')"

text \<open>\<open>Buffer.from(text)\<close>: UTF-8, an unpaired surrogate replaced by U+FFFD.\<close>

definition bufferFrom :: "jstr \<Rightarrow> nat list" where
  "bufferFrom s = utf8Bytes (map (\<lambda>p. if scalar p then p else 65533) (codePoints s))"

definition requestBytesForPinnedConnection ::
    "pinned_connection \<Rightarrow> request_method \<Rightarrow> nat list \<Rightarrow> (jstr \<times> jstr) list \<Rightarrow> nat list" where
  "requestBytesForPinnedConnection connection verb body headers =
     bufferFrom (requestLines
       [methodText verb @ [32] @ requestPath connection @ js '' HTTP/1.1'', hostLine connection,
        js ''Content-Length: '' @ decimal (length body), js ''Connection: close''] headers)
     @ body"

text \<open>\<open>Buffer.from(text, 'latin1')\<close>: the low byte of each unit.\<close>

definition getRequestBytesForPinnedConnection :: "pinned_connection \<Rightarrow> (jstr \<times> jstr) list \<Rightarrow> nat list" where
  "getRequestBytesForPinnedConnection connection headers =
     map (\<lambda>u. u mod 256) (requestLines
       [js ''GET '' @ requestPath connection @ js '' HTTP/1.1'', hostLine connection, js ''Connection: close''] headers)"

section \<open>What a prepared connection is\<close>

lemma refused_Inr [simp]: "refused r = Inr x \<longleftrightarrow> r = Inr x"
  by (cases r) (simp_all add: refused_def)

lemma traverse_Inr: "traverse f xs = Inr ys \<longleftrightarrow> list_all2 (\<lambda>x y. f x = Inr y) xs ys"
proof (induction xs arbitrary: ys)
  case (Cons x xs)
  then show ?case
    by (cases ys) (auto simp: result_bind_eq_Inr list_all2_Cons1)
qed auto

lemma set_insertBy: "set (insertBy compare x ys) = insert x (set ys)"
  by (induction ys) auto

lemma set_sortBy: "set (sortBy compare xs) = set xs"
  by (induction xs) (simp_all add: sortBy_def set_insertBy)

text \<open>Every guard of a preparation, from its result.\<close>

lemma prepared:
  assumes "preparePinnedConnection platform options = Inr c"
  obtains url answers vetted where
    "np_url platform (po_url options) = Some url" "pc_url c = url" "pc_hostname c = stripBrackets (u_hostname url)"
    "assertPinnedUrl url" "assertMode platform options url = Inr ()"
    "assertHttp options url (pc_hostname c) = Inr ()"
    "resolveHost platform (pc_hostname c) = Inr answers"
    "list_all2 (\<lambda>answer v. assertAddressAllowed (np_host platform) (po_address options) answer = Inr v) answers vetted"
    "pc_address c \<in> (\<lambda>(a, _). ip_address a) ` set vetted"
    "u_protocol url = js ''http:'' \<longrightarrow> pc_address c = pc_hostname c"
    "pc_useTls c \<longleftrightarrow> u_protocol url = js ''https:''" "1 \<le> pc_port c" "pc_port c \<le> 65535"
proof -
  obtain url where url: "np_url platform (po_url options) = Some url" "assertPinnedUrl url"
    using assms by (auto simp: preparePinnedConnection_def split: option.splits if_splits)
  obtain u answers address port where steps: "assertMode platform options url = Inr u"
    "assertHttp options url (stripBrackets (u_hostname url)) = Inr ()"
    "resolveHost platform (stripBrackets (u_hostname url)) = Inr answers"
    "selectAddress platform options url (stripBrackets (u_hostname url)) answers = Inr address"
    "pinnedPort platform url = Some port"
    and c: "pc_url c = url" "pc_hostname c = stripBrackets (u_hostname url)" "pc_address c = address" "pc_port c = port"
    "pc_useTls c = (u_protocol url = js ''https:'')"
    using assms url by (auto simp: preparePinnedConnection_def Let_def result_bind_eq_Inr split: option.splits)
  obtain vetted where all: "traverse (assertAddressAllowed (np_host platform) (po_address options)) answers = Inr vetted"
    using steps(4) by (auto simp: selectAddress_def result_bind_eq_Inr)
  then obtain others where
    "sortBy (nh_localeCompare (np_host platform)) (map (\<lambda>(a, _). ip_address a) vetted) = address # others"
    "u_protocol url = js ''http:'' \<longrightarrow> address = stripBrackets (u_hostname url)"
    using steps(4) by (simp add: selectAddress_def refused_def split: list.splits if_splits)
  note vetted = all this
  have "address \<in> set (map (\<lambda>(a, _). ip_address a) vetted)"
    using vetted(2) set_sortBy by (metis list.set_intros(1))
  moreover have "1 \<le> port" "port \<le> 65535"
    using steps(5) by (auto simp: pinnedPort_def split: option.splits if_splits)
  ultimately show ?thesis
    using that [of url answers vetted] url steps(1-3) vetted(1,3) c by (simp add: traverse_Inr)
qed

lemma loopback_numbers:
  "parseIpLiteral LOOPBACK4 = Inr a \<Longrightarrow> ip_family a = V4 \<and> ip_value a = octets 127 0 0 1"
  "parseIpLiteral LOOPBACK6 = Inr a \<Longrightarrow> ip_family a = V6 \<and> ip_value a = 1"
proof -
  have "stripBrackets (trim LOOPBACK4) = LOOPBACK4" "parseIpv4 LOOPBACK4 = Some (octets 127 0 0 1)"
    "stripBrackets (trim LOOPBACK6) = LOOPBACK6" "parseIpv4 LOOPBACK6 = None" "parseIpv6 LOOPBACK6 = Some 1"
    by code_simp+
  then show "parseIpLiteral LOOPBACK4 = Inr a \<Longrightarrow> ip_family a = V4 \<and> ip_value a = octets 127 0 0 1"
    "parseIpLiteral LOOPBACK6 = Inr a \<Longrightarrow> ip_family a = V6 \<and> ip_value a = 1"
    by (auto simp: parseIpLiteral_def)
qed

lemma loopback_not_global:
  assumes "parseIpLiteral h = Inr a" "h = LOOPBACK4 \<or> h = LOOPBACK6"
  shows "\<not> globallyReachable a"
proof -
  have ok: "addressOk a"
    by (rule parseIpLiteral_ok [OF assms(1)])
  show ?thesis
    using assms(2)
  proof
    assume "h = LOOPBACK4"
    then have "ip_family a = V4" "privateV4 (ip_value a)"
      using loopback_numbers(1) assms(1) by (auto simp: privateV4_def octets_def)
    then show ?thesis
      by (rule private_not_global [OF ok])
  next
    assume "h = LOOPBACK6"
    then have a: "ip_family a = V6" "ip_value a = 1"
      using loopback_numbers(2) assms(1) by auto
    let ?c = "\<lparr>ci_family = V6, ci_prefixLength = 128, ci_value = 1\<rparr>"
    have rows: "(V6, 128, 1, False) \<in> set registryTable" "list_all (\<lambda>(f, n, v, g). g \<longrightarrow> f = V6 \<longrightarrow> 1 < v) registryTable"
      by code_simp+
    show ?thesis
    proof (rule not_global)
      show "(?c, False) \<in> set registryPrefixes"
        using rows(1) by (force simp: registryPrefixes_table tableCidr_def)
      show "inCidr a ?c"
        using inCidr_table [OF ok rows(1)] a by (simp add: tableCidr_def)
      show "ci_prefixLength d < ci_prefixLength ?c" if global: "(d, True) \<in> set registryPrefixes" "inCidr a d" for d
      proof -
        obtain f n v where row: "(f, n, v, True) \<in> set registryTable" "d = fst (tableCidr (f, n, v, True))"
          using global(1) by (auto simp: registryPrefixes_table tableCidr_def)
        then have "f = V6" "v \<le> 1"
          using inCidr_table [OF ok row(1)] global(2) a by auto
        moreover have "f = V6 \<longrightarrow> 1 < v"
          using rows(2) row(1) by (auto simp: list_all_iff)
        ultimately show ?thesis
          by simp
      qed
    qed
  qed
qed

lemma list_all2_left: "list_all2 P xs ys \<Longrightarrow> x \<in> set xs \<Longrightarrow> \<exists>y \<in> set ys. P x y"
  by (induction rule: list_all2_induct) auto

lemma list_all2_right: "list_all2 P xs ys \<Longrightarrow> y \<in> set ys \<Longrightarrow> \<exists>x \<in> set xs. P x y"
  by (induction rule: list_all2_induct) auto

lemma allowed_parse:
  assumes "assertAddressAllowed host options input = Inr (a, e)"
  shows "parseIpLiteral input = Inr a \<and> (ao_mode options = GlobalOnly \<longrightarrow> globallyReachable a)"
proof -
  obtain approved seen where one: "parseIpLiteral input = Inr a" "assertOne host options approved a [] = Inr (e, seen)"
    using assms by (auto simp: assertAddressAllowed_def result_bind_eq_Inr)
  then show ?thesis
    using assertOne_accepts [OF one(2)] by (cases "ao_mode options") (simp_all add: accepted_def modeAllows_def)
qed

text \<open>A loopback name is its own only answer, which the mode for hosted services refuses.\<close>

lemma loopback_needs_approval:
  assumes "h = LOOPBACK4 \<or> h = LOOPBACK6" "isLiteral h" "resolveHost platform h = Inr answers" "answer \<in> set answers"
    "assertAddressAllowed host options answer = Inr (a, e)"
  shows "ao_mode options \<noteq> GlobalOnly"
proof
  assume hosted: "ao_mode options = GlobalOnly"
  obtain l where l: "parseIpLiteral h = Inr l"
    using assms(2) by (auto simp: isLiteral_def split: sum.splits)
  then have "answer = ip_address l"
    using assms(3,4) by (auto simp: resolveHost_def)
  then have "a = l"
    using allowed_parse [OF assms(5)] canonical_text [OF l] by (auto split: if_splits)
  then show False
    using loopback_not_global [OF l assms(1)] allowed_parse [OF assms(5)] hosted by simp
qed

lemma http_approval:
  assumes "assertHttp options url h = Inr ()" "u_protocol url = js ''http:''" "ao_mode (po_address options) \<noteq> GlobalOnly"
  shows "h \<in> {LOOPBACK4, LOOPBACK6} \<and> (\<exists>entry a. ao_mode (po_address options) = ApprovedAddressSet [entry]
    \<and> 47 \<notin> set entry \<and> parseIpLiteral entry = Inr a \<and> ip_address a = h)"
  using assms
  by (cases "ao_mode (po_address options)")
    (auto simp: assertHttp_def isSoleApprovedLiteral_def result_bind_eq_Inr split: list.splits if_splits)

section \<open>Framing of a request\<close>

text \<open>What a server reads: the head of a message up to its first empty line, and what follows it.\<close>

fun splitHead :: "nat list \<Rightarrow> (nat list \<times> nat list) option" where
  "splitHead [] = None"
| "splitHead (c # cs) =
     (if take 4 (c # cs) = [13, 10, 13, 10] then Some ([], drop 3 cs)
      else map_option (\<lambda>(head, rest). (c # head, rest)) (splitHead cs))"

text \<open>A visible or space character of ASCII, which is what a header may be written in.\<close>

definition headerText :: "jstr \<Rightarrow> bool" where
  "headerText s \<longleftrightarrow> list_all (\<lambda>u. 32 \<le> u \<and> u < 127) s"

lemma bufferFrom_ascii: "list_all (\<lambda>u. u < 128) s \<Longrightarrow> bufferFrom s = s"
proof (induction s)
  case (Cons u s)
  then have "codePoints (u # s) = u # codePoints s"
    by (cases s) (auto simp: codePoints_from codePointAt_def surrogate_bounds)
  then show ?case
    using Cons by (simp add: bufferFrom_def scalar_def surrogate_bounds pointBytes_def utf8Bytes_def)
qed (simp add: bufferFrom_def)

lemma splitHead_line: "13 \<notin> set line \<Longrightarrow>
  splitHead (line @ s) = map_option (\<lambda>(head, rest). (line @ head, rest)) (splitHead s)"
proof (induction line)
  case (Cons c line)
  then show ?case
    by (cases "splitHead s") auto
qed (cases "splitHead s"; simp)

lemma splitHead_lines:
  assumes "lines \<noteq> []" "\<And>line. line \<in> set lines \<Longrightarrow> line \<noteq> [] \<and> 13 \<notin> set line"
  shows "splitHead (join [13, 10] lines @ 13 # 10 # 13 # 10 # rest) = Some (join [13, 10] lines, rest)"
  using assms
proof (induction lines rule: list_nonempty_induct)
  case (single line)
  then show ?case
    by (simp add: splitHead_line)
next
  case (cons line lines)
  obtain next_line others where lines: "lines = next_line # others" "next_line \<noteq> []" "13 \<notin> set next_line"
    using cons by (cases lines) auto
  then obtain c cs where "join [13, 10] lines = c # cs" "c \<noteq> 13"
    by (cases next_line; cases others) auto
  then have "splitHead (13 # 10 # join [13, 10] lines @ 13 # 10 # 13 # 10 # rest)
      = Some (13 # 10 # join [13, 10] lines, rest)"
    using cons by simp
  then show ?case
    using lines cons.prems splitHead_line [of line] by simp
qed

lemma join_lines: "as \<noteq> [] \<Longrightarrow> bs \<noteq> [] \<Longrightarrow> join [13, 10] as @ 13 # 10 # join [13, 10] bs = join [13, 10] (as @ bs)"
proof (induction "[13, 10 :: nat]" as rule: join.induct)
  case (2 x)
  then show ?case
    by (cases bs) simp_all
qed simp_all

definition requestHead :: "pinned_connection \<Rightarrow> request_method \<Rightarrow> nat list \<Rightarrow> (jstr \<times> jstr) list \<Rightarrow> jstr list" where
  "requestHead connection verb body headers =
     [methodText verb @ [32] @ requestPath connection @ js '' HTTP/1.1'', hostLine connection,
      js ''Content-Length: '' @ decimal (length body), js ''Connection: close'']
     @ map (\<lambda>(name, value). name @ [58, 32] @ value) headers"

lemma headerText_append [simp]: "headerText (s @ t) \<longleftrightarrow> headerText s \<and> headerText t"
  by (simp add: headerText_def)

lemma headerText_unit [simp]: "headerText (u # s) \<longleftrightarrow> 32 \<le> u \<and> u < 127 \<and> headerText s" "headerText []"
  by (auto simp: headerText_def)

lemma decimal_headerText [simp]: "headerText (decimal n)"
  by (auto simp: headerText_def list_all_iff isDigit_def dest!: decimal_digits)

lemma requestHead_lines:
  assumes "headerText (pc_hostHeader c)" "headerText (requestPath c)" "list_all (\<lambda>(n, v). headerText n \<and> headerText v) headers"
    "line \<in> set (requestHead c verb body headers)"
  shows "line \<noteq> [] \<and> headerText line"
  using assms by (cases verb) (auto simp: requestHead_def methodText_def hostLine_def list_all_iff js_eval)

section \<open>Properties\<close>

text \<open>
  C36. A connection is opened to a vetted literal only. The name of the URL is resolved once; every address it resolves
  to, and every IPv4 address that one stands for, is neither link-local nor a group address nor, in the mode for hosted
  services, private; the address connected to is the text of one of them. Over HTTP it is the loopback address that the
  URL itself names and that is the one entry of the approved set.
\<close>
theorem connections_are_pinned:
  assumes "preparePinnedConnection platform options = Inr c"
  shows "(\<exists>answers. resolveHost platform (pc_hostname c) = Inr answers
      \<and> (\<forall>answer \<in> set answers. \<exists>a. parseIpLiteral answer = Inr a
          \<and> (\<forall>b. b = a \<or> ip_family a = V6 \<and> ip_family b = V4 \<and> tunnels (ip_value a) (ip_value b) \<longrightarrow>
               \<not> linkLocalOrGroup b \<and> (ao_mode (po_address options) = GlobalOnly \<longrightarrow> ip_family b = V4 \<longrightarrow>
                 \<not> privateV4 (ip_value b))))
      \<and> (\<exists>answer \<in> set answers. \<exists>a. parseIpLiteral answer = Inr a \<and> pc_address c = ip_address a))
    \<and> (pc_useTls c \<or> (pc_address c = pc_hostname c \<and> pc_hostname c \<in> {LOOPBACK4, LOOPBACK6}
        \<and> (\<exists>entry a. ao_mode (po_address options) = ApprovedAddressSet [entry] \<and> 47 \<notin> set entry
             \<and> parseIpLiteral entry = Inr a \<and> ip_address a = pc_hostname c)))"
proof -
  obtain url answers vetted where url: "np_url platform (po_url options) = Some url" "pc_url c = url"
      "pc_hostname c = stripBrackets (u_hostname url)"
    and guards: "assertPinnedUrl url" "assertMode platform options url = Inr ()" "assertHttp options url (pc_hostname c) = Inr ()"
    and answers: "resolveHost platform (pc_hostname c) = Inr answers"
      "list_all2 (\<lambda>answer v. assertAddressAllowed (np_host platform) (po_address options) answer = Inr v) answers vetted"
      "pc_address c \<in> (\<lambda>(a, _). ip_address a) ` set vetted"
    and transport: "u_protocol url = js ''http:'' \<longrightarrow> pc_address c = pc_hostname c"
      "pc_useTls c \<longleftrightarrow> u_protocol url = js ''https:''" "1 \<le> pc_port c" "pc_port c \<le> 65535"
    by (rule prepared [OF assms])
  have allowed: "\<exists>a e. assertAddressAllowed (np_host platform) (po_address options) answer = Inr (a, e)"
    if "answer \<in> set answers" for answer
    using list_all2_left [OF answers(2) that] by auto
  have "\<exists>a. parseIpLiteral answer = Inr a
      \<and> (\<forall>b. b = a \<or> ip_family a = V6 \<and> ip_family b = V4 \<and> tunnels (ip_value a) (ip_value b) \<longrightarrow>
           \<not> linkLocalOrGroup b \<and> (ao_mode (po_address options) = GlobalOnly \<longrightarrow> ip_family b = V4 \<longrightarrow> \<not> privateV4 (ip_value b)))"
    if "answer \<in> set answers" for answer
    using allowed [OF that] allowed_parse accepted_outside by blast
  moreover have "\<exists>answer \<in> set answers. \<exists>a. parseIpLiteral answer = Inr a \<and> pc_address c = ip_address a"
    using answers(3) list_all2_right [OF answers(2)] allowed_parse by fastforce
  moreover have "pc_address c = pc_hostname c \<and> pc_hostname c \<in> {LOOPBACK4, LOOPBACK6}
      \<and> (\<exists>entry a. ao_mode (po_address options) = ApprovedAddressSet [entry] \<and> 47 \<notin> set entry
           \<and> parseIpLiteral entry = Inr a \<and> ip_address a = pc_hostname c)" if "\<not> pc_useTls c"
  proof -
    have http: "u_protocol url = js ''http:''"
      using guards(1) that transport(2) by (auto simp: assertPinnedUrl_def)
    then have "isLiteral (pc_hostname c)" "pc_hostname c = LOOPBACK4 \<or> pc_hostname c = LOOPBACK6"
      using guards(3) by (auto simp: assertHttp_def split: if_splits)
    moreover obtain answer where "answer \<in> set answers"
      using answers(2,3) by (cases answers) auto
    ultimately have "ao_mode (po_address options) \<noteq> GlobalOnly"
      using loopback_needs_approval answers(1) allowed by metis
    from http_approval [OF guards(3) http this] show ?thesis
      using transport(1) http by simp
  qed
  ultimately show ?thesis
    using answers(1) by blast
qed

text \<open>The one machine of the witness: it reads one URL, and resolves nothing.\<close>

definition localUrl :: net_url where
  "localUrl = \<lparr>u_href = js ''http://127.0.0.1:8080/'', u_protocol = js ''http:'', u_username = [], u_password = [],
     u_hash = [], u_hostname = LOOPBACK4, u_port = js ''8080'', u_pathname = js ''/'', u_search = []\<rparr>"

definition localPlatform :: net_platform where
  "localPlatform = \<lparr>np_host = plainHost, np_sha256 = id,
     np_url = (\<lambda>s. if s = u_href localUrl then Some localUrl else None), np_lookup = (\<lambda>_. None)\<rparr>"

definition localOptions :: prepare_options where
  "localOptions = \<lparr>po_url = u_href localUrl,
     po_address = \<lparr>ao_mode = ApprovedAddressSet [LOOPBACK4], ao_activeNat64Prefix = None\<rparr>,
     po_approvedAddressSetDigest = None, po_hostedPurpose = None\<rparr>"

lemma local_allowed:
  defines "a \<equiv> \<lparr>ip_address = LOOPBACK4, ip_family = V4, ip_value = octets 127 0 0 1\<rparr>"
  shows "parseIpLiteral LOOPBACK4 = Inr a"
    "parseApprovedAddressSet plainHost [LOOPBACK4] = Inr [\<lparr>ci_family = V4, ci_prefixLength = 32, ci_value = octets 127 0 0 1\<rparr>]"
    "assertAddressAllowed plainHost (po_address localOptions) LOOPBACK4 = Inr (a, [])"
proof -
  have "stripBrackets (trim LOOPBACK4) = LOOPBACK4" "parseIpv4 LOOPBACK4 = Some (octets 127 0 0 1)"
    "ipv4Text (octets 127 0 0 1) = LOOPBACK4" "47 \<notin> set LOOPBACK4"
    by code_simp+
  then show read: "parseIpLiteral LOOPBACK4 = Inr a"
    by (simp add: parseIpLiteral_def a_def)
  have "cidrNumbers (LOOPBACK4 @ 47 # decimal 32) = Some \<lparr>ci_family = V4, ci_prefixLength = 32, ci_value = octets 127 0 0 1\<rparr>"
    by code_simp
  from cidrNumbers_parse [OF this, of plainHost]
  show set: "parseApprovedAddressSet plainHost [LOOPBACK4] = Inr [\<lparr>ci_family = V4, ci_prefixLength = 32, ci_value = octets 127 0 0 1\<rparr>]"
    using read \<open>47 \<notin> set LOOPBACK4\<close> by (simp add: parseApprovedAddressSet_def approvedEntry_def a_def)
  have "addressOk a"
    by (rule parseIpLiteral_ok [OF read])
  moreover have "parseIpv4 (js ''169.254.169.254'') = Some 2852039166"
    by code_simp
  ultimately have "\<not> isUnconditionallyDenied a"
    by (simp add: isUnconditionallyDenied_def inConstant_def constant_numbers inCidr_range cidrOk_def)
      (simp add: a_def octets_def)
  moreover have "inCidr a \<lparr>ci_family = V4, ci_prefixLength = 32, ci_value = octets 127 0 0 1\<rparr>"
    using inCidr_range [OF \<open>addressOk a\<close>] by (simp add: cidrOk_def a_def octets_def)
  ultimately have "assertOne plainHost (po_address localOptions) [\<lparr>ci_family = V4, ci_prefixLength = 32, ci_value = octets 127 0 0 1\<rparr>] a []
      = Inr ([], [keyOf a])"
    by (simp add: assertOne.simps modeAllows_def localOptions_def embedded_of_V4 keyOf_def a_def)
  then show "assertAddressAllowed plainHost (po_address localOptions) LOOPBACK4 = Inr (a, [])"
    using read set by (simp add: assertAddressAllowed_def localOptions_def)
qed

lemma local_prepared:
  obtains c where "preparePinnedConnection localPlatform localOptions = Inr c" "pc_url c = localUrl"
    "pc_address c = LOOPBACK4" "pc_port c = 8080" "pc_hostHeader c = js ''127.0.0.1:8080''" "\<not> pc_useTls c"
proof -
  have "stripBrackets LOOPBACK4 = LOOPBACK4" "47 \<notin> set LOOPBACK4" "58 \<notin> set LOOPBACK4"
    "js ''8080'' \<noteq> [] \<and> list_all isDigit (js ''8080'') \<and> numberOf (js ''8080'') = 8080" "js ''http:'' \<noteq> js ''https:''"
    by code_simp+
  note facts = this local_allowed
  have "isLiteral LOOPBACK4" "assertPinnedUrl localUrl" "assertMode localPlatform localOptions localUrl = Inr ()"
    "assertHttp localOptions localUrl LOOPBACK4 = Inr ()" "resolveHost localPlatform LOOPBACK4 = Inr [LOOPBACK4]"
    "pinnedPort localPlatform localUrl = Some 8080"
    using facts by (simp_all add: isLiteral_def assertPinnedUrl_def localUrl_def assertMode_def localOptions_def
        localPlatform_def assertHttp_def isSoleApprovedLiteral_def resolveHost_def refused_def pinnedPort_def wholeNumber_def)
  moreover have "selectAddress localPlatform localOptions localUrl LOOPBACK4 [LOOPBACK4] = Inr LOOPBACK4"
    using facts by (simp add: selectAddress_def localPlatform_def refused_def sortBy_def)
  moreover have "LOOPBACK4 @ [58] @ jsonNumber 8080 = js ''127.0.0.1:8080''"
    by code_simp
  ultimately show ?thesis
    using facts that by (simp add: preparePinnedConnection_def localPlatform_def localOptions_def localUrl_def Let_def defaultPort_def)
qed

theorem connections_are_pinned_witness:
  "\<exists>c. preparePinnedConnection localPlatform localOptions = Inr c \<and> pc_address c = LOOPBACK4 \<and> pc_port c = 8080"
proof -
  obtain c where c: "preparePinnedConnection localPlatform localOptions = Inr c" "pc_address c = LOOPBACK4"
      "pc_port c = 8080" "\<not> pc_useTls c"
    by (rule local_prepared)
  then show ?thesis
    using connections_are_pinned [OF c(1)] by auto
qed

lemma join_ascii:
  assumes "\<And>line. line \<in> set lines \<Longrightarrow> headerText line"
  shows "list_all (\<lambda>u. u < 128) (join [13, 10] lines)"
proof -
  have "u < 128" if "u \<in> set (join [13, 10] lines)" for u
    using set_join [OF that] assms by (fastforce simp: headerText_def list_all_iff)
  then show ?thesis
    by (simp add: list_all_iff)
qed

text \<open>
  Nothing checks what a header is written in: the function takes any text. Of text with a line end in it the next
  property does not hold, and this is what happens instead: a value that ends in two of them ends the head, and the body a
  server reads begins with the line ends that were to end it.
\<close>

lemma line_ends_in_a_value_end_the_head:
  assumes "headerText (pc_hostHeader c)" "headerText (requestPath c)" "headerText n" "headerText v"
  shows "splitHead (requestBytesForPinnedConnection c verb body [(n, v @ [13, 10, 13, 10])])
    = Some (join [13, 10] (requestHead c verb body [(n, v)]), [13, 10, 13, 10] @ body)"
proof -
  let ?lines = "requestHead c verb body [(n, v)]"
  have lines: "line \<noteq> [] \<and> headerText line" if "line \<in> set ?lines" for line
    using requestHead_lines [OF assms(1,2), of "[(n, v)]" line verb body] assms(3,4) that by simp
  then have bare: "line \<noteq> [] \<and> 13 \<notin> set line" if "line \<in> set ?lines" for line
    using that by (fastforce simp: headerText_def list_all_iff)
  have four: "?lines = requestHead c verb body [] @ [n @ [58, 32] @ v]"
    by (simp add: requestHead_def)
  have "list_all (\<lambda>u. u < 128) (join [13, 10] ?lines)"
    using lines by (auto intro!: join_ascii)
  moreover have whole: "join [13, 10] ?lines = join [13, 10] (requestHead c verb body []) @ [13, 10] @ n @ [58, 32] @ v"
    unfolding four by (simp add: requestHead_def)
  ultimately have "requestBytesForPinnedConnection c verb body [(n, v @ [13, 10, 13, 10])]
      = join [13, 10] ?lines @ 13 # 10 # 13 # 10 # ([13, 10, 13, 10] @ body)"
    unfolding whole by (simp add: requestBytesForPinnedConnection_def requestLines_def requestHead_def bufferFrom_ascii)
  then show ?thesis
    using splitHead_lines [of ?lines "[13, 10, 13, 10] @ body"] bare by (simp add: requestHead_def)
qed

text \<open>
  C39. A request whose host header, path, header names and values are printable ASCII, which the function does not
  check, is read by a server as it was meant, when it has a header: the head ends at the first empty
  line and the body follows. Without one, as the function allows by its default, an empty line too many is written, and
  what the server reads as the body begins with a line end that the stated length does not count.
\<close>
theorem requests_are_framed:
  assumes "headerText (pc_hostHeader c)" "headerText (requestPath c)"
    "list_all (\<lambda>(n, v). headerText n \<and> headerText v) headers"
  shows "splitHead (requestBytesForPinnedConnection c verb body headers)
    = Some (join [13, 10] (requestHead c verb body headers), if headers = [] then [13, 10] @ body else body)"
proof -
  let ?four = "requestHead c verb body []"
  let ?lines = "map (\<lambda>(name, value). name @ [58, 32] @ value) headers"
  let ?sent = "join [13, 10] ?four @ [13, 10] @ join [13, 10] ?lines @ [13, 10, 13, 10]"
  have head: "requestHead c verb body headers = ?four @ ?lines"
    by (simp add: requestHead_def)
  have lines: "line \<noteq> [] \<and> headerText line" if "line \<in> set (?four @ ?lines)" for line
    using requestHead_lines [OF assms, of line verb body] that unfolding head .
  then have "list_all (\<lambda>u. u < 128) (join [13, 10] ?four)" "list_all (\<lambda>u. u < 128) (join [13, 10] ?lines)"
    by (auto intro!: join_ascii)
  then have "list_all (\<lambda>u. u < 128) ?sent"
    by simp
  then have sent: "requestBytesForPinnedConnection c verb body headers = ?sent @ body"
    by (simp add: requestBytesForPinnedConnection_def requestLines_def requestHead_def bufferFrom_ascii)
  have bare: "line \<noteq> [] \<and> 13 \<notin> set line" if "line \<in> set (?four @ ?lines)" for line
    using lines [OF that] by (auto simp: headerText_def list_all_iff)
  show ?thesis
  proof (cases "headers = []")
    case True
    then show ?thesis
      using splitHead_lines [of ?four "13 # 10 # body"] bare sent by (simp add: requestHead_def)
  next
    case False
    then have "?sent @ body = join [13, 10] (?four @ ?lines) @ 13 # 10 # 13 # 10 # body"
      using join_lines [of ?four ?lines] by (simp add: requestHead_def)
    note whole = this
    have "splitHead (join [13, 10] (?four @ ?lines) @ 13 # 10 # 13 # 10 # body) = Some (join [13, 10] (?four @ ?lines), body)"
      using bare by (intro splitHead_lines) (simp_all add: requestHead_def)
    then show ?thesis
      unfolding sent whole head using False by simp
  qed
qed

text \<open>A request with a body and no header: the body a server reads is not the one that was given.\<close>

theorem requests_are_framed_witness:
  "\<exists>c head. preparePinnedConnection localPlatform localOptions = Inr c
     \<and> splitHead (requestBytesForPinnedConnection c POST (js ''x'') []) = Some (head, [13, 10] @ js ''x'')"
proof -
  obtain c where c: "preparePinnedConnection localPlatform localOptions = Inr c" "pc_url c = localUrl"
      "pc_hostHeader c = js ''127.0.0.1:8080''"
    by (rule local_prepared)
  have "headerText (js ''127.0.0.1:8080'')" "headerText (js ''/'')"
    by code_simp+
  then have "headerText (pc_hostHeader c)" "headerText (requestPath c)"
    using c by (simp_all add: requestPath_def localUrl_def)
  from requests_are_framed [OF this, of "[]" POST "js ''x''"] show ?thesis
    using c(1) by auto
qed

end
