(* ===== verification/NetStream.thy ===== *)
theory NetStream
  imports Json "HOL-Library.Sublist"
begin

text \<open>
  Reading one response: \<open>streamPinnedResponseTo\<close> of \<open>packages/events-daemon/src/network/pinned-connection.ts\<close>. The
  closure's variables are a record, each listener a function on it, and what the socket, the timers, the signal and the
  sink do are events. \<open>pending\<close>, the chain of promises, is the list of the callbacks that wait on it: they run in the
  order they were attached, and none while a call of the sink is not answered.
\<close>

datatype stream_error =
    NETWORK_ABORTED
  | NETWORK_IDLE_TIMEOUT
  | NETWORK_RESPONSE_TOO_LARGE
  | NETWORK_RESPONSE_INCOMPLETE
  | NETWORK_TIMEOUT_INVALID
  | NETWORK_TOTAL_TIMEOUT
  | Reported jstr

record stream_options =
  so_maxBytes :: int
  so_signal :: bool
  so_idleTimeoutMs :: "int option"
  so_totalTimeoutMs :: "int option"

datatype stream_task = TaskChunk "nat list" | TaskFinish | TaskResolve | TaskReject stream_error

text \<open>
  \<open>ss_terminal\<close> is \<open>None\<close> while it is undefined, \<open>Some None\<close> for null. Of the timers and listeners, whether they are
  there; of the sink, what it was given and whether a call of it is under way; of the promise, how it settled.
\<close>

record stream_state =
  ss_total :: int
  ss_terminal :: "stream_error option option"
  ss_ended :: bool
  ss_pending :: "stream_task list"
  ss_idleTimer :: bool
  ss_totalTimer :: bool
  ss_onAbort :: bool
  ss_onError :: bool
  ss_reading :: bool
  ss_paused :: bool
  ss_destroyed :: bool
  ss_handed :: "nat list list"
  ss_sinking :: bool
  ss_settled :: "(stream_error + unit) option"

definition cleanup :: "stream_state \<Rightarrow> stream_state" where
  "cleanup st = st\<lparr>ss_idleTimer := False, ss_totalTimer := False, ss_onAbort := False, ss_onError := False\<rparr>"

definition finish :: "stream_state \<Rightarrow> stream_state" where
  "finish st =
     (if ss_terminal st \<noteq> None then st
      else let done = cleanup (st\<lparr>ss_terminal := Some None\<rparr>)
           in done\<lparr>ss_pending := ss_pending done @ [TaskResolve]\<rparr>)"

definition fail :: "stream_error \<Rightarrow> stream_state \<Rightarrow> stream_state" where
  "fail e st =
     (if ss_terminal st \<noteq> None then st
      else let done = cleanup (st\<lparr>ss_terminal := Some (Some e)\<rparr>)
           in done\<lparr>ss_destroyed := True, ss_pending := ss_pending done @ [TaskReject e]\<rparr>)"

definition resetIdleDeadline :: "stream_options \<Rightarrow> stream_state \<Rightarrow> stream_state" where
  "resetIdleDeadline options st = (if so_idleTimeoutMs options = None then st else st\<lparr>ss_idleTimer := True\<rparr>)"

definition onData :: "stream_options \<Rightarrow> nat list \<Rightarrow> stream_state \<Rightarrow> stream_state" where
  "onData options chunk st =
     (if ss_terminal st \<noteq> None then st
      else let st1 = resetIdleDeadline options st;
               st2 = st1\<lparr>ss_total := ss_total st1 + int (length chunk)\<rparr>
           in if ss_total st2 > so_maxBytes options then fail NETWORK_RESPONSE_TOO_LARGE st2
              else st2\<lparr>ss_paused := True, ss_pending := ss_pending st2 @ [TaskChunk chunk]\<rparr>)"

definition onEnd :: "stream_state \<Rightarrow> stream_state" where
  "onEnd st = st\<lparr>ss_ended := True, ss_pending := ss_pending st @ [TaskFinish]\<rparr>"

definition onClose :: "stream_state \<Rightarrow> stream_state" where
  "onClose st = (if ss_terminal st = None then fail NETWORK_RESPONSE_INCOMPLETE st else st)"

text \<open>The callbacks on \<open>pending\<close>: the call of the sink, and what follows its answer.\<close>

definition runTask :: "stream_state \<Rightarrow> stream_state" where
  "runTask st =
     (case ss_pending st of
        [] \<Rightarrow> st
      | task # tasks \<Rightarrow>
          let rest = st\<lparr>ss_pending := tasks\<rparr>
          in (case task of
                TaskChunk chunk \<Rightarrow> rest\<lparr>ss_handed := ss_handed rest @ [chunk], ss_sinking := True\<rparr>
              | TaskFinish \<Rightarrow> finish rest
              | TaskResolve \<Rightarrow> rest\<lparr>ss_settled := Some (Inr ())\<rparr>
              | TaskReject e \<Rightarrow> rest\<lparr>ss_settled := Some (Inl e)\<rparr>))"

definition sinkAnswered :: "stream_error option \<Rightarrow> stream_state \<Rightarrow> stream_state" where
  "sinkAnswered answer st =
     (let idle = st\<lparr>ss_sinking := False\<rparr>
      in case answer of
           None \<Rightarrow>
             let resumed = (if ss_terminal idle = None then idle\<lparr>ss_paused := False\<rparr> else idle)
             in if ss_ended resumed then finish resumed else resumed
         | Some e \<Rightarrow> fail e idle)"

text \<open>
  What may happen next. A paused socket gives neither data nor its end, and after its end no data; a listener is called
  and a timer fires only while it is there. The reason of an aborted signal is the caller's.
\<close>

datatype stream_event =
    Data "nat list"
  | EndOfData
  | Closed
  | SocketError stream_error
  | AbortSignal stream_error
  | IdleTimer
  | TotalTimer
  | RunTask
  | SinkAnswers "stream_error option"

fun streamOn :: "stream_options \<Rightarrow> stream_state \<Rightarrow> stream_event \<Rightarrow> stream_state option" where
  "streamOn options st (Data chunk) =
     (if ss_reading st \<and> \<not> ss_paused st \<and> \<not> ss_ended st then Some (onData options chunk st) else None)"
| "streamOn options st EndOfData =
     (if ss_reading st \<and> \<not> ss_paused st \<and> \<not> ss_ended st then Some (onEnd st) else None)"
| "streamOn options st Closed = (if ss_reading st then Some (onClose st) else None)"
| "streamOn options st (SocketError e) = (if ss_onError st then Some (fail e st) else None)"
| "streamOn options st (AbortSignal e) = (if ss_onAbort st then Some (fail e st) else None)"
| "streamOn options st IdleTimer = (if ss_idleTimer st then Some (fail NETWORK_IDLE_TIMEOUT st) else None)"
| "streamOn options st TotalTimer = (if ss_totalTimer st then Some (fail NETWORK_TOTAL_TIMEOUT st) else None)"
| "streamOn options st RunTask = (if ss_sinking st \<or> ss_pending st = [] then None else Some (runTask st))"
| "streamOn options st (SinkAnswers answer) = (if ss_sinking st then Some (sinkAnswered answer st) else None)"

fun streamRun :: "stream_options \<Rightarrow> stream_state \<Rightarrow> stream_event list \<Rightarrow> stream_state option" where
  "streamRun options st [] = Some st"
| "streamRun options st (event # events) =
     (case streamOn options st event of None \<Rightarrow> None | Some st' \<Rightarrow> streamRun options st' events)"

text \<open>The call itself, up to its first wait: whether the signal was aborted before, and what writing threw.\<close>

definition deadlineOk :: "int option \<Rightarrow> bool" where
  "deadlineOk deadline = (case deadline of None \<Rightarrow> True | Some ms \<Rightarrow> isSafeInteger ms \<and> 1 \<le> ms)"

definition streamInitial :: stream_state where
  "streamInitial = \<lparr>ss_total = 0, ss_terminal = None, ss_ended = False, ss_pending = [], ss_idleTimer = False,
     ss_totalTimer = False, ss_onAbort = False, ss_onError = True, ss_reading = False, ss_paused = False,
     ss_destroyed = False, ss_handed = [], ss_sinking = False, ss_settled = None\<rparr>"

definition streamPinnedResponseTo ::
    "stream_options \<Rightarrow> bool \<Rightarrow> stream_error option \<Rightarrow> stream_error + stream_state" where
  "streamPinnedResponseTo options aborted writeError =
     (if \<not> isSafeInteger (so_maxBytes options) \<or> so_maxBytes options < 1 then Inl NETWORK_RESPONSE_TOO_LARGE
      else if \<not> deadlineOk (so_idleTimeoutMs options) \<or> \<not> deadlineOk (so_totalTimeoutMs options)
        then Inl NETWORK_TIMEOUT_INVALID
      else if so_signal options \<and> aborted then Inr (fail NETWORK_ABORTED streamInitial)
      else let st1 = resetIdleDeadline options (streamInitial\<lparr>ss_onAbort := so_signal options\<rparr>);
               st2 = st1\<lparr>ss_totalTimer := so_totalTimeoutMs options \<noteq> None, ss_reading := True\<rparr>
           in case writeError of None \<Rightarrow> Inr st2 | Some e \<Rightarrow> Inr (fail e st2))"

section \<open>What holds while a response is read\<close>

definition chunksOf :: "stream_task list \<Rightarrow> nat list list" where
  "chunksOf tasks = concat (map (\<lambda>task. case task of TaskChunk chunk \<Rightarrow> [chunk] | _ \<Rightarrow> []) tasks)"

definition dataOf :: "stream_event list \<Rightarrow> nat list list" where
  "dataOf events = concat (map (\<lambda>event. case event of Data chunk \<Rightarrow> [chunk] | _ \<Rightarrow> []) events)"

definition bytesOf :: "nat list list \<Rightarrow> int" where
  "bytesOf chunks = int (sum_list (map length chunks))"

lemma list_reading [simp]:
  "chunksOf [] = []" "chunksOf (TaskChunk c # ts) = c # chunksOf ts" "chunksOf (TaskFinish # ts) = chunksOf ts"
  "chunksOf (TaskResolve # ts) = chunksOf ts" "chunksOf (TaskReject e # ts) = chunksOf ts"
  "chunksOf (ts @ us) = chunksOf ts @ chunksOf us"
  "dataOf [] = []" "dataOf (es @ fs) = dataOf es @ dataOf fs" "dataOf [Data c] = [c]"
  "bytesOf [] = 0" "bytesOf (c # cs) = int (length c) + bytesOf cs" "bytesOf (cs @ ds) = bytesOf cs + bytesOf ds"
  by (simp_all add: chunksOf_def dataOf_def bytesOf_def)

definition settles :: "stream_error option \<Rightarrow> stream_task" where
  "settles t = (case t of None \<Rightarrow> TaskResolve | Some e \<Rightarrow> TaskReject e)"

definition settledAs :: "stream_error option \<Rightarrow> stream_error + unit" where
  "settledAs t = (case t of None \<Rightarrow> Inr () | Some e \<Rightarrow> Inl e)"

text \<open>A callback that is no settlement, and what waits before and after the one settlement.\<close>

definition plain :: "stream_task list \<Rightarrow> bool" where
  "plain tasks \<longleftrightarrow> list_all (\<lambda>task. case task of TaskChunk _ \<Rightarrow> True | TaskFinish \<Rightarrow> True | _ \<Rightarrow> False) tasks"

definition finishing :: "stream_task list \<Rightarrow> bool" where
  "finishing tasks \<longleftrightarrow> set tasks \<subseteq> {TaskFinish}"

definition settlement :: "stream_state \<Rightarrow> bool" where
  "settlement st \<longleftrightarrow>
     (case ss_terminal st of
        None \<Rightarrow> ss_settled st = None \<and> plain (ss_pending st)
      | Some t \<Rightarrow>
          ss_settled st = None \<and> (\<exists>before after. ss_pending st = before @ settles t # after \<and> plain before \<and> finishing after)
          \<or> ss_settled st = Some (settledAs t) \<and> finishing (ss_pending st) \<and> \<not> ss_sinking st)"

text \<open>
  The invariant of a run, with the events so far: what the sink was given and is to be given is what was read, up to a
  chunk that went over the bound.
\<close>

definition streamOk :: "stream_options \<Rightarrow> stream_event list \<Rightarrow> stream_state \<Rightarrow> bool" where
  "streamOk options events st \<longleftrightarrow>
     settlement st
     \<and> prefix (ss_handed st @ chunksOf (ss_pending st)) (dataOf events)
     \<and> bytesOf (ss_handed st @ chunksOf (ss_pending st)) \<le> so_maxBytes options
     \<and> (ss_terminal st = None \<longrightarrow> ss_total st = bytesOf (dataOf events) \<and> bytesOf (dataOf events) \<le> so_maxBytes options)
     \<and> (ss_terminal st = None \<or> ss_terminal st = Some None \<longrightarrow> ss_handed st @ chunksOf (ss_pending st) = dataOf events)
     \<and> length (chunksOf (ss_pending st)) + of_bool (ss_sinking st) \<le> 1
     \<and> (chunksOf (ss_pending st) \<noteq> [] \<or> ss_sinking st \<longrightarrow> ss_paused st)
     \<and> (ss_ended st \<longleftrightarrow> EndOfData \<in> set events)
     \<and> (TaskFinish \<in> set (ss_pending st) \<or> ss_terminal st = Some None \<longrightarrow> ss_ended st)"

lemma plain_simps [simp]:
  "plain []" "plain (TaskChunk c # ts) = plain ts" "plain (TaskFinish # ts) = plain ts"
  "\<not> plain (TaskResolve # ts)" "\<not> plain (TaskReject e # ts)" "plain (ts @ us) \<longleftrightarrow> plain ts \<and> plain us"
  by (simp_all add: plain_def)

lemma finishing_simps [simp]:
  "finishing []" "finishing (t # ts) \<longleftrightarrow> t = TaskFinish \<and> finishing ts" "finishing (ts @ us) \<longleftrightarrow> finishing ts \<and> finishing us"
  by (auto simp: finishing_def)

lemma finishing_chunks: "finishing ts \<Longrightarrow> chunksOf ts = []"
  by (induction ts) auto

lemma settles_simps [simp]:
  "settles None = TaskResolve" "settles (Some e) = TaskReject e"
  "settledAs None = Inr ()" "settledAs (Some e) = Inl e"
  by (simp_all add: settles_def settledAs_def)

lemma cleanup_simps [simp]:
  "ss_total (cleanup st) = ss_total st" "ss_terminal (cleanup st) = ss_terminal st" "ss_ended (cleanup st) = ss_ended st"
  "ss_pending (cleanup st) = ss_pending st" "ss_paused (cleanup st) = ss_paused st" "ss_handed (cleanup st) = ss_handed st"
  "ss_sinking (cleanup st) = ss_sinking st" "ss_settled (cleanup st) = ss_settled st"
  by (simp_all add: cleanup_def)

lemma settlement_open: "ss_terminal st = None \<Longrightarrow> settlement st \<longleftrightarrow> ss_settled st = None \<and> plain (ss_pending st)"
  by (simp add: settlement_def)

lemma settlement_decided:
  assumes "ss_terminal st = Some t" "ss_settled st = None" "ss_pending st = before @ [settles t]" "plain before"
  shows "settlement st"
  unfolding settlement_def assms(1) option.case
  using assms(2-4) by (intro disjI1 conjI exI [of _ before] exI [of _ "[]"]) simp_all

lemma streamOk_quiet:
  assumes "dataOf [event] = []" "event \<noteq> EndOfData"
  shows "streamOk options (events @ [event]) st = streamOk options events st"
  using assms by (simp add: streamOk_def)

lemma streamOk_fail:
  assumes "streamOk options events st"
  shows "streamOk options events (fail e st)"
proof (cases "ss_terminal st")
  case None
  then have "settlement (fail e st)"
    using assms by (intro settlement_decided [of _ "Some e" "ss_pending st"])
      (simp_all add: streamOk_def settlement_open fail_def Let_def)
  then show ?thesis
    using assms None by (auto simp: streamOk_def fail_def Let_def)
qed (use assms in \<open>simp add: fail_def\<close>)

lemma streamOk_finish:
  assumes "streamOk options events st" "ss_ended st"
  shows "streamOk options events (finish st)"
proof (cases "ss_terminal st")
  case None
  then have "settlement (finish st)"
    using assms by (intro settlement_decided [of _ None "ss_pending st"])
      (simp_all add: streamOk_def settlement_open finish_def Let_def)
  then show ?thesis
    using assms None by (auto simp: streamOk_def finish_def Let_def)
qed (use assms in \<open>simp add: finish_def\<close>)

lemma settlement_append:
  assumes "settlement st" "ss_pending st' = ss_pending st @ [TaskFinish]" "ss_terminal st' = ss_terminal st"
    "ss_settled st' = ss_settled st" "ss_sinking st' = ss_sinking st"
  shows "settlement st'"
  using assms by (fastforce simp: settlement_def split: option.splits)

lemma streamOk_end:
  assumes "streamOk options events st"
  shows "streamOk options (events @ [EndOfData]) (onEnd st)"
proof -
  have "settlement (onEnd st)"
    by (rule settlement_append [of st]) (use assms in \<open>simp_all add: streamOk_def onEnd_def\<close>)
  moreover have "dataOf [EndOfData] = []"
    by (simp add: dataOf_def)
  ultimately show ?thesis
    using assms by (auto simp: streamOk_def onEnd_def)
qed

lemma streamOk_data:
  assumes ok: "streamOk options events st" and enabled: "\<not> ss_paused st" "\<not> ss_ended st"
  shows "streamOk options (events @ [Data c]) (onData options c st)"
proof (cases "ss_terminal st")
  case None
  have same: "ss_pending (resetIdleDeadline options st) = ss_pending st" "ss_handed (resetIdleDeadline options st) = ss_handed st"
    "ss_total (resetIdleDeadline options st) = ss_total st" "ss_terminal (resetIdleDeadline options st) = None"
    "ss_ended (resetIdleDeadline options st) = ss_ended st" "ss_sinking (resetIdleDeadline options st) = ss_sinking st"
    "ss_settled (resetIdleDeadline options st) = ss_settled st" "ss_paused (resetIdleDeadline options st) = ss_paused st"
    using None by (simp_all add: resetIdleDeadline_def)
  have idle: "chunksOf (ss_pending st) = []" "\<not> ss_sinking st"
    using ok enabled(1) by (auto simp: streamOk_def)
  show ?thesis
  proof (cases "ss_total st + int (length c) > so_maxBytes options")
    case True
    have "settlement (onData options c st)"
      using ok None same True
      by (intro settlement_decided [of _ "Some NETWORK_RESPONSE_TOO_LARGE" "ss_pending st"])
        (simp_all add: streamOk_def onData_def Let_def fail_def settlement_open)
    then show ?thesis
      using ok None same idle True by (auto simp: streamOk_def onData_def Let_def fail_def)
  next
    case False
    then show ?thesis
      using ok None same idle by (auto simp: streamOk_def onData_def Let_def settlement_def)
  qed
next
  case (Some t)
  then have "t \<noteq> None"
    using ok enabled(2) by (auto simp: streamOk_def)
  then show ?thesis
    using ok Some by (auto simp: streamOk_def onData_def intro: prefix_order.trans)
qed

lemma streamOk_answer:
  assumes "streamOk options events st" "ss_sinking st"
  shows "streamOk options events (sinkAnswered answer st)"
proof -
  have settled: "settlement (st\<lparr>ss_sinking := False\<rparr>)" "settlement (st\<lparr>ss_sinking := False, ss_paused := False\<rparr>)"
    using assms by (cases "ss_terminal st"; simp add: streamOk_def settlement_def)+
  have none: "chunksOf (ss_pending st) = []"
    using assms by (simp add: streamOk_def)
  have ok: "streamOk options events (st\<lparr>ss_sinking := False\<rparr>)"
    "streamOk options events (st\<lparr>ss_sinking := False, ss_paused := False\<rparr>)"
    using assms settled none by (auto simp: streamOk_def)
  then show ?thesis
    by (auto simp: sinkAnswered_def Let_def streamOk_fail streamOk_finish split: option.split)
qed

lemma settlement_tail:
  assumes ok: "settlement st" "ss_pending st = task # tasks" and "plain [task]" "ss_sinking st' \<longrightarrow> task \<noteq> TaskFinish"
    and st': "ss_pending st' = tasks" "ss_terminal st' = ss_terminal st" "ss_settled st' = ss_settled st"
  shows "settlement st'"
proof (cases "ss_terminal st")
  case None
  then show ?thesis
    using ok st' by (cases task) (simp_all add: settlement_def)
next
  case (Some t)
  then consider before after where "ss_settled st = None" "task # tasks = before @ settles t # after" "plain before" "finishing after"
    | "ss_settled st = Some (settledAs t)" "finishing (task # tasks)"
    using ok by (auto simp: settlement_def)
  then show ?thesis
  proof cases
    case 1
    then obtain rest where "before = task # rest"
      using assms(3) by (cases before; cases t) auto
    then have "tasks = rest @ settles t # after" "plain rest"
      using 1 by (cases task; simp)+
    then show ?thesis
      unfolding settlement_def st' Some option.case using 1 by blast
  next
    case 2
    then show ?thesis
      unfolding settlement_def st' Some option.case using assms(4) by simp
  qed
qed

lemma streamOk_task:
  assumes "streamOk options events st" "\<not> ss_sinking st" "ss_pending st = task # tasks"
  shows "streamOk options events (runTask st)"
proof (cases task)
  case (TaskChunk c)
  have "settlement (runTask st)"
    by (rule settlement_tail [of st task tasks]) (use assms TaskChunk in \<open>simp_all add: streamOk_def runTask_def\<close>)
  then show ?thesis
    using assms TaskChunk by (auto simp: streamOk_def runTask_def)
next
  case TaskFinish
  have "settlement (st\<lparr>ss_pending := tasks\<rparr>)"
    by (rule settlement_tail [of st task tasks]) (use assms TaskFinish in \<open>simp_all add: streamOk_def\<close>)
  then have "streamOk options events (st\<lparr>ss_pending := tasks\<rparr>)" "ss_ended st"
    using assms TaskFinish by (auto simp: streamOk_def)
  then show ?thesis
    using TaskFinish assms(3) streamOk_finish [of options events "st\<lparr>ss_pending := tasks\<rparr>"] by (simp add: runTask_def)
next
  case TaskResolve
  have "settlement (runTask st) \<and> chunksOf tasks = []"
    using assms TaskResolve
    by (auto simp: streamOk_def settlement_def runTask_def Cons_eq_append_conv settles_def finishing_chunks split: option.splits)
  then show ?thesis
    using assms TaskResolve by (auto simp: streamOk_def runTask_def)
next
  case (TaskReject e)
  have "settlement (runTask st) \<and> chunksOf tasks = []"
    using assms TaskReject
    by (auto simp: streamOk_def settlement_def runTask_def Cons_eq_append_conv settles_def finishing_chunks split: option.splits)
  then show ?thesis
    using assms TaskReject by (auto simp: streamOk_def runTask_def)
qed

lemma streamOk_on:
  assumes "streamOk options events st" "streamOn options st event = Some st'"
  shows "streamOk options (events @ [event]) st'"
proof (cases event)
  case (Data c)
  then show ?thesis
    using assms streamOk_data by (auto split: if_splits)
next
  case EndOfData
  then show ?thesis
    using assms streamOk_end by (auto split: if_splits)
next
  case RunTask
  then show ?thesis
    using assms streamOk_quiet [of RunTask] streamOk_task
    by (cases "ss_pending st") (auto simp: dataOf_def split: if_splits)
qed (use assms streamOk_quiet [of event] streamOk_fail streamOk_answer in
      \<open>auto simp: dataOf_def onClose_def split: if_splits\<close>)

lemma streamRun_append:
  "streamRun options st (es @ fs) = Option.bind (streamRun options st es) (\<lambda>st'. streamRun options st' fs)"
  by (induction es arbitrary: st) (auto split: option.split)

lemma streamOk_more:
  assumes "streamOk options past st0" "streamRun options st0 events = Some st"
  shows "streamOk options (past @ events) st"
  using assms(2)
proof (induction events arbitrary: st rule: rev_induct)
  case (snoc event events)
  then obtain mid where "streamRun options st0 events = Some mid" "streamOn options mid event = Some st"
    by (auto simp: streamRun_append bind_eq_Some_conv split: option.splits)
  then show ?case
    using snoc.IH [of mid] streamOk_on [of options "past @ events" mid event] by simp
qed (use assms(1) in simp)

lemma streamOk_start:
  assumes "streamPinnedResponseTo options aborted writeError = Inr st"
  shows "streamOk options [] st"
proof -
  let ?open = "(resetIdleDeadline options (streamInitial\<lparr>ss_onAbort := so_signal options\<rparr>))
      \<lparr>ss_totalTimer := so_totalTimeoutMs options \<noteq> None, ss_reading := True\<rparr>"
  have bound: "1 \<le> so_maxBytes options"
    using assms by (simp add: streamPinnedResponseTo_def split: if_splits)
  then have "streamOk options [] streamInitial" "streamOk options [] ?open"
    by (simp_all add: streamOk_def settlement_def streamInitial_def resetIdleDeadline_def)
  moreover have "st = fail NETWORK_ABORTED streamInitial \<or> st = ?open \<or> (\<exists>e. st = fail e ?open)"
    using assms by (auto simp: streamPinnedResponseTo_def Let_def split: if_splits option.splits)
  ultimately show ?thesis
    using streamOk_fail by metis
qed

text \<open>Once it is decided how the promise settles, it does, when the sink answers the call it is in.\<close>

fun drain :: "stream_task list \<Rightarrow> stream_event list" where
  "drain [] = []"
| "drain (TaskChunk c # tasks) = RunTask # SinkAnswers None # drain tasks"
| "drain (task # tasks) = RunTask # drain tasks"

lemma decided_noop: "ss_terminal st \<noteq> None \<Longrightarrow> finish st = st"
  by (simp add: finish_def)

lemma drain_run:
  assumes "ss_pending st = tasks" "ss_terminal st = Some t" "\<not> ss_sinking st"
  shows "\<exists>st'. streamRun options st (drain tasks) = Some st' \<and> ss_terminal st' = Some t
    \<and> (ss_settled st \<noteq> None \<or> settles t \<in> set tasks \<longrightarrow> ss_settled st' \<noteq> None)"
  using assms
proof (induction tasks arbitrary: st)
  case (Cons task tasks)
  show ?case
  proof (cases task)
    case (TaskChunk c)
    let ?next = "sinkAnswered None (runTask st)"
    have "ss_pending ?next = tasks" "ss_terminal ?next = Some t" "\<not> ss_sinking ?next" "ss_settled ?next = ss_settled st"
      using Cons.prems TaskChunk by (simp_all add: sinkAnswered_def runTask_def decided_noop Let_def)
    moreover have "ss_sinking (runTask st)"
      using Cons.prems TaskChunk by (simp add: runTask_def)
    ultimately show ?thesis
      using Cons.IH [of ?next] Cons.prems TaskChunk by (cases t) (auto simp del: settles_simps simp: settles_def)
  next
    case TaskFinish
    then show ?thesis
      using Cons.IH [of "runTask st"] Cons.prems by (cases t) (auto simp: runTask_def decided_noop)
  next
    case TaskResolve
    then show ?thesis
      using Cons.IH [of "runTask st"] Cons.prems by (auto simp: runTask_def)
  next
    case (TaskReject e)
    then show ?thesis
      using Cons.IH [of "runTask st"] Cons.prems by (auto simp: runTask_def)
  qed
qed simp

lemma settlement_settles:
  assumes "settlement st" "ss_terminal st = Some t"
  shows "ss_settled st \<noteq> None \<or> settles t \<in> set (ss_pending st)" "ss_settled st \<noteq> None \<Longrightarrow> ss_settled st = Some (settledAs t)"
  using assms by (auto simp: settlement_def)

text \<open>The events that are left when nothing more comes from outside: callbacks, and the answer of the sink.\<close>

definition internal :: "stream_event \<Rightarrow> bool" where
  "internal event \<longleftrightarrow> event = RunTask \<or> event = SinkAnswers None"

lemma drain_internal: "list_all internal (drain tasks)"
  by (induction tasks rule: drain.induct) (simp_all add: internal_def)

lemma decided_settles:
  assumes "streamOk options events st" "ss_terminal st = Some t"
  shows "\<exists>more st'. list_all internal more \<and> streamRun options st more = Some st' \<and> ss_settled st' = Some (settledAs t)"
proof -
  define quiet where "quiet = (if ss_sinking st then sinkAnswered None st else st)"
  have start: "streamRun options st (if ss_sinking st then [SinkAnswers None] else []) = Some quiet"
    by (simp add: quiet_def)
  then have ok: "streamOk options (events @ (if ss_sinking st then [SinkAnswers None] else [])) quiet"
    using assms(1) streamOk_on [of options events st "SinkAnswers None"] by (auto simp: quiet_def)
  have quiet: "ss_terminal quiet = Some t" "\<not> ss_sinking quiet"
    using assms(2) by (auto simp: quiet_def sinkAnswered_def Let_def decided_noop)
  obtain st' where st': "streamRun options quiet (drain (ss_pending quiet)) = Some st'" "ss_terminal st' = Some t"
      "ss_settled st' \<noteq> None"
    using drain_run [OF refl quiet, of options] settlement_settles(1) [OF _ quiet(1)] ok by (auto simp: streamOk_def)
  let ?more = "(if ss_sinking st then [SinkAnswers None] else []) @ drain (ss_pending quiet)"
  have run: "streamRun options st ?more = Some st'"
    using start st'(1) by (simp add: streamRun_append)
  have "streamOk options ((events @ (if ss_sinking st then [SinkAnswers None] else [])) @ drain (ss_pending quiet)) st'"
    using ok st'(1) by (rule streamOk_more)
  then have "ss_settled st' = Some (settledAs t)"
    using settlement_settles(2) [OF _ st'(2,3)] by (simp add: streamOk_def)
  moreover have "list_all internal ?more"
    using drain_internal by (simp add: internal_def)
  ultimately show ?thesis
    using run by blast
qed

section \<open>Properties\<close>

text \<open>
  C37. A response is read within its bound and settled once. Whatever the socket, the timers and the signal do, and in
  whatever order, the sink is given what was read, in order and not more than the bound; the promise is fulfilled only
  after the end of the data, when the sink has taken all of it; it is rejected with the first failure; and once it is
  decided, the callbacks that wait settle it so, as soon as the sink answers.
\<close>
theorem responses_are_bounded:
  assumes "streamPinnedResponseTo options aborted writeError = Inr st0" "streamRun options st0 events = Some st"
  shows "bytesOf (ss_handed st) \<le> so_maxBytes options \<and> prefix (ss_handed st) (dataOf events)
    \<and> (ss_settled st = Some (Inr ()) \<longrightarrow> ss_handed st = dataOf events \<and> EndOfData \<in> set events \<and> \<not> ss_sinking st)
    \<and> (\<forall>e. ss_settled st = Some (Inl e) \<longrightarrow> ss_terminal st = Some (Some e))
    \<and> (\<forall>t. ss_terminal st = Some t \<longrightarrow>
         (\<exists>more st'. list_all internal more \<and> streamRun options st more = Some st' \<and> ss_settled st' = Some (settledAs t)))"
proof -
  have ok: "streamOk options events st"
    using streamOk_more [OF streamOk_start [OF assms(1)] assms(2)] by simp
  then have settlement: "settlement st" and whole: "prefix (ss_handed st @ chunksOf (ss_pending st)) (dataOf events)"
    "bytesOf (ss_handed st @ chunksOf (ss_pending st)) \<le> so_maxBytes options"
    by (simp_all add: streamOk_def)
  have "0 \<le> bytesOf (chunksOf (ss_pending st))"
    by (simp add: bytesOf_def)
  then have "bytesOf (ss_handed st) \<le> so_maxBytes options" "prefix (ss_handed st) (dataOf events)"
    using whole by (simp, meson append_prefixD)
  moreover have "ss_handed st = dataOf events \<and> EndOfData \<in> set events \<and> \<not> ss_sinking st" if "ss_settled st = Some (Inr ())"
    using ok that finishing_chunks [of "ss_pending st"]
    by (auto simp: streamOk_def settlement_def settledAs_def split: option.splits)
  moreover have "ss_terminal st = Some (Some e)" if "ss_settled st = Some (Inl e)" for e
    using settlement that by (auto simp: settlement_def settledAs_def split: option.splits)
  ultimately show ?thesis
    using decided_settles [OF ok] by blast
qed

text \<open>Two chunks, the second while the bound is nearly reached, the end, and the callbacks between.\<close>

theorem responses_are_bounded_witness:
  "\<exists>st0 st. streamPinnedResponseTo \<lparr>so_maxBytes = 3, so_signal = True, so_idleTimeoutMs = Some 5, so_totalTimeoutMs = None\<rparr>
       False None = Inr st0
     \<and> streamRun \<lparr>so_maxBytes = 3, so_signal = True, so_idleTimeoutMs = Some 5, so_totalTimeoutMs = None\<rparr> st0
         [Data [1, 2], RunTask, SinkAnswers None, Data [3], RunTask, SinkAnswers None, EndOfData, RunTask, RunTask] = Some st
     \<and> ss_settled st = Some (Inr ()) \<and> ss_handed st = [[1, 2], [3]]"
proof -
  let ?options = "\<lparr>so_maxBytes = 3, so_signal = True, so_idleTimeoutMs = Some 5, so_totalTimeoutMs = None\<rparr>"
  let ?events = "[Data [1, 2], RunTask, SinkAnswers None, Data [3], RunTask, SinkAnswers None, EndOfData, RunTask, RunTask]"
  obtain st0 where st0: "streamPinnedResponseTo ?options False None = Inr st0"
    "map_option ss_settled (streamRun ?options st0 ?events) = Some (Some (Inr ()))"
  proof -
    have "(case streamPinnedResponseTo ?options False None of Inl _ \<Rightarrow> False
        | Inr st0 \<Rightarrow> map_option ss_settled (streamRun ?options st0 ?events) = Some (Some (Inr ())))"
      by code_simp
    then show ?thesis
      using that by (auto split: sum.splits)
  qed
  then obtain st where st: "streamRun ?options st0 ?events = Some st" "ss_settled st = Some (Inr ())"
    by auto
  moreover have "dataOf ?events = [[1, 2], [3]]"
    by (simp add: dataOf_def)
  ultimately show ?thesis
    using st0(1) responses_are_bounded [OF st0(1) st(1)] by auto
qed

end
