(* ===== verification/Spec2Isabelle.thy ===== *)
theory Spec2Isabelle
  imports ApprovalExamples SendLedger TakeProperties EventPointer EventPunycode FlowProperties NetConnection NetStream
begin

text \<open>
  A verification of the core of agent-communications: the approval engine, which lets an agent send, change, save or
  disclose only what a person or a policy approved; of takes, by which sessions that work side by side hold a message each,
  and of the send ledger; of the pure parts of the event library that rules and workflows
  stand on; and of the network layer of the event daemon, which decides where it may connect.

  \<^bold>\<open>Values.\<close> A TypeScript string is a list of UTF-16 code units (\<open>Prelude\<close>: \<open>jstr\<close>), \<open>js ''abc''\<close> a literal; a number
  is an \<open>int\<close> or a \<open>nat\<close>, with the bounds the code checks written out; an optional member is an option, a thrown
  error the left side of a sum; an object with named members is a record, one used as a dictionary an association
  list or a map. \<open>Json\<close> has JSON values and \<open>canonicalJson\<close> (\<open>packages/core/src/digest.ts\<close>). SHA-256, the Unicode
  tables of the host and its clock are members of a record \<open>runtime\<close> (\<open>Runtime\<close>), arguments of what uses them.

  \<^bold>\<open>The approval engine\<close> (\<open>packages/core/src\<close>). An approval is a record kept in a file by its id. An operation reads
  the file, asks the validator, derives what has passed since (a window, a lease), asks the live configuration, decides,
  and writes the record back under a lock; a claim also creates a marker file, exclusively, and that is what makes it
  the only one.
  \<^item> \<open>Errors\<close> (errors.ts): the registry of error codes.
  \<^item> \<open>ApprovalTypes\<close>, \<open>ApprovalBinding\<close> (approvals.ts, approval-binding.ts): the record with its states and kinds,
    and what each kind is bound to.
  \<^item> \<open>Patterns\<close> (ids.ts, chars.ts): identifiers, stamps and characters.
  \<^item> \<open>Standing\<close> (standing.ts, standing-emoji.ts): the contents, places and limits of a standing approval, and what a
    narrowing leaves of them.
  \<^item> \<open>ApprovalValidate\<close> (approval-validate.ts, approval-stored.ts): the validator, check by check in its order.
  \<^item> \<open>ConfigPolicy\<close>, \<open>SendEpochs\<close> (config.ts, send-epoch.ts): policies, and the epochs that every write of the
    configuration owes.
  \<^item> \<open>ApprovalOutcome\<close> (approval-outcome.ts): what a record is worth under the live configuration, to each action.
  \<^item> \<open>ApprovalStore\<close> (approvals.ts): files and markers, the derived state, one locked transition, the creations.
  \<^item> \<open>ApprovalActions\<close> (approvals.ts): every action as a decision on the record its transition opened, and the action
    itself: challenge, approve, answer, claim, renew, complete, revoke, narrow.
  The lemmas of the engine are in layers. \<open>ApprovalValidity\<close>, \<open>ApprovalTransition\<close>, \<open>ApprovalDecisions\<close>,
  \<open>ApprovalCreation\<close> and \<open>ApprovalDisclosure\<close> show that each operation keeps a valid record valid; \<open>ApprovalInvariant\<close>
  what validity says of a record; \<open>ApprovalSystem\<close> puts every operation into one step relation with its locales, and
  \<open>ApprovalMoves\<close> the relations a run keeps (which state follows which, who approves). \<open>StandingUse\<close> has
  when a standing approval covers a use of it. \<open>ApprovalClaims\<close>, \<open>ApprovalLife\<close>, \<open>ApprovalSends\<close>, \<open>ApprovalCodes\<close> and \<open>ApprovalOutcomes\<close> hold the properties, and
  \<open>ApprovalSamples\<close> and \<open>ApprovalExamples\<close> the records their witnesses are evaluated on.

  \<^bold>\<open>Takes\<close> (\<open>packages/core/src/takes.ts\<close>). A take is a record in a file named by the hash of the message key: who has the
  message, or for whom it is offered, with its last act and its history. A lapse is worked out when a record is read.
  \<^item> \<open>IsoTime\<close>: the calendar of ECMAScript, \<open>toISOString\<close> and \<open>Date.parse\<close>, and that the first reads back in the second
    for the moments of years with four digits.
  \<^item> \<open>TakeRecords\<close>: the vocabulary, the record, and its readers and writers over JSON values; \<open>TakeReadBack\<close> that the
    records that read back are the well-formed ones.
  \<^item> \<open>TakeSessions\<close> (takes.ts, cli-runtime.ts, mcp-marker.ts): who a caller is, which session is the same as which, what
    an agent sees of a take, and why it is refused.
  \<^item> \<open>TakeStore\<close>: files, lapses (\<open>settleRecord\<close> is \<open>#settle\<close>) and one locked change (\<open>updateTake\<close> is \<open>#update\<close>).
  \<^item> \<open>TakeActs\<close>: every operation, each as its decision on the settled record and the change it makes with that:
    \<open>takeMessage\<close> (\<open>take\<close>), \<open>handBack\<close>, \<open>finishTake\<close>, \<open>gate\<close>, \<open>refuseHeldElsewhere\<close>, the reads and lists, \<open>releaseTake\<close>,
    \<open>giveTake\<close>, \<open>keepTake\<close>, \<open>offerTake\<close>, \<open>handOffer\<close>, \<open>lapseOffer\<close>, \<open>lapseTakes\<close>, \<open>pruneTakes\<close>.
  \<open>TakeCells\<close> refines a change of the files to a change of one cell, and states in the locale \<open>take_decision\<close> what a
  decision owes the store, interpreted on each of them; \<open>TakeRuns\<close> has runs of acts, \<open>TakeSafety\<close> that they keep every
  record well formed, \<open>TakeHeld\<close> that they leave a held message alone, \<open>TakeViews\<close> what is seen and what has lapsed,
  and \<open>TakeProperties\<close> the properties.
  \<^item> \<open>SendLedger\<close> (ledger.ts): reservations of sends against the caps of an inbox, with each read of the clock.

  \<^bold>\<open>The event library\<close> (\<open>packages/events/src\<close>).
  \<^item> \<open>EventText\<close> (text.ts, unicode/codepoints.ts, wire/percent.ts): code points, UTF-8 and its order, percent encoding;
    the loops over an index are shown to walk \<open>codePoints\<close>, the encoder to be UTF-8, the order that of the bytes.
  \<^item> \<open>EventPointer\<close> (pointer.ts, pattern.ts): JSON pointers read back what is written, and patterns expand to exactly
    the pointers that match.
  \<^item> \<open>EventPunycode\<close> (idna/punycode.ts): Punycode both ways, and that a label of at most 63 code points comes back. That
    length is the bound of a label, and keeps every number well below \<open>2\<^sup>31 - 1\<close>.
  \<^item> \<open>FlowGraph\<close> (flow/types.ts, flow/graph.ts): the steps of a workflow and the searches over its arrows;
    \<open>FlowSearch\<close> and \<open>FlowOrder\<close> show the searches right, \<open>FlowProperties\<close> what follows.

  \<^bold>\<open>The network of the event daemon\<close> (\<open>packages/events-daemon/src/network\<close>).
  \<^item> \<open>NetAddress\<close> (address-policy.ts, iana-special-purpose.ts): literals, prefixes, the registry, and the policy, which
    recurses into the addresses that an address carries. \<open>NetText\<close> shows that what is written reads back, and the one
    text that does not; \<open>NetPolicy\<close> that a prefix is a range, and what an accepted address is not.
  \<^item> \<open>NetConnection\<close> (pinned-connection.ts, resolver.ts, local-endpoint.ts): a connection is prepared by resolving once,
    vetting every answer and choosing one literal; then the bytes of a request, whose headers the code takes as they
    are given: that a server reads it as meant is shown of printable ASCII, and what a line end in a value does.
  \<^item> \<open>NetStream\<close> (pinned-connection.ts): the listeners, timers and promise of one response as functions on a record,
    run by any sequence of events.

  \<^bold>\<open>Bounds and termination.\<close> No definition uses fuel. The loops over text end by what is left of it, the searches by
  the steps not met yet and then by their stack, which is their termination proof. A code is guessed at most three
  times (\<open>MAX_CHALLENGE_ATTEMPTS\<close>), a lease is two minutes (\<open>SENDING_LEASE_MS\<close>).

  \<^bold>\<open>What the theorems assume.\<close> A run of the engine is any sequence of operations with any arguments, markers and
  configurations; theorems about valid records assume of each operation that it is called as the callers call it
  (\<open>opOk\<close>: arguments the entry points check) and that the clock does not move between the reads one operation
  makes of it, while it may go either way from one operation to the next. One kind of record does not stay valid then:
  a disclosure still waiting, or approved and not used, when the clock is seen before its times
  (\<open>ApprovalTransition.rolledBack\<close>, \<open>ApprovalExamples.disclosure_rolled_back\<close>). A file is a typed record: text that is not JSON or has another shape is what \<open>decodeStored\<close> refuses
  before the model begins. SHA-256 is any function that gives 64 hexadecimal digits; no theorem needs it to be
  collision-free, as each speaks of digests where the code compares digests.
  Of takes, an operation is one step and reads the clock once, though the code reads it again while it settles; what the
  store is given - whether an approval waits, whether a process runs, how long an offer waits - is an environment,
  another one for each act. A locale's order of texts is a parameter. A time in the ledger has the form it is written in.

  \<^bold>\<open>Not modelled.\<close> File and lock primitives (a locked section is one step), directory listings and retention; the
  words of messages and hints; parsing and migration of configuration files; plans, audit, secrets, search, command lines and MCP
  servers; how activity.ts works out the session of a process, the daily trigger of the pruning of takes, and the envelope
  in which a person is shown a note; the channel adapters; the rest of the event daemon, with its SQLite store and its
  sockets; the parser of URLs and the resolver, which are parameters; the desktop application. Of the event library the schema
  descriptions, conditions, mapping, the checks of a raw flow document and its text form are not modelled.
\<close>

end
